(* ===== verification/Prelude.thy ===== *)
theory Prelude
  imports Main "HOL-Library.Word" "HOL-Library.Char_ord" "HOL-Library.List_Lexorder"
    "HOL-Library.Monad_Syntax"
begin

text \<open>
  Shared vocabulary of the development.

  \<^item> A C \<open>char\<close> or \<open>unsigned char\<close> is a HOL \<open>char\<close> (eight bits), a buffer or a
    \<open>std::string\<close> is a list of them; \<open>UINT32\<close> (include/macro.h) is a \<open>32 word\<close>.
  \<^item> A pointer is a natural number, \<open>NULL\<close> is 0.
  \<^item> A result of type \<open>'a option\<close> is \<open>None\<close> where the C++ program leaves defined
    behaviour (a read or write outside an allocation, a failed allocation).
  \<^item> \<open>std::map\<close> is a strictly sorted association list (\<open>om_find\<close>, \<open>om_set\<close> for
    \<open>m[k] = v\<close>, \<open>om_insert\<close>, \<open>om_erase\<close>), so that iteration goes in key order.
  The theory also holds the C library functions the code calls on strings (\<open>strncpy\<close>,
  \<open>snprintf\<close>, decimal printing) and little-endian access to 32-bit integers.
\<close>

unbundle bit_operations_syntax

section \<open>Collections of facts\<close>

named_theorems om_simps "lookup and well-formedness of ordered maps"
named_theorems mem_simps "reading and writing little-endian integers and C strings"
named_theorems frame_simps "which parts of the state an operation leaves alone"

section \<open>Types\<close>

type_synonym bytes = "char list"
type_synonym ptr = nat
type_synonym u32 = "32 word"

abbreviation NUL :: char where "NUL \<equiv> CHR 0x00"

abbreviation byte_val :: "char \<Rightarrow> nat" where "byte_val c \<equiv> of_char c"

lemma length_4_cases: "length xs = 4 \<Longrightarrow> \<exists>a b c d. xs = [a, b, c, d]"
  by (auto simp: length_Suc_conv numeral_eq_Suc)

section \<open>Codecs: the contract of an encoder and its decoder\<close>

locale codec =
  fixes enc :: "'a \<Rightarrow> 'b" and dec :: "'b \<Rightarrow> 'a" and ok :: "'a \<Rightarrow> bool"
  assumes dec_enc: "ok x \<Longrightarrow> dec (enc x) = x"
begin

lemma enc_inject:
  assumes "ok x" "ok y" "enc x = enc y"
  shows "x = y"
  using assms dec_enc by metis

lemma dec_inverse_on_range:
  assumes "\<And>b. b \<in> B \<Longrightarrow> \<exists>x. ok x \<and> enc x = b" "b \<in> B"
  shows "enc (dec b) = b"
  using assms dec_enc by metis

end

section \<open>Little-endian 32-bit integers in memory\<close>

definition enc32 :: "u32 \<Rightarrow> bytes" where
  "enc32 w = [char_of (unat w), char_of (unat (drop_bit 8 w)),
              char_of (unat (drop_bit 16 w)), char_of (unat (drop_bit 24 w))]"

fun dec32 :: "bytes \<Rightarrow> u32" where
  "dec32 (a # b # c # d # _) =
     of_nat (byte_val a + 256 * byte_val b + 65536 * byte_val c + 16777216 * byte_val d)"
| "dec32 _ = 0"

lemma length_enc32 [simp]: "length (enc32 w) = 4"
  by (simp add: enc32_def)

lemma bytes_of_nat32:
  fixes n :: nat
  shows "n mod 256 + 256 * (n div 256 mod 256) + 65536 * (n div 65536 mod 256)
    + 16777216 * (n div 16777216) = n"
proof -
  have d: "n div 65536 = n div 256 div 256" "n div 16777216 = n div 256 div 256 div 256"
    by (simp_all add: div_mult2_eq [symmetric])
  have m: "m = m mod 256 + 256 * (m div 256)" for m :: nat by simp
  show ?thesis
    unfolding d using m [of n] m [of "n div 256"] m [of "n div 256 div 256"] by linarith
qed

lemma unat32_less [simp]: "unat (w :: u32) < 4294967296"
  using unsigned_less [of w] by simp

lemma dec32_enc32 [simp]: "dec32 (enc32 w @ xs) = w"
proof -
  have "unat w div 16777216 < 256"
    using unat32_less [of w] by (simp add: less_mult_imp_div_less)
  then have "unat w div 16777216 mod 256 = unat w div 16777216" by simp
  with bytes_of_nat32 [of "unat w"] show ?thesis
    by (simp add: enc32_def unat_drop_bit_eq drop_bit_eq_div [where 'a = nat] of_char_of
        del: of_nat_add of_nat_mult)
qed

lemma dec32_enc32_Nil [simp]: "dec32 (enc32 w) = w"
  using dec32_enc32 [of w "[]"] by simp

interpretation le32: codec enc32 dec32 "\<lambda>_. True"
  by unfold_locales simp

lemma dec32_take4 [simp]: "4 \<le> length xs \<Longrightarrow> dec32 (take 4 xs) = dec32 xs"
  by (cases xs rule: dec32.cases) auto

lemma dec32_append: "4 \<le> length xs \<Longrightarrow> dec32 (xs @ ys) = dec32 xs"
  by (cases xs rule: dec32.cases) auto

definition rd_bytes :: "bytes \<Rightarrow> nat \<Rightarrow> nat \<Rightarrow> bytes option" where
  "rd_bytes mem off n = (if off + n \<le> length mem then Some (take n (drop off mem)) else None)"

definition rd32 :: "bytes \<Rightarrow> nat \<Rightarrow> u32 option" where
  "rd32 mem off = map_option dec32 (rd_bytes mem off 4)"

lemma rd_bytes_Some [mem_simps]: "off + n \<le> length mem \<Longrightarrow> rd_bytes mem off n = Some (take n (drop off mem))"
  by (simp add: rd_bytes_def)

lemma rd_bytes_None [mem_simps]: "length mem < off + n \<Longrightarrow> rd_bytes mem off n = None"
  by (simp add: rd_bytes_def)

lemma length_rd_bytes: "rd_bytes mem off n = Some bs \<Longrightarrow> length bs = n"
  by (auto simp: rd_bytes_def split: if_splits)

lemma rd32_Some [mem_simps]: "off + 4 \<le> length mem \<Longrightarrow> rd32 mem off = Some (dec32 (drop off mem))"
  by (simp add: rd32_def rd_bytes_def)

lemma rd32_None [mem_simps]: "length mem < off + 4 \<Longrightarrow> rd32 mem off = None"
  by (simp add: rd32_def rd_bytes_def)

section \<open>C strings\<close>

text \<open>\<open>c_str\<close> is what a \<open>const char *\<close> reader sees of a \<open>std::string\<close>: its bytes up to
  the first NUL.\<close>

definition c_str :: "bytes \<Rightarrow> bytes" where
  "c_str s = takeWhile (\<lambda>c. c \<noteq> NUL) s"

definition pad_to :: "nat \<Rightarrow> bytes \<Rightarrow> bytes" where
  "pad_to n s = (let t = take n (c_str s) in t @ replicate (n - length t) NUL)"

text \<open>\<open>strncpy(dst, src, n)\<close>: reads \<open>src\<close> up to its NUL or \<open>n\<close> bytes and pads with NULs.
  There is no NUL in the result when the source has none among its first \<open>n\<close> bytes.\<close>

definition strncpy :: "nat \<Rightarrow> bytes \<Rightarrow> bytes option" where
  "strncpy n src = (if NUL \<in> set (take n src) \<or> n \<le> length src then Some (pad_to n src) else None)"

text \<open>\<open>std::string(const char *)\<close> on a \<open>char\<close> array: reads up to a NUL, past the array's end
  if it has none.\<close>

definition string_at :: "bytes \<Rightarrow> bytes option" where
  "string_at mem = (if NUL \<in> set mem then Some (c_str mem) else None)"

definition snprintf :: "nat \<Rightarrow> bytes \<Rightarrow> bytes" where
  "snprintf n s = take (n - 1) s"

lemma c_str_id [simp]: "NUL \<notin> set s \<Longrightarrow> c_str s = s"
  by (auto simp: c_str_def takeWhile_eq_all_conv)

lemma NUL_notin_c_str [simp]: "NUL \<notin> set (c_str s)"
  by (auto simp: c_str_def dest: set_takeWhileD)

lemma c_str_NUL [simp]: "c_str (NUL # xs) = []" "c_str [] = []"
  by (simp_all add: c_str_def)

lemma c_str_append_NUL: "NUL \<notin> set s \<Longrightarrow> c_str (s @ NUL # xs) = s"
  by (simp add: c_str_def takeWhile_append)

lemma length_pad_to [simp]: "length (pad_to n s) = n"
  by (simp add: pad_to_def Let_def)

lemma pad_to_short: "NUL \<notin> set s \<Longrightarrow> length s \<le> n \<Longrightarrow> pad_to n s = s @ replicate (n - length s) NUL"
  by (simp add: pad_to_def Let_def)

lemma pad_to_long: "NUL \<notin> set s \<Longrightarrow> n \<le> length s \<Longrightarrow> pad_to n s = take n s"
  by (simp add: pad_to_def Let_def)

lemma c_str_pad_to: "NUL \<notin> set s \<Longrightarrow> c_str (pad_to n s @ xs) = (if length s < n then s else take n s @ c_str xs)"
proof (cases "length s < n")
  case True
  assume s: "NUL \<notin> set s"
  then obtain m where "n - length s = Suc m" using True by (metis Suc_diff_Suc)
  with True s show ?thesis by (simp add: pad_to_short c_str_append_NUL)
next
  case False
  assume s: "NUL \<notin> set s"
  then have t: "NUL \<notin> set (take n s)" by (meson in_set_takeD)
  with False s show ?thesis
    by (simp add: pad_to_long c_str_def takeWhile_append takeWhile_eq_all_conv)
qed

lemma length_snprintf: "0 < n \<Longrightarrow> length (snprintf n s) < n"
  by (simp add: snprintf_def)

lemma snprintf_fits: "length s < n \<Longrightarrow> snprintf n s = s"
  by (simp add: snprintf_def)

section \<open>Decimal numbers\<close>

definition digit :: "nat \<Rightarrow> char" where
  "digit d = char_of (48 + d)"

fun show_nat :: "nat \<Rightarrow> bytes" where
  "show_nat n = (if n < 10 then [digit n] else show_nat (n div 10) @ [digit (n mod 10)])"

declare show_nat.simps [simp del]

definition show_int :: "int \<Rightarrow> bytes" where
  "show_int i = (if i < 0 then CHR ''-'' # show_nat (nat (- i)) else show_nat (nat i))"

definition val_nat :: "bytes \<Rightarrow> nat" where
  "val_nat ds = foldl (\<lambda>a c. 10 * a + (byte_val c - 48)) 0 ds"

lemma val_nat_show_nat [simp]: "val_nat (show_nat n) = n"
proof (induction n rule: show_nat.induct)
  case (1 n)
  then show ?case
    by (subst show_nat.simps) (auto simp: val_nat_def digit_def of_char_of)
qed

interpretation dec_nat: codec show_nat val_nat "\<lambda>_. True"
  by unfold_locales simp

lemma show_nat_digits: "c \<in> set (show_nat n) \<Longrightarrow> 48 \<le> byte_val c \<and> byte_val c < 58"
proof (induction n rule: show_nat.induct)
  case (1 n)
  then show ?case
    by (subst (asm) (2) show_nat.simps) (auto simp: digit_def of_char_of split: if_splits)
qed

lemma show_nat_nonempty [simp]: "show_nat n \<noteq> []"
  by (subst show_nat.simps) simp

text \<open>\<open>isspace\<close> and \<open>atoi\<close>; a number that is no \<open>int\<close> leaves the language.\<close>

definition is_space :: "char \<Rightarrow> bool" where
  "is_space c \<longleftrightarrow> byte_val c = 32 \<or> 9 \<le> byte_val c \<and> byte_val c \<le> 13"

definition atoi :: "bytes \<Rightarrow> int option" where
  "atoi s =
     (let t = dropWhile is_space (c_str s);
          neg = (t \<noteq> [] \<and> hd t = CHR ''-'');
          u = (if t \<noteq> [] \<and> (hd t = CHR ''-'' \<or> hd t = CHR ''+'') then tl t else t);
          n = int (val_nat (takeWhile (\<lambda>c. 48 \<le> byte_val c \<and> byte_val c < 58) u));
          v = (if neg then - n else n)
      in if - (2 ^ 31) \<le> v \<and> v < 2 ^ 31 then Some v else None)"

section \<open>Ordered maps\<close>

text \<open>What the code relies on of \<open>std::map\<close>: lookups after each update, and that
  well-formedness (strictly increasing keys) is kept.\<close>

locale std_map =
  fixes find :: "'k \<Rightarrow> 'm \<Rightarrow> 'v option"
    and set_at :: "'k \<Rightarrow> 'v \<Rightarrow> 'm \<Rightarrow> 'm"
    and ins :: "'k \<Rightarrow> 'v \<Rightarrow> 'm \<Rightarrow> 'm"
    and erase :: "'k \<Rightarrow> 'm \<Rightarrow> 'm"
    and wf :: "'m \<Rightarrow> bool"
  assumes find_set: "find j (set_at k v m) = (if j = k then Some v else find j m)"
    and find_ins: "find j (ins k v m) = (if j = k \<and> find k m = None then Some v else find j m)"
    and find_erase: "find j (erase k m) = (if j = k then None else find j m)"
    and wf_set: "wf m \<Longrightarrow> wf (set_at k v m)"
    and wf_ins: "wf m \<Longrightarrow> wf (ins k v m)"
    and wf_erase: "wf m \<Longrightarrow> wf (erase k m)"
begin

definition keys :: "'m \<Rightarrow> 'k set" where
  "keys m = {k. find k m \<noteq> None}"

lemma in_keys: "k \<in> keys m \<longleftrightarrow> (\<exists>v. find k m = Some v)"
  by (auto simp: keys_def)

lemma keys_set: "keys (set_at k v m) = insert k (keys m)"
  by (auto simp: keys_def find_set)

lemma keys_ins: "keys (ins k v m) = insert k (keys m)"
  by (auto simp: keys_def find_ins)

lemma keys_erase: "keys (erase k m) = keys m - {k}"
  by (auto simp: keys_def find_erase)

text \<open>Erasing before inserting makes \<open>insert\<close> store the new value
  (\<open>CHostAddressMap::SetHostAddress\<close>), without it the old value stays
  (\<open>CTCPServiceManage::SaveLinkAndCallBack\<close>).\<close>

lemma find_ins_after_erase: "find k (ins k v (erase k m)) = Some v"
  by (simp add: find_ins find_erase)

lemma find_ins_keeps: "find k m = Some u \<Longrightarrow> find k (ins k v m) = Some u"
  by (simp add: find_ins)

end

fun om_set :: "'k::linorder \<Rightarrow> 'v \<Rightarrow> ('k \<times> 'v) list \<Rightarrow> ('k \<times> 'v) list" where
  "om_set k v [] = [(k, v)]"
| "om_set k v ((k', v') # m) =
     (if k < k' then (k, v) # (k', v') # m
      else if k = k' then (k, v) # m
      else (k', v') # om_set k v m)"

definition om_find :: "'k \<Rightarrow> ('k \<times> 'v) list \<Rightarrow> 'v option" where
  "om_find k m = map_of m k"

definition om_insert :: "'k::linorder \<Rightarrow> 'v \<Rightarrow> ('k \<times> 'v) list \<Rightarrow> ('k \<times> 'v) list" where
  "om_insert k v m = (if om_find k m = None then om_set k v m else m)"

definition om_erase :: "'k \<Rightarrow> ('k \<times> 'v) list \<Rightarrow> ('k \<times> 'v) list" where
  "om_erase k m = filter (\<lambda>e. fst e \<noteq> k) m"

definition om_wf :: "('k::linorder \<times> 'v) list \<Rightarrow> bool" where
  "om_wf m = sorted_wrt (<) (map fst m)"

lemma om_find_simps [simp]:
  "om_find k [] = None"
  "om_find k ((j, v) # m) = (if j = k then Some v else om_find k m)"
  by (auto simp: om_find_def)

lemma om_find_set [om_simps]: "om_find j (om_set k v m) = (if j = k then Some v else om_find j m)"
  by (induction k v m rule: om_set.induct) auto

lemma set_om_set: "set (map fst (om_set k v m)) = insert k (set (map fst m))"
  by (induction k v m rule: om_set.induct) auto

lemma om_wf_set [om_simps]: "om_wf m \<Longrightarrow> om_wf (om_set k v m)"
proof (induction k v m rule: om_set.induct)
  case (2 k v k' v' m)
  then have "\<forall>x \<in> set (map fst (om_set k v m)). k' < x" if "k' < k"
    using that unfolding set_om_set by (auto simp: om_wf_def)
  with 2 show ?case by (fastforce simp: om_wf_def)
qed (simp add: om_wf_def)

lemma om_find_erase [om_simps]: "om_find j (om_erase k m) = (if j = k then None else om_find j m)"
  by (induction m) (auto simp: om_erase_def)

lemma om_wf_filter [om_simps]: "om_wf m \<Longrightarrow> om_wf (filter P m)"
  by (induction m) (auto simp: om_wf_def)

lemma om_wf_erase: "om_wf m \<Longrightarrow> om_wf (om_erase k m)"
  by (simp add: om_erase_def om_wf_filter)

interpretation om: std_map om_find om_set om_insert om_erase om_wf
  by unfold_locales (auto simp: om_find_set om_insert_def om_find_erase om_wf_set om_wf_erase)

lemmas om_lookup = om.find_set om.find_ins om.find_erase om.find_ins_after_erase om.find_ins_keeps
lemmas om_wf_rules [simp, intro] = om.wf_set om.wf_ins om.wf_erase om_wf_filter

lemma om_wf_Nil [simp]: "om_wf []"
  by (simp add: om_wf_def)

lemma om_wf_distinct: "om_wf m \<Longrightarrow> distinct (map fst m)"
  unfolding om_wf_def by (simp add: strict_sorted_iff)

lemma om_find_in: "om_find k m = Some v \<Longrightarrow> (k, v) \<in> set m"
  by (simp add: om_find_def map_of_SomeD)

lemma om_find_iff: "om_wf m \<Longrightarrow> om_find k m = Some v \<longleftrightarrow> (k, v) \<in> set m"
  by (simp add: om_find_def om_wf_distinct)

lemma om_find_None: "om_find k m = None \<longleftrightarrow> k \<notin> fst ` set m"
  by (simp add: om_find_def map_of_eq_None_iff)

lemma om_find_filter: "om_wf m \<Longrightarrow>
  om_find k (filter P m) = (case om_find k m of Some v \<Rightarrow> if P (k, v) then Some v else None | None \<Rightarrow> None)"
proof (induction m)
  case (Cons e m)
  then have "om_wf m" "\<forall>x \<in> fst ` set m. fst e < x" by (auto simp: om_wf_def)
  moreover from this have "k = fst e \<Longrightarrow> om_find k m = None" by (auto simp: om_find_None)
  ultimately show ?case using Cons.IH by (cases e) (auto split: option.splits)
qed simp

end
