(* ===== verification/Smart_Buffer.thy ===== *)
theory Smart_Buffer
  imports Prelude
begin

text \<open>
  \<open>CSmartBuffer\<close> (include/XML/tinyxml.h, tinyXml/src/tinyxml.cpp): the growing byte buffer in
  which \<open>CProtocolParser\<close> collects what a connection has received. The record keeps the
  whole allocation, so that what lies behind \<open>data_size\<close> (bytes of older packets, zeroed
  slack) is part of the model; the abstraction \<open>sb_contents\<close> forgets it. \<open>size_t\<close> values
  are naturals, but the size of a new allocation goes through an \<open>int\<close> as in the code.
\<close>

record smart_buffer =
  step_size :: nat
  allocated_size :: nat
  data_size :: nat
  sb_buffer :: bytes

section \<open>Operations\<close>

definition sb_new_step :: "nat \<Rightarrow> smart_buffer" where
  "sb_new_step step = \<lparr>step_size = step, allocated_size = 0, data_size = 0, sb_buffer = []\<rparr>"

definition sb_new :: "nat \<Rightarrow> nat \<Rightarrow> smart_buffer" where
  "sb_new allocated step =
     \<lparr>step_size = step, allocated_size = allocated, data_size = 0,
      sb_buffer = replicate allocated NUL\<rparr>"

definition sb_copy :: "smart_buffer \<Rightarrow> smart_buffer" where
  "sb_copy b = b\<lparr>sb_buffer := take (allocated_size b) (sb_buffer b)\<rparr>"

definition sb_length :: "smart_buffer \<Rightarrow> nat" where
  "sb_length b = data_size b"

definition sb_data :: "smart_buffer \<Rightarrow> bytes" where
  "sb_data b = sb_buffer b"

definition sb_empty :: "smart_buffer \<Rightarrow> smart_buffer" where
  "sb_empty b = b\<lparr>data_size := 0\<rparr>"

definition sb_isEmpty :: "smart_buffer \<Rightarrow> bool" where
  "sb_isEmpty b \<longleftrightarrow> data_size b = 0"

text \<open>\<open>memcpy(buffer + off, src, length src)\<close>, \<open>None\<close> when it would write past the end.\<close>

definition blit :: "bytes \<Rightarrow> nat \<Rightarrow> bytes \<Rightarrow> bytes option" where
  "blit dst off src =
     (if off + length src \<le> length dst
      then Some (take off dst @ src @ drop (off + length src) dst) else None)"

text \<open>The C++ conversion of a \<open>size_t\<close> sum to \<open>int\<close>.\<close>

definition int_of_size :: "nat \<Rightarrow> int" where
  "int_of_size n = sint (of_nat n :: 32 word)"

definition sb_append :: "smart_buffer \<Rightarrow> bytes \<Rightarrow> smart_buffer option" where
  "sb_append b buf =
     (let len = length buf in
      do {
        b' \<leftarrow> (if data_size b + len > allocated_size b
               then (let new_allocated_size = int_of_size (data_size b + len + step_size b) in
                     if new_allocated_size < 0 then None
                     else do {
                       temp \<leftarrow> (if data_size b > 0
                                then blit (replicate (nat new_allocated_size) NUL) 0
                                       (take (data_size b) (sb_buffer b))
                                else Some (replicate (nat new_allocated_size) NUL));
                       Some (b\<lparr>sb_buffer := temp, allocated_size := nat new_allocated_size\<rparr>)
                     })
               else Some b);
        buf' \<leftarrow> blit (sb_buffer b') (data_size b') buf;
        Some (b'\<lparr>sb_buffer := buf', data_size := data_size b' + len\<rparr>)
      })"

definition sb_append_str :: "smart_buffer \<Rightarrow> bytes \<Rightarrow> smart_buffer option" where
  "sb_append_str b str = sb_append b (c_str str)"

definition sb_append_char :: "smart_buffer \<Rightarrow> char \<Rightarrow> smart_buffer option" where
  "sb_append_char b c = sb_append b [c]"

definition sb_append_buffer :: "smart_buffer \<Rightarrow> smart_buffer \<Rightarrow> smart_buffer option" where
  "sb_append_buffer b src = sb_append b (take (sb_length src) (sb_data src))"

definition sb_set_data :: "smart_buffer \<Rightarrow> bytes \<Rightarrow> smart_buffer option" where
  "sb_set_data b buf = sb_append (sb_empty b) buf"

definition sb_truncate :: "smart_buffer \<Rightarrow> nat \<Rightarrow> smart_buffer" where
  "sb_truncate b len =
     (if data_size b \<le> len then b\<lparr>data_size := 0\<rparr>
      else let left = data_size b - len in
        b\<lparr>sb_buffer := take left (drop len (sb_buffer b)) @ drop left (sb_buffer b),
          data_size := left\<rparr>)"

text \<open>\<open>find(char &)\<close>: the loop over \<open>i\<close>; -1 when it runs out.\<close>

fun find_char_from :: "char \<Rightarrow> bytes \<Rightarrow> nat \<Rightarrow> int" where
  "find_char_from v [] i = - 1"
| "find_char_from v (c # cs) i = (if v = c then int i else find_char_from v cs (Suc i))"

definition sb_find_char :: "smart_buffer \<Rightarrow> char \<Rightarrow> int" where
  "sb_find_char b v = find_char_from v (take (data_size b) (sb_buffer b)) 0"

text \<open>\<open>find(data, length, from_index)\<close>: the search loop runs while \<open>i <= search_depth\<close>, tests
  the first byte and then compares the whole pattern.\<close>

function find_from :: "bytes \<Rightarrow> bytes \<Rightarrow> nat \<Rightarrow> int \<Rightarrow> int" where
  "find_from pat buf i depth =
     (if depth < int i then - 1
      else if pat ! 0 \<noteq> buf ! i then find_from pat buf (Suc i) depth
      else if take (length pat) (drop i buf) = pat then int i
      else find_from pat buf (Suc i) depth)"
  by pat_completeness auto
termination
  by (relation "measure (\<lambda>(pat, buf, i, depth). nat (depth + 1 - int i))") auto

declare find_from.simps [simp del]

definition sb_find :: "smart_buffer \<Rightarrow> bytes \<Rightarrow> int \<Rightarrow> int" where
  "sb_find b pat from_index =
     (if length pat = 0 \<or> from_index < 0 \<or> data_size b \<le> nat from_index \<or> data_size b < length pat
      then - 1
      else find_from pat (sb_buffer b) (nat from_index) (int_of_size (data_size b - length pat)))"

definition sb_at :: "smart_buffer \<Rightarrow> int \<Rightarrow> char option" where
  "sb_at b index =
     (if index < 0 \<or> data_size b \<le> nat index then None else Some (sb_buffer b ! nat index))"

definition sb_ends :: "smart_buffer \<Rightarrow> smart_buffer option" where
  "sb_ends b = sb_append b [NUL]"

definition sb_endl :: "smart_buffer \<Rightarrow> smart_buffer option" where
  "sb_endl b = sb_append b [CHR 0x0A]"

section \<open>Well-formed buffers and their abstract contents\<close>

definition sb_wf :: "smart_buffer \<Rightarrow> bool" where
  "sb_wf b \<longleftrightarrow> length (sb_buffer b) = allocated_size b \<and> data_size b \<le> allocated_size b"

definition sb_contents :: "smart_buffer \<Rightarrow> bytes" where
  "sb_contents b = take (data_size b) (sb_buffer b)"

text \<open>An append fits when the size of a new allocation, if one is needed, stays an \<open>int\<close>.\<close>

definition sb_fits :: "smart_buffer \<Rightarrow> nat \<Rightarrow> bool" where
  "sb_fits b len \<longleftrightarrow> data_size b + len \<le> allocated_size b \<or> data_size b + len + step_size b < 2 ^ 31"

lemma int_of_size_small: "n < 2 ^ 31 \<Longrightarrow> int_of_size n = int n"
  by (simp add: int_of_size_def signed_of_nat signed_take_bit_int_eq_self)

lemma length_sb_contents [simp]: "sb_wf b \<Longrightarrow> length (sb_contents b) = data_size b"
  by (simp add: sb_contents_def sb_wf_def)

section \<open>The interface the protocol parser relies on\<close>

locale byte_queue =
  fixes append :: "'b \<Rightarrow> bytes \<Rightarrow> 'b option"
    and truncate :: "'b \<Rightarrow> nat \<Rightarrow> 'b"
    and clear :: "'b \<Rightarrow> 'b"
    and contents :: "'b \<Rightarrow> bytes"
    and wf :: "'b \<Rightarrow> bool"
    and fits :: "'b \<Rightarrow> nat \<Rightarrow> bool"
  assumes append_fits: "wf b \<Longrightarrow> fits b (length xs) \<Longrightarrow> append b xs \<noteq> None"
    and append_contents: "wf b \<Longrightarrow> append b xs = Some b' \<Longrightarrow> wf b' \<and> contents b' = contents b @ xs"
    and truncate_contents: "wf b \<Longrightarrow> wf (truncate b n) \<and> contents (truncate b n) = drop n (contents b)"
    and clear_contents: "wf b \<Longrightarrow> wf (clear b) \<and> contents (clear b) = []"
begin

lemma append_ex:
  assumes "wf b" "fits b (length xs)"
  obtains b' where "append b xs = Some b'" "wf b'" "contents b' = contents b @ xs"
  using assms append_fits append_contents by blast

text \<open>A frame at the front of the contents is consumed by truncating its length.\<close>

lemma truncate_front:
  assumes "wf b" "contents b = f @ rest"
  shows "wf (truncate b (length f)) \<and> contents (truncate b (length f)) = rest"
  using truncate_contents [OF assms(1), of "length f"] assms(2) by simp

lemma append_then_truncate:
  assumes "wf b" "append b xs = Some b'" "n \<le> length (contents b)"
  shows "contents (truncate b' n) = drop n (contents b) @ xs"
  using append_contents [OF assms(1,2)] truncate_contents [of b' n] assms(3) by simp

end

lemma blit_Some: "off + length src \<le> length dst \<Longrightarrow>
  blit dst off src = Some (take off dst @ src @ drop (off + length src) dst)"
  by (simp add: blit_def)

lemma sb_append_room:
  assumes "sb_wf b" "data_size b + length xs \<le> allocated_size b"
  shows "sb_append b xs = Some (b\<lparr>sb_buffer := take (data_size b) (sb_buffer b) @ xs @
      drop (data_size b + length xs) (sb_buffer b), data_size := data_size b + length xs\<rparr>)"
  using assms by (simp add: sb_append_def Let_def blit_Some sb_wf_def)

lemma sb_append_grow:
  assumes "sb_wf b" "allocated_size b < data_size b + length xs"
    and "data_size b + length xs + step_size b < 2 ^ 31"
  shows "sb_append b xs = Some (b\<lparr>sb_buffer := sb_contents b @ xs @ replicate (step_size b) NUL,
      data_size := data_size b + length xs,
      allocated_size := data_size b + length xs + step_size b\<rparr>)"
  using assms unfolding sb_append_def Let_def
  by (cases "data_size b = 0") (simp_all add: int_of_size_small blit_def sb_contents_def sb_wf_def)

lemma sb_append_wf_contents:
  assumes "sb_wf b" "sb_append b xs = Some b'"
  shows "sb_wf b' \<and> sb_contents b' = sb_contents b @ xs \<and> step_size b' = step_size b"
proof (cases "data_size b + length xs \<le> allocated_size b")
  case True
  with assms show ?thesis
    by (auto simp: sb_append_room sb_wf_def sb_contents_def)
next
  case False
  then show ?thesis
    using assms unfolding sb_append_def Let_def
    by (auto simp: blit_def sb_wf_def sb_contents_def split: if_splits)
qed

lemma sb_append_fits: "sb_wf b \<Longrightarrow> sb_fits b (length xs) \<Longrightarrow> sb_append b xs \<noteq> None"
  using sb_append_room [of b xs] sb_append_grow [of b xs] unfolding sb_fits_def
  by (cases "data_size b + length xs \<le> allocated_size b") auto

lemma sb_truncate_wf_contents:
  "sb_wf b \<Longrightarrow> sb_wf (sb_truncate b n) \<and> sb_contents (sb_truncate b n) = drop n (sb_contents b)"
  by (auto simp: sb_truncate_def sb_wf_def sb_contents_def Let_def drop_take)

lemma sb_empty_wf_contents: "sb_wf b \<Longrightarrow> sb_wf (sb_empty b) \<and> sb_contents (sb_empty b) = []"
  by (simp add: sb_empty_def sb_wf_def sb_contents_def)

interpretation sb: byte_queue sb_append sb_truncate sb_empty sb_contents sb_wf sb_fits
  by unfold_locales
    (use sb_append_fits sb_append_wf_contents sb_truncate_wf_contents sb_empty_wf_contents in auto)

lemma sb_new_wf [simp]: "sb_wf (sb_new n step)" "sb_contents (sb_new n step) = []"
  by (simp_all add: sb_new_def sb_wf_def sb_contents_def)

lemma step_size_ops [simp]:
  "step_size (sb_truncate b n) = step_size b" "step_size (sb_empty b) = step_size b"
  by (simp_all add: sb_truncate_def sb_empty_def Let_def)

lemma sb_length_contents: "sb_wf b \<Longrightarrow> sb_length b = length (sb_contents b)"
  by (simp add: sb_length_def)

lemma sb_data_contents: "sb_wf b \<Longrightarrow> \<exists>slack. sb_data b = sb_contents b @ slack"
  unfolding sb_data_def sb_contents_def by (metis append_take_drop_id)

section \<open>Searching\<close>

lemma find_char_from_spec:
  "find_char_from v cs i =
     (if v \<in> set cs then int (i + length (takeWhile (\<lambda>c. c \<noteq> v) cs)) else - 1)"
  by (induction v cs i rule: find_char_from.induct) auto

lemma match_head:
  assumes "pat \<noteq> []" "take (length pat) (drop i buf) = pat"
  shows "pat ! 0 = buf ! i"
proof -
  have "drop i buf \<noteq> []" using assms by auto
  then have "drop i buf ! 0 = buf ! i" by simp
  moreover have "take (length pat) (drop i buf) ! 0 = drop i buf ! 0"
    using assms(1) by simp
  ultimately show ?thesis using assms(2) by simp
qed

lemma find_from_eq:
  assumes "pat \<noteq> []"
  shows "find_from pat buf i depth = int k \<longleftrightarrow>
    i \<le> k \<and> int k \<le> depth \<and> take (length pat) (drop k buf) = pat \<and>
    (\<forall>j. i \<le> j \<and> j < k \<longrightarrow> take (length pat) (drop j buf) \<noteq> pat)"
  using assms
proof (induction pat buf i depth rule: find_from.induct)
  case (1 pat buf i depth)
  show ?case
  proof (cases "depth < int i")
    case True
    then show ?thesis by (subst find_from.simps) auto
  next
    case False
    show ?thesis
    proof (cases "take (length pat) (drop i buf) = pat")
      case True
      with match_head [OF "1.prems" True] \<open>\<not> depth < int i\<close> show ?thesis
        by (subst find_from.simps) (auto simp: nat_less_le)
    next
      case nomatch: False
      have "find_from pat buf i depth = find_from pat buf (Suc i) depth"
        using False nomatch by (subst find_from.simps) auto
      moreover have "find_from pat buf (Suc i) depth = int k \<longleftrightarrow>
          Suc i \<le> k \<and> int k \<le> depth \<and> take (length pat) (drop k buf) = pat \<and>
          (\<forall>j. Suc i \<le> j \<and> j < k \<longrightarrow> take (length pat) (drop j buf) \<noteq> pat)"
        using "1.IH" "1.prems" False nomatch by blast
      ultimately show ?thesis
        using nomatch by (metis Suc_leD le_antisym not_less_eq_eq)
    qed
  qed
qed

lemma take_drop_contents:
  "sb_wf b \<Longrightarrow> n \<le> data_size b - k \<Longrightarrow> take n (drop k (sb_contents b)) = take n (drop k (sb_buffer b))"
  by (simp add: sb_contents_def drop_take min_absorb1)

lemma int_of_size_eq: "int_of_size n = (int n + 2 ^ 31) mod 2 ^ 32 - 2 ^ 31"
  by (simp add: int_of_size_def signed_of_nat signed_take_bit_eq_take_bit_shift take_bit_eq_mod)

lemma int_of_size_large:
  assumes "2 ^ 31 \<le> n"
  shows "int_of_size n \<le> int n - 2 ^ 32"
proof -
  have "(int n + 2 ^ 31) mod 2 ^ 32 = (int n + 2 ^ 31 - 2 ^ 32) mod 2 ^ 32"
    by (metis minus_mod_self2)
  also have "\<dots> \<le> int n + 2 ^ 31 - 2 ^ 32"
    by (rule zmod_le_nonneg_dividend) (use assms in simp)
  finally show ?thesis by (simp add: int_of_size_eq)
qed

lemma sb_append_overflow:
  assumes "sb_wf b" "step_size b < 2 ^ 31" "\<not> sb_fits b (length xs)"
  shows "sb_append b xs = None"
proof -
  let ?n = "data_size b + length xs + step_size b"
  have big: "2 ^ 31 \<le> ?n" "allocated_size b < data_size b + length xs"
    using assms(3) by (auto simp: sb_fits_def)
  have "nat (int_of_size ?n) < data_size b + length xs \<or> int_of_size ?n < 0"
  proof -
    have "int_of_size ?n \<le> int ?n - 4294967296" using int_of_size_large [OF big(1)] by simp
    moreover have "step_size b < 2147483648" using assms(2) by simp
    ultimately show ?thesis by linarith
  qed
  then show ?thesis
    using big(2) assms(1) unfolding sb_append_def Let_def
    by (auto simp: blit_def sb_wf_def)
qed

section \<open>Properties\<close>

text \<open>C33: On a well-formed buffer \<open>append\<close> is concatenation on the abstract contents, it keeps
  the buffer well formed, and it succeeds whenever the bytes fit: the allocation is large enough
  already, or the size of the new one stays below \<open>2 ^ 31\<close>.\<close>

theorem sb_append_refines:
  assumes "sb_wf b" "sb_fits b (length xs)"
  shows "\<exists>b'. sb_append b xs = Some b' \<and> sb_wf b' \<and> sb_contents b' = sb_contents b @ xs"
  using sb.append_ex [OF assms] by blast

theorem sb_append_refines_witness:
  "\<exists>b'. sb_append (sb_new 0 2) ''abc'' = Some b' \<and> sb_wf b' \<and> sb_contents b' = ''abc''"
proof -
  have "sb_fits (sb_new 0 2) (length ''abc'')" by (simp add: sb_fits_def sb_new_def)
  from sb_append_refines [OF sb_new_wf(1) this] show ?thesis by simp
qed

text \<open>The size of a new allocation is computed in an \<open>int\<close>. An append fails (throws
  \<open>std::bad_alloc\<close> or writes outside the new block) exactly when that size reaches \<open>2 ^ 31\<close>.\<close>

lemma sb_append_fails_iff:
  assumes "sb_wf b" "step_size b < 2 ^ 31"
  shows "sb_append b xs = None \<longleftrightarrow>
    allocated_size b < data_size b + length xs \<and> 2 ^ 31 \<le> data_size b + length xs + step_size b"
  using sb_append_fits [OF assms(1), of xs] sb_append_overflow [OF assms, of xs]
  unfolding sb_fits_def by (meson not_less)

lemma sb_append_fails_iff_example: "sb_append (sb_new 0 (2 ^ 31 - 1)) ''a'' = None"
proof -
  have "sb_wf (sb_new 0 (2 ^ 31 - 1))" "step_size (sb_new 0 (2 ^ 31 - 1)) < 2 ^ 31"
    by (simp_all add: sb_new_def sb_wf_def)
  from sb_append_fails_iff [OF this, of "''a''"] show ?thesis by (simp add: sb_new_def)
qed

text \<open>\<open>find(data, length, from_index)\<close> returns the least index from \<open>from_index\<close> on at which
  the whole pattern occurs in the buffer's contents (and a negative value when there is none,
  since it never returns any other index).\<close>

lemma sb_find_first:
  assumes "sb_wf b" "pat \<noteq> []" "0 \<le> from" "data_size b < 2 ^ 31"
  shows "sb_find b pat from = int k \<longleftrightarrow>
    nat from \<le> k \<and> take (length pat) (drop k (sb_contents b)) = pat \<and>
    (\<forall>j. nat from \<le> j \<and> j < k \<longrightarrow> take (length pat) (drop j (sb_contents b)) \<noteq> pat)"
proof -
  let ?m = "\<lambda>buf j. take (length pat) (drop j buf) = pat"
  have inside: "?m (sb_contents b) j \<longleftrightarrow> ?m (sb_buffer b) j \<and> j + length pat \<le> data_size b" for j
  proof
    assume m: "?m (sb_contents b) j"
    then have "length (take (length pat) (drop j (sb_contents b))) = length pat" by simp
    then have "length pat \<le> data_size b - j" using assms(1) by simp
    moreover from this have "j < data_size b" using assms(2) by (cases pat) auto
    ultimately show "?m (sb_buffer b) j \<and> j + length pat \<le> data_size b"
      using m take_drop_contents [OF assms(1)] by simp
  next
    assume m: "?m (sb_buffer b) j \<and> j + length pat \<le> data_size b"
    then have "length pat \<le> data_size b - j" by linarith
    with m show "?m (sb_contents b) j" using take_drop_contents [OF assms(1)] by simp
  qed
  have d: "int_of_size (data_size b - length pat) = int (data_size b - length pat)"
    using assms(4) by (intro int_of_size_small) simp
  show ?thesis
  proof (cases "data_size b \<le> nat from \<or> data_size b < length pat")
    case True
    then have "sb_find b pat from = - 1" using assms(3) by (auto simp: sb_find_def)
    moreover have "\<not> (nat from \<le> k \<and> ?m (sb_contents b) k)"
    proof
      assume a: "nat from \<le> k \<and> ?m (sb_contents b) k"
      then have "k + length pat \<le> data_size b" using inside by blast
      moreover have "0 < length pat" using assms(2) by simp
      ultimately show False using True a by linarith
    qed
    ultimately show ?thesis by auto
  next
    case False
    then have "sb_find b pat from = find_from pat (sb_buffer b) (nat from) (int (data_size b - length pat))"
      using assms(2,3) by (simp add: sb_find_def d)
    moreover define P where "P = ?m (sb_contents b)"
    moreover define Q where "Q = ?m (sb_buffer b)"
    moreover have "P j \<longleftrightarrow> Q j \<and> j + length pat \<le> data_size b" for j
      using inside P_def Q_def by simp
    moreover have "int j \<le> int (data_size b - length pat) \<longleftrightarrow> j + length pat \<le> data_size b" for j
      using False by linarith
    ultimately show ?thesis
      using find_from_eq [OF assms(2)] by auto
  qed
qed


end
