(* ===== verification/Wis.thy ===== *)
theory Wis
  imports Prelude
begin

text \<open>
  The vocabulary of include/wis.h and include/transfer_structs.h: command numbers, flags, the
  layouts and fixed-size string fields of the request structs and the macros that read them, the
  address structs. Integers of the wire are \<open>u32\<close>; a C \<open>int\<close> result code is an \<open>int\<close>.
\<close>

section \<open>Command numbers and flags\<close>

definition WIS_CMD :: "u32 \<Rightarrow> u32" where
  "WIS_CMD x = 0x8000 + x"

definition WIS_CMD_HEART_BEAT :: u32 where "WIS_CMD_HEART_BEAT = WIS_CMD 0x0"
definition WIS_CMD_LOGIN :: u32 where "WIS_CMD_LOGIN = WIS_CMD 0x1"
definition WIS_CMD_TO_USER :: u32 where "WIS_CMD_TO_USER = WIS_CMD 0x6"
definition WIS_CMD_USER_HEART_BEAT :: u32 where "WIS_CMD_USER_HEART_BEAT = WIS_CMD 0x80"
definition WIS_CMD_USER_PRIVATE :: u32 where "WIS_CMD_USER_PRIVATE = WIS_CMD 0x81"
definition WIS_CMD_USER_AUTO_LOGIN :: u32 where "WIS_CMD_USER_AUTO_LOGIN = WIS_CMD 0x82"
definition WIS_CMD_USER_BIND :: u32 where "WIS_CMD_USER_BIND = WIS_CMD 0x83"
definition WIS_CMD_USER_UNBIND :: u32 where "WIS_CMD_USER_UNBIND = WIS_CMD 0x84"
definition WIS_CMD_USER_GET_DEVICES :: u32 where "WIS_CMD_USER_GET_DEVICES = WIS_CMD 0x85"
definition WIS_CMD_USER_DEV_LOGIN :: u32 where "WIS_CMD_USER_DEV_LOGIN = WIS_CMD 0x89"
definition WIS_CMD_USER_DEV_LOGOUT :: u32 where "WIS_CMD_USER_DEV_LOGOUT = WIS_CMD 0x90"
definition WIS_CMD_USER_REGIST :: u32 where "WIS_CMD_USER_REGIST = WIS_CMD 0x91"
definition WIS_CMD_USER_MODIFY_PASSWORD :: u32 where "WIS_CMD_USER_MODIFY_PASSWORD = WIS_CMD 0x92"
definition WIS_CMD_USER_RESET_PASSWORD :: u32 where "WIS_CMD_USER_RESET_PASSWORD = WIS_CMD 0x94"
definition WIS_CMD_SERVICE_KICKOUT_USER :: u32 where "WIS_CMD_SERVICE_KICKOUT_USER = WIS_CMD 0x95"
definition WIS_CMD_USER_QUIT :: u32 where "WIS_CMD_USER_QUIT = WIS_CMD 0x96"

lemmas wis_cmd_defs = WIS_CMD_def WIS_CMD_HEART_BEAT_def WIS_CMD_LOGIN_def WIS_CMD_TO_USER_def
  WIS_CMD_USER_HEART_BEAT_def WIS_CMD_USER_PRIVATE_def WIS_CMD_USER_AUTO_LOGIN_def
  WIS_CMD_USER_BIND_def WIS_CMD_USER_UNBIND_def WIS_CMD_USER_GET_DEVICES_def
  WIS_CMD_USER_DEV_LOGIN_def WIS_CMD_USER_DEV_LOGOUT_def WIS_CMD_USER_REGIST_def
  WIS_CMD_USER_MODIFY_PASSWORD_def WIS_CMD_USER_RESET_PASSWORD_def
  WIS_CMD_SERVICE_KICKOUT_USER_def WIS_CMD_USER_QUIT_def

definition CMD_FLAG_USER_ONE :: u32 where "CMD_FLAG_USER_ONE = 0"
definition CMD_FLAG_USER_ALL :: u32 where "CMD_FLAG_USER_ALL = 1"
definition CMD_FLAG_USER_IOS_PUSH :: u32 where "CMD_FLAG_USER_IOS_PUSH = 2"
definition CMD_FLAG_USER_IOS_OFFLINE :: u32 where "CMD_FLAG_USER_IOS_OFFLINE = 4"
definition CMD_FLAG_ISO_APNS_ALL_OFFLINE :: u32 where
  "CMD_FLAG_ISO_APNS_ALL_OFFLINE =
     or (or CMD_FLAG_USER_IOS_OFFLINE CMD_FLAG_USER_IOS_PUSH) CMD_FLAG_USER_ALL"

lemmas cmd_flag_defs = CMD_FLAG_USER_ONE_def CMD_FLAG_USER_ALL_def CMD_FLAG_USER_IOS_PUSH_def
  CMD_FLAG_USER_IOS_OFFLINE_def CMD_FLAG_ISO_APNS_ALL_OFFLINE_def

section \<open>The structs of requests and their string fields\<close>

definition UUID_LEN :: nat where "UUID_LEN = 32"
definition PASSWORD_LEN :: nat where "PASSWORD_LEN = 24"
definition TOKEN_LEN :: nat where "TOKEN_LEN = 72"
definition JIGUANG_TOKEN_LEN :: nat where "JIGUANG_TOKEN_LEN = 19"

lemmas len_defs = UUID_LEN_def PASSWORD_LEN_def TOKEN_LEN_def JIGUANG_TOKEN_LEN_def

text \<open>
  The macros \<open>getUuidFromBuffer\<close>, \<open>getPasswordFromBuffer\<close>, \<open>getTokenFromBuffer\<close> are
  \<open>strlen(buffer) >= N ? std::string(buffer, N) : std::string(buffer)\<close>. The argument is the
  memory from \<open>buffer\<close> to the end of its allocation. When the first \<open>N\<close> bytes hold no NUL the
  result is those \<open>N\<close> bytes, whatever \<open>strlen\<close> finds behind them; when the memory ends
  before a NUL and before \<open>N\<close> bytes, the scan leaves the allocation and there is no result.
\<close>

definition buf_string :: "nat \<Rightarrow> bytes \<Rightarrow> bytes option" where
  "buf_string n mem =
     (if NUL \<in> set (take n mem) then Some (c_str (take n mem))
      else if n \<le> length mem then Some (take n mem) else None)"

definition getUuidFromBuffer :: "bytes \<Rightarrow> bytes option" where
  "getUuidFromBuffer mem = buf_string UUID_LEN mem"

definition getPasswordFromBuffer :: "bytes \<Rightarrow> bytes option" where
  "getPasswordFromBuffer mem = buf_string PASSWORD_LEN mem"

definition getTokenFromBuffer :: "bytes \<Rightarrow> bytes option" where
  "getTokenFromBuffer mem = buf_string JIGUANG_TOKEN_LEN mem"

lemma buf_string_bound: "buf_string n mem = Some s \<Longrightarrow> length s \<le> n \<and> NUL \<notin> set s"
proof -
  assume a: "buf_string n mem = Some s"
  have "length (c_str (take n mem)) \<le> length (take n mem)"
    unfolding c_str_def by (rule length_takeWhile_le)
  with a show ?thesis by (auto simp: buf_string_def split: if_splits)
qed

text \<open>A string shorter than the field, copied there by \<open>strncpy\<close> or \<open>memset\<close> and
  \<open>memcpy\<close>, is read back; so is one that fills the field.\<close>

lemma buf_string_pad_to:
  "NUL \<notin> set s \<Longrightarrow> length s \<le> n \<Longrightarrow> buf_string n (pad_to n s @ rest) = Some s"
proof (cases "length s = n")
  case True
  assume "NUL \<notin> set s"
  with True show ?thesis by (simp add: buf_string_def pad_to_long)
next
  case False
  assume s: "NUL \<notin> set s" and "length s \<le> n"
  with False obtain m where "n - length s = Suc m" by (metis Suc_diff_Suc le_neq_implies_less)
  with s \<open>length s \<le> n\<close> show ?thesis
    by (simp add: buf_string_def pad_to_short c_str_append_NUL)
qed

lemma getUuid_bound: "getUuidFromBuffer mem = Some s \<Longrightarrow> length s \<le> 32 \<and> NUL \<notin> set s"
  using buf_string_bound by (simp add: getUuidFromBuffer_def UUID_LEN_def)

text \<open>The structs the requests and replies are cast to, as the names and sizes of their fields. An \<open>int\<close> has four
  bytes and stands at a multiple of four in all of them, so there is no padding. A field without a size
  (\<open>data[0]\<close>) begins where the struct ends. The theories read the fields at the offsets that \<open>struct_offsets\<close>
  gives, from the memory behind the pointer.\<close>

type_synonym layout = "(string \<times> nat) list"

fun field_offset :: "layout \<Rightarrow> string \<Rightarrow> nat option" where
  "field_offset [] f = None"
| "field_offset ((g, n) # fs) f = (if f = g then Some 0 else map_option (\<lambda>off. n + off) (field_offset fs f))"

definition struct_size :: "layout \<Rightarrow> nat" where
  "struct_size l = sum_list (map snd l)"

definition WisSocketPacket :: layout where
  "WisSocketPacket = [(''checksum'', 4), (''cmdId'', 4), (''cmdDataLength'', 4), (''cmdData'', 0)]"

definition WisDeviceLoginInfo :: layout where
  "WisDeviceLoginInfo = [(''uuid'', 32), (''name'', 32), (''data'', 128)]"

definition WisUserLoginInfo :: layout where
  "WisUserLoginInfo = [(''uuid'', UUID_LEN), (''password'', PASSWORD_LEN), (''token'', TOKEN_LEN)]"

definition WisUserQuitInfo :: layout where
  "WisUserQuitInfo = [(''uuid'', UUID_LEN), (''token'', TOKEN_LEN)]"

definition WisUserRegistInfo :: layout where
  "WisUserRegistInfo = [(''uuid'', UUID_LEN), (''password'', PASSWORD_LEN)]"

definition WisUserGetVeriCode :: layout where
  "WisUserGetVeriCode = [(''uuid'', UUID_LEN)]"

definition WisUserResetPassword :: layout where
  "WisUserResetPassword = [(''uuid'', UUID_LEN), (''newPassword'', PASSWORD_LEN)]"

definition WisUserModifyPassword :: layout where
  "WisUserModifyPassword = [(''newPassword'', PASSWORD_LEN)]"

definition WisUserBindMail :: layout where
  "WisUserBindMail = [(''uuid'', UUID_LEN), (''virificationCode'', 4)]"

definition WisUserDeviceInfo :: layout where
  "WisUserDeviceInfo = [(''uuid'', 32), (''name'', 32), (''bind_time'', 20), (''status'', 4)]"

definition WisResult :: layout where
  "WisResult = [(''uuid'', 32), (''data'', 0)]"

definition logResult :: layout where
  "logResult = [(''result'', 4), (''uuid'', 32)]"

definition WisUserPrivatePacket :: layout where
  "WisUserPrivatePacket = [(''uuid'', 32), (''cmdId'', 4), (''argLen'', 4), (''sender'', 32), (''arg'', 0)]"

definition WisToUserData :: layout where
  "WisToUserData = [(''flag'', 4), (''uuid'', 32), (''len'', 4), (''data'', 0)]"

definition ServerSendToUser :: layout where
  "ServerSendToUser = [(''fromUuid'', UUID_LEN), (''data'', 0)]"

lemmas struct_defs = WisSocketPacket_def WisDeviceLoginInfo_def WisUserLoginInfo_def WisUserQuitInfo_def
  WisUserRegistInfo_def WisUserGetVeriCode_def WisUserResetPassword_def WisUserModifyPassword_def
  WisUserBindMail_def WisUserDeviceInfo_def WisResult_def logResult_def WisUserPrivatePacket_def
  WisToUserData_def ServerSendToUser_def

lemma struct_offsets:
  "field_offset WisSocketPacket ''cmdId'' = Some 4" "field_offset WisSocketPacket ''cmdDataLength'' = Some 8"
  "field_offset WisSocketPacket ''cmdData'' = Some 12" "struct_size WisSocketPacket = 12"
  "field_offset WisDeviceLoginInfo ''name'' = Some 32"
  "field_offset WisUserLoginInfo ''password'' = Some 32" "field_offset WisUserLoginInfo ''token'' = Some 56"
  "struct_size WisUserLoginInfo = TOKEN_LEN + UUID_LEN + PASSWORD_LEN"
  "field_offset WisUserQuitInfo ''token'' = Some 32" "field_offset WisUserRegistInfo ''password'' = Some 32"
  "field_offset WisUserResetPassword ''newPassword'' = Some 32" "field_offset WisUserModifyPassword ''newPassword'' = Some 0"
  "field_offset logResult ''uuid'' = Some 4" "struct_size logResult = 36"
  "field_offset WisUserPrivatePacket ''cmdId'' = Some 32" "field_offset WisUserPrivatePacket ''argLen'' = Some 36"
  "field_offset WisUserPrivatePacket ''sender'' = Some 40" "field_offset WisUserPrivatePacket ''arg'' = Some 72"
  "field_offset WisToUserData ''uuid'' = Some 4" "field_offset WisToUserData ''len'' = Some 36"
  "field_offset WisToUserData ''data'' = Some 40" "field_offset ServerSendToUser ''data'' = Some 32"
  by (simp_all add: struct_defs len_defs struct_size_def)

text \<open>An \<open>int\<close> at an offset that is a multiple of four needs no padding before it; all of them are.\<close>

lemma ints_are_aligned:
  "\<forall>(l, f) \<in> {(WisUserBindMail, ''virificationCode''), (WisUserDeviceInfo, ''status''), (logResult, ''result''),
      (WisUserPrivatePacket, ''cmdId''), (WisUserPrivatePacket, ''argLen''), (WisToUserData, ''len'')}.
     \<exists>off. field_offset l f = Some off \<and> 4 dvd off"
  by (simp add: struct_defs len_defs)

section \<open>Addresses\<close>

text \<open>\<open>HOST_ADDRESS\<close> and \<open>BUS_ADDRESS\<close>; \<open>ip\<close> is a \<open>char\<close> array of
  \<open>HOST_NAME_LENGTH\<close> bytes read as a C string, the model keeps all of it.\<close>

definition HOST_NAME_LENGTH :: nat where "HOST_NAME_LENGTH = 64"

record host_address =
  ha_size :: u32
  ha_ip :: bytes
  ha_port :: u32

definition host_address_eq :: "host_address \<Rightarrow> host_address \<Rightarrow> bool" where
  "host_address_eq a b \<longleftrightarrow> ha_port b = ha_port a \<and>
     take HOST_NAME_LENGTH (ha_ip a) = take HOST_NAME_LENGTH (ha_ip b)"

definition host_address_assign :: "host_address \<Rightarrow> host_address \<Rightarrow> host_address" where
  "host_address_assign a b =
     a\<lparr>ha_size := ha_size b,
       ha_ip := take HOST_NAME_LENGTH (ha_ip b) @ drop HOST_NAME_LENGTH (ha_ip a),
       ha_port := ha_port b\<rparr>"

datatype bus_address_kind = BUS_UDP | BUS_TCP | BUS_COM | BUS_ShortMessage | BUS_Handle

definition bus_kind_of :: "u32 \<Rightarrow> bus_address_kind option" where
  "bus_kind_of n = (if n = 1 then Some BUS_UDP else if n = 2 then Some BUS_TCP
     else if n = 3 then Some BUS_COM else if n = 4 then Some BUS_ShortMessage
     else if n = 5 then Some BUS_Handle else None)"

record bus_address =
  ba_size :: u32
  bus_address_type :: u32
  model_type :: u32
  ba_host :: host_address

definition bus_address_eq :: "bus_address \<Rightarrow> bus_address \<Rightarrow> bool" where
  "bus_address_eq a b \<longleftrightarrow> bus_address_type a = bus_address_type b \<and>
     model_type a = model_type b \<and> host_address_eq (ba_host a) (ba_host b)"

definition TCP_SERVER_MODE :: u32 where "TCP_SERVER_MODE = 1"
definition TCP_CLIENT_MODE :: u32 where "TCP_CLIENT_MODE = 2"
definition HEARTBEAT_TIME :: nat where "HEARTBEAT_TIME = 50"

datatype bus_message = MESSAGE_Sent | MESSAGE_Receive | MESSAGE_Connect | MESSAGE_Disconnect
  | MESSAGE_Close | MESSAGE_Multicast

definition TYPE_DEVICE :: int where "TYPE_DEVICE = 1"
definition TYPE_USER :: int where "TYPE_USER = 2"

lemma type_distinct [simp]: "TYPE_DEVICE \<noteq> TYPE_USER" "TYPE_USER \<noteq> TYPE_DEVICE"
  by (simp_all add: TYPE_DEVICE_def TYPE_USER_def)

lemma host_address_eq_refl [simp]: "host_address_eq a a"
  by (simp add: host_address_eq_def)

lemma host_address_assign_eq: "length (ha_ip b) = 64 \<Longrightarrow> host_address_eq (host_address_assign a b) b"
  by (simp add: host_address_eq_def host_address_assign_def HOST_NAME_LENGTH_def)

end
