(* ===== verification/Wire.thy ===== *)
theory Wire
  imports Smart_Buffer Wis
begin

text \<open>
  \<open>CProtocolParser\<close> (parseProtocolModule/src/ProtocolParser.cpp): frames on a TCP stream. A
  frame is checksum, command and data length, 32 bits each and little-endian, then the data;
  the checksum is the sum modulo \<open>2 ^ 32\<close> of all bytes behind it.
  \<open>MakeProtocolForSocket\<close> writes one frame, \<open>ParseSocketProtocol\<close> appends what was received
  to the parser's buffer and hands every complete frame to a callback.

  The functions of the code have return type \<open>bool\<close> but no \<open>return\<close> statement, their value
  is never read, and the model has none. The abstract parser \<open>split_frames\<close> works on a byte
  list; \<open>parse_loop\<close> is shown to refine it.
\<close>

section \<open>Building a frame\<close>

fun add_bytes :: "u32 \<Rightarrow> bytes \<Rightarrow> u32" where
  "add_bytes s [] = s"
| "add_bytes s (c # cs) = add_bytes (s + of_char c) cs"

definition getCheckSum :: "bytes \<Rightarrow> u32 \<Rightarrow> u32 option" where
  "getCheckSum recvbuf recvlen = map_option (add_bytes 0) (rd_bytes recvbuf 0 (unat recvlen))"

definition MakeProtocolForSocket ::
  "u32 \<Rightarrow> bytes option \<Rightarrow> u32 \<Rightarrow> bytes \<Rightarrow> (bytes \<times> u32) option" where
  "MakeProtocolForSocket command input inputlen output0 = do {
     output1 \<leftarrow> blit output0 4 (enc32 command);
     output2 \<leftarrow> (case input of
                   Some p \<Rightarrow> if inputlen \<noteq> 0
                             then do { bs \<leftarrow> rd_bytes p 0 (unat inputlen); blit output1 12 bs }
                             else Some output1
                 | None \<Rightarrow> Some output1);
     output3 \<leftarrow> blit output2 8 (enc32 inputlen);
     checksum \<leftarrow> getCheckSum (drop 4 output3) (inputlen + 8);
     output4 \<leftarrow> blit output3 0 (enc32 checksum);
     Some (output4, inputlen + 12)
   }"

section \<open>Parsing the stream\<close>

definition CheckCheckSum :: "bytes option \<Rightarrow> u32 \<Rightarrow> bool option" where
  "CheckCheckSum recvbuf recvlen =
     (case recvbuf of
        None \<Rightarrow> Some False
      | Some buf \<Rightarrow>
          if recvlen < 12 then Some False
          else do {
            checksum \<leftarrow> rd32 buf 0;
            bs \<leftarrow> rd_bytes buf 4 (unat (recvlen - 4));
            Some (add_bytes 0 bs = checksum)
          })"

text \<open>The C++ conversion of an \<open>int\<close> to \<open>size_t\<close> in \<open>packetDataLen <= length() - 12\<close>.\<close>

definition size_of_int :: "int \<Rightarrow> nat" where
  "size_of_int i = nat (i mod 2 ^ 64)"

text \<open>The \<open>while\<close> loop. The callback gets the command, a result code, the length and a
  pointer behind the header: the memory up to the end of the allocation. It runs before the
  frame is removed from the buffer, which it has no access to.\<close>

function parse_loop ::
  "('w \<Rightarrow> u32 \<Rightarrow> u32 \<Rightarrow> int \<Rightarrow> bytes \<Rightarrow> 'w option) \<Rightarrow> smart_buffer \<Rightarrow> 'w \<Rightarrow> (smart_buffer \<times> 'w) option"
where
  "parse_loop callback b w =
     (if sb_length b < 12 then Some (b, w)
      else let packetDataLen = sint (dec32 (drop 8 (sb_data b))) in
        if size_of_int packetDataLen \<le> sb_length b - 12 then
          (case CheckCheckSum (Some (sb_data b)) (of_int packetDataLen + 12) of
             None \<Rightarrow> None
           | Some False \<Rightarrow> Some (sb_empty b, w)
           | Some True \<Rightarrow>
               (case callback w (dec32 (drop 4 (sb_data b))) 0 packetDataLen (drop 12 (sb_data b)) of
                  None \<Rightarrow> None
                | Some w' \<Rightarrow> parse_loop callback (sb_truncate b (size_of_int packetDataLen + 12)) w'))
        else Some (b, w))"
  by pat_completeness auto
termination
  by (relation "measure (\<lambda>(c, b, w). data_size b)") (auto simp: sb_length_def sb_truncate_def Let_def)

declare parse_loop.simps [simp del]

definition ParseSocketProtocol ::
  "('w \<Rightarrow> u32 \<Rightarrow> u32 \<Rightarrow> int \<Rightarrow> bytes \<Rightarrow> 'w option) \<Rightarrow> smart_buffer \<Rightarrow> bytes \<Rightarrow> 'w \<Rightarrow> (smart_buffer \<times> 'w) option"
where
  "ParseSocketProtocol callback b recvbuf w = do {
     b' \<leftarrow> sb_append b recvbuf;
     parse_loop callback b' w
   }"

definition CProtocolParser_new :: smart_buffer where
  "CProtocolParser_new = sb_new 0 1024"

section \<open>Frames and the abstract parser\<close>

definition frame_body :: "u32 \<Rightarrow> bytes \<Rightarrow> bytes" where
  "frame_body cmd data = enc32 cmd @ enc32 (of_nat (length data)) @ data"

definition mk_frame :: "u32 \<Rightarrow> bytes \<Rightarrow> bytes" where
  "mk_frame cmd data = enc32 (add_bytes 0 (frame_body cmd data)) @ frame_body cmd data"

text \<open>Messages that arrive, the bytes left over and whether a bad checksum was met.\<close>

function split_frames :: "bytes \<Rightarrow> (u32 \<times> bytes) list \<times> bytes \<times> bool" where
  "split_frames xs =
     (if length xs < 12 then ([], xs, False)
      else let n = size_of_int (sint (dec32 (drop 8 xs))) in
        if n \<le> length xs - 12 then
          if add_bytes 0 (take (n + 8) (drop 4 xs)) = dec32 xs then
            (let (ms, r, e) = split_frames (drop (n + 12) xs) in
             ((dec32 (drop 4 xs), take n (drop 12 xs)) # ms, r, e))
          else ([], [], True)
        else ([], xs, False))"
  by pat_completeness auto
termination
  by (relation "measure length") auto

declare split_frames.simps [simp del]

lemma add_bytes_append: "add_bytes s (xs @ ys) = add_bytes (add_bytes s xs) ys"
  by (induction s xs rule: add_bytes.induct) auto

lemma length_mk_frame [simp]: "length (mk_frame cmd data) = length data + 12"
  by (simp add: mk_frame_def frame_body_def)

section \<open>The length field as an \<open>int\<close> and as a \<open>size_t\<close>\<close>

lemma int_of_size32: "n < 2 ^ 32 \<Longrightarrow> int_of_size n = (if n < 2 ^ 31 then int n else int n - 2 ^ 32)"
proof (cases "n < 2 ^ 31")
  case True
  then show ?thesis by (simp add: int_of_size_small)
next
  case False
  assume a: "n < 2 ^ 32"
  have "(int n + 2 ^ 31) mod 2 ^ 32 = (int n + 2 ^ 31 - 2 ^ 32) mod 2 ^ 32"
    by (metis minus_mod_self2)
  also have "\<dots> = int n + 2 ^ 31 - 2 ^ 32"
    by (rule mod_pos_pos_trivial) (use a False in auto)
  finally show ?thesis using False by (simp add: int_of_size_eq)
qed

lemma size_of_int_of_size:
  assumes "n < 2 ^ 32"
  shows "size_of_int (int_of_size n) = (if n < 2 ^ 31 then n else 2 ^ 64 - 2 ^ 32 + n)"
proof (cases "n < 2 ^ 31")
  case True
  then show ?thesis using assms by (simp add: int_of_size32 size_of_int_def)
next
  case False
  have "(int n - 2 ^ 32) mod 2 ^ 64 = (int n - 2 ^ 32 + 2 ^ 64) mod 2 ^ 64"
    by (metis mod_add_self2)
  also have "\<dots> = int n - 2 ^ 32 + 2 ^ 64"
    by (rule mod_pos_pos_trivial) (use assms in auto)
  finally show ?thesis
    using False assms by (simp add: size_of_int_def int_of_size32)
qed

lemma sint_int_of_size: "sint (w :: u32) = int_of_size (unat w)"
  by (simp add: int_of_size_def)

lemma unat_less_2p32: "unat (w :: u32) < 2 ^ 32"
  using unat32_less [of w] by simp

lemma size_of_sint_large: "2 ^ 31 \<le> unat w \<Longrightarrow> size_of_int (sint (w :: u32)) = 2 ^ 64 - 2 ^ 32 + unat w"
  unfolding sint_int_of_size size_of_int_of_size [OF unat_less_2p32] by simp

lemma size_of_sint_small: "unat w < 2 ^ 31 \<Longrightarrow> size_of_int (sint (w :: u32)) = unat w"
  unfolding sint_int_of_size size_of_int_of_size [OF unat_less_2p32] by simp

lemma sint_small: "unat w < 2 ^ 31 \<Longrightarrow> sint (w :: u32) = int (unat w)"
  unfolding sint_int_of_size int_of_size32 [OF unat_less_2p32] by (simp only: if_True)

lemma size_of_sint_fits:
  assumes "size_of_int (sint (w :: u32)) \<le> n" "n < 2 ^ 63"
  shows "size_of_int (sint w) = unat w" "unat w < 2 ^ 31" "sint w = int (unat w)"
proof -
  have lt: "unat w < 2 ^ 31"
  proof (rule ccontr)
    assume "\<not> unat w < 2 ^ 31"
    then have "size_of_int (sint w) = 2 ^ 64 - 2 ^ 32 + unat w" by (intro size_of_sint_large) simp
    with assms show False by simp
  qed
  show "size_of_int (sint w) = unat w" "unat w < 2 ^ 31" "sint w = int (unat w)"
    using lt size_of_sint_small [OF lt] sint_small [OF lt] by blast+
qed

section \<open>Frames written and read back\<close>

lemma mod256: "x < 256 \<Longrightarrow> y = x + 256 * k \<Longrightarrow> y mod 256 = (x :: nat)"
  by simp

lemma enc32_dec32: "enc32 (dec32 (a # b # c # d # xs)) = [a, b, c, d]"
proof -
  let ?n = "byte_val a + 256 * byte_val b + 65536 * byte_val c + 16777216 * byte_val d"
  have lt: "byte_val a < 256" "byte_val b < 256" "byte_val c < 256" "byte_val d < 256" by auto
  then have "?n < 4294967296" by linarith
  then have n: "unat (of_nat ?n :: u32) = ?n"
    by (simp add: unsigned_of_nat take_bit_nat_eq_self_iff del: of_nat_add of_nat_mult)
  have q: "?n div 256 = byte_val b + 256 * byte_val c + 65536 * byte_val d"
    "?n div 65536 = byte_val c + 256 * byte_val d" "?n div 16777216 = byte_val d"
    using lt by linarith+
  have m: "?n mod 256 = byte_val a"
    by (rule mod256 [where k = "byte_val b + 256 * byte_val c + 65536 * byte_val d"]) simp_all
  have m2: "(byte_val b + 256 * byte_val c + 65536 * byte_val d) mod 256 = byte_val b"
    by (rule mod256 [where k = "byte_val c + 256 * byte_val d"]) simp_all
  have m3: "(byte_val c + 256 * byte_val d) mod 256 = byte_val c"
    by (rule mod256 [where k = "byte_val d"]) simp_all
  have "char_of ?n = a" "char_of (?n div 256) = b" "char_of (?n div 65536) = c"
    "char_of (?n div 16777216) = d"
    unfolding q using m m2 m3 by (simp_all add: char_of_eq_iff take_bit_eq_mod)
  then show ?thesis
    by (simp add: enc32_def unat_drop_bit_eq drop_bit_eq_div [where 'a = nat] n
        del: of_nat_add of_nat_mult)
qed

lemma enc32_dec32_take: "4 \<le> length xs \<Longrightarrow> enc32 (dec32 xs) = take 4 xs"
  by (cases xs rule: dec32.cases) (simp_all add: enc32_dec32 del: dec32.simps)

lemma unat_length: "length data < 2 ^ 31 \<Longrightarrow> unat (of_nat (length data) :: u32) = length data"
  by (simp add: unsigned_of_nat take_bit_eq_mod)

lemma enc32_list: "\<exists>a b c d. enc32 w = [a, b, c, d]"
  by (simp add: enc32_def)

lemma frame_parts:
  "dec32 (mk_frame cmd data @ rest) = add_bytes 0 (frame_body cmd data)"
  "dec32 (drop 4 (mk_frame cmd data @ rest)) = cmd"
  "dec32 (drop 8 (mk_frame cmd data @ rest)) = of_nat (length data)"
  "drop 12 (mk_frame cmd data @ rest) = data @ rest"
  "take (length data + 8) (drop 4 (mk_frame cmd data @ rest)) = frame_body cmd data"
  "drop (length data + 12) (mk_frame cmd data @ rest) = rest"
  by (simp_all add: mk_frame_def frame_body_def)

lemma take_mk_frame: "take n (drop 12 (mk_frame cmd data)) = take n data"
  by (simp add: mk_frame_def frame_body_def)

text \<open>A complete frame with the right checksum at the front of \<open>xs\<close> is a \<open>mk_frame\<close>.\<close>

lemma frame_at_front:
  assumes "12 \<le> length xs" "n \<le> length xs - 12" "n = unat (dec32 (drop 8 xs))"
    and "add_bytes 0 (take (n + 8) (drop 4 xs)) = dec32 xs"
  shows "xs = mk_frame (dec32 (drop 4 xs)) (take n (drop 12 xs)) @ drop (n + 12) xs"
proof -
  have l: "length (take n (drop 12 xs)) = n" using assms(1,2) by simp
  have w: "of_nat n = dec32 (drop 8 xs)" using assms(3) by simp
  have parts: "take (n + 8) (drop 4 xs) = take 4 (drop 4 xs) @ take 4 (drop 8 xs) @ take n (drop 12 xs)"
    using take_add [of 4 "n + 4" "drop 4 xs"] take_add [of 4 n "drop 8 xs"]
    by (simp add: add.commute)
  then have body: "frame_body (dec32 (drop 4 xs)) (take n (drop 12 xs)) = take (n + 8) (drop 4 xs)"
    using assms(1) by (simp add: frame_body_def l w enc32_dec32_take del: length_take)
  have "mk_frame (dec32 (drop 4 xs)) (take n (drop 12 xs)) = take 4 xs @ take (n + 8) (drop 4 xs)"
    using assms(1,4) by (simp add: mk_frame_def body enc32_dec32_take)
  then have "mk_frame (dec32 (drop 4 xs)) (take n (drop 12 xs)) = take (n + 12) xs"
    using take_add [of 4 "n + 8" xs] by (simp add: add.commute)
  then show ?thesis by simp
qed

section \<open>\<open>MakeProtocolForSocket\<close> writes \<open>mk_frame\<close>\<close>

text \<open>The three stores of \<open>MakeProtocolForSocket\<close>, on an output buffer cut into its fields.\<close>

lemma blit_fields:
  assumes "length o1 = 4" "length o2 = 4" "length o3 = 4" "length w = 4"
  shows "blit (o1 @ o2 @ o3 @ d) 0 w = Some (w @ o2 @ o3 @ d)"
    "blit (o1 @ o2 @ o3 @ d) 4 w = Some (o1 @ w @ o3 @ d)"
    "blit (o1 @ o2 @ o3 @ d) 8 w = Some (o1 @ o2 @ w @ d)"
    "length bs = length d \<Longrightarrow> blit (o1 @ o2 @ o3 @ d) 12 bs = Some (o1 @ o2 @ o3 @ bs)"
  using assms by (simp_all add: blit_def)

lemma split_header:
  assumes "length out = n + 12"
  obtains o1 o2 o3 d where "out = o1 @ o2 @ o3 @ d" "length o1 = 4" "length o2 = 4" "length o3 = 4"
    "length d = n"
proof
  show "out = take 4 out @ take 4 (drop 4 out) @ take 4 (drop 8 out) @ drop 12 out"
    using append_take_drop_id [of 4 out] append_take_drop_id [of 4 "drop 4 out"]
      append_take_drop_id [of 4 "drop 8 out"] by simp
qed (use assms in simp_all)

lemma MakeProtocol_frame:
  assumes "length data < 2 ^ 31" "length out = length data + 12"
  shows "MakeProtocolForSocket cmd (Some (data @ tail)) (of_nat (length data)) out
    = Some (mk_frame cmd data, of_nat (length data + 12))"
proof -
  let ?n = "of_nat (length data) :: u32"
  obtain o1 o2 o3 d where out: "out = o1 @ o2 @ o3 @ d" and len: "length o1 = 4" "length o2 = 4"
    "length o3 = 4" "length d = length data"
    using split_header [OF assms(2)] by blast
  note n = unat_length [OF assms(1)]
  have "?n + 8 = of_nat (length data + 8)" by simp
  moreover have "unat (of_nat (length data + 8) :: u32) = length data + 8"
    using assms(1) by (simp add: unsigned_of_nat take_bit_nat_eq_self_iff del: of_nat_add)
  ultimately have n8: "unat (?n + 8) = length data + 8" by simp
  have "?n = 0 \<longleftrightarrow> unat ?n = 0" by (simp only: unat_eq_0)
  then have nz: "?n = 0 \<longleftrightarrow> data = []" unfolding n by simp
  have input: "(if ?n \<noteq> 0 then do { bs \<leftarrow> rd_bytes (data @ tail) 0 (unat ?n); blit (o1 @ enc32 cmd @ o3 @ d) 12 bs }
      else Some (o1 @ enc32 cmd @ o3 @ d)) = Some (o1 @ enc32 cmd @ o3 @ data)"
    using len nz by (cases "data = []") (simp_all add: n rd_bytes_def blit_fields)
  have sum: "getCheckSum (drop 4 (o1 @ enc32 cmd @ enc32 ?n @ data)) (?n + 8)
      = Some (add_bytes 0 (frame_body cmd data))"
    using len by (simp add: getCheckSum_def rd_bytes_def n8 frame_body_def)
  show ?thesis
    using len input sum unfolding MakeProtocolForSocket_def out
    by (simp add: blit_fields mk_frame_def frame_body_def)
qed

section \<open>The abstract parser\<close>

text \<open>The length field of a stream that starts with a header, and what the parser does on a
  stream, as one equation per case.\<close>

definition frame_len :: "bytes \<Rightarrow> nat" where
  "frame_len xs = size_of_int (sint (dec32 (drop 8 xs)))"

definition frame_waits :: "bytes \<Rightarrow> bool" where
  "frame_waits xs \<longleftrightarrow> length xs < 12 \<or> length xs - 12 < frame_len xs"

definition frame_good :: "bytes \<Rightarrow> bool" where
  "frame_good xs \<longleftrightarrow> add_bytes 0 (take (frame_len xs + 8) (drop 4 xs)) = dec32 xs"

lemma split_frames_wait: "frame_waits xs \<Longrightarrow> split_frames xs = ([], xs, False)"
  by (subst split_frames.simps) (auto simp: frame_waits_def frame_len_def Let_def)

lemma split_frames_bad: "\<not> frame_waits xs \<Longrightarrow> \<not> frame_good xs \<Longrightarrow> split_frames xs = ([], [], True)"
  by (subst split_frames.simps) (auto simp: frame_waits_def frame_good_def frame_len_def Let_def)

lemma split_frames_step: "\<not> frame_waits xs \<Longrightarrow> frame_good xs \<Longrightarrow>
  split_frames xs = (let (ms, r, e) = split_frames (drop (frame_len xs + 12) xs) in
    ((dec32 (drop 4 xs), take (frame_len xs) (drop 12 xs)) # ms, r, e))"
  by (subst split_frames.simps) (auto simp: frame_waits_def frame_good_def frame_len_def Let_def)

lemma split_frames_induct [case_names waits bad step]:
  assumes "\<And>xs. frame_waits xs \<Longrightarrow> P xs"
    and "\<And>xs. \<not> frame_waits xs \<Longrightarrow> \<not> frame_good xs \<Longrightarrow> P xs"
    and "\<And>xs. \<not> frame_waits xs \<Longrightarrow> frame_good xs \<Longrightarrow> P (drop (frame_len xs + 12) xs) \<Longrightarrow> P xs"
  shows "P xs"
proof (induction xs rule: length_induct)
  case (1 xs)
  have "\<not> frame_waits xs \<Longrightarrow> length (drop (frame_len xs + 12) xs) < length xs"
    by (auto simp: frame_waits_def)
  with 1 assms show ?case by blast
qed

lemma frame_in_front:
  assumes "length data < 2 ^ 31"
  shows "frame_len (mk_frame cmd data @ rest) = length data"
    "\<not> frame_waits (mk_frame cmd data @ rest)" "frame_good (mk_frame cmd data @ rest)"
proof -
  show l: "frame_len (mk_frame cmd data @ rest) = length data"
    unfolding frame_len_def frame_parts
    using unat_length [OF assms] size_of_sint_small assms by metis
  show "\<not> frame_waits (mk_frame cmd data @ rest)"
    by (simp add: frame_waits_def l)
  show "frame_good (mk_frame cmd data @ rest)"
    unfolding frame_good_def l frame_parts by simp
qed

lemma split_frames_frame:
  assumes "length data < 2 ^ 31"
  shows "split_frames (mk_frame cmd data @ rest) =
    (let (ms, r, e) = split_frames rest in ((cmd, data) # ms, r, e))"
  unfolding split_frames_step [OF frame_in_front(2,3) [OF assms]] frame_in_front(1) [OF assms]
    frame_parts by simp

lemma split_frames_frames:
  "\<forall>(cmd, data) \<in> set ms. length data < 2 ^ 31 \<Longrightarrow>
   split_frames (concat (map (\<lambda>(c, d). mk_frame c d) ms) @ rest) =
     (let (ms', r, e) = split_frames rest in (ms @ ms', r, e))"
proof (induction ms)
  case Nil
  then show ?case by (simp split: prod.splits)
next
  case (Cons m ms)
  then show ?case by (cases m) (auto simp: split_frames_frame split: prod.splits)
qed

lemma split_frames_Nil [simp]: "split_frames [] = ([], [], False)"
  by (simp add: split_frames_wait frame_waits_def)

text \<open>Parsing a longer stream extends what was parsed, until the first bad checksum.\<close>

lemma frame_stays:
  assumes "\<not> frame_waits xs"
  shows "frame_len (xs @ ys) = frame_len xs" "\<not> frame_waits (xs @ ys)"
    "frame_good (xs @ ys) \<longleftrightarrow> frame_good xs" "dec32 (drop 4 (xs @ ys)) = dec32 (drop 4 xs)"
    "take (frame_len xs) (drop 12 (xs @ ys)) = take (frame_len xs) (drop 12 xs)"
    "drop (frame_len xs + 12) (xs @ ys) = drop (frame_len xs + 12) xs @ ys"
proof -
  have len: "12 \<le> length xs" "frame_len xs \<le> length xs - 12"
    using assms by (auto simp: frame_waits_def)
  then show l: "frame_len (xs @ ys) = frame_len xs"
    by (simp add: frame_len_def dec32_append)
  show "\<not> frame_waits (xs @ ys)" using len by (simp add: frame_waits_def l)
  show "frame_good (xs @ ys) \<longleftrightarrow> frame_good xs" using len by (simp add: frame_good_def l dec32_append)
  show "dec32 (drop 4 (xs @ ys)) = dec32 (drop 4 xs)"
    "take (frame_len xs) (drop 12 (xs @ ys)) = take (frame_len xs) (drop 12 xs)"
    "drop (frame_len xs + 12) (xs @ ys) = drop (frame_len xs + 12) xs @ ys"
    using len by (simp_all add: dec32_append)
qed

lemma split_frames_append:
  "split_frames xs = (ms, r, False) \<Longrightarrow>
   split_frames (xs @ ys) = (let (ms', r', e) = split_frames (r @ ys) in (ms @ ms', r', e))"
proof (induction xs arbitrary: ms rule: split_frames_induct)
  case (waits xs)
  then show ?case by (simp add: split_frames_wait split: prod.splits)
next
  case (bad xs)
  then show ?case by (simp add: split_frames_bad)
next
  case (step xs)
  obtain ms1 where rec: "split_frames (drop (frame_len xs + 12) xs) = (ms1, r, False)"
    and ms: "ms = (dec32 (drop 4 xs), take (frame_len xs) (drop 12 xs)) # ms1"
    using step.prems step.hyps by (auto simp: split_frames_step split: prod.splits)
  note stays = frame_stays [OF step.hyps(1), of ys]
  have good: "frame_good (xs @ ys)" using stays(3) step.hyps(2) by simp
  show ?case
    unfolding split_frames_step [OF stays(2) good] stays step.IH [OF rec] ms
    by (simp split: prod.splits)
qed

text \<open>A bad checksum in a prefix of the stream stays one.\<close>

lemma split_frames_error_append:
  "split_frames xs = (ms, r, True) \<Longrightarrow> split_frames (xs @ ys) = (ms, r, True)"
proof (induction xs arbitrary: ms rule: split_frames_induct)
  case (waits xs)
  then show ?case by (simp add: split_frames_wait)
next
  case (bad xs)
  then show ?case by (simp add: split_frames_bad frame_stays)
next
  case (step xs)
  obtain ms1 where rec: "split_frames (drop (frame_len xs + 12) xs) = (ms1, r, True)"
    and ms: "ms = (dec32 (drop 4 xs), take (frame_len xs) (drop 12 xs)) # ms1"
    using step.prems step.hyps by (auto simp: split_frames_step split: prod.splits)
  note stays = frame_stays [OF step.hyps(1), of ys]
  have good: "frame_good (xs @ ys)" using stays(3) step.hyps(2) by simp
  show ?case
    unfolding split_frames_step [OF stays(2) good] stays step.IH [OF rec] ms by simp
qed

text \<open>Everything delivered stood in the stream as a frame with a right checksum.\<close>

lemma split_frames_sound:
  "split_frames xs = (ms, r, e) \<Longrightarrow> length xs < 2 ^ 63 \<Longrightarrow>
   \<exists>t. xs = concat (map (\<lambda>(c, d). mk_frame c d) ms) @ t \<and> (if e then r = [] else t = r)"
proof (induction xs arbitrary: ms rule: split_frames_induct)
  case (waits xs)
  then show ?case by (auto simp: split_frames_wait)
next
  case (bad xs)
  then show ?case by (auto simp: split_frames_bad)
next
  case (step xs)
  have len: "12 \<le> length xs" "frame_len xs \<le> length xs - 12"
    using step.hyps by (auto simp: frame_waits_def)
  have n: "frame_len xs = unat (dec32 (drop 8 xs))"
    unfolding frame_len_def
    by (rule size_of_sint_fits(1) [of _ "length xs - 12"]) (use len step.prems in \<open>auto simp: frame_len_def\<close>)
  obtain ms1 where rec: "split_frames (drop (frame_len xs + 12) xs) = (ms1, r, e)"
    and ms: "ms = (dec32 (drop 4 xs), take (frame_len xs) (drop 12 xs)) # ms1"
    using step.prems step.hyps by (auto simp: split_frames_step split: prod.splits)
  have "length (drop (frame_len xs + 12) xs) < 2 ^ 63" using step.prems(2) by simp
  from step.IH [OF rec this]
  obtain t where t: "drop (frame_len xs + 12) xs = concat (map (\<lambda>(c, d). mk_frame c d) ms1) @ t"
    "if e then r = [] else t = r" by blast
  have "xs = mk_frame (dec32 (drop 4 xs)) (take (frame_len xs) (drop 12 xs)) @ drop (frame_len xs + 12) xs"
    by (rule frame_at_front [OF len n]) (use step.hyps(2) in \<open>simp add: frame_good_def\<close>)
  then show ?case using t by (intro exI [of _ t]) (simp add: ms)
qed

section \<open>\<open>parse_loop\<close> refines the abstract parser\<close>

lemma CheckCheckSum_eq:
  assumes "n + 12 \<le> length buf" "n < 2 ^ 31"
  shows "CheckCheckSum (Some buf) (of_nat (n + 12)) =
    Some (add_bytes 0 (take (n + 8) (drop 4 buf)) = dec32 buf)"
proof -
  have u: "unat (of_nat (n + 12) :: u32) = n + 12"
    using assms(2) by (simp add: unsigned_of_nat take_bit_nat_eq_self_iff del: of_nat_add)
  have "(of_nat (n + 12) :: u32) - 4 = of_nat (n + 8)" by simp
  moreover have "unat (of_nat (n + 8) :: u32) = n + 8"
    using assms(2) by (simp add: unsigned_of_nat take_bit_nat_eq_self_iff del: of_nat_add)
  ultimately have u8: "unat ((of_nat (n + 12) :: u32) - 4) = n + 8" by (simp only:)
  have "\<not> (of_nat (n + 12) :: u32) < 12"
    using u by (simp add: word_less_nat_alt del: of_nat_add)
  then show ?thesis
    using assms(1) unfolding CheckCheckSum_def
    by (simp add: u8 rd32_def rd_bytes_def del: of_nat_add)
qed

lemma parse_loop_cases:
  fixes cb :: "'w \<Rightarrow> u32 \<Rightarrow> u32 \<Rightarrow> int \<Rightarrow> bytes \<Rightarrow> 'w option"
  assumes wf: "sb_wf b" and lt: "data_size b < 2 ^ 63"
  defines "xs \<equiv> sb_contents b"
  shows "frame_waits xs \<Longrightarrow> parse_loop cb b w = Some (b, w)"
    and "\<not> frame_waits xs \<Longrightarrow> \<not> frame_good xs \<Longrightarrow> parse_loop cb b w = Some (sb_empty b, w)"
    and "\<not> frame_waits xs \<Longrightarrow> frame_good xs \<Longrightarrow> parse_loop cb b w =
      (case cb w (dec32 (drop 4 xs)) 0 (int (frame_len xs)) (drop 12 (sb_data b)) of
         None \<Rightarrow> None
       | Some w' \<Rightarrow> parse_loop cb (sb_truncate b (frame_len xs + 12)) w')"
proof -
  obtain slack where d: "sb_data b = xs @ slack"
    using sb_data_contents [OF wf] xs_def by blast
  have l: "sb_length b = length xs" using wf by (simp add: sb_length_contents xs_def)
  have lx: "length xs < 2 ^ 63" using lt wf by (simp add: xs_def)
  have fl: "12 \<le> length xs \<Longrightarrow> size_of_int (sint (dec32 (drop 8 (sb_data b)))) = frame_len xs"
    by (simp add: frame_len_def d dec32_append)
  show "parse_loop cb b w = Some (b, w)" if "frame_waits xs"
    using that fl unfolding frame_waits_def by (subst parse_loop.simps) (auto simp: l Let_def)
  { assume nw: "\<not> frame_waits xs"
    then have len: "12 \<le> length xs" "frame_len xs \<le> length xs - 12" by (auto simp: frame_waits_def)
    have w8: "dec32 (drop 8 (sb_data b)) = dec32 (drop 8 xs)" using len by (simp add: d dec32_append)
    have n: "frame_len xs = unat (dec32 (drop 8 xs))" "unat (dec32 (drop 8 xs)) < 2 ^ 31"
      "sint (dec32 (drop 8 xs)) = int (frame_len xs)"
      using size_of_sint_fits [of "dec32 (drop 8 xs)" "length xs - 12"] len lx
      by (auto simp: frame_len_def)
    have chk: "CheckCheckSum (Some (sb_data b)) (of_int (int (frame_len xs)) + 12) = Some (frame_good xs)"
    proof -
      have "CheckCheckSum (Some (sb_data b)) (of_nat (frame_len xs + 12)) =
        Some (add_bytes 0 (take (frame_len xs + 8) (drop 4 (sb_data b))) = dec32 (sb_data b))"
        by (rule CheckCheckSum_eq) (use len n in \<open>auto simp: d\<close>)
      then show ?thesis using len by (simp add: frame_good_def d dec32_append)
    qed
    have d4: "dec32 (drop 4 (sb_data b)) = dec32 (drop 4 xs)" using len by (simp add: d dec32_append)
    have "size_of_int (int (frame_len xs)) = frame_len xs" using fl len n w8 by metis
    then have "parse_loop cb b w = (if frame_good xs then
        (case cb w (dec32 (drop 4 xs)) 0 (int (frame_len xs)) (drop 12 (sb_data b)) of
           None \<Rightarrow> None
         | Some w' \<Rightarrow> parse_loop cb (sb_truncate b (frame_len xs + 12)) w')
        else Some (sb_empty b, w))"
      using len chk unfolding parse_loop.simps [of cb b w] w8 n(3) d4 Let_def l
      by (simp split: option.splits) }
  then show "\<not> frame_waits xs \<Longrightarrow> \<not> frame_good xs \<Longrightarrow> parse_loop cb b w = Some (sb_empty b, w)"
    and "\<not> frame_waits xs \<Longrightarrow> frame_good xs \<Longrightarrow> parse_loop cb b w =
      (case cb w (dec32 (drop 4 xs)) 0 (int (frame_len xs)) (drop 12 (sb_data b)) of
         None \<Rightarrow> None
       | Some w' \<Rightarrow> parse_loop cb (sb_truncate b (frame_len xs + 12)) w')"
    by simp_all
qed

text \<open>A callback that reads no more than the message it is given, and its run over messages.\<close>

fun deliver :: "('w \<Rightarrow> u32 \<Rightarrow> bytes \<Rightarrow> 'w option) \<Rightarrow> 'w \<Rightarrow> (u32 \<times> bytes) list \<Rightarrow> 'w option" where
  "deliver f w [] = Some w"
| "deliver f w ((c, d) # ms) = (case f w c d of None \<Rightarrow> None | Some w' \<Rightarrow> deliver f w' ms)"

definition payload_callback ::
  "('w \<Rightarrow> u32 \<Rightarrow> bytes \<Rightarrow> 'w option) \<Rightarrow> 'w \<Rightarrow> u32 \<Rightarrow> u32 \<Rightarrow> int \<Rightarrow> bytes \<Rightarrow> 'w option" where
  "payload_callback f w cmd result len mem = f w cmd (take (nat len) mem)"

lemma parse_loop_refines:
  assumes "sb_wf b" "data_size b < 2 ^ 63" "split_frames (sb_contents b) = (ms, r, e)"
  shows "case deliver f w ms of
      None \<Rightarrow> parse_loop (payload_callback f) b w = None
    | Some w' \<Rightarrow> \<exists>b'. parse_loop (payload_callback f) b w = Some (b', w') \<and> sb_wf b' \<and>
        sb_contents b' = r \<and> step_size b' = step_size b"
  using assms
proof (induction "sb_contents b" arbitrary: b w ms rule: split_frames_induct)
  case waits
  then show ?case by (auto simp: split_frames_wait parse_loop_cases(1))
next
  case bad
  then show ?case using sb.clear_contents
    by (auto simp: split_frames_bad parse_loop_cases(2))
next
  case step
  let ?xs = "sb_contents b"
  obtain ms1 where rec: "split_frames (drop (frame_len ?xs + 12) ?xs) = (ms1, r, e)"
    and ms: "ms = (dec32 (drop 4 ?xs), take (frame_len ?xs) (drop 12 ?xs)) # ms1"
    using step.prems(3) step.hyps(1,2) by (auto simp: split_frames_step split: prod.splits)
  let ?b = "sb_truncate b (frame_len ?xs + 12)"
  have t: "sb_wf ?b" "sb_contents ?b = drop (frame_len ?xs + 12) ?xs"
    using sb.truncate_contents [OF step.prems(1)] by auto
  have sz: "data_size ?b < 2 ^ 63"
    using step.prems(2) by (simp add: sb_truncate_def Let_def less_imp_diff_less)
  obtain slack where d: "sb_data b = ?xs @ slack" using sb_data_contents [OF step.prems(1)] by blast
  have len: "12 \<le> length ?xs" "frame_len ?xs \<le> length ?xs - 12"
    using step.hyps(1) by (auto simp: frame_waits_def)
  have mem: "take (frame_len ?xs) (drop 12 (sb_data b)) = take (frame_len ?xs) (drop 12 ?xs)"
    using len by (simp add: d)
  note eq = parse_loop_cases(3) [OF step.prems(1,2) step.hyps(1,2), of "payload_callback f" w]
  show ?case
  proof (cases "f w (dec32 (drop 4 ?xs)) (take (frame_len ?xs) (drop 12 ?xs))")
    case None
    then show ?thesis by (simp add: eq ms payload_callback_def mem)
  next
    case (Some w')
    have "case deliver f w' ms1 of
        None \<Rightarrow> parse_loop (payload_callback f) ?b w' = None
      | Some w'' \<Rightarrow> \<exists>b'. parse_loop (payload_callback f) ?b w' = Some (b', w'') \<and> sb_wf b' \<and>
          sb_contents b' = r \<and> step_size b' = step_size ?b"
      by (rule step.hyps(3) [OF t(2) [symmetric] t(1) sz]) (use rec t(2) in simp)
    with Some show ?thesis by (simp add: eq ms payload_callback_def mem split: option.splits)
  qed
qed

section \<open>A connection: chunks of a stream\<close>

fun feed :: "('w \<Rightarrow> u32 \<Rightarrow> bytes \<Rightarrow> 'w option) \<Rightarrow> smart_buffer \<Rightarrow> 'w \<Rightarrow> bytes list \<Rightarrow> (smart_buffer \<times> 'w) option" where
  "feed f b w [] = Some (b, w)"
| "feed f b w (c # cs) =
     (case ParseSocketProtocol (payload_callback f) b c w of
        None \<Rightarrow> None
      | Some (b', w') \<Rightarrow> feed f b' w' cs)"

definition record_message ::
  "(u32 \<times> bytes) list \<Rightarrow> u32 \<Rightarrow> bytes \<Rightarrow> (u32 \<times> bytes) list option" where
  "record_message w cmd data = Some (w @ [(cmd, data)])"

definition buffer_room :: "smart_buffer \<Rightarrow> nat \<Rightarrow> bool" where
  "buffer_room b n \<longleftrightarrow> sb_wf b \<and> data_size b + n + step_size b < 2 ^ 31"

lemma deliver_append:
  "deliver f w (ms @ ms') = (case deliver f w ms of None \<Rightarrow> None | Some w' \<Rightarrow> deliver f w' ms')"
  by (induction f w ms rule: deliver.induct) (auto split: option.splits)

lemma deliver_record [simp]: "deliver record_message w ms = Some (w @ ms)"
proof (induction ms arbitrary: w)
  case (Cons m ms)
  then show ?case by (cases m) (simp add: record_message_def)
qed simp

lemma split_frames_rest_waits: "split_frames xs = (ms, r, False) \<Longrightarrow> frame_waits r"
proof (induction xs arbitrary: ms rule: split_frames_induct)
  case (waits xs)
  then show ?case by (simp add: split_frames_wait)
next
  case (bad xs)
  then show ?case by (simp add: split_frames_bad)
next
  case (step xs)
  then show ?case by (auto simp: split_frames_step split: prod.splits)
qed

lemma length_split_frames_rest: "split_frames xs = (ms, r, e) \<Longrightarrow> length r \<le> length xs"
proof (induction xs arbitrary: ms rule: split_frames_induct)
  case (waits xs)
  then show ?case by (simp add: split_frames_wait)
next
  case (bad xs)
  then show ?case by (simp add: split_frames_bad)
next
  case (step xs)
  then show ?case by (fastforce simp: split_frames_step split: prod.splits)
qed

lemma Parse_append:
  assumes "buffer_room b (length c)"
  obtains b1 where "sb_append b c = Some b1" "sb_wf b1" "sb_contents b1 = sb_contents b @ c"
    "step_size b1 = step_size b" "data_size b1 = data_size b + length c"
proof -
  have wf: "sb_wf b" "sb_fits b (length c)"
    using assms by (auto simp: buffer_room_def sb_fits_def)
  then obtain b1 where b1: "sb_append b c = Some b1" "sb_wf b1" "sb_contents b1 = sb_contents b @ c"
    using sb.append_ex by blast
  have "length (sb_contents b1) = length (sb_contents b) + length c" using b1(3) by simp
  then have "data_size b1 = data_size b + length c"
    unfolding length_sb_contents [OF b1(2)] length_sb_contents [OF wf(1)] .
  then show ?thesis
    using that b1 sb_append_wf_contents [OF wf(1) b1(1)] by blast
qed

lemma ParseSocketProtocol_split:
  assumes "buffer_room b (length c)" "split_frames (sb_contents b @ c) = (ms, r, e)"
    and "deliver f w ms = Some w'"
  shows "\<exists>b'. ParseSocketProtocol (payload_callback f) b c w = Some (b', w') \<and> sb_wf b' \<and>
    sb_contents b' = r \<and> step_size b' = step_size b \<and> data_size b' \<le> data_size b + length c"
proof -
  obtain b1 where b1: "sb_append b c = Some b1" "sb_wf b1" "sb_contents b1 = sb_contents b @ c"
    "step_size b1 = step_size b" "data_size b1 = data_size b + length c"
    using Parse_append [OF assms(1)] by blast
  have sz: "data_size b1 < 2 ^ 63" using assms(1) b1 by (simp add: buffer_room_def)
  from parse_loop_refines [OF b1(2) sz assms(2) [folded b1(3)], of f w] assms(3)
  obtain b' where b': "parse_loop (payload_callback f) b1 w = Some (b', w')" "sb_wf b'"
    "sb_contents b' = r" "step_size b' = step_size b" using b1 by auto
  have "data_size b' = length r" using b' by (metis length_sb_contents)
  then have "data_size b' \<le> data_size b + length c"
    using length_split_frames_rest [OF assms(2)] assms(1) by (simp add: buffer_room_def)
  with b1 b' show ?thesis by (simp add: ParseSocketProtocol_def)
qed

lemma feed_split:
  "buffer_room b (length (concat cs)) \<Longrightarrow> frame_waits (sb_contents b) \<Longrightarrow>
   split_frames (sb_contents b @ concat cs) = (ms, r, False) \<Longrightarrow> deliver f w ms = Some w' \<Longrightarrow>
   \<exists>b'. feed f b w cs = Some (b', w') \<and> sb_wf b' \<and> sb_contents b' = r"
proof (induction cs arbitrary: b w ms)
  case Nil
  then show ?case by (auto simp: split_frames_wait buffer_room_def)
next
  case (Cons c cs)
  obtain m1 r1 e1 where s1: "split_frames (sb_contents b @ c) = (m1, r1, e1)"
    by (cases "split_frames (sb_contents b @ c)") auto
  have e1: "\<not> e1"
    using split_frames_error_append [of "sb_contents b @ c" m1 r1 "concat cs"] s1 Cons.prems(3) by auto
  obtain m2 where s2: "split_frames (r1 @ concat cs) = (m2, r, False)" and ms: "ms = m1 @ m2"
    using split_frames_append [of "sb_contents b @ c" m1 r1 "concat cs"] s1 e1 Cons.prems(3)
    by (auto split: prod.splits)
  obtain w1 where w1: "deliver f w m1 = Some w1" "deliver f w1 m2 = Some w'"
    using Cons.prems(4) by (auto simp: ms deliver_append split: option.splits)
  have room: "buffer_room b (length c)" using Cons.prems(1) by (simp add: buffer_room_def)
  obtain b1 where b1: "ParseSocketProtocol (payload_callback f) b c w = Some (b1, w1)" "sb_wf b1"
    "sb_contents b1 = r1" "step_size b1 = step_size b" "data_size b1 \<le> data_size b + length c"
    using ParseSocketProtocol_split [OF room s1 w1(1)] by blast
  have "buffer_room b1 (length (concat cs))"
    using Cons.prems(1) b1 by (simp add: buffer_room_def)
  moreover have "frame_waits (sb_contents b1)"
    using split_frames_rest_waits s1 e1 b1(3) by auto
  ultimately show ?case
    using Cons.IH [of b1 m2 w1] s2 w1(2) b1 by simp
qed

lemma CProtocolParser_new_room: "n + 1024 < 2 ^ 31 \<Longrightarrow> buffer_room CProtocolParser_new n"
  by (simp add: buffer_room_def CProtocolParser_new_def) (simp add: sb_new_def)

lemma CProtocolParser_new_contents [simp]: "sb_contents CProtocolParser_new = []"
  by (simp add: CProtocolParser_new_def)

lemma frame_waits_Nil [simp]: "frame_waits []"
  by (simp add: frame_waits_def)

section \<open>Properties\<close>

text \<open>C14: Round trip of one frame. What \<open>MakeProtocolForSocket\<close> writes for a command and its
  data (into a buffer of the size \<open>CDevice::Send\<close> allocates), fed to a fresh parser, makes the
  callback run once, with that command and that data, and leaves the buffer empty.\<close>

theorem make_parse_roundtrip:
  assumes "length data + 12 + 1024 < 2 ^ 31" "length out = length data + 12"
  shows "\<exists>f b. MakeProtocolForSocket cmd (Some (data @ tail)) (of_nat (length data)) out
      = Some (f, of_nat (length data + 12)) \<and>
    ParseSocketProtocol (payload_callback record_message) CProtocolParser_new f []
      = Some (b, [(cmd, data)]) \<and> sb_contents b = []"
proof -
  have lt: "length data < 2 ^ 31" using assms(1) by simp
  have room: "buffer_room CProtocolParser_new (length (mk_frame cmd data))"
    using assms(1) by (intro CProtocolParser_new_room) simp
  have "split_frames (sb_contents CProtocolParser_new @ mk_frame cmd data) = ([(cmd, data)], [], False)"
    using split_frames_frame [OF lt, of cmd "[]"] by simp
  moreover have "deliver record_message [] [(cmd, data)] = Some [(cmd, data)]"
    by (simp only: deliver_record append_Nil)
  ultimately obtain b where
    "ParseSocketProtocol (payload_callback record_message) CProtocolParser_new (mk_frame cmd data) []
      = Some (b, [(cmd, data)])" "sb_contents b = []"
    using ParseSocketProtocol_split [OF room, of _ _ _ record_message "[]" "[(cmd, data)]"] by blast
  then show ?thesis using MakeProtocol_frame [OF lt assms(2), of cmd tail] by blast
qed

theorem make_parse_roundtrip_witness:
  "\<exists>f b. MakeProtocolForSocket 0x8001 (Some ''hi'') 2 (replicate 14 NUL) = Some (f, 14) \<and>
    ParseSocketProtocol (payload_callback record_message) CProtocolParser_new f []
      = Some (b, [(0x8001, ''hi'')]) \<and> sb_contents b = []"
  using make_parse_roundtrip [of "''hi''" "replicate 14 NUL" "0x8001" "[]"] by simp

text \<open>C1: Delivery does not depend on how TCP cuts the stream. When the chunks read from a
  connection together form a sequence of frames, the callback sees exactly the messages of those
  frames, in order, and nothing is left in the buffer.\<close>

theorem stream_delivery:
  assumes "concat chunks = concat (map (\<lambda>(c, d). mk_frame c d) ms)"
    and "length (concat chunks) + 1024 < 2 ^ 31"
  shows "\<exists>b. feed record_message CProtocolParser_new [] chunks = Some (b, ms) \<and> sb_contents b = []"
proof -
  have "length d < 2 ^ 31" if "(c, d) \<in> set ms" for c d
  proof -
    have "length (mk_frame c d) \<le> length (concat (map (\<lambda>(c, d). mk_frame c d) ms))"
      using that by (force simp: length_concat intro: member_le_sum_list)
    with assms show ?thesis by simp
  qed
  then have "split_frames (sb_contents CProtocolParser_new @ concat chunks) = (ms, [], False)"
    using split_frames_frames [of ms "[]"] assms(1) by auto
  from feed_split [OF CProtocolParser_new_room [OF assms(2)] _ this, of record_message "[]" ms]
  show ?thesis by auto
qed

theorem stream_delivery_witness:
  "\<exists>b. feed record_message CProtocolParser_new []
      [take 5 (mk_frame 0x8000 ''ab''), drop 5 (mk_frame 0x8000 ''ab'') @ mk_frame 0x8001 []]
    = Some (b, [(0x8000, ''ab''), (0x8001, [])]) \<and> sb_contents b = []"
  using stream_delivery [of "[take 5 (mk_frame 0x8000 ''ab''), drop 5 (mk_frame 0x8000 ''ab'') @ mk_frame 0x8001 []]"
      "[(0x8000, ''ab''), (0x8001, [])]"]
  by simp

text \<open>C19: Nothing is delivered that was not sent as a frame. Whatever bytes arrive, the messages
  handed to the callback are those of a sequence of frames with right checksums that the buffered
  and received bytes start with; the buffer keeps the rest, or is empty after a bad checksum.\<close>

theorem delivered_are_frames:
  assumes "buffer_room b (length c)"
  shows "\<exists>b' ms t. ParseSocketProtocol (payload_callback record_message) b c w = Some (b', w @ ms) \<and>
    sb_contents b @ c = concat (map (\<lambda>(c, d). mk_frame c d) ms) @ t \<and>
    (sb_contents b' = t \<or> sb_contents b' = [])"
proof -
  obtain ms r e where s: "split_frames (sb_contents b @ c) = (ms, r, e)"
    by (cases "split_frames (sb_contents b @ c)") auto
  have "length (sb_contents b @ c) < 2 ^ 63"
    using assms by (simp add: buffer_room_def)
  from split_frames_sound [OF s this] ParseSocketProtocol_split [OF assms s, of record_message w]
  show ?thesis by (metis deliver_record)
qed

theorem delivered_are_frames_witness:
  "\<exists>b' ms t. ParseSocketProtocol (payload_callback record_message) CProtocolParser_new ''junk'' []
      = Some (b', ms) \<and> ''junk'' = concat (map (\<lambda>(c, d). mk_frame c d) ms) @ t \<and>
    (sb_contents b' = t \<or> sb_contents b' = [])"
proof -
  have "buffer_room CProtocolParser_new (length ''junk'')"
    by (rule CProtocolParser_new_room) simp
  from delivered_are_frames [OF this, of "[]"] show ?thesis by simp
qed

text \<open>C20: A complete frame with a wrong checksum empties the whole buffer, the bytes behind the
  frame included, and the callback does not run.\<close>

theorem bad_checksum_drops_all:
  assumes "buffer_room b (length c)" "\<not> frame_waits (sb_contents b @ c)" "\<not> frame_good (sb_contents b @ c)"
  shows "\<exists>b'. ParseSocketProtocol (payload_callback f) b c w = Some (b', w) \<and> sb_contents b' = []"
  using ParseSocketProtocol_split [OF assms(1) split_frames_bad [OF assms(2,3)], of f w w] by auto

theorem bad_checksum_drops_all_witness:
  "\<exists>b'. ParseSocketProtocol (payload_callback record_message) CProtocolParser_new
      (enc32 1 @ enc32 0 @ enc32 0 @ mk_frame 1 ''ok'') [] = Some (b', []) \<and> sb_contents b' = []"
proof (rule bad_checksum_drops_all)
  let ?c = "enc32 1 @ enc32 0 @ enc32 0 @ mk_frame 1 ''ok''"
  show "buffer_room CProtocolParser_new (length ?c)"
    by (rule CProtocolParser_new_room) simp
  have n: "frame_len ?c = 0" by (simp add: frame_len_def size_of_int_def)
  then show "\<not> frame_waits (sb_contents CProtocolParser_new @ ?c)" by (simp add: frame_waits_def)
  have "char_of (0 :: nat) = NUL" by (simp add: char_of_def)
  then have "add_bytes 0 (enc32 0 @ enc32 0) = 0" by (simp add: enc32_def)
  then show "\<not> frame_good (sb_contents CProtocolParser_new @ ?c)"
    using n by (simp add: frame_good_def)
qed

text \<open>C35: A length field of \<open>2 ^ 31\<close> or more is a negative \<open>int\<close>, which the comparison with
  the buffer's \<open>size_t\<close> turns into a huge one. The parser then waits for ever: whatever else
  arrives on the connection is kept, and no callback runs again.\<close>

theorem negative_length_stalls:
  assumes "buffer_room b (length (concat chunks))" "12 \<le> length (sb_contents b)"
    and "2 ^ 31 \<le> unat (dec32 (drop 8 (sb_contents b)))"
  shows "\<exists>b'. feed f b w chunks = Some (b', w) \<and> sb_contents b' = sb_contents b @ concat chunks"
proof -
  have w: "frame_waits (sb_contents b @ ys)" if "length (sb_contents b @ ys) < 2 ^ 32" for ys
  proof -
    have "frame_len (sb_contents b @ ys) = 18446744069414584320 + unat (dec32 (drop 8 (sb_contents b)))"
      using size_of_sint_large [OF assms(3)] assms(2) by (simp add: frame_len_def dec32_append)
    moreover have "length (sb_contents b @ ys) < 4294967296" using that by simp
    ultimately show ?thesis unfolding frame_waits_def by linarith
  qed
  have len: "length (sb_contents b @ concat chunks) < 2 ^ 32"
    using assms(1) by (simp add: buffer_room_def)
  then have "frame_waits (sb_contents b)" using w [of "[]"] by simp
  from feed_split [OF assms(1) this split_frames_wait [OF w [OF len]], of f w w]
  show ?thesis by auto
qed

theorem negative_length_stalls_witness:
  "\<exists>b b' w. sb_append CProtocolParser_new (enc32 0 @ enc32 0x8001 @ enc32 0x80000000) = Some b \<and>
    feed record_message b [] [mk_frame 1 ''ok''] = Some (b', w) \<and> w = [] \<and>
    length (sb_contents b') = 26"
proof -
  let ?h = "enc32 0 @ enc32 0x8001 @ enc32 0x80000000"
  have "buffer_room CProtocolParser_new (length ?h)" by (rule CProtocolParser_new_room) simp
  then obtain b where b: "sb_append CProtocolParser_new ?h = Some b" "sb_wf b" "sb_contents b = ?h"
    "step_size b = step_size CProtocolParser_new"
    "data_size b = data_size CProtocolParser_new + length ?h"
    using Parse_append [of CProtocolParser_new ?h] by auto
  have "buffer_room b (length (concat [mk_frame 1 ''ok'']))"
    using b by (simp add: buffer_room_def CProtocolParser_new_def) (simp add: sb_new_def)
  from negative_length_stalls [OF this, of record_message "[]"] b(1,3) show ?thesis by auto
qed

end
