(* ===== verification/Net_Socket.thy ===== *)
theory Net_Socket
  imports Wire "HOL-Library.Multiset"
begin

text \<open>
  libEventMoudle: the worker pool (\<open>CThreadPool\<close>, \<open>CWorkerThread\<close>, the jobs of
  include/netJob.h), the listening socket with its connections and heartbeat counters
  (\<open>ServrSocket\<close>), the client socket (\<open>ClientSocket\<close>), the manager in front of them
  (\<open>CommonTCPManager\<close>) and the address values (\<open>CADDRINFO\<close>, \<open>sLink\<close>).

  libevent is not under src/. A callback of it is a function on the state; what libevent
  provides is an argument: the new \<open>bufferevent\<close> and timer, the bytes of the input buffer, the
  events, and \<open>wr\<close>, the result of \<open>bufferevent_write\<close> on the history of earlier writes. The
  callbacks run in the one thread of \<open>event_base_dispatch\<close>; jobs run in the worker threads. A
  mutex-protected section is one step; \<open>Server_Locks\<close> is about the mutexes themselves.
\<close>

section \<open>The worker pool\<close>

datatype net_job =
    jobAccept (job_bev: ptr) (job_address: ptr) (job_owner: ptr)
  | jobRead (job_bev: ptr) (job_address: ptr) (job_owner: ptr) (job_data: bytes)
  | jobClose (job_address: ptr) (job_owner: ptr)

type_synonym pool = "net_job list list"

definition addJob :: "net_job \<Rightarrow> net_job list \<Rightarrow> net_job list" where
  "addJob job jobList = jobList @ [job]"

text \<open>\<open>getJob\<close> waits while the list is empty, which is the result \<open>None\<close>.\<close>

fun getJob :: "net_job list \<Rightarrow> (net_job \<times> net_job list) option" where
  "getJob [] = None"
| "getJob (job # jobList) = Some (job, jobList)"

definition CThreadPool_new :: "int \<Rightarrow> pool option" where
  "CThreadPool_new initnum =
     (if 0 < initnum \<and> initnum \<le> 30 then Some (replicate (nat initnum) []) else None)"

definition pool_Run :: "net_job \<Rightarrow> nat \<Rightarrow> pool \<Rightarrow> pool" where
  "pool_Run job index vWork =
     (let w = index mod length vWork in vWork[w := addJob job (vWork ! w)])"

text \<open>One turn of the loop of \<open>CWorkerThread::Run\<close>: the job a worker takes.\<close>

definition worker_turn :: "nat \<Rightarrow> pool \<Rightarrow> (net_job \<times> pool) option" where
  "worker_turn w vWork =
     (if w < length vWork
      then (case getJob (vWork ! w) of
              None \<Rightarrow> None
            | Some (job, rest) \<Rightarrow> Some (job, vWork[w := rest]))
      else None)"

text \<open>What the server relies on of the pool: jobs submitted under the same index reach the same
  worker and are taken in the order of submission.\<close>

locale worker_pool =
  fixes submit :: "'j \<Rightarrow> nat \<Rightarrow> 'p \<Rightarrow> 'p"
    and fetch :: "nat \<Rightarrow> 'p \<Rightarrow> ('j \<times> 'p) option"
    and lane :: "nat \<Rightarrow> 'p \<Rightarrow> nat"
    and pending :: "'p \<Rightarrow> nat \<Rightarrow> 'j list"
    and ok :: "'p \<Rightarrow> bool"
  assumes submit_pending: "ok p \<Longrightarrow>
      pending (submit j k p) w = pending p w @ (if w = lane k p then [j] else [])"
    and submit_lane: "lane i (submit j k p) = lane i p"
    and submit_ok: "ok p \<Longrightarrow> ok (submit j k p)"
    and fetch_pending: "fetch w p = Some (j, p') \<Longrightarrow>
      pending p v = (if v = w then [j] else []) @ pending p' v"
    and fetch_lane: "fetch w p = Some (j, p') \<Longrightarrow> lane i p' = lane i p"
    and fetch_ok: "ok p \<Longrightarrow> fetch w p = Some (j, p') \<Longrightarrow> ok p'"
begin

text \<open>A run is a sequence of submissions (job, index) and fetches (worker); it yields the jobs
  fetched with the worker that took them.\<close>

fun run :: "('j \<times> nat + nat) list \<Rightarrow> 'p \<Rightarrow> (nat \<times> 'j) list \<times> 'p" where
  "run [] p = ([], p)"
| "run (Inl (j, k) # es) p = run es (submit j k p)"
| "run (Inr w # es) p =
     (case fetch w p of
        None \<Rightarrow> run es p
      | Some (j, p') \<Rightarrow> (let (out, p'') = run es p' in ((w, j) # out, p'')))"

fun submitted :: "('j \<times> nat + nat) list \<Rightarrow> 'p \<Rightarrow> nat \<Rightarrow> 'j list" where
  "submitted [] p w = []"
| "submitted (Inl (j, k) # es) p w = (if w = lane k p then [j] else []) @ submitted es p w"
| "submitted (Inr v # es) p w = submitted es p w"

lemma submitted_lane: "(\<And>i. lane i q = lane i p) \<Longrightarrow> submitted es q w = submitted es p w"
  by (induction es q w rule: submitted.induct) auto

lemma run_fifo:
  "ok p \<Longrightarrow> run es p = (out, q) \<Longrightarrow>
   map snd (filter (\<lambda>e. fst e = w) out) @ pending q w = pending p w @ submitted es p w"
proof (induction es p arbitrary: out rule: run.induct)
  case (1 p)
  then show ?case by simp
next
  case (2 j k es p)
  have "submitted es (submit j k p) w = submitted es p w"
    by (rule submitted_lane) (simp add: submit_lane)
  with 2 show ?case by (simp add: submit_pending submit_ok)
next
  case (3 v es p)
  show ?case
  proof (cases "fetch v p")
    case None
    with 3 show ?thesis by simp
  next
    case (Some jp)
    obtain j p' where f: "fetch v p = Some (j, p')" using Some by (cases jp) simp
    obtain out' where r: "run es p' = (out', q)" "out = (v, j) # out'"
      using 3(4) f by (auto split: prod.splits)
    have "submitted es p' w = submitted es p w"
      by (rule submitted_lane) (simp add: fetch_lane [OF f])
    moreover have "map snd (filter (\<lambda>e. fst e = w) out') @ pending q w
        = pending p' w @ submitted es p' w"
      using 3(2) [OF f refl] fetch_ok [OF 3(3) f] r(1) by simp
    ultimately show ?thesis using fetch_pending [OF f, of w] r(2) by (cases "w = v") auto
  qed
qed

end

definition pool_lane :: "nat \<Rightarrow> pool \<Rightarrow> nat" where
  "pool_lane k p = k mod length p"

definition pool_pending :: "pool \<Rightarrow> nat \<Rightarrow> net_job list" where
  "pool_pending p w = (if w < length p then p ! w else [])"

lemma length_pool_Run [simp]: "length (pool_Run j k p) = length p"
  by (simp add: pool_Run_def Let_def)

lemma worker_turn_Some:
  "worker_turn w p = Some (j, p') \<longleftrightarrow>
   w < length p \<and> (\<exists>js. p ! w = j # js \<and> p' = p[w := js])"
  by (cases "p ! w") (auto simp: worker_turn_def)

interpretation wp: worker_pool pool_Run worker_turn pool_lane pool_pending "\<lambda>p. p \<noteq> []"
proof
  fix p :: pool and j k w
  assume "p \<noteq> []"
  then have "k mod length p < length p" by simp
  then show "pool_pending (pool_Run j k p) w =
      pool_pending p w @ (if w = pool_lane k p then [j] else [])"
    by (auto simp: pool_pending_def pool_Run_def pool_lane_def Let_def addJob_def nth_list_update)
  show "pool_Run j k p \<noteq> []" using \<open>p \<noteq> []\<close> by (metis length_0_conv length_pool_Run)
next
  fix w p j p' v assume "worker_turn w p = Some (j, p')"
  then show "pool_pending p v = (if v = w then [j] else []) @ pool_pending p' v"
    by (auto simp: worker_turn_Some pool_pending_def nth_list_update)
qed (auto simp: pool_lane_def worker_turn_Some)

section \<open>Address values\<close>

record addrinfo =
  m_pszIP :: bytes
  m_nPort :: int

definition IP_LEN :: nat where "IP_LEN = 50"

text \<open>\<open>memcpy(dst, src, strlen(src) + 1)\<close> into an array: \<open>None\<close> when it does not fit.\<close>

definition copy_str :: "bytes \<Rightarrow> bytes \<Rightarrow> bytes option" where
  "copy_str dst src = blit dst 0 (c_str src @ [NUL])"

definition CADDRINFO_default :: addrinfo where
  "CADDRINFO_default = \<lparr>m_pszIP = replicate IP_LEN NUL, m_nPort = - 1\<rparr>"

text \<open>The two other constructors leave the rest of the array as it was: \<open>junk\<close>.\<close>

definition CADDRINFO_new :: "bytes \<Rightarrow> bytes \<Rightarrow> int \<Rightarrow> addrinfo option" where
  "CADDRINFO_new junk pszIP nPort = do {
     ip \<leftarrow> copy_str junk pszIP;
     Some \<lparr>m_pszIP = ip, m_nPort = nPort\<rparr>
   }"

definition CADDRINFO_copy :: "bytes \<Rightarrow> addrinfo \<Rightarrow> addrinfo option" where
  "CADDRINFO_copy junk target = CADDRINFO_new junk (m_pszIP target) (m_nPort target)"

definition SetIPAddr :: "addrinfo \<Rightarrow> bytes \<Rightarrow> (addrinfo \<times> int) option" where
  "SetIPAddr a ipTemp = do {
     ip \<leftarrow> copy_str (m_pszIP a) ipTemp;
     Some (a\<lparr>m_pszIP := ip\<rparr>, 0)
   }"

definition SetPortAddr :: "addrinfo \<Rightarrow> int \<Rightarrow> addrinfo \<times> int" where
  "SetPortAddr a port = (a\<lparr>m_nPort := port\<rparr>, 0)"

definition addrinfo_assign :: "addrinfo \<Rightarrow> addrinfo \<Rightarrow> addrinfo option" where
  "addrinfo_assign a target = do {
     ip \<leftarrow> copy_str (m_pszIP a) (m_pszIP target);
     Some \<lparr>m_pszIP = ip, m_nPort = m_nPort target\<rparr>
   }"

definition addrinfo_eq :: "addrinfo \<Rightarrow> addrinfo \<Rightarrow> int" where
  "addrinfo_eq a target =
     (let n = length (c_str (m_pszIP target)) + 1 in
      if take n (m_pszIP a) = take n (m_pszIP target) \<and> m_nPort a = m_nPort target then 1 else 0)"

record slink =
  sl_fd :: int
  m_RemoteAddr :: addrinfo

definition slink_eq :: "slink \<Rightarrow> slink \<Rightarrow> bool" where
  "slink_eq a target \<longleftrightarrow>
     sl_fd a = sl_fd target \<and> addrinfo_eq (m_RemoteAddr a) (m_RemoteAddr target) \<noteq> 0"

definition slink_assign :: "slink \<Rightarrow> slink \<Rightarrow> slink option" where
  "slink_assign a target = do {
     r \<leftarrow> addrinfo_assign (m_RemoteAddr a) (m_RemoteAddr target);
     Some \<lparr>sl_fd = sl_fd target, m_RemoteAddr = r\<rparr>
   }"

lemma c_str_copy_str: "copy_str dst src = Some ip \<Longrightarrow> c_str ip = c_str src"
  by (auto simp: copy_str_def blit_def c_str_append_NUL split: if_splits)

lemma length_copy_str: "copy_str dst src = Some ip \<Longrightarrow> length ip = length dst"
  by (auto simp: copy_str_def blit_def split: if_splits)

section \<open>The state of the network layer\<close>

record servr_socket =
  bufMap :: "(ptr \<times> ptr) list"
  mCounter :: "(ptr \<times> int) list"
  m_LocalAddr :: addrinfo

record client_socket =
  cs_bev :: ptr
  cs_remote :: addrinfo

text \<open>\<open>srv_owner\<close> is the static \<open>ServrSocket::owner\<close>. \<open>bus_mem\<close> holds the
  \<open>BUS_ADDRESS\<close> objects, which the server never frees. Of libevent: the descriptor of each
  \<open>bufferevent\<close>, the timers that are pending and what was handed to \<open>bufferevent_write\<close>
  successfully.\<close>

record net =
  tPool :: pool
  ServrSocketList :: "servr_socket list"
  ClientSocketList :: "client_socket list"
  srv_owner :: ptr
  bus_mem :: "ptr \<Rightarrow> bus_address"
  bev_fd :: "ptr \<Rightarrow> nat"
  armed :: "ptr list"
  sent :: "(ptr \<times> bytes) list"

type_synonym write_rc = "(ptr \<times> bytes) list \<Rightarrow> ptr \<Rightarrow> bytes \<Rightarrow> int"

text \<open>\<open>Signel_connect_param\<close>: what every callback of a connection is given. \<open>cp_sock\<close> is
  the position of the listening socket in the manager's list.\<close>

record connect_param =
  cp_address :: ptr
  cp_sock :: nat
  cp_bev :: ptr

definition servr :: "net \<Rightarrow> nat \<Rightarrow> servr_socket" where
  "servr n i = ServrSocketList n ! i"

definition upd_servr :: "nat \<Rightarrow> (servr_socket \<Rightarrow> servr_socket) \<Rightarrow> net \<Rightarrow> net" where
  "upd_servr i f n = n\<lparr>ServrSocketList := (ServrSocketList n)[i := f (ServrSocketList n ! i)]\<rparr>"

definition AddJobToPool :: "net_job \<Rightarrow> nat \<Rightarrow> net \<Rightarrow> net" where
  "AddJobToPool job index n = n\<lparr>tPool := pool_Run job index (tPool n)\<rparr>"

section \<open>The listening socket\<close>

definition bufMapAddBuf :: "ptr \<Rightarrow> ptr \<Rightarrow> servr_socket \<Rightarrow> servr_socket" where
  "bufMapAddBuf bev timeout s = s\<lparr>bufMap := om_insert bev timeout (bufMap s)\<rparr>"

definition bufMapDeleteBuf :: "connect_param \<Rightarrow> net \<Rightarrow> bool \<times> net" where
  "bufMapDeleteBuf param n =
     (let i = cp_sock param; bev = cp_bev param in
      case om_find bev (bufMap (servr n i)) of
        None \<Rightarrow> (False, n)
      | Some timeout \<Rightarrow>
          let n1 = AddJobToPool (jobClose (cp_address param) (srv_owner n)) (bev_fd n bev) n;
              n2 = (if om_find bev (mCounter (servr n1 i)) \<noteq> None
                    then upd_servr i (\<lambda>s. s\<lparr>mCounter := om_erase bev (mCounter s)\<rparr>) n1 else n1);
              n3 = n2\<lparr>armed := removeAll timeout (armed n2)\<rparr>;
              n4 = upd_servr i (\<lambda>s. s\<lparr>bufMap := om_erase bev (bufMap s)\<rparr>) n3
          in (True, n4))"

definition bufSend :: "write_rc \<Rightarrow> nat \<Rightarrow> ptr \<Rightarrow> bytes \<Rightarrow> net \<Rightarrow> int \<times> net" where
  "bufSend wr i bev data n =
     (if om_find bev (bufMap (servr n i)) \<noteq> None
      then (let rc = wr (sent n) bev data in
            (rc, if rc = 0 then n\<lparr>sent := sent n @ [(bev, data)]\<rparr> else n))
      else (- 1, n))"

definition server_address :: "bytes \<Rightarrow> u32 \<Rightarrow> bus_address" where
  "server_address ip port =
     \<lparr>ba_size = 84, bus_address_type = 2, model_type = TCP_SERVER_MODE,
      ba_host = \<lparr>ha_size = 72, ha_ip = ip, ha_port = port\<rparr>\<rparr>"

text \<open>\<open>accept_conn_cb\<close>: \<open>addr\<close>, \<open>bev\<close> and \<open>timeout\<close> are the new objects, \<open>ip\<close> the
  64 bytes read from \<open>inet_ntoa\<close>'s static buffer, \<open>port\<close> the peer's port.\<close>

definition accept_conn_cb :: "nat \<Rightarrow> nat \<Rightarrow> bytes \<Rightarrow> u32 \<Rightarrow> ptr \<Rightarrow> ptr \<Rightarrow> ptr \<Rightarrow> net \<Rightarrow> connect_param \<times> net" where
  "accept_conn_cb pSock fd ip port addr bev timeout n =
     (let n1 = n\<lparr>bus_mem := (bus_mem n)(addr := server_address ip port),
                 bev_fd := (bev_fd n)(bev := fd)\<rparr>;
          param = \<lparr>cp_address = addr, cp_sock = pSock, cp_bev = bev\<rparr>;
          n2 = upd_servr pSock (\<lambda>s. s\<lparr>mCounter := om_set bev 0 (mCounter s)\<rparr>) n1;
          n3 = n2\<lparr>armed := timeout # armed n2\<rparr>;
          n4 = upd_servr pSock (bufMapAddBuf bev timeout) n3
      in (param, AddJobToPool (jobAccept bev addr (srv_owner n4)) fd n4))"

definition read_cb :: "connect_param \<Rightarrow> bytes \<Rightarrow> net \<Rightarrow> net" where
  "read_cb param input n =
     (let bev = cp_bev param;
          n1 = upd_servr (cp_sock param) (\<lambda>s. s\<lparr>mCounter := om_set bev 0 (mCounter s)\<rparr>) n
      in AddJobToPool (jobRead bev (cp_address param) (srv_owner n1) input) (bev_fd n1 bev) n1)"

definition BEV_EVENT_EOF :: "16 word" where "BEV_EVENT_EOF = 0x10"
definition BEV_EVENT_ERROR :: "16 word" where "BEV_EVENT_ERROR = 0x20"
definition BEV_EVENT_CONNECTED :: "16 word" where "BEV_EVENT_CONNECTED = 0x80"

definition event_cb :: "connect_param \<Rightarrow> 16 word \<Rightarrow> net \<Rightarrow> net" where
  "event_cb param events n =
     (if and events BEV_EVENT_ERROR \<noteq> 0 then snd (bufMapDeleteBuf param n)
      else if and events BEV_EVENT_EOF \<noteq> 0 then snd (bufMapDeleteBuf param n)
      else n)"

text \<open>The sixteen bytes \<open>timer_cb\<close> writes.\<close>

definition heartbeat_frame :: "int \<Rightarrow> bytes" where
  "heartbeat_frame seconds =
     (let body = enc32 WIS_CMD_HEART_BEAT @ enc32 4 @ enc32 (word_of_int seconds) in
      enc32 (add_bytes 0 body) @ body)"

definition timer_cb :: "write_rc \<Rightarrow> int \<Rightarrow> connect_param \<Rightarrow> net \<Rightarrow> net" where
  "timer_cb wr seconds param n =
     (let i = cp_sock param; bev = cp_bev param in
      case om_find bev (mCounter (servr n i)) of
        None \<Rightarrow> n
      | Some c \<Rightarrow>
          let n1 = upd_servr i (\<lambda>s. s\<lparr>mCounter := om_set bev (c + 1) (mCounter s)\<rparr>) n in
          if c + 1 > 4 then snd (bufMapDeleteBuf param n1)
          else snd (bufSend wr i bev (heartbeat_frame seconds) n1))"

section \<open>The manager\<close>

definition CommonTCPManager_new :: "net option" where
  "CommonTCPManager_new = do {
     pool \<leftarrow> CThreadPool_new 20;
     Some \<lparr>tPool = pool, ServrSocketList = [], ClientSocketList = [], srv_owner = 0,
           bus_mem = (\<lambda>_. server_address [] 0), bev_fd = (\<lambda>_. 0), armed = [], sent = []\<rparr>
   }"

text \<open>The constructor of \<open>ServrSocket\<close> sets the static owner.\<close>

definition BeginServer :: "addrinfo \<Rightarrow> ptr \<Rightarrow> net \<Rightarrow> int \<times> net" where
  "BeginServer serAddr pSocketOwner n =
     (1, n\<lparr>srv_owner := pSocketOwner,
           ServrSocketList := ServrSocketList n @ [\<lparr>bufMap = [], mCounter = [], m_LocalAddr = serAddr\<rparr>]\<rparr>)"

definition ConnectServer :: "addrinfo \<Rightarrow> int \<Rightarrow> int \<Rightarrow> net \<Rightarrow> int \<times> net" where
  "ConnectServer serAddr bLongConnect nTimeOut n =
     (1, n\<lparr>ClientSocketList := ClientSocketList n @ [\<lparr>cs_bev = 0, cs_remote = serAddr\<rparr>]\<rparr>)"

fun send_from :: "write_rc \<Rightarrow> nat list \<Rightarrow> ptr \<Rightarrow> bytes \<Rightarrow> net \<Rightarrow> bool \<times> net" where
  "send_from wr [] handle pData n = (False, n)"
| "send_from wr (i # is) handle pData n =
     (case bufSend wr i handle pData n of
        (rc, n') \<Rightarrow> if rc = 0 then (True, n') else send_from wr is handle pData n')"

definition manager_Send :: "write_rc \<Rightarrow> ptr \<Rightarrow> bytes \<Rightarrow> net \<Rightarrow> bool \<times> net" where
  "manager_Send wr handle pData n = send_from wr [0..<length (ServrSocketList n)] handle pData n"

definition CloseConnection :: "ptr \<Rightarrow> net \<Rightarrow> int" where
  "CloseConnection dwHandle n = - 1"

section \<open>Starting the sockets\<close>

text \<open>The results of the system calls of \<open>startServrThread\<close> and \<open>startClientThread\<close>, in the
  order of the calls; what a start ends with, and the descriptor it leaves open.\<close>

record sys_results =
  rc_aton :: int
  rc_socket :: int
  rc_nonblock :: int
  rc_cloexec :: int
  rc_reuse :: int
  rc_keepalive :: int
  rc_nodelay :: int
  rc_sndbuf :: int
  rc_bind :: int
  rc_listener :: bool
  rc_connect :: int

datatype start_error = Bad_address | No_socket | No_nonblock | No_cloexec | No_reuse
  | No_keepalive | No_nodelay | No_sndbuf | No_bind | No_listener | No_connect

datatype start_result =
    Thread_exit start_error (open_fd: "int option")
  | Process_exit
  | Dispatching int

definition startServrThread :: "sys_results \<Rightarrow> start_result" where
  "startServrThread r =
     (if rc_aton r = 0 then Thread_exit Bad_address None
      else let fd = rc_socket r in
      if fd = - 1 then Thread_exit No_socket None
      else if rc_nonblock r < 0 then Thread_exit No_nonblock None
      else if rc_cloexec r < 0 then Thread_exit No_cloexec None
      else if rc_reuse r < 0 then Thread_exit No_reuse None
      else if rc_keepalive r < 0 then Thread_exit No_keepalive None
      else if rc_nodelay r < 0 then Thread_exit No_nodelay None
      else if rc_sndbuf r < 0 then Thread_exit No_sndbuf None
      else if rc_bind r < 0 then Thread_exit No_bind (Some fd)
      else if \<not> rc_listener r then Thread_exit No_listener (Some fd)
      else Dispatching fd)"

definition startClientThread :: "sys_results \<Rightarrow> start_result" where
  "startClientThread r =
     (if rc_aton r = 0 then Process_exit
      else let iSockFd = rc_socket r in
      if iSockFd = - 1 then Thread_exit No_socket None
      else if rc_nonblock r < 0 then Thread_exit No_nonblock None
      else if rc_cloexec r < 0 then Thread_exit No_cloexec None
      else if rc_keepalive r < 0 then Thread_exit No_keepalive None
      else if rc_nodelay r < 0 then Thread_exit No_nodelay None
      else if rc_sndbuf r < 0 then Thread_exit No_sndbuf None
      else if rc_connect r < 0 then Thread_exit No_connect None
      else Dispatching iSockFd)"

section \<open>The client socket\<close>

text \<open>The client's callbacks call their owner directly: the calls, and whether the
  \<open>bufferevent\<close> is freed.\<close>

datatype owner_call =
    Call_OnCmdCome ptr bytes ptr
  | Call_OnConnect ptr int ptr
  | Call_OnClose ptr

definition client_read_cb :: "ptr \<Rightarrow> bytes \<Rightarrow> ptr \<Rightarrow> owner_call list" where
  "client_read_cb bev input ctx = [Call_OnCmdCome bev input ctx]"

definition client_event_cb :: "ptr \<Rightarrow> 16 word \<Rightarrow> ptr \<Rightarrow> owner_call list \<times> bool" where
  "client_event_cb bev events ctx =
     (if and events BEV_EVENT_CONNECTED \<noteq> 0 then [Call_OnConnect bev 0 ctx] else [],
      and events BEV_EVENT_ERROR \<noteq> 0 \<or> and events BEV_EVENT_EOF \<noteq> 0)"

text \<open>The address the client thread hands to its callbacks; \<open>ip_mem\<close> is the memory from the
  start of \<open>m_pszIP\<close> on, of which 64 bytes are read although the array has 50.\<close>

definition client_address :: "bytes \<Rightarrow> int \<Rightarrow> bus_address option" where
  "client_address ip_mem port = do {
     ip \<leftarrow> rd_bytes ip_mem 0 HOST_NAME_LENGTH;
     Some \<lparr>ba_size = 84, bus_address_type = 2, model_type = TCP_CLIENT_MODE,
           ba_host = \<lparr>ha_size = 72, ha_ip = ip, ha_port = word_of_int port\<rparr>\<rparr>
   }"

text \<open>The events of the loop of \<open>startClientThread\<close>. A \<open>bufferevent\<close> that was freed has no more of them, so
  \<open>event_base_dispatch\<close> returns; then the owner is told, and the socket and the address are deleted. The
  result tells whether this happened.\<close>

datatype client_event = Readable bytes | Event "16 word"

fun client_dispatch :: "ptr \<Rightarrow> ptr \<Rightarrow> client_event list \<Rightarrow> owner_call list \<times> bool" where
  "client_dispatch bev ctx [] = ([], False)"
| "client_dispatch bev ctx (Readable input # es) =
     (case client_dispatch bev ctx es of (calls, over) \<Rightarrow> (client_read_cb bev input ctx @ calls, over))"
| "client_dispatch bev ctx (Event events # es) =
     (let (calls, freed) = client_event_cb bev events ctx; (calls', over) = client_dispatch bev ctx es in
      if freed then (calls, True) else (calls @ calls', over))"

definition client_thread :: "ptr \<Rightarrow> ptr \<Rightarrow> client_event list \<Rightarrow> owner_call list \<times> bool" where
  "client_thread bev ctx es =
     (case client_dispatch bev ctx es of (calls, over) \<Rightarrow> (if over then calls @ [Call_OnClose ctx] else calls, over))"

text \<open>\<open>closeClient\<close> frees the \<open>bufferevent\<close>; \<open>live\<close> are those that exist.\<close>

definition closeClient :: "ptr set \<Rightarrow> client_socket \<Rightarrow> ptr set option" where
  "closeClient live c = (if cs_bev c \<in> live then Some (live - {cs_bev c}) else None)"

text \<open>The owner of a client socket learns of the close once, at the end, when an error or the end of the input was
  reported, and never otherwise.\<close>

lemma client_dispatch_calls: "client_dispatch bev ctx es = (calls, over) \<Longrightarrow> Call_OnClose ctx \<notin> set calls"
  by (induction bev ctx es arbitrary: calls rule: client_dispatch.induct)
    (auto simp: client_read_cb_def client_event_cb_def split: prod.splits if_splits)

lemma client_dispatch_over: "snd (client_dispatch bev ctx es) \<longleftrightarrow> (\<exists>ev. Event ev \<in> set es \<and> snd (client_event_cb bev ev ctx))"
proof (induction es)
  case (Cons e es)
  then show ?case by (cases e) (auto simp: Let_def split_beta)
qed simp

lemma client_closed_once:
  "client_thread bev ctx es = (calls, over) \<Longrightarrow>
    count_list calls (Call_OnClose ctx) = (if \<exists>ev. Event ev \<in> set es \<and> snd (client_event_cb bev ev ctx) then 1 else 0)"
  using client_dispatch_calls [of bev ctx es] client_dispatch_over [of bev ctx es]
  by (auto simp: client_thread_def count_list_0_iff split: prod.splits if_splits)

section \<open>How the operations change the state\<close>

lemma servr_upd [frame_simps]:
  "servr (upd_servr i f n) j = (if j = i \<and> i < length (ServrSocketList n) then f (servr n j) else servr n j)"
  by (cases "i < length (ServrSocketList n)") (auto simp: servr_def upd_servr_def nth_list_update list_update_beyond)

lemma upd_servr_simps [simp]:
  "length (ServrSocketList (upd_servr i f n)) = length (ServrSocketList n)"
  "tPool (upd_servr i f n) = tPool n" "bev_fd (upd_servr i f n) = bev_fd n"
  "bus_mem (upd_servr i f n) = bus_mem n" "srv_owner (upd_servr i f n) = srv_owner n"
  "armed (upd_servr i f n) = armed n" "sent (upd_servr i f n) = sent n"
  "ClientSocketList (upd_servr i f n) = ClientSocketList n"
  by (simp_all add: upd_servr_def)

lemma AddJobToPool_simps [simp]:
  "servr (AddJobToPool j k n) = servr n" "ServrSocketList (AddJobToPool j k n) = ServrSocketList n"
  "tPool (AddJobToPool j k n) = pool_Run j k (tPool n)" "bev_fd (AddJobToPool j k n) = bev_fd n"
  "bus_mem (AddJobToPool j k n) = bus_mem n" "srv_owner (AddJobToPool j k n) = srv_owner n"
  "armed (AddJobToPool j k n) = armed n" "sent (AddJobToPool j k n) = sent n"
  by (auto simp: AddJobToPool_def servr_def)

lemma servr_other [simp]:
  "servr (n\<lparr>armed := a\<rparr>) = servr n" "servr (n\<lparr>sent := x\<rparr>) = servr n"
  "servr (n\<lparr>bus_mem := m\<rparr>) = servr n" "servr (n\<lparr>bev_fd := g\<rparr>) = servr n"
  by (auto simp: servr_def)

lemma bufMapDeleteBuf_gone:
  "om_find (cp_bev c) (bufMap (servr n (cp_sock c))) = None \<Longrightarrow> bufMapDeleteBuf c n = (False, n)"
  by (simp add: bufMapDeleteBuf_def)

lemma bufMapDeleteBuf_live:
  assumes "om_find (cp_bev c) (bufMap (servr n (cp_sock c))) = Some t"
    and "cp_sock c < length (ServrSocketList n)"
  shows "fst (bufMapDeleteBuf c n)"
    and "servr (snd (bufMapDeleteBuf c n)) j =
      (if j = cp_sock c then (servr n j)\<lparr>bufMap := om_erase (cp_bev c) (bufMap (servr n j)),
         mCounter := om_erase (cp_bev c) (mCounter (servr n j))\<rparr> else servr n j)"
    and "tPool (snd (bufMapDeleteBuf c n)) =
      pool_Run (jobClose (cp_address c) (srv_owner n)) (bev_fd n (cp_bev c)) (tPool n)"
    and "armed (snd (bufMapDeleteBuf c n)) = removeAll t (armed n)"
    and "length (ServrSocketList (snd (bufMapDeleteBuf c n))) = length (ServrSocketList n)"
    and "sent (snd (bufMapDeleteBuf c n)) = sent n"
    and "bev_fd (snd (bufMapDeleteBuf c n)) = bev_fd n"
    and "srv_owner (snd (bufMapDeleteBuf c n)) = srv_owner n"
    and "bus_mem (snd (bufMapDeleteBuf c n)) = bus_mem n"
proof -
  have e: "om_erase k m = m" if "om_find k m = None" for k and m :: "(ptr \<times> int) list"
    using that by (auto simp: om_erase_def om_find_None filter_id_conv rev_image_eqI)
  show "servr (snd (bufMapDeleteBuf c n)) j =
      (if j = cp_sock c then (servr n j)\<lparr>bufMap := om_erase (cp_bev c) (bufMap (servr n j)),
         mCounter := om_erase (cp_bev c) (mCounter (servr n j))\<rparr> else servr n j)"
    using assms by (auto simp: bufMapDeleteBuf_def Let_def frame_simps e)
qed (use assms in \<open>simp_all add: bufMapDeleteBuf_def Let_def\<close>)

lemma bufSend_cases:
  "bufSend wr i bev data n =
     (if om_find bev (bufMap (servr n i)) = None then (- 1, n)
      else if wr (sent n) bev data = 0 then (0, n\<lparr>sent := sent n @ [(bev, data)]\<rparr>)
      else (wr (sent n) bev data, n))"
  by (simp add: bufSend_def Let_def)

lemma bufSend_frame [simp]:
  "servr (snd (bufSend wr i bev data n)) = servr n"
  "ServrSocketList (snd (bufSend wr i bev data n)) = ServrSocketList n"
  "tPool (snd (bufSend wr i bev data n)) = tPool n"
  "armed (snd (bufSend wr i bev data n)) = armed n"
  "bev_fd (snd (bufSend wr i bev data n)) = bev_fd n"
  "srv_owner (snd (bufSend wr i bev data n)) = srv_owner n"
  "bus_mem (snd (bufSend wr i bev data n)) = bus_mem n"
  by (auto simp: bufSend_cases)

section \<open>The invariant of the connections\<close>

definition servr_inv :: "servr_socket \<Rightarrow> bool" where
  "servr_inv s \<longleftrightarrow> om_wf (bufMap s) \<and> om_wf (mCounter s) \<and>
     om.keys (mCounter s) = om.keys (bufMap s) \<and>
     (\<forall>bev c. om_find bev (mCounter s) = Some c \<longrightarrow> 0 \<le> c \<and> c \<le> 4)"

definition net_inv :: "net \<Rightarrow> bool" where
  "net_inv n \<longleftrightarrow> tPool n \<noteq> [] \<and> (\<forall>i < length (ServrSocketList n). servr_inv (servr n i))"

lemma servr_inv_count: "servr_inv s \<Longrightarrow> 0 \<le> c \<Longrightarrow> c \<le> 4 \<Longrightarrow> om_find bev (bufMap s) \<noteq> None \<Longrightarrow>
  servr_inv (s\<lparr>mCounter := om_set bev c (mCounter s)\<rparr>)"
  by (auto simp: servr_inv_def om.keys_set om.in_keys om.find_set insert_absorb)

lemma servr_inv_add: "servr_inv s \<Longrightarrow>
  servr_inv (bufMapAddBuf bev t (s\<lparr>mCounter := om_set bev 0 (mCounter s)\<rparr>))"
  by (auto simp: servr_inv_def bufMapAddBuf_def om.keys_set om.keys_ins om.find_set)

lemma servr_inv_erase:
  assumes "om_wf (bufMap s)" "om_wf (mCounter s)"
    and "insert bev (om.keys (mCounter s)) = insert bev (om.keys (bufMap s))"
    and "\<And>b c. b \<noteq> bev \<Longrightarrow> om_find b (mCounter s) = Some c \<Longrightarrow> 0 \<le> c \<and> c \<le> 4"
  shows "servr_inv (s\<lparr>bufMap := om_erase bev (bufMap s), mCounter := om_erase bev (mCounter s)\<rparr>)"
  using assms by (auto simp: servr_inv_def om.keys_erase om.find_erase)

lemma servr_inv_expired: "servr_inv s \<Longrightarrow>
  servr_inv (s\<lparr>bufMap := om_erase bev (bufMap s),
    mCounter := om_erase bev (om_set bev k (mCounter s))\<rparr>)"
  by (auto simp: servr_inv_def om.keys_erase om.keys_set om.find_erase om.find_set)

lemma net_inv_servr: "net_inv n \<Longrightarrow> i < length (ServrSocketList n) \<Longrightarrow> servr_inv (servr n i)"
  by (simp add: net_inv_def)

lemma net_inv_AddJob: "net_inv n \<Longrightarrow> net_inv (AddJobToPool j k n)"
  using wp.submit_ok by (simp add: net_inv_def)

lemma net_inv_upd:
  "net_inv n \<Longrightarrow> (i < length (ServrSocketList n) \<Longrightarrow> servr_inv (f (servr n i))) \<Longrightarrow> net_inv (upd_servr i f n)"
  by (auto simp: net_inv_def frame_simps)

lemma net_inv_close:
  assumes "net_inv n" "cp_sock c < length (ServrSocketList n)"
  shows "net_inv (snd (bufMapDeleteBuf c n))"
proof (cases "om_find (cp_bev c) (bufMap (servr n (cp_sock c)))")
  case None
  with assms show ?thesis by (simp add: bufMapDeleteBuf_gone)
next
  case (Some t)
  note live = bufMapDeleteBuf_live [OF Some assms(2)]
  have "servr_inv (servr n (cp_sock c))" using assms by (rule net_inv_servr)
  then have "servr_inv ((servr n (cp_sock c))\<lparr>bufMap := om_erase (cp_bev c) (bufMap (servr n (cp_sock c))),
         mCounter := om_erase (cp_bev c) (mCounter (servr n (cp_sock c)))\<rparr>)"
    by (intro servr_inv_erase) (auto simp: servr_inv_def)
  moreover have "tPool (snd (bufMapDeleteBuf c n)) \<noteq> []"
    using assms(1) wp.submit_ok by (simp add: live(3) net_inv_def)
  ultimately show ?thesis using assms(1) by (simp add: net_inv_def live)
qed

lemma net_inv_accept:
  assumes "net_inv n"
  shows "net_inv (snd (accept_conn_cb i fd ip port addr bev timeout n))"
proof -
  let ?n1 = "n\<lparr>bus_mem := (bus_mem n)(addr := server_address ip port), bev_fd := (bev_fd n)(bev := fd)\<rparr>"
  let ?n2 = "upd_servr i (\<lambda>s. s\<lparr>mCounter := om_set bev 0 (mCounter s)\<rparr>) ?n1"
  have "net_inv ?n1" using assms by (simp add: net_inv_def)
  then have "net_inv (upd_servr i (bufMapAddBuf bev timeout) (?n2\<lparr>armed := timeout # armed ?n2\<rparr>))"
    by (auto simp: net_inv_def frame_simps servr_inv_add)
  then show ?thesis by (simp add: accept_conn_cb_def Let_def net_inv_AddJob)
qed

lemma net_inv_read:
  assumes "net_inv n" "om_find (cp_bev c) (bufMap (servr n (cp_sock c))) \<noteq> None"
  shows "net_inv (read_cb c input n)"
  unfolding read_cb_def Let_def
  by (intro net_inv_AddJob net_inv_upd assms(1) servr_inv_count)
    (use assms in \<open>auto simp: net_inv_servr\<close>)

lemma net_inv_timer:
  assumes "net_inv n" "cp_sock c < length (ServrSocketList n)"
  shows "net_inv (timer_cb wr t c n)"
proof (cases "om_find (cp_bev c) (mCounter (servr n (cp_sock c)))")
  case None
  with assms show ?thesis by (simp add: timer_cb_def Let_def)
next
  case (Some k)
  note inv = net_inv_servr [OF assms]
  have live: "om_find (cp_bev c) (bufMap (servr n (cp_sock c))) \<noteq> None" and k: "0 \<le> k" "k \<le> 4"
    using inv Some by (auto simp: servr_inv_def om.keys_def set_eq_iff)
  let ?n1 = "upd_servr (cp_sock c) (\<lambda>s. s\<lparr>mCounter := om_set (cp_bev c) (k + 1) (mCounter s)\<rparr>) n"
  show ?thesis
  proof (cases "k + 1 > 4")
    case False
    then have "net_inv ?n1"
      using assms inv live k by (intro net_inv_upd servr_inv_count) auto
    then have "net_inv (snd (bufSend wr (cp_sock c) (cp_bev c) (heartbeat_frame t) ?n1))"
      by (simp add: net_inv_def)
    with False Some show ?thesis by (simp add: timer_cb_def Let_def)
  next
    case True
    obtain u where u: "om_find (cp_bev c) (bufMap (servr ?n1 (cp_sock c))) = Some u"
      using live assms(2) by (auto simp: frame_simps)
    have l: "cp_sock c < length (ServrSocketList ?n1)" using assms(2) by simp
    note D = bufMapDeleteBuf_live [OF u l]
    have "servr_inv (servr (snd (bufMapDeleteBuf c ?n1)) (cp_sock c))"
      unfolding D using assms(2) inv
      by (simp add: frame_simps servr_inv_expired)
    then have "net_inv (snd (bufMapDeleteBuf c ?n1))"
      using assms wp.submit_ok unfolding net_inv_def D by (auto simp: frame_simps)
    with True Some show ?thesis by (simp add: timer_cb_def Let_def)
  qed
qed

section \<open>Heartbeat timers and the jobs of a connection\<close>

definition writes_succeed :: "write_rc \<Rightarrow> bool" where
  "writes_succeed wr \<longleftrightarrow> (\<forall>h b d. wr h b d = 0)"

fun ticks :: "write_rc \<Rightarrow> connect_param \<Rightarrow> int list \<Rightarrow> net \<Rightarrow> net" where
  "ticks wr c [] n = n"
| "ticks wr c (t # ts) n = ticks wr c ts (timer_cb wr t c n)"

fun reads :: "connect_param \<Rightarrow> bytes list \<Rightarrow> net \<Rightarrow> net" where
  "reads c [] n = n"
| "reads c (x # xs) n = reads c xs (read_cb c x n)"

lemma timer_cb_counts:
  fixes t :: int and wr :: write_rc
  assumes "om_find (cp_bev c) (mCounter (servr n (cp_sock c))) = Some k" "k < 4"
    and "cp_sock c < length (ServrSocketList n)"
  defines "m \<equiv> timer_cb wr t c n"
  shows "om_find (cp_bev c) (mCounter (servr m (cp_sock c))) = Some (k + 1)"
    and "bufMap (servr m j) = bufMap (servr n j)"
    and "tPool m = tPool n" "armed m = armed n" "bev_fd m = bev_fd n" "srv_owner m = srv_owner n"
    and "length (ServrSocketList m) = length (ServrSocketList n)"
    and "writes_succeed wr \<Longrightarrow> om_find (cp_bev c) (bufMap (servr n (cp_sock c))) \<noteq> None \<Longrightarrow>
      sent m = sent n @ [(cp_bev c, heartbeat_frame t)]"
  using assms by (auto simp: timer_cb_def Let_def frame_simps om_lookup bufSend_cases [of wr] writes_succeed_def)

lemma ticks_count:
  fixes ts :: "int list" and wr :: write_rc
  assumes "om_find (cp_bev c) (mCounter (servr n (cp_sock c))) = Some k" "k + int (length ts) \<le> 4"
    and "cp_sock c < length (ServrSocketList n)"
  defines "m \<equiv> ticks wr c ts n"
  shows "om_find (cp_bev c) (mCounter (servr m (cp_sock c))) = Some (k + int (length ts)) \<and>
    bufMap (servr m (cp_sock c)) = bufMap (servr n (cp_sock c)) \<and> tPool m = tPool n \<and> armed m = armed n \<and>
    bev_fd m = bev_fd n \<and> srv_owner m = srv_owner n \<and>
    length (ServrSocketList m) = length (ServrSocketList n) \<and>
    (writes_succeed wr \<longrightarrow> om_find (cp_bev c) (bufMap (servr n (cp_sock c))) \<noteq> None \<longrightarrow>
      sent m = sent n @ map (\<lambda>t. (cp_bev c, heartbeat_frame t)) ts)"
  using assms(1-3) unfolding m_def
proof (induction ts arbitrary: n k)
  case Nil
  then show ?case by simp
next
  case (Cons t ts)
  have "k < 4" using Cons.prems(2) by simp
  note T = timer_cb_counts [OF Cons.prems(1) this Cons.prems(3), of wr t]
  have l: "cp_sock c < length (ServrSocketList (timer_cb wr t c n))" using Cons.prems(3) T(7) by simp
  have "k + 1 + int (length ts) \<le> 4" using Cons.prems(2) by simp
  from Cons.IH [OF T(1) this l] show ?case
    using T(2-8) by (auto simp: add.assoc)
qed

lemma timer_cb_expires:
  fixes t :: int and wr :: write_rc
  assumes "om_find (cp_bev c) (mCounter (servr n (cp_sock c))) = Some 4"
    and "om_find (cp_bev c) (bufMap (servr n (cp_sock c))) = Some timeout"
    and "cp_sock c < length (ServrSocketList n)"
  defines "m \<equiv> timer_cb wr t c n"
  shows "om_find (cp_bev c) (bufMap (servr m (cp_sock c))) = None"
    and "om_find (cp_bev c) (mCounter (servr m (cp_sock c))) = None"
    and "timeout \<notin> set (armed m)"
    and "tPool m = pool_Run (jobClose (cp_address c) (srv_owner n)) (bev_fd n (cp_bev c)) (tPool n)"
proof -
  let ?n1 = "upd_servr (cp_sock c) (\<lambda>s. s\<lparr>mCounter := om_set (cp_bev c) 5 (mCounter s)\<rparr>) n"
  have m: "m = snd (bufMapDeleteBuf c ?n1)" using assms(1) by (simp add: m_def timer_cb_def Let_def)
  have u: "om_find (cp_bev c) (bufMap (servr ?n1 (cp_sock c))) = Some timeout"
    using assms(2,3) by (simp add: frame_simps)
  have l: "cp_sock c < length (ServrSocketList ?n1)" using assms(3) by simp
  note D = bufMapDeleteBuf_live [OF u l]
  show "om_find (cp_bev c) (bufMap (servr m (cp_sock c))) = None"
    "om_find (cp_bev c) (mCounter (servr m (cp_sock c))) = None" "timeout \<notin> set (armed m)"
    "tPool m = pool_Run (jobClose (cp_address c) (srv_owner n)) (bev_fd n (cp_bev c)) (tPool n)"
    unfolding m D by (simp_all add: om_lookup)
qed

lemma pending_submit:
  "p \<noteq> [] \<Longrightarrow> pool_pending (pool_Run j k p) (k mod length p) = pool_pending p (k mod length p) @ [j]"
  using wp.submit_pending [of p j k "k mod length p"] by (simp add: pool_lane_def)

lemma reads_frame [simp]:
  "srv_owner (reads c xs n) = srv_owner n" "bev_fd (reads c xs n) = bev_fd n"
  "bufMap (servr (reads c xs n) i) = bufMap (servr n i)"
  "length (tPool (reads c xs n)) = length (tPool n)"
  "length (ServrSocketList (reads c xs n)) = length (ServrSocketList n)"
  by (induction c xs n rule: reads.induct) (auto simp: read_cb_def Let_def frame_simps)

lemma reads_pending:
  "tPool n \<noteq> [] \<Longrightarrow> w = bev_fd n (cp_bev c) mod length (tPool n) \<Longrightarrow>
   pool_pending (tPool (reads c xs n)) w =
     pool_pending (tPool n) w @ map (jobRead (cp_bev c) (cp_address c) (srv_owner n)) xs"
proof (induction c xs n rule: reads.induct)
  case (2 c x xs n)
  have "tPool (read_cb c x n) \<noteq> []"
    using wp.submit_ok 2(2) by (simp add: read_cb_def Let_def)
  with 2 show ?case by (simp add: read_cb_def Let_def pending_submit)
qed simp

lemma send_from_eq:
  "send_from wr is h d n =
     (if (\<exists>i \<in> set is. om_find h (bufMap (servr n i)) \<noteq> None) \<and> wr (sent n) h d = 0
      then (True, n\<lparr>sent := sent n @ [(h, d)]\<rparr>) else (False, n))"
  by (induction "is") (auto simp: bufSend_cases)

lemma heartbeat_is_frame: "heartbeat_frame t = mk_frame WIS_CMD_HEART_BEAT (enc32 (word_of_int t))"
  by (simp add: heartbeat_frame_def mk_frame_def frame_body_def Let_def)

definition one_server :: net where
  "one_server = snd (BeginServer CADDRINFO_default 1 (the CommonTCPManager_new))"

lemma one_server_simps [simp]:
  "tPool one_server = replicate 20 []" "length (ServrSocketList one_server) = 1"
  "servr one_server 0 = \<lparr>bufMap = [], mCounter = [], m_LocalAddr = CADDRINFO_default\<rparr>"
  "srv_owner one_server = 1" "sent one_server = []" "armed one_server = []"
  by (simp_all add: one_server_def BeginServer_def CommonTCPManager_new_def CThreadPool_new_def servr_def)

lemma one_server_inv [simp]: "net_inv one_server"
  by (simp add: net_inv_def servr_inv_def om.keys_def)

section \<open>Properties\<close>

text \<open>C24: The connection tables stay consistent. Every callback of the event thread (accept, read on
  a live connection, event, timer) keeps both maps sorted and over the same connections, and every
  heartbeat counter between 0 and 4.\<close>

theorem callbacks_keep_connections:
  assumes "net_inv n" "cp_sock c < length (ServrSocketList n)"
  shows "net_inv (snd (accept_conn_cb (cp_sock c) fd ip port addr bev timeout n)) \<and>
    (om_find (cp_bev c) (bufMap (servr n (cp_sock c))) \<noteq> None \<longrightarrow> net_inv (read_cb c input n)) \<and>
    net_inv (event_cb c events n) \<and> net_inv (timer_cb wr seconds c n)"
  using assms net_inv_accept net_inv_read net_inv_close net_inv_timer by (simp add: event_cb_def)

theorem callbacks_keep_connections_witness:
  "net_inv (timer_cb (\<lambda>_ _ _. 0) 1400000000 \<lparr>cp_address = 7, cp_sock = 0, cp_bev = 9\<rparr> one_server)"
  using callbacks_keep_connections [of one_server "\<lparr>cp_address = 7, cp_sock = 0, cp_bev = 9\<rparr>"] by simp

text \<open>C23: Heartbeat expiry. A connection that has just been accepted or read from survives four timer
  ticks, each of which writes a heartbeat frame when the write succeeds; a fifth tick with no read in
  between removes it from both tables, stops its timer and submits exactly one close job to the
  worker of its descriptor.\<close>

theorem silent_connection_expires:
  assumes "tPool n \<noteq> []" "cp_sock c < length (ServrSocketList n)"
    and "om_find (cp_bev c) (bufMap (servr n (cp_sock c))) = Some timeout"
    and "om_find (cp_bev c) (mCounter (servr n (cp_sock c))) = Some 0" "length ts = 4"
  shows "let m = ticks wr c ts n; q = timer_cb wr t c m;
      w = bev_fd n (cp_bev c) mod length (tPool n) in
    om_find (cp_bev c) (bufMap (servr m (cp_sock c))) = Some timeout \<and> tPool m = tPool n \<and>
    (writes_succeed wr \<longrightarrow> sent m = sent n @ map (\<lambda>t. (cp_bev c, heartbeat_frame t)) ts) \<and>
    om_find (cp_bev c) (bufMap (servr q (cp_sock c))) = None \<and>
    om_find (cp_bev c) (mCounter (servr q (cp_sock c))) = None \<and> timeout \<notin> set (armed q) \<and>
    pool_pending (tPool q) w = pool_pending (tPool n) w @ [jobClose (cp_address c) (srv_owner n)]"
proof -
  let ?m = "ticks wr c ts n"
  note T = ticks_count [OF assms(4), of ts wr, simplified assms(5)]
  have m: "om_find (cp_bev c) (mCounter (servr ?m (cp_sock c))) = Some 4"
    "om_find (cp_bev c) (bufMap (servr ?m (cp_sock c))) = Some timeout"
    "cp_sock c < length (ServrSocketList ?m)"
    using T assms(2,3) by auto
  note E = timer_cb_expires [OF m, of wr t]
  have "tPool ?m = tPool n" "bev_fd ?m = bev_fd n" "srv_owner ?m = srv_owner n" using T assms(2) by auto
  then show ?thesis
    using T assms(2,3) E pending_submit [OF assms(1)] by (simp add: Let_def)
qed

theorem silent_connection_expires_witness:
  "let c = fst (accept_conn_cb 0 5 [] 80 7 9 11 one_server);
       n = snd (accept_conn_cb 0 5 [] 80 7 9 11 one_server);
       q = timer_cb (\<lambda>_ _ _. 0) 250 c (ticks (\<lambda>_ _ _. 0) c [50, 100, 150, 200] n) in
     om_find 9 (bufMap (servr q 0)) = None \<and>
     pool_pending (tPool q) 5 = [jobAccept 9 7 1, jobClose 7 1]"
  using silent_connection_expires [of "snd (accept_conn_cb 0 5 [] 80 7 9 11 one_server)"
      "\<lparr>cp_address = 7, cp_sock = 0, cp_bev = 9\<rparr>" 11 "[50, 100, 150, 200]" "\<lambda>_ _ _. 0" 250]
    wp.submit_ok [of "tPool one_server" "jobAccept 9 7 1" 5]
    pending_submit [of "tPool one_server" "jobAccept 9 7 1" 5]
  by (simp add: accept_conn_cb_def Let_def frame_simps bufMapAddBuf_def om_lookup pool_pending_def)

text \<open>Closing a connection twice is closing it once: the second call finds nothing, submits no
  second close job and leaves the state as it is.\<close>

lemma close_is_idempotent:
  assumes "cp_sock c < length (ServrSocketList n)"
  shows "bufMapDeleteBuf c (snd (bufMapDeleteBuf c n)) = (False, snd (bufMapDeleteBuf c n))"
proof (rule bufMapDeleteBuf_gone, cases "om_find (cp_bev c) (bufMap (servr n (cp_sock c)))")
  case None
  then show "om_find (cp_bev c) (bufMap (servr (snd (bufMapDeleteBuf c n)) (cp_sock c))) = None"
    by (simp add: bufMapDeleteBuf_gone)
next
  case (Some t)
  then show "om_find (cp_bev c) (bufMap (servr (snd (bufMapDeleteBuf c n)) (cp_sock c))) = None"
    by (simp add: bufMapDeleteBuf_live [OF Some assms] om_lookup)
qed


text \<open>C26: Sending writes to live connections only. \<open>CommonTCPManager::Send\<close> reports success
  exactly when some listening socket still has the handle and libevent takes the bytes; then they are
  written once to that handle, otherwise nothing changes.\<close>

theorem manager_Send_spec:
  "manager_Send wr h d n =
     (if (\<exists>i < length (ServrSocketList n). om_find h (bufMap (servr n i)) \<noteq> None) \<and> wr (sent n) h d = 0
      then (True, n\<lparr>sent := sent n @ [(h, d)]\<rparr>) else (False, n))"
  by (auto simp: manager_Send_def send_from_eq)

text \<open>The heartbeat frame assembled by hand in \<open>timer_cb\<close> is one the protocol parser accepts: it
  yields one heartbeat message with the time as its four data bytes.\<close>

lemma heartbeat_frame_parses:
  "\<exists>b. ParseSocketProtocol (payload_callback record_message) CProtocolParser_new (heartbeat_frame t) []
     = Some (b, [(WIS_CMD_HEART_BEAT, enc32 (word_of_int t))]) \<and> sb_contents b = []"
proof -
  let ?d = "enc32 (word_of_int t)"
  have "buffer_room CProtocolParser_new (length (heartbeat_frame t))"
    by (rule CProtocolParser_new_room) (simp add: heartbeat_is_frame)
  moreover have "split_frames (sb_contents CProtocolParser_new @ heartbeat_frame t)
      = ([(WIS_CMD_HEART_BEAT, ?d)], [], False)"
    using split_frames_frame [of ?d WIS_CMD_HEART_BEAT "[]"] by (simp add: heartbeat_is_frame)
  moreover have "deliver record_message [] [(WIS_CMD_HEART_BEAT, ?d)] = Some [(WIS_CMD_HEART_BEAT, ?d)]"
    by (simp only: deliver_record append_Nil)
  ultimately show ?thesis
    using ParseSocketProtocol_split [of _ _ _ _ _ record_message "[]" "[(WIS_CMD_HEART_BEAT, ?d)]"] by blast
qed

text \<open>The worker pool is FIFO per worker. In every run of submissions and fetches, the jobs one
  worker has taken followed by those it still has are the ones it had at the start followed by those
  submitted under an index of that worker, in order.\<close>

lemma pool_fifo:
  assumes "p \<noteq> []" "wp.run es p = (out, q)"
  shows "map snd (filter (\<lambda>e. fst e = w) out) @ pool_pending q w =
    pool_pending p w @ wp.submitted es p w"
  using assms by (rule wp.run_fifo)

lemma pool_fifo_example:
  "map snd (filter (\<lambda>e. fst e = 1) [(1 :: nat, jobClose 7 1)]) @ pool_pending [[], [jobClose 8 1]] 1 =
    [jobClose 7 1, jobClose 8 1]"
  using pool_fifo [of "[[], []]" "[Inl (jobClose 7 1, 3), Inl (jobClose 8 1, 5), Inr 1]"
      "[(1, jobClose 7 1)]" "[[], [jobClose 8 1]]" 1]
  by (simp add: pool_Run_def worker_turn_def addJob_def pool_pending_def pool_lane_def)

text \<open>C25: One connection's events reach its worker in order: its accept job, one read job per read with
  the bytes read, and the close job, behind what that worker already had.\<close>

theorem connection_jobs_in_order:
  assumes "tPool n \<noteq> []" "i < length (ServrSocketList n)"
  shows "let (c, n1) = accept_conn_cb i fd ip port addr bev timeout n;
      n2 = event_cb c BEV_EVENT_EOF (reads c datas n1); w = fd mod length (tPool n) in
    pool_pending (tPool n2) w = pool_pending (tPool n) w @ [jobAccept bev addr (srv_owner n)] @
      map (jobRead bev addr (srv_owner n)) datas @ [jobClose addr (srv_owner n)]"
proof -
  let ?c = "\<lparr>cp_address = addr, cp_sock = i, cp_bev = bev\<rparr>"
  obtain n1 where acc: "accept_conn_cb i fd ip port addr bev timeout n = (?c, n1)"
    by (simp add: accept_conn_cb_def Let_def)
  then have n1: "tPool n1 = pool_Run (jobAccept bev addr (srv_owner n)) fd (tPool n)"
    "srv_owner n1 = srv_owner n" "bev_fd n1 bev = fd"
    "length (ServrSocketList n1) = length (ServrSocketList n)"
    "om_find bev (bufMap (servr n1 i)) \<noteq> None"
    using assms(2) by (auto simp: accept_conn_cb_def Let_def frame_simps bufMapAddBuf_def om.find_ins)
  let ?r = "reads ?c datas n1"
  obtain t where t: "om_find (cp_bev ?c) (bufMap (servr ?r (cp_sock ?c))) = Some t" using n1(5) by auto
  have l: "cp_sock ?c < length (ServrSocketList ?r)" using assms(2) n1(4) by simp
  have ev: "event_cb ?c BEV_EVENT_EOF ?r = snd (bufMapDeleteBuf ?c ?r)"
    by (simp add: event_cb_def BEV_EVENT_EOF_def BEV_EVENT_ERROR_def)
  have len: "length (tPool ?r) = length (tPool n)" "length (tPool n1) = length (tPool n)" by (simp_all add: n1(1))
  then have ne: "tPool n1 \<noteq> []" "tPool ?r \<noteq> []"
    using assms(1) by (metis length_0_conv)+
  show ?thesis
    using pending_submit [OF ne(2), of "jobClose addr (srv_owner n)" fd]
      pending_submit [OF assms(1), of "jobAccept bev addr (srv_owner n)" fd]
      reads_pending [OF ne(1) refl, of ?c datas]
    by (simp add: acc ev bufMapDeleteBuf_live(3) [OF t l] n1 len)
qed

theorem connection_jobs_in_order_witness:
  "let (c, n1) = accept_conn_cb 0 25 [] 80 7 9 11 one_server;
      n2 = event_cb c BEV_EVENT_EOF (reads c [''ab'', ''c''] n1) in
    pool_pending (tPool n2) 5 = [jobAccept 9 7 1, jobRead 9 7 1 ''ab'', jobRead 9 7 1 ''c'', jobClose 7 1]"
  using connection_jobs_in_order [of one_server 0 25 "[]" 80 7 9 11 "[''ab'', ''c'']"]
  by (simp add: pool_pending_def)

end
