(* ===== verification/Tcp_Link.thy ===== *)
theory Tcp_Link
  imports Net_Socket
begin

text \<open>
  tcpModule: \<open>CHostAddress\<close> and \<open>CHostAddressMap\<close> (which handle belongs to which peer
  address), \<open>CTCPService\<close> (the owner the network layer calls back), \<open>CTCPServiceManage\<close> and
  the facade \<open>CTCPServiceModule\<close>.

  The message callback that \<open>CDeviceManager\<close> registers is the argument \<open>cb\<close>; it works on the
  whole state, of which this layer knows the field \<open>tcp\<close>. Objects made with \<open>new\<close> get the next
  free number. The \<open>ip\<close> array of an address holds a NUL, as \<open>inet_ntoa\<close> and
  \<open>CADDRINFO\<close> put one there; its text is \<open>c_str\<close> of the array.
\<close>

section \<open>Addresses and their keys\<close>

record chost_address =
  ca_address :: host_address
  ca_handle :: ptr

definition CHostAddress_new :: "host_address \<Rightarrow> ptr \<Rightarrow> chost_address" where
  "CHostAddress_new host_address handle = \<lparr>ca_address = host_address, ca_handle = handle\<rparr>"

definition CHostAddress_IsValid :: "chost_address \<Rightarrow> bool" where
  "CHostAddress_IsValid h \<longleftrightarrow> \<not> (ca_handle h = 0 \<or> ha_port (ca_address h) = 0)"

definition RemoveComma :: "bytes \<Rightarrow> bytes" where
  "RemoveComma str = filter (\<lambda>c. c \<noteq> CHR '','') str"

definition GetKey :: "bytes \<Rightarrow> u32 \<Rightarrow> bytes" where
  "GetKey ip port = RemoveComma (c_str ip @ '':'' @ show_nat (unat port))"

definition CHostAddress_GetKey :: "chost_address \<Rightarrow> bytes" where
  "CHostAddress_GetKey h = GetKey (ha_ip (ca_address h)) (ha_port (ca_address h))"

definition GetKey_of_host :: "host_address \<Rightarrow> bytes" where
  "GetKey_of_host a = GetKey (ha_ip a) (ha_port a)"

text \<open>\<open>CTCPServiceManage::tcpGetAddressKey\<close> (and \<open>CDeviceManager::GetAddressKey\<close>, the same
  text): TCP and UDP addresses have a key, every other one the empty string.\<close>

definition tcpGetAddressKey :: "bus_address \<Rightarrow> bytes" where
  "tcpGetAddressKey a =
     (case bus_kind_of (bus_address_type a) of
        Some BUS_TCP \<Rightarrow> c_str (ha_ip (ba_host a)) @ ''-'' @ show_nat (unat (ha_port (ba_host a)))
      | Some BUS_UDP \<Rightarrow> c_str (ha_ip (ba_host a)) @ ''-'' @ show_nat (unat (ha_port (ba_host a)))
      | _ \<Rightarrow> [])"

section \<open>The state of the link layer\<close>

record tcp_service =
  m_port :: int
  m_strIp :: bytes
  m_timeout :: int
  ts_owner :: ptr
  m_TcpServiceMode :: int
  m_bValid :: bool
  has_callback :: bool

record tcp_state =
  tcp_net :: net
  m_mapHostAddress :: "(bytes \<times> chost_address) list"
  m_mapTcpLink :: "(bytes \<times> ptr) list"
  services :: "(ptr \<times> tcp_service) list"
  heap_next :: ptr

record tcp_base =
  tcp :: tcp_state

definition on_tcp :: "(tcp_state \<Rightarrow> tcp_state) \<Rightarrow> 'a tcp_base_scheme \<Rightarrow> 'a tcp_base_scheme" where
  "on_tcp f w = w\<lparr>tcp := f (tcp w)\<rparr>"

definition bus_at :: "'a tcp_base_scheme \<Rightarrow> ptr \<Rightarrow> bus_address" where
  "bus_at w a = bus_mem (tcp_net (tcp w)) a"

section \<open>\<open>CHostAddressMap\<close>\<close>

definition GetHostAddress :: "bytes \<Rightarrow> tcp_state \<Rightarrow> ptr" where
  "GetHostAddress key t =
     (case om_find key (m_mapHostAddress t) of
        Some h \<Rightarrow> if CHostAddress_IsValid h then ca_handle h else 0
      | None \<Rightarrow> 0)"

text \<open>\<open>bDeleteLink\<close> only decides whether \<open>CloseConnection\<close> is called, which has no effect.\<close>

definition RemoveHostAddress :: "bytes \<Rightarrow> bool \<Rightarrow> tcp_state \<Rightarrow> tcp_state" where
  "RemoveHostAddress key bDeleteLink t =
     (case om_find key (m_mapHostAddress t) of
        Some h \<Rightarrow> (let rc = (if bDeleteLink then CloseConnection (ca_handle h) (tcp_net t) else 0) in
                   t\<lparr>m_mapHostAddress := om_erase key (m_mapHostAddress t)\<rparr>)
      | None \<Rightarrow> t)"

definition RemoveHostAddress_of :: "host_address \<Rightarrow> tcp_state \<Rightarrow> tcp_state" where
  "RemoveHostAddress_of a t = RemoveHostAddress (GetKey (ha_ip a) (ha_port a)) True t"

definition SetHostAddress :: "host_address \<Rightarrow> ptr \<Rightarrow> tcp_state \<Rightarrow> bool \<times> tcp_state" where
  "SetHostAddress host_address handle t =
     (let pAddress = CHostAddress_new host_address handle in
      if CHostAddress_IsValid pAddress then
        let key_string = CHostAddress_GetKey pAddress;
            t1 = RemoveHostAddress key_string True t
        in (True, t1\<lparr>m_mapHostAddress := om_insert key_string pAddress (m_mapHostAddress t1)\<rparr>)
      else (False, t))"

section \<open>\<open>CTCPService\<close>\<close>

definition default_time_out :: int where "default_time_out = 60 * 300"

definition InitServer :: "ptr \<Rightarrow> int \<Rightarrow> bool \<Rightarrow> tcp_service" where
  "InitServer owner nPort callback =
     \<lparr>m_port = nPort, m_strIp = [], m_timeout = default_time_out, ts_owner = owner,
      m_TcpServiceMode = uint TCP_SERVER_MODE, m_bValid = True, has_callback = callback\<rparr>"

definition InitClient :: "ptr \<Rightarrow> bytes \<Rightarrow> int \<Rightarrow> int \<Rightarrow> bool \<Rightarrow> tcp_service" where
  "InitClient owner strIp nPort nTCPServiceType callback =
     \<lparr>m_port = nPort, m_strIp = strIp, m_timeout = default_time_out, ts_owner = owner,
      m_TcpServiceMode = nTCPServiceType, m_bValid = True, has_callback = callback\<rparr>"

text \<open>\<open>new CTCPService\<close> followed by its initialisation.\<close>

definition new_service :: "tcp_service \<Rightarrow> tcp_state \<Rightarrow> ptr \<times> tcp_state" where
  "new_service svc t =
     (heap_next t, t\<lparr>services := om_set (heap_next t) svc (services t), heap_next := heap_next t + 1\<rparr>)"

definition SetTcpServiceValid :: "ptr \<Rightarrow> bool \<Rightarrow> tcp_state \<Rightarrow> tcp_state option" where
  "SetTcpServiceValid p bValid t =
     map_option (\<lambda>s. t\<lparr>services := om_set p (s\<lparr>m_bValid := bValid\<rparr>) (services t)\<rparr>) (om_find p (services t))"

section \<open>\<open>CTCPServiceManage\<close>\<close>

datatype message_data = Msg_address ptr | Msg_receive ptr bytes

type_synonym 'w message_callback = "ptr \<Rightarrow> bus_message \<Rightarrow> nat \<Rightarrow> message_data \<Rightarrow> 'w \<Rightarrow> 'w option"

text \<open>Calling the message callback of a service, when it has one.\<close>

definition call_back ::
  "'a tcp_base_scheme message_callback \<Rightarrow> ptr \<Rightarrow> bus_message \<Rightarrow> nat \<Rightarrow> message_data \<Rightarrow>
   'a tcp_base_scheme \<Rightarrow> 'a tcp_base_scheme option" where
  "call_back cb svc msg sz data w =
     (case om_find svc (services (tcp w)) of
        None \<Rightarrow> None
      | Some s \<Rightarrow> if has_callback s then cb (ts_owner s) msg sz data w else Some w)"

definition SaveLinkAndCallBack ::
  "'a tcp_base_scheme message_callback \<Rightarrow> ptr \<Rightarrow> ptr \<Rightarrow> ptr \<Rightarrow> 'a tcp_base_scheme \<Rightarrow> 'a tcp_base_scheme option"
where
  "SaveLinkAndCallBack cb addr svc handle w =
     (case SetHostAddress (ba_host (bus_at w addr)) handle (tcp w) of
        (False, t) \<Rightarrow> Some (w\<lparr>tcp := t\<rparr>)
      | (True, t) \<Rightarrow> do {
          w1 \<leftarrow> call_back cb svc MESSAGE_Connect 84 (Msg_address addr) (w\<lparr>tcp := t\<rparr>);
          let key = tcpGetAddressKey (bus_at w1 addr);
          Some (on_tcp (\<lambda>t. t\<lparr>m_mapTcpLink := om_insert key svc (m_mapTcpLink t)\<rparr>) w1)
        })"

definition NotifyMessageConnect ::
  "'a tcp_base_scheme message_callback \<Rightarrow> ptr \<Rightarrow> ptr \<Rightarrow> ptr \<Rightarrow> 'a tcp_base_scheme \<Rightarrow> 'a tcp_base_scheme option"
where
  "NotifyMessageConnect cb svc handle addr w =
     (if svc = 0 then Some w else SaveLinkAndCallBack cb addr svc handle w)"

text \<open>Deleting the service a link refers to and the link itself.\<close>

definition drop_link :: "bytes \<Rightarrow> tcp_state \<Rightarrow> tcp_state" where
  "drop_link key t =
     (case om_find key (m_mapTcpLink t) of
        None \<Rightarrow> t
      | Some svc \<Rightarrow> t\<lparr>services := om_erase svc (services t), m_mapTcpLink := om_erase key (m_mapTcpLink t)\<rparr>)"

definition DeleteLinkAndCallBack ::
  "'a tcp_base_scheme message_callback \<Rightarrow> ptr \<Rightarrow> ptr \<Rightarrow> 'a tcp_base_scheme \<Rightarrow> 'a tcp_base_scheme option"
where
  "DeleteLinkAndCallBack cb addr svc w = do {
     w1 \<leftarrow> call_back cb svc MESSAGE_Disconnect 84 (Msg_address addr) w;
     let a = bus_at w1 addr;
     Some (on_tcp (drop_link (tcpGetAddressKey a) \<circ>
                   RemoveHostAddress (GetKey (ha_ip (ba_host a)) (ha_port (ba_host a))) False) w1)
   }"

definition NotifyMessageDisconnect ::
  "'a tcp_base_scheme message_callback \<Rightarrow> ptr \<Rightarrow> ptr \<Rightarrow> 'a tcp_base_scheme \<Rightarrow> 'a tcp_base_scheme option"
where
  "NotifyMessageDisconnect cb svc addr w =
     (if svc = 0 then Some w else DeleteLinkAndCallBack cb addr svc w)"

definition NotifyMessageReceiveData ::
  "'a tcp_base_scheme message_callback \<Rightarrow> ptr \<Rightarrow> bytes \<Rightarrow> ptr \<Rightarrow> 'a tcp_base_scheme \<Rightarrow> 'a tcp_base_scheme option"
where
  "NotifyMessageReceiveData cb svc pData addr w =
     call_back cb svc MESSAGE_Receive (length pData) (Msg_receive addr pData) w"

definition tcp_SendData ::
  "write_rc \<Rightarrow> bytes \<Rightarrow> ptr \<Rightarrow> tcp_state \<Rightarrow> bool \<times> tcp_state" where
  "tcp_SendData wr data addr t =
     (let a = bus_mem (tcp_net t) addr;
          handle = GetHostAddress (GetKey (ha_ip (ba_host a)) (ha_port (ba_host a))) t in
      if handle \<noteq> 0
      then (case manager_Send wr handle data (tcp_net t) of (ok, n) \<Rightarrow> (ok, t\<lparr>tcp_net := n\<rparr>))
      else (False, t))"

definition RemoveTcpService :: "ptr \<Rightarrow> tcp_state \<Rightarrow> tcp_state" where
  "RemoveTcpService addr t =
     (let a = bus_mem (tcp_net t) addr in
      drop_link (tcpGetAddressKey a) (RemoveHostAddress_of (ba_host a) t))"

definition StopService :: "ptr \<Rightarrow> tcp_state \<Rightarrow> tcp_state" where
  "StopService addr t = RemoveTcpService addr t"

definition StartServer :: "bytes \<Rightarrow> ptr \<Rightarrow> int \<Rightarrow> bool \<Rightarrow> tcp_state \<Rightarrow> (ptr \<times> tcp_state) option" where
  "StartServer junk owner nPort callback t = do {
     let (p, t1) = new_service (InitServer owner nPort callback) t;
     addr \<leftarrow> CADDRINFO_new junk ''0.0.0.0'' nPort;
     let (rc, n) = BeginServer addr p (tcp_net t1);
     if rc < 0 then Some (0, t1\<lparr>tcp_net := n, services := om_erase p (services t1)\<rparr>)
     else Some (p, t1\<lparr>tcp_net := n\<rparr>)
   }"

definition CreateTcpClient ::
  "bytes \<Rightarrow> ptr \<Rightarrow> bytes \<Rightarrow> int \<Rightarrow> bool \<Rightarrow> tcp_state \<Rightarrow> (ptr \<times> tcp_state) option" where
  "CreateTcpClient junk owner strIp nPort callback t = do {
     let (p, t1) = new_service (InitClient owner strIp nPort (uint TCP_CLIENT_MODE) callback) t;
     addr \<leftarrow> CADDRINFO_new junk strIp nPort;
     let (rc, n) = ConnectServer addr 1 (60 * 60) (tcp_net t1);
     if rc < 0 then Some (0, t1\<lparr>tcp_net := n\<rparr>) else Some (p, t1\<lparr>tcp_net := n\<rparr>)
   }"

section \<open>The callbacks of a service and the facade\<close>

definition OnAccept ::
  "'a tcp_base_scheme message_callback \<Rightarrow> ptr \<Rightarrow> ptr \<Rightarrow> ptr \<Rightarrow> 'a tcp_base_scheme \<Rightarrow> 'a tcp_base_scheme option"
where
  "OnAccept cb this handle addr w = do {
     s \<leftarrow> om_find this (services (tcp w));
     let svc = (InitServer (ts_owner s) (m_port s) (has_callback s))
                 \<lparr>m_TcpServiceMode := sint (model_type (bus_at w addr)),
                  m_strIp := c_str (ha_ip (ba_host (bus_at w addr)))\<rparr>;
     let (p, t) = new_service svc (tcp w);
     NotifyMessageConnect cb p handle addr (w\<lparr>tcp := t\<rparr>)
   }"

definition OnConnect_link ::
  "'a tcp_base_scheme message_callback \<Rightarrow> ptr \<Rightarrow> ptr \<Rightarrow> ptr \<Rightarrow> 'a tcp_base_scheme \<Rightarrow> 'a tcp_base_scheme option"
where
  "OnConnect_link cb this handle addr w = NotifyMessageConnect cb this handle addr w"

definition OnClose ::
  "'a tcp_base_scheme message_callback \<Rightarrow> ptr \<Rightarrow> ptr \<Rightarrow> 'a tcp_base_scheme \<Rightarrow> 'a tcp_base_scheme option"
where
  "OnClose cb this addr w = NotifyMessageDisconnect cb this addr w"

definition OnCmdCome ::
  "'a tcp_base_scheme message_callback \<Rightarrow> ptr \<Rightarrow> bytes \<Rightarrow> ptr \<Rightarrow> 'a tcp_base_scheme \<Rightarrow> 'a tcp_base_scheme option"
where
  "OnCmdCome cb this pData addr w =
     (case om_find this (services (tcp w)) of
        None \<Rightarrow> None
      | Some s \<Rightarrow> if m_bValid s then NotifyMessageReceiveData cb this pData addr w else Some w)"

text \<open>\<open>OnError\<close>, \<open>OnTimeOut\<close> and \<open>Release\<close> return 0 and do nothing. What a worker does
  with a job:\<close>

definition run_job ::
  "'a tcp_base_scheme message_callback \<Rightarrow> net_job \<Rightarrow> 'a tcp_base_scheme \<Rightarrow> 'a tcp_base_scheme option" where
  "run_job cb job w =
     (case job of
        jobAccept bev addr owner \<Rightarrow> OnAccept cb owner bev addr w
      | jobRead bev addr owner data \<Rightarrow> OnCmdCome cb owner data addr w
      | jobClose addr owner \<Rightarrow> OnClose cb owner addr w)"

definition StartTCPServer :: "bytes \<Rightarrow> ptr \<Rightarrow> int \<Rightarrow> bool \<Rightarrow> tcp_state \<Rightarrow> (bool \<times> tcp_state) option" where
  "StartTCPServer junk owner nPort callback t =
     map_option (\<lambda>(p, t'). (p \<noteq> 0, t')) (StartServer junk owner nPort callback t)"

definition ConnectGatewayServer ::
  "bytes \<Rightarrow> ptr \<Rightarrow> bytes \<Rightarrow> int \<Rightarrow> bool \<Rightarrow> tcp_state \<Rightarrow> (bool \<times> tcp_state) option" where
  "ConnectGatewayServer junk owner strIp nPort callback t =
     map_option (\<lambda>(p, t'). (p \<noteq> 0, t')) (CreateTcpClient junk owner strIp nPort callback t)"

definition module_StopService :: "ptr \<Rightarrow> tcp_state \<Rightarrow> bool \<times> tcp_state" where
  "module_StopService addr t = (True, StopService addr t)"

definition module_SendData :: "write_rc \<Rightarrow> bytes \<Rightarrow> ptr \<Rightarrow> tcp_state \<Rightarrow> bool \<times> tcp_state" where
  "module_SendData wr pData addr t = tcp_SendData wr pData addr t"

section \<open>Keys identify addresses\<close>

lemma split_at_last:
  assumes "xs @ c # ds = ys @ c # es" "c \<notin> set ds" "c \<notin> set es"
  shows "xs = ys \<and> ds = es"
proof -
  have "takeWhile (\<lambda>x. x \<noteq> c) (rev ds @ c # rev xs) = takeWhile (\<lambda>x. x \<noteq> c) (rev es @ c # rev ys)"
    using assms(1) by (metis rev_append rev.simps(2) append.assoc append_Cons append_Nil)
  moreover have "takeWhile (\<lambda>x. x \<noteq> c) (rev l @ c # m) = rev l" if "c \<notin> set l" for l m
    using that by (simp add: takeWhile_append takeWhile_eq_all_conv)
  ultimately have "ds = es" using assms(2,3) by simp
  with assms(1) show ?thesis by simp
qed

lemma digits_exclude:
  "CHR '':'' \<notin> set (show_nat n)" "CHR '','' \<notin> set (show_nat n)" "CHR ''-'' \<notin> set (show_nat n)"
  using show_nat_digits [of _ n] by fastforce+

lemma RemoveComma_id: "CHR '','' \<notin> set s \<Longrightarrow> RemoveComma s = s"
  by (auto simp: RemoveComma_def filter_id_conv)

lemma GetKey_plain:
  "CHR '','' \<notin> set (c_str ip) \<Longrightarrow> GetKey ip port = c_str ip @ '':'' @ show_nat (unat port)"
  by (simp add: GetKey_def RemoveComma_id digits_exclude)

lemma show_nat_inject [simp]: "show_nat m = show_nat n \<longleftrightarrow> m = n"
  using dec_nat.enc_inject [of m n] by auto

lemma GetKey_inject:
  assumes "CHR '','' \<notin> set (c_str ip)" "CHR '','' \<notin> set (c_str ip')"
  shows "GetKey ip port = GetKey ip' port' \<longleftrightarrow> c_str ip = c_str ip' \<and> port = port'"
  using split_at_last [of "c_str ip" "CHR '':''" "show_nat (unat port)" "c_str ip'" "show_nat (unat port')"]
  by (auto simp: GetKey_plain assms digits_exclude word_unat_eq_iff)

lemma bus_kind_TCP [simp]: "bus_kind_of 2 = Some BUS_TCP"
  by (simp add: bus_kind_of_def)

lemma tcp_key_inject:
  assumes "bus_address_type a = 2" "bus_address_type b = 2"
  shows "tcpGetAddressKey a = tcpGetAddressKey b \<longleftrightarrow>
    c_str (ha_ip (ba_host a)) = c_str (ha_ip (ba_host b)) \<and> ha_port (ba_host a) = ha_port (ba_host b)"
  using split_at_last [of "c_str (ha_ip (ba_host a))" "CHR ''-''" "show_nat (unat (ha_port (ba_host a)))"
      "c_str (ha_ip (ba_host b))" "show_nat (unat (ha_port (ba_host b)))"]
  by (auto simp: tcpGetAddressKey_def assms digits_exclude word_unat_eq_iff)

section \<open>The table of peers\<close>

lemma find_RemoveHostAddress:
  "om_find k (m_mapHostAddress (RemoveHostAddress key b t)) =
     (if k = key then None else om_find k (m_mapHostAddress t))"
  by (auto simp: RemoveHostAddress_def Let_def om_lookup split: option.splits)

lemma RemoveHostAddress_frame [frame_simps]:
  "m_mapTcpLink (RemoveHostAddress key b t) = m_mapTcpLink t"
  "services (RemoveHostAddress key b t) = services t"
  "heap_next (RemoveHostAddress key b t) = heap_next t"
  "tcp_net (RemoveHostAddress key b t) = tcp_net t"
  by (auto simp: RemoveHostAddress_def Let_def split: option.splits)

lemma om_wf_RemoveHostAddress:
  "om_wf (m_mapHostAddress t) \<Longrightarrow> om_wf (m_mapHostAddress (RemoveHostAddress key b t))"
  by (auto simp: RemoveHostAddress_def Let_def split: option.splits)

lemma SetHostAddress_cases:
  "SetHostAddress a h t =
     (if h \<noteq> 0 \<and> ha_port a \<noteq> 0
      then (True, (RemoveHostAddress (GetKey_of_host a) True t)
              \<lparr>m_mapHostAddress := om_insert (GetKey_of_host a) (CHostAddress_new a h)
                 (m_mapHostAddress (RemoveHostAddress (GetKey_of_host a) True t))\<rparr>)
      else (False, t))"
  by (auto simp: SetHostAddress_def CHostAddress_IsValid_def CHostAddress_new_def Let_def
      CHostAddress_GetKey_def GetKey_of_host_def)

lemma find_SetHostAddress:
  assumes "h \<noteq> 0" "ha_port a \<noteq> 0"
  shows "om_find k (m_mapHostAddress (snd (SetHostAddress a h t))) =
    (if k = GetKey_of_host a then Some (CHostAddress_new a h) else om_find k (m_mapHostAddress t))"
  using assms by (simp add: SetHostAddress_cases om_lookup find_RemoveHostAddress)

lemma GetHostAddress_Set:
  "GetHostAddress k (snd (SetHostAddress a h t)) =
     (if h \<noteq> 0 \<and> ha_port a \<noteq> 0 \<and> k = GetKey_of_host a then h else GetHostAddress k t)"
  by (auto simp: GetHostAddress_def find_SetHostAddress SetHostAddress_cases om_lookup
      find_RemoveHostAddress CHostAddress_IsValid_def CHostAddress_new_def)

lemma GetHostAddress_Remove:
  "GetHostAddress k (RemoveHostAddress key b t) = (if k = key then 0 else GetHostAddress k t)"
  by (auto simp: GetHostAddress_def find_RemoveHostAddress)

lemma SetHostAddress_frame [frame_simps]:
  "m_mapTcpLink (snd (SetHostAddress a h t)) = m_mapTcpLink t"
  "services (snd (SetHostAddress a h t)) = services t"
  "heap_next (snd (SetHostAddress a h t)) = heap_next t"
  "tcp_net (snd (SetHostAddress a h t)) = tcp_net t"
  by (auto simp: SetHostAddress_cases frame_simps)

lemma drop_link_frame [frame_simps]:
  "m_mapHostAddress (drop_link key t) = m_mapHostAddress t"
  "heap_next (drop_link key t) = heap_next t" "tcp_net (drop_link key t) = tcp_net t"
  by (auto simp: drop_link_def split: option.splits)

lemma tcp_SendData_frame [frame_simps]:
  "m_mapTcpLink (snd (tcp_SendData wr d a t)) = m_mapTcpLink t"
  "m_mapHostAddress (snd (tcp_SendData wr d a t)) = m_mapHostAddress t"
  "services (snd (tcp_SendData wr d a t)) = services t"
  "heap_next (snd (tcp_SendData wr d a t)) = heap_next t"
  "srv_owner (tcp_net (snd (tcp_SendData wr d a t))) = srv_owner (tcp_net t)"
  "bus_mem (tcp_net (snd (tcp_SendData wr d a t))) = bus_mem (tcp_net t)"
  "tPool (tcp_net (snd (tcp_SendData wr d a t))) = tPool (tcp_net t)"
  "ServrSocketList (tcp_net (snd (tcp_SendData wr d a t))) = ServrSocketList (tcp_net t)"
  by (auto simp: tcp_SendData_def Let_def manager_Send_def send_from_eq)

section \<open>The invariant of the link layer\<close>

text \<open>The listening service stays allocated: links own the services made for them and deleting
  a link never deletes the listening one, which every job refers to.\<close>

definition link_inv :: "tcp_state \<Rightarrow> bool" where
  "link_inv t \<longleftrightarrow>
     om_wf (m_mapHostAddress t) \<and> om_wf (m_mapTcpLink t) \<and> om_wf (services t) \<and>
     (\<forall>k h. om_find k (m_mapHostAddress t) = Some h \<longrightarrow> CHostAddress_IsValid h \<and> CHostAddress_GetKey h = k) \<and>
     om_find (srv_owner (tcp_net t)) (services t) \<noteq> None \<and>
     (\<forall>k p. om_find k (m_mapTcpLink t) = Some p \<longrightarrow> p \<noteq> srv_owner (tcp_net t)) \<and>
     (\<forall>p s. om_find p (services t) = Some s \<longrightarrow> p < heap_next t) \<and> 0 < heap_next t"

text \<open>The part of the state the invariant is about, which message callbacks leave alone.\<close>

definition link_part :: "tcp_state \<Rightarrow> (bytes \<times> chost_address) list \<times> (bytes \<times> ptr) list \<times>
    (ptr \<times> tcp_service) list \<times> ptr \<times> ptr \<times> (ptr \<Rightarrow> bus_address) \<times> pool \<times> servr_socket list" where
  "link_part t = (m_mapHostAddress t, m_mapTcpLink t, services t, heap_next t,
     srv_owner (tcp_net t), bus_mem (tcp_net t), tPool (tcp_net t), ServrSocketList (tcp_net t))"

lemma link_inv_part: "link_part t = link_part t' \<Longrightarrow> link_inv t = link_inv t'"
  by (simp add: link_part_def link_inv_def)

lemma link_part_Send: "link_part (snd (tcp_SendData wr d a t)) = link_part t"
  by (simp add: link_part_def frame_simps)

lemma link_inv_new_service: "link_inv t \<Longrightarrow> link_inv (snd (new_service svc t))"
  by (auto simp: link_inv_def new_service_def om_lookup less_Suc_eq)

lemma link_inv_Remove: "link_inv t \<Longrightarrow> link_inv (RemoveHostAddress key b t)"
  by (auto simp: link_inv_def frame_simps find_RemoveHostAddress om_wf_RemoveHostAddress)

lemma link_inv_Set: "link_inv t \<Longrightarrow> link_inv (snd (SetHostAddress a h t))"
proof (cases "h \<noteq> 0 \<and> ha_port a \<noteq> 0")
  case True
  assume "link_inv t"
  then have R: "link_inv (RemoveHostAddress (GetKey_of_host a) True t)" by (rule link_inv_Remove)
  with True show ?thesis
    by (auto simp: link_inv_def SetHostAddress_cases om_lookup CHostAddress_IsValid_def
        CHostAddress_new_def CHostAddress_GetKey_def GetKey_of_host_def)
qed (auto simp: SetHostAddress_cases)

lemma link_inv_link:
  "link_inv t \<Longrightarrow> p \<noteq> srv_owner (tcp_net t) \<Longrightarrow>
   link_inv (t\<lparr>m_mapTcpLink := om_insert key p (m_mapTcpLink t)\<rparr>)"
  by (auto simp: link_inv_def om_lookup)

lemma link_inv_drop: "link_inv t \<Longrightarrow> link_inv (drop_link key t)"
  by (auto simp: link_inv_def drop_link_def om_lookup split: option.splits)

text \<open>What the link layer asks of the registered message callback, and what it gives.\<close>

lemma SaveLink_eq:
  "SaveLinkAndCallBack cb addr svc handle w =
     (let r = SetHostAddress (ba_host (bus_at w addr)) handle (tcp w) in
      if fst r then
        (case call_back cb svc MESSAGE_Connect 84 (Msg_address addr) (w\<lparr>tcp := snd r\<rparr>) of
           None \<Rightarrow> None
         | Some w1 \<Rightarrow> Some (w1\<lparr>tcp := (tcp w1)\<lparr>m_mapTcpLink :=
             om_insert (tcpGetAddressKey (bus_at w1 addr)) svc (m_mapTcpLink (tcp w1))\<rparr>\<rparr>))
      else Some (w\<lparr>tcp := snd r\<rparr>))"
  by (cases "SetHostAddress (ba_host (bus_at w addr)) handle (tcp w)"; cases "fst (SetHostAddress (ba_host (bus_at w addr)) handle (tcp w))")
    (auto simp: SaveLinkAndCallBack_def on_tcp_def Let_def split: option.splits)

locale link_client =
  fixes cb :: "'a tcp_base_scheme message_callback"
  assumes cb_links: "cb owner msg sz data w = Some w' \<Longrightarrow> link_part (tcp w') = link_part (tcp w)"
begin

lemma call_back_links: "call_back cb svc msg sz data w = Some w' \<Longrightarrow> link_part (tcp w') = link_part (tcp w)"
  using cb_links by (auto simp: call_back_def split: option.splits if_splits)

lemma call_back_total:
  assumes "om_find svc (services (tcp w)) \<noteq> None" "\<And>ow. cb ow msg sz data w \<noteq> None"
  shows "call_back cb svc msg sz data w \<noteq> None"
  using assms by (auto simp: call_back_def)

lemma SaveLink_links:
  assumes "SaveLinkAndCallBack cb addr svc handle w = Some w'"
    and "handle \<noteq> 0" "ha_port (ba_host (bus_at w addr)) \<noteq> 0"
  shows "GetHostAddress k (tcp w') =
    (if k = GetKey_of_host (ba_host (bus_at w addr)) then handle else GetHostAddress k (tcp w))"
proof -
  let ?r = "SetHostAddress (ba_host (bus_at w addr)) handle (tcp w)"
  have "fst ?r" using assms(2,3) by (simp add: SetHostAddress_cases)
  then obtain w1 where w1: "call_back cb svc MESSAGE_Connect 84 (Msg_address addr) (w\<lparr>tcp := snd ?r\<rparr>) = Some w1"
    and w': "m_mapHostAddress (tcp w') = m_mapHostAddress (tcp w1)"
    using assms(1) by (auto simp: SaveLink_eq Let_def split: option.splits)
  have "m_mapHostAddress (tcp w1) = m_mapHostAddress (snd ?r)"
    using call_back_links [OF w1] by (simp add: link_part_def)
  then have "GetHostAddress k (tcp w') = GetHostAddress k (snd ?r)"
    using w' by (simp add: GetHostAddress_def)
  then show ?thesis using assms(2,3) by (simp add: GetHostAddress_Set)
qed

lemma SaveLink_inv:
  assumes "link_inv (tcp w)" "svc \<noteq> srv_owner (tcp_net (tcp w))"
    and "SaveLinkAndCallBack cb addr svc handle w = Some w'"
  shows "link_inv (tcp w')"
proof -
  let ?r = "SetHostAddress (ba_host (bus_at w addr)) handle (tcp w)"
  note t = link_inv_Set [OF assms(1)]
  show ?thesis
  proof (cases "fst ?r")
    case True
    obtain w1 where w1: "call_back cb svc MESSAGE_Connect 84 (Msg_address addr) (w\<lparr>tcp := snd ?r\<rparr>) = Some w1"
      and w': "tcp w' = (tcp w1)\<lparr>m_mapTcpLink := om_insert (tcpGetAddressKey (bus_at w1 addr)) svc (m_mapTcpLink (tcp w1))\<rparr>"
      using assms(3) True by (auto simp: SaveLink_eq Let_def split: option.splits)
    have l: "link_part (tcp w1) = link_part (snd ?r)" using call_back_links [OF w1] by simp
    have "link_inv (tcp w1)" using link_inv_part [OF l] t by simp
    moreover have "srv_owner (tcp_net (tcp w1)) = srv_owner (tcp_net (tcp w))"
      using l by (simp add: link_part_def frame_simps)
    ultimately show ?thesis unfolding w' using assms(2) by (intro link_inv_link) simp_all
  next
    case False
    with assms(3) t show ?thesis by (auto simp: SaveLink_eq Let_def)
  qed
qed

lemma DeleteLink_links:
  assumes "DeleteLinkAndCallBack cb addr svc w = Some w'"
  shows "GetHostAddress k (tcp w') =
    (if k = GetKey_of_host (ba_host (bus_at w addr)) then 0 else GetHostAddress k (tcp w))"
    and "link_inv (tcp w) \<Longrightarrow> link_inv (tcp w')"
proof -
  obtain w1 where w1: "call_back cb svc MESSAGE_Disconnect 84 (Msg_address addr) w = Some w1"
    and w': "tcp w' = drop_link (tcpGetAddressKey (bus_at w1 addr))
      (RemoveHostAddress (GetKey_of_host (ba_host (bus_at w1 addr))) False (tcp w1))"
    using assms by (auto simp: DeleteLinkAndCallBack_def on_tcp_def Let_def GetKey_of_host_def split: bind_splits)
  note l = call_back_links [OF w1]
  have "bus_at w1 addr = bus_at w addr" "GetHostAddress k (tcp w1) = GetHostAddress k (tcp w)"
    using l by (simp_all add: link_part_def bus_at_def GetHostAddress_def)
  moreover have "GetHostAddress k (drop_link key t) = GetHostAddress k t" for key t
    by (simp add: GetHostAddress_def frame_simps)
  ultimately show "GetHostAddress k (tcp w') =
    (if k = GetKey_of_host (ba_host (bus_at w addr)) then 0 else GetHostAddress k (tcp w))"
    by (simp add: w' GetHostAddress_Remove)
  show "link_inv (tcp w) \<Longrightarrow> link_inv (tcp w')"
    unfolding w' using link_inv_part [OF l] by (simp add: link_inv_drop link_inv_Remove)
qed

lemma OnAccept_new:
  assumes "link_inv (tcp w)" "OnAccept cb this handle addr w = Some w'"
  obtains p t where "p \<noteq> 0" "p \<noteq> srv_owner (tcp_net (tcp w))" "link_inv t" "tcp_net t = tcp_net (tcp w)"
    "m_mapHostAddress t = m_mapHostAddress (tcp w)"
    "SaveLinkAndCallBack cb addr p handle (w\<lparr>tcp := t\<rparr>) = Some w'"
proof -
  obtain svc where s: "NotifyMessageConnect cb (heap_next (tcp w)) handle addr
      (w\<lparr>tcp := snd (new_service svc (tcp w))\<rparr>) = Some w'"
    using assms(2) by (auto simp: OnAccept_def new_service_def Let_def split: bind_splits)
  have "0 < heap_next (tcp w)" "srv_owner (tcp_net (tcp w)) < heap_next (tcp w)"
    using assms(1) by (auto simp: link_inv_def)
  then show thesis
    using that [of "heap_next (tcp w)" "snd (new_service svc (tcp w))"] s link_inv_new_service [OF assms(1)]
    by (simp add: NotifyMessageConnect_def new_service_def)
qed

lemma run_job_inv:
  assumes "link_inv (tcp w)" "run_job cb job w = Some w'"
  shows "link_inv (tcp w')"
proof (cases job)
  case (jobAccept bev addr owner)
  then have acc: "OnAccept cb owner bev addr w = Some w'" using assms(2) by (simp add: run_job_def)
  obtain p t where "p \<noteq> srv_owner (tcp_net (tcp w))" "link_inv t" "tcp_net t = tcp_net (tcp w)"
    "SaveLinkAndCallBack cb addr p bev (w\<lparr>tcp := t\<rparr>) = Some w'"
    by (rule OnAccept_new [OF assms(1) acc])
  then show ?thesis using SaveLink_inv [of "w\<lparr>tcp := t\<rparr>"] by simp
next
  case (jobRead bev addr owner d)
  then have "link_part (tcp w') = link_part (tcp w)"
    using assms(2) call_back_links
    by (auto simp: run_job_def OnCmdCome_def NotifyMessageReceiveData_def split: option.splits if_splits)
  with assms(1) show ?thesis using link_inv_part by blast
next
  case (jobClose addr owner)
  then show ?thesis
    using assms DeleteLink_links(2)
    by (auto simp: run_job_def OnClose_def NotifyMessageDisconnect_def split: if_splits)
qed

text \<open>A job stops the program only when the message callback does.\<close>

lemma run_job_total:
  assumes "link_inv (tcp w)" "job_owner job = srv_owner (tcp_net (tcp w))"
    and "\<And>ow msg sz data w. cb ow msg sz data w \<noteq> None"
  shows "run_job cb job w \<noteq> None"
proof -
  obtain s where s: "om_find (job_owner job) (services (tcp w)) = Some s"
    using assms(1,2) by (auto simp: link_inv_def)
  have c: "call_back cb svc msg sz data v \<noteq> None" if "om_find svc (services (tcp v)) \<noteq> None" for svc msg sz data v
    using call_back_total [OF that assms(3)] .
  show ?thesis
  proof (cases job)
    case (jobAccept bev addr owner)
    have "SaveLinkAndCallBack cb addr p bev v \<noteq> None" if "om_find p (services (tcp v)) \<noteq> None" for p v
      using c [of p "v\<lparr>tcp := snd (SetHostAddress (ba_host (bus_at v addr)) bev (tcp v))\<rparr>"
          MESSAGE_Connect 84 "Msg_address addr"] that
      by (auto simp: SaveLink_eq Let_def frame_simps split: option.splits)
    then show ?thesis
      using s jobAccept
      by (auto simp: run_job_def OnAccept_def NotifyMessageConnect_def new_service_def om_lookup Let_def)
  next
    case (jobRead bev addr owner d)
    then show ?thesis
      using s c [of owner w] by (simp add: run_job_def OnCmdCome_def NotifyMessageReceiveData_def)
  next
    case (jobClose addr owner)
    then have "call_back cb owner MESSAGE_Disconnect 84 (Msg_address addr) w \<noteq> None" using s by (intro c) simp
    then show ?thesis
      using jobClose by (auto simp: run_job_def OnClose_def NotifyMessageDisconnect_def DeleteLinkAndCallBack_def Let_def)
  qed
qed

lemma accepted_is_reachable:
  assumes "link_inv (tcp w)" "run_job cb (jobAccept bev addr owner) w = Some w'"
    and "bev \<noteq> 0" "ha_port (ba_host (bus_at w addr)) \<noteq> 0"
  shows "GetHostAddress k (tcp w') =
    (if k = GetKey_of_host (ba_host (bus_at w addr)) then bev else GetHostAddress k (tcp w))"
proof -
  have acc: "OnAccept cb owner bev addr w = Some w'" using assms(2) by (simp add: run_job_def)
  obtain p t where t: "tcp_net t = tcp_net (tcp w)" "m_mapHostAddress t = m_mapHostAddress (tcp w)"
    "SaveLinkAndCallBack cb addr p bev (w\<lparr>tcp := t\<rparr>) = Some w'"
    by (rule OnAccept_new [OF assms(1) acc])
  then have "bus_at (w\<lparr>tcp := t\<rparr>) addr = bus_at w addr" "GetHostAddress k t = GetHostAddress k (tcp w)"
    by (simp_all add: bus_at_def GetHostAddress_def)
  with SaveLink_links [OF t(3) assms(3)] assms(4) show ?thesis by simp
qed

lemma closed_is_unreachable:
  assumes "run_job cb (jobClose addr owner) w = Some w'" "owner \<noteq> 0"
  shows "GetHostAddress k (tcp w') =
    (if k = GetKey_of_host (ba_host (bus_at w addr)) then 0 else GetHostAddress k (tcp w))"
  using assms DeleteLink_links(1) by (auto simp: run_job_def OnClose_def NotifyMessageDisconnect_def)

end

end
