(* ===== verification/Device.thy ===== *)
theory Device
  imports Tcp_Link
begin

text \<open>
  deviceModule: one \<open>CDevice\<close> per connection (its parser, its login state, the gate that lets
  messages of unknown peers through only for a few commands) and \<open>CDeviceManager\<close>, the map
  from address keys to devices with the message callback the link layer calls. The parts of
  \<open>CUniteDataModule\<close> between the devices and the application are here too, and
  \<open>CParseProtocolModule\<close>, the facade of the parser.

  Devices are values in the manager's map: a \<open>CDevice*\<close> is the key it is stored under
  (\<open>Device_Races\<close> has the pointers). The
  application's report object (\<open>IAutoReportToInterface\<close>) is the argument \<open>ui\<close>.
\<close>

section \<open>\<open>CParseProtocolModule\<close>\<close>

text \<open>A parser handle is \<open>None\<close> when it is \<open>NULL\<close>.\<close>

definition RegisteCallBack :: "smart_buffer option" where
  "RegisteCallBack = Some CProtocolParser_new"

definition FreeCallBack :: "smart_buffer option \<Rightarrow> bool \<times> smart_buffer option" where
  "FreeCallBack hParser = (True, None)"

definition module_ParseSocketProtocol ::
  "('w \<Rightarrow> u32 \<Rightarrow> u32 \<Rightarrow> int \<Rightarrow> bytes \<Rightarrow> 'w option) \<Rightarrow> smart_buffer option \<Rightarrow> bytes \<Rightarrow> 'w \<Rightarrow>
   (smart_buffer option \<times> 'w) option" where
  "module_ParseSocketProtocol callback hParser recvbuf w =
     (case hParser of
        None \<Rightarrow> Some (None, w)
      | Some b \<Rightarrow> map_option (\<lambda>(b', w'). (Some b', w')) (ParseSocketProtocol callback b recvbuf w))"

definition module_MakeProtocolForSocket ::
  "smart_buffer option \<Rightarrow> u32 \<Rightarrow> bytes option \<Rightarrow> u32 \<Rightarrow> bytes \<Rightarrow> (bytes \<times> u32) option" where
  "module_MakeProtocolForSocket hParser command input inputlen output0 =
     (case hParser of
        None \<Rightarrow> Some (output0, 0)
      | Some b \<Rightarrow> MakeProtocolForSocket command input inputlen output0)"

section \<open>State\<close>

record cdevice =
  m_DeviceAddress :: ptr
  m_bExpire :: bool
  m_pProtocolPaser :: "smart_buffer option"
  m_isLogined :: bool
  m_loginType :: int
  m_uuid :: bytes

record dev_base = tcp_base +
  m_mapDevice :: "(bytes \<times> cdevice) list"
  ui_registered :: bool

record device_info =
  di_bus_address :: ptr
  di_is_logined :: bool
  di_login_type :: int
  di_uuid :: bytes

record 'w report_interface =
  ui_ShowClientConnect :: "ptr \<Rightarrow> 'w \<Rightarrow> 'w option"
  ui_ShowClientDisConnect :: "ptr \<Rightarrow> bytes \<Rightarrow> int \<Rightarrow> 'w \<Rightarrow> 'w option"
  ui_ShowClientReceiveData :: "device_info \<Rightarrow> u32 \<Rightarrow> u32 \<Rightarrow> int \<Rightarrow> bytes \<Rightarrow> 'w \<Rightarrow> 'w option"

section \<open>\<open>CUniteDataModule\<close>: reports to the application\<close>

definition RegistInterfacRecObject :: "bool \<Rightarrow> 'a dev_base_scheme \<Rightarrow> bool \<times> 'a dev_base_scheme" where
  "RegistInterfacRecObject is_null w = (if is_null then (False, w) else (True, w\<lparr>ui_registered := True\<rparr>))"

definition ShowNetDataToInterface ::
  "'a dev_base_scheme report_interface \<Rightarrow> device_info \<Rightarrow> u32 \<Rightarrow> u32 \<Rightarrow> int \<Rightarrow> bytes \<Rightarrow>
   'a dev_base_scheme \<Rightarrow> 'a dev_base_scheme option" where
  "ShowNetDataToInterface ui info nDataType nResultCode nDataLen pData w =
     (if \<not> ui_registered w then Some w
      else ui_ShowClientReceiveData ui info nDataType nResultCode nDataLen pData w)"

definition ShowClientConnect ::
  "'a dev_base_scheme report_interface \<Rightarrow> ptr \<Rightarrow> 'a dev_base_scheme \<Rightarrow> 'a dev_base_scheme option" where
  "ShowClientConnect ui addr w =
     (if \<not> ui_registered w then Some w else ui_ShowClientConnect ui addr w)"

definition ShowClientDisConnect ::
  "'a dev_base_scheme report_interface \<Rightarrow> ptr \<Rightarrow> bytes \<Rightarrow> int \<Rightarrow> 'a dev_base_scheme \<Rightarrow> 'a dev_base_scheme option" where
  "ShowClientDisConnect ui addr uuid loginType w =
     (if \<not> ui_registered w then Some w else ui_ShowClientDisConnect ui addr uuid loginType w)"

section \<open>\<open>CDevice\<close>\<close>

definition CDevice_new :: "ptr \<Rightarrow> cdevice" where
  "CDevice_new address =
     \<lparr>m_DeviceAddress = address, m_bExpire = False, m_pProtocolPaser = RegisteCallBack,
      m_isLogined = False, m_loginType = 0, m_uuid = []\<rparr>"

definition SetLogined :: "bool \<Rightarrow> cdevice \<Rightarrow> cdevice" where
  "SetLogined b d = d\<lparr>m_isLogined := b\<rparr>"

definition SetDeviceExpire :: "bool \<Rightarrow> cdevice \<Rightarrow> cdevice" where
  "SetDeviceExpire b d = d\<lparr>m_bExpire := b\<rparr>"

text \<open>The login bookkeeping at the head of \<open>CDevice::Send\<close>: what a reply of the server says
  about the login of the device it goes to, and how much of the reply is sent. \<open>data\<close> is the
  memory from the pointer on, \<open>None\<close> for \<open>NULL\<close>.\<close>

definition note_login :: "u32 \<Rightarrow> bytes option \<Rightarrow> int \<Rightarrow> cdevice \<Rightarrow> (int \<times> cdevice) option" where
  "note_login nCmd data nDataSize d =
     (if nCmd = WIS_CMD_LOGIN \<or> nCmd = WIS_CMD_USER_AUTO_LOGIN then do {
        mem \<leftarrow> data;
        result \<leftarrow> rd32 mem 0;
        if nCmd = WIS_CMD_LOGIN \<and> result = 1 then do {
          uuid \<leftarrow> getUuidFromBuffer (drop 4 mem);
          Some (4, d\<lparr>m_isLogined := True, m_loginType := TYPE_DEVICE, m_uuid := uuid\<rparr>)
        }
        else if nCmd = WIS_CMD_USER_AUTO_LOGIN \<and> result = 0 then do {
          uuid \<leftarrow> getUuidFromBuffer (drop 4 mem);
          Some (4, d\<lparr>m_isLogined := True, m_loginType := TYPE_USER, m_uuid := uuid\<rparr>)
        }
        else Some (nDataSize, d)
      }
      else Some (nDataSize, d))"

definition note_kickout :: "u32 \<Rightarrow> cdevice \<Rightarrow> cdevice" where
  "note_kickout nCmd d = (if nCmd = WIS_CMD_SERVICE_KICKOUT_USER then SetLogined False d else d)"

definition CDevice_Send ::
  "write_rc \<Rightarrow> u32 \<Rightarrow> bytes option \<Rightarrow> int \<Rightarrow> cdevice \<Rightarrow> tcp_state \<Rightarrow> (bool \<times> cdevice \<times> tcp_state) option"
where
  "CDevice_Send wr nCmd data nDataSize d t = do {
     (size1, d1) \<leftarrow> note_login nCmd data nDataSize d;
     let d2 = note_kickout nCmd d1;
     if size1 + 12 < 0 then None
     else do {
       (out, len) \<leftarrow> module_MakeProtocolForSocket (m_pProtocolPaser d2) nCmd data (word_of_int size1)
                      (replicate (nat (size1 + 12)) NUL);
       if len = 0 then Some (False, d2, t)
       else do {
         bs \<leftarrow> rd_bytes out 0 (unat len);
         let (ok, t') = module_SendData wr bs (m_DeviceAddress d2) t;
         Some (ok, d2, t')
       }
     }
   }"

section \<open>\<open>CDeviceManager\<close>: the map\<close>

definition GetAddressKey :: "bus_address \<Rightarrow> bytes" where
  "GetAddressKey a =
     (case bus_kind_of (bus_address_type a) of
        Some BUS_TCP \<Rightarrow> c_str (ha_ip (ba_host a)) @ ''-'' @ show_nat (unat (ha_port (ba_host a)))
      | Some BUS_UDP \<Rightarrow> c_str (ha_ip (ba_host a)) @ ''-'' @ show_nat (unat (ha_port (ba_host a)))
      | _ \<Rightarrow> [])"

definition GetDeviceClient :: "ptr \<Rightarrow> 'a dev_base_scheme \<Rightarrow> (bytes \<times> cdevice) option" where
  "GetDeviceClient addr w =
     (let key = GetAddressKey (bus_at w addr) in
      map_option (\<lambda>d. (key, d)) (om_find key (m_mapDevice w)))"

definition InsertDeviceClient :: "ptr \<Rightarrow> cdevice \<Rightarrow> 'a dev_base_scheme \<Rightarrow> 'a dev_base_scheme" where
  "InsertDeviceClient addr d w =
     w\<lparr>m_mapDevice := om_set (GetAddressKey (bus_at w addr)) d (m_mapDevice w)\<rparr>"

definition DeleteDeviceClient :: "ptr \<Rightarrow> 'a dev_base_scheme \<Rightarrow> 'a dev_base_scheme" where
  "DeleteDeviceClient addr w =
     (let key = GetAddressKey (bus_at w addr) in
      if om_find key (m_mapDevice w) \<noteq> None then w\<lparr>m_mapDevice := om_erase key (m_mapDevice w)\<rparr> else w)"

definition CountByUuid :: "bytes \<Rightarrow> 'a dev_base_scheme \<Rightarrow> nat" where
  "CountByUuid uuid w = length (filter (\<lambda>(k, d). m_uuid d = uuid) (m_mapDevice w))"

text \<open>A change of the device stored under a key.\<close>

definition upd_device :: "bytes \<Rightarrow> (cdevice \<Rightarrow> cdevice) \<Rightarrow> 'a dev_base_scheme \<Rightarrow> 'a dev_base_scheme" where
  "upd_device key f w =
     w\<lparr>m_mapDevice := map (\<lambda>(k, d). (k, if k = key then f d else d)) (m_mapDevice w)\<rparr>"

definition dm_SendData ::
  "write_rc \<Rightarrow> ptr \<Rightarrow> u32 \<Rightarrow> bytes option \<Rightarrow> int \<Rightarrow> 'a dev_base_scheme \<Rightarrow> (bool \<times> 'a dev_base_scheme) option"
where
  "dm_SendData wr addr nDataType pData nDataSize w =
     (case GetDeviceClient addr w of
        None \<Rightarrow> Some (False, w)
      | Some (key, d) \<Rightarrow>
          (case CDevice_Send wr nDataType pData nDataSize d (tcp w) of
             None \<Rightarrow> None
           | Some (ok, d', t) \<Rightarrow> Some (ok, upd_device key (\<lambda>_. d') (w\<lparr>tcp := t\<rparr>))))"

section \<open>Receiving\<close>

text \<open>The gate of \<open>CDevice::ParserCallback\<close>. \<open>key\<close> stands for \<open>pOwner\<close>.\<close>

definition login_free :: "u32 \<Rightarrow> bool" where
  "login_free wEvent \<longleftrightarrow> \<not> (wEvent \<noteq> WIS_CMD_LOGIN \<and> wEvent \<noteq> WIS_CMD_USER_AUTO_LOGIN \<and>
     wEvent \<noteq> WIS_CMD_HEART_BEAT \<and> wEvent \<noteq> WIS_CMD_USER_REGIST \<and> wEvent \<noteq> WIS_CMD_USER_RESET_PASSWORD)"

definition device_info_of :: "cdevice \<Rightarrow> device_info" where
  "device_info_of d = \<lparr>di_bus_address = m_DeviceAddress d, di_is_logined = m_isLogined d,
     di_login_type = m_loginType d, di_uuid = m_uuid d\<rparr>"

definition ParserCallback ::
  "'a dev_base_scheme report_interface \<Rightarrow> bytes \<Rightarrow> 'a dev_base_scheme \<Rightarrow> u32 \<Rightarrow> u32 \<Rightarrow> int \<Rightarrow> bytes \<Rightarrow>
   'a dev_base_scheme option" where
  "ParserCallback ui key w wEvent wResultCode wDataLen pData =
     (case om_find key (m_mapDevice w) of
        None \<Rightarrow> None
      | Some d \<Rightarrow>
          if \<not> login_free wEvent \<and> \<not> m_isLogined d then Some w
          else if wEvent = WIS_CMD_HEART_BEAT then Some w
          else ShowNetDataToInterface ui (device_info_of d) wEvent wResultCode wDataLen pData w)"

definition CDevice_Receive ::
  "'a dev_base_scheme report_interface \<Rightarrow> bytes \<Rightarrow> bytes \<Rightarrow> 'a dev_base_scheme \<Rightarrow> 'a dev_base_scheme option"
where
  "CDevice_Receive ui key data w =
     (if length data = 0 then Some w
      else case om_find key (m_mapDevice w) of
        None \<Rightarrow> None
      | Some d \<Rightarrow>
          (case module_ParseSocketProtocol (ParserCallback ui key) (m_pProtocolPaser d) data w of
             None \<Rightarrow> None
           | Some (p, w') \<Rightarrow> Some (upd_device key (\<lambda>d. d\<lparr>m_pProtocolPaser := p\<rparr>) w')))"

section \<open>The message callback\<close>

definition OnConnect ::
  "'a dev_base_scheme report_interface \<Rightarrow> ptr \<Rightarrow> 'a dev_base_scheme \<Rightarrow> 'a dev_base_scheme option" where
  "OnConnect ui addr w =
     (let d = (case GetDeviceClient addr w of None \<Rightarrow> CDevice_new addr | Some (_, d) \<Rightarrow> d)
      in ShowClientConnect ui addr (InsertDeviceClient addr d w))"

definition OnDisconnect ::
  "'a dev_base_scheme report_interface \<Rightarrow> ptr \<Rightarrow> 'a dev_base_scheme \<Rightarrow> 'a dev_base_scheme option" where
  "OnDisconnect ui addr w =
     (case GetDeviceClient addr w of
        None \<Rightarrow> Some w
      | Some (key, d) \<Rightarrow> do {
          let count = CountByUuid (m_uuid d) w;
          w1 \<leftarrow> (if m_isLogined d \<and> count < 2
                  then ShowClientDisConnect ui addr (m_uuid d) (m_loginType d) w else Some w);
          Some (DeleteDeviceClient addr w1)
        })"

definition OnReceive ::
  "'a dev_base_scheme report_interface \<Rightarrow> ptr \<Rightarrow> bytes \<Rightarrow> 'a dev_base_scheme \<Rightarrow> 'a dev_base_scheme option" where
  "OnReceive ui from data w =
     (case GetDeviceClient from w of
        None \<Rightarrow> Some w
      | Some (key, d) \<Rightarrow> CDevice_Receive ui key data w)"

definition MessageCallback ::
  "'a dev_base_scheme report_interface \<Rightarrow> ptr \<Rightarrow> bus_message \<Rightarrow> nat \<Rightarrow> message_data \<Rightarrow>
   'a dev_base_scheme \<Rightarrow> 'a dev_base_scheme option" where
  "MessageCallback ui owner message message_size data w =
     (if owner = 0 then Some w
      else case (message, data) of
        (MESSAGE_Connect, Msg_address addr) \<Rightarrow> OnConnect ui addr w
      | (MESSAGE_Disconnect, Msg_address addr) \<Rightarrow> OnDisconnect ui addr w
      | (MESSAGE_Receive, Msg_receive from bs) \<Rightarrow> OnReceive ui from bs w
      | _ \<Rightarrow> Some w)"

section \<open>Starting and stopping\<close>

text \<open>\<open>GetTcpServicePort\<close> has no return statement; the value the caller sees is \<open>junk_port\<close>.\<close>

definition StartTcpServer :: "bytes \<Rightarrow> int \<Rightarrow> ptr \<Rightarrow> int \<Rightarrow> 'a dev_base_scheme \<Rightarrow> (bool \<times> 'a dev_base_scheme) option" where
  "StartTcpServer junk junk_port this nPort w =
     (let port = (if nPort \<le> 0 then junk_port else nPort) in
      if port \<le> 0 then Some (False, w)
      else map_option (\<lambda>(ok, t). (ok, w\<lparr>tcp := t\<rparr>)) (StartTCPServer junk this port True (tcp w)))"

text \<open>Returns nothing (flows off its end) when the device is unknown; its result is not modelled.\<close>

definition StopTcpServer ::
  "'a dev_base_scheme report_interface \<Rightarrow> ptr \<Rightarrow> 'a dev_base_scheme \<Rightarrow> 'a dev_base_scheme option" where
  "StopTcpServer ui addr w =
     (case GetDeviceClient addr w of
        None \<Rightarrow> Some w
      | Some (key, d) \<Rightarrow> do {
          let count = CountByUuid (m_uuid d) w;
          w1 \<leftarrow> (if m_isLogined d \<and> count < 2
                  then ShowClientDisConnect ui addr (m_uuid d) (m_loginType d) w else Some w);
          let w2 = upd_device key (SetDeviceExpire True \<circ> SetLogined False) w1;
          Some (w2\<lparr>tcp := snd (module_StopService addr (tcp w2))\<rparr>)
        })"

text \<open>The address on the stack of \<open>CreateConnectToDevice\<close>: \<open>junk\<close> is what its \<open>ip\<close> array
  held before, the copied text gets no NUL of its own.\<close>

definition CreateConnectToDevice ::
  "bytes \<Rightarrow> bytes \<Rightarrow> ptr \<Rightarrow> bytes \<Rightarrow> int \<Rightarrow> 'a dev_base_scheme \<Rightarrow> (bool \<times> 'a dev_base_scheme) option" where
  "CreateConnectToDevice junk addr_junk this strIp nPort w = do {
     ip \<leftarrow> blit junk 0 strIp;
     let addr = \<lparr>ba_size = 0, bus_address_type = 2, model_type = TCP_CLIENT_MODE,
                 ba_host = \<lparr>ha_size = 0, ha_ip = ip, ha_port = word_of_int nPort\<rparr>\<rparr>;
     if om_find (GetAddressKey addr) (m_mapDevice w) = None
     then map_option (\<lambda>(ok, t). (ok, w\<lparr>tcp := t\<rparr>)) (ConnectGatewayServer addr_junk this strIp nPort True (tcp w))
     else Some (True, w)
   }"

definition unite_ConnectServer ::
  "bytes \<Rightarrow> bytes \<Rightarrow> ptr \<Rightarrow> bytes \<Rightarrow> int \<Rightarrow> 'a dev_base_scheme \<Rightarrow> (bool \<times> 'a dev_base_scheme) option" where
  "unite_ConnectServer = CreateConnectToDevice"

definition unite_SendData ::
  "write_rc \<Rightarrow> ptr \<Rightarrow> u32 \<Rightarrow> bytes option \<Rightarrow> int \<Rightarrow> 'a dev_base_scheme \<Rightarrow> (bool \<times> 'a dev_base_scheme) option"
where
  "unite_SendData wr addr nDataType pSendData nDataSize w = dm_SendData wr addr nDataType pSendData nDataSize w"

section \<open>What sending and reporting leave alone\<close>

lemma CDevice_new_parser: "m_pProtocolPaser (CDevice_new a) = Some CProtocolParser_new"
  "m_DeviceAddress (CDevice_new a) = a" "sb_wf CProtocolParser_new"
  by (simp_all add: CDevice_new_def RegisteCallBack_def CProtocolParser_new_def)

text \<open>Links, addresses, the keys of the device map, and of every device its address and its
  parser: only login fields may change while a message is handled.\<close>

definition dev_part :: "'a dev_base_scheme \<Rightarrow> ((bytes \<times> chost_address) list \<times> (bytes \<times> ptr) list \<times>
    (ptr \<times> tcp_service) list \<times> ptr \<times> ptr \<times> (ptr \<Rightarrow> bus_address) \<times> pool \<times> servr_socket list) \<times>
    bytes list \<times> (bytes \<Rightarrow> (ptr \<times> smart_buffer option) option) \<times> bool" where
  "dev_part w = (link_part (tcp w), map fst (m_mapDevice w),
     (\<lambda>k. map_option (\<lambda>d. (m_DeviceAddress d, m_pProtocolPaser d)) (om_find k (m_mapDevice w))),
     ui_registered w)"

definition keeps_dev :: "'a dev_base_scheme \<Rightarrow> 'a dev_base_scheme \<Rightarrow> bool" where
  "keeps_dev w w' \<longleftrightarrow> dev_part w' = dev_part w"

lemma keeps_dev_refl [simp, intro]: "keeps_dev w w"
  by (simp add: keeps_dev_def)

lemma keeps_dev_trans: "keeps_dev w w' \<Longrightarrow> keeps_dev w' w'' \<Longrightarrow> keeps_dev w w''"
  by (simp add: keeps_dev_def)

lemma keeps_dev_link: "keeps_dev w w' \<Longrightarrow> link_part (tcp w') = link_part (tcp w)"
  by (simp add: keeps_dev_def dev_part_def)

lemma keeps_dev_bus: "keeps_dev w w' \<Longrightarrow> bus_at w' = bus_at w"
  by (auto simp: keeps_dev_def dev_part_def link_part_def bus_at_def)

lemma keeps_dev_keys: "keeps_dev w w' \<Longrightarrow> map fst (m_mapDevice w') = map fst (m_mapDevice w)"
  by (simp add: keeps_dev_def dev_part_def)

lemma keeps_dev_find: "keeps_dev w w' \<Longrightarrow>
  map_option (\<lambda>d. (m_DeviceAddress d, m_pProtocolPaser d)) (om_find k (m_mapDevice w')) =
  map_option (\<lambda>d. (m_DeviceAddress d, m_pProtocolPaser d)) (om_find k (m_mapDevice w))"
  by (simp add: keeps_dev_def dev_part_def fun_eq_iff)

lemma om_find_map_key:
  "om_find k (map (\<lambda>(k, d). (k, f k d)) m) = map_option (f k) (om_find k m)"
  by (induction m) auto

lemma find_upd_device: "om_find k (m_mapDevice (upd_device key f w)) =
  (if k = key then map_option f (om_find k (m_mapDevice w)) else om_find k (m_mapDevice w))"
  by (auto simp: upd_device_def om_find_map_key option.map_ident)

lemma keys_upd_device [simp]: "map fst (m_mapDevice (upd_device key f w)) = map fst (m_mapDevice w)"
  by (simp add: upd_device_def case_prod_beta')

lemma upd_device_frame [simp]:
  "tcp (upd_device key f w) = tcp w" "ui_registered (upd_device key f w) = ui_registered w"
  "bus_at (upd_device key f w) = bus_at w"
  by (auto simp: upd_device_def bus_at_def)

lemma note_login_frame: "note_login c data n d = Some (n', d') \<Longrightarrow>
  m_DeviceAddress d' = m_DeviceAddress d \<and> m_pProtocolPaser d' = m_pProtocolPaser d"
  by (auto simp: note_login_def split: if_splits bind_splits)

lemma note_kickout_frame [simp]:
  "m_DeviceAddress (note_kickout c d) = m_DeviceAddress d"
  "m_pProtocolPaser (note_kickout c d) = m_pProtocolPaser d"
  by (auto simp: note_kickout_def SetLogined_def)

lemma link_part_Send_eq: "tcp_SendData wr d a t = (ok, t') \<Longrightarrow> link_part t' = link_part t"
  using link_part_Send [of wr d a t] by simp

lemma CDevice_Send_frame:
  assumes "CDevice_Send wr c data n d t = Some (ok, d', t')"
  shows "m_DeviceAddress d' = m_DeviceAddress d" "m_pProtocolPaser d' = m_pProtocolPaser d"
    "link_part t' = link_part t"
proof -
  obtain n1 d1 where l: "note_login c data n d = Some (n1, d1)"
    and d': "d' = note_kickout c d1"
    and t': "link_part t' = link_part t"
    using assms link_part_Send_eq by (auto simp: CDevice_Send_def module_SendData_def Let_def
        split: bind_splits if_splits prod.splits)
  show "m_DeviceAddress d' = m_DeviceAddress d" "m_pProtocolPaser d' = m_pProtocolPaser d"
    using note_login_frame [OF l] by (simp_all add: d')
  show "link_part t' = link_part t" by (rule t')
qed

lemma dm_SendData_keeps:
  assumes "dm_SendData wr addr c data n w = Some (ok, w')"
  shows "keeps_dev w w'"
proof (cases "GetDeviceClient addr w")
  case None
  with assms show ?thesis by (simp add: dm_SendData_def)
next
  case (Some kd)
  obtain key d where kd: "kd = (key, d)" by (cases kd)
  then have d: "om_find key (m_mapDevice w) = Some d"
    using Some by (auto simp: GetDeviceClient_def Let_def)
  obtain d' t where s: "CDevice_Send wr c data n d (tcp w) = Some (ok, d', t)"
    and w': "w' = upd_device key (\<lambda>_. d') (w\<lparr>tcp := t\<rparr>)"
    using assms Some kd by (auto simp: dm_SendData_def split: option.splits)
  show ?thesis
    using CDevice_Send_frame [OF s] d by (simp add: keeps_dev_def dev_part_def w' find_upd_device fun_eq_iff)
qed

section \<open>The interface of the application\<close>

definition dev_inv :: "'a dev_base_scheme \<Rightarrow> bool" where
  "dev_inv w \<longleftrightarrow> om_wf (m_mapDevice w) \<and>
     (\<forall>k d. om_find k (m_mapDevice w) = Some d \<longrightarrow>
        k = GetAddressKey (bus_at w (m_DeviceAddress d)) \<and>
        (\<exists>b. m_pProtocolPaser d = Some b \<and> sb_wf b))"

lemma dev_inv_wf: "dev_inv w \<Longrightarrow> om_wf (m_mapDevice w)"
  by (simp add: dev_inv_def)

lemma om_wf_keys: "map fst m = map fst m' \<Longrightarrow> om_wf m = om_wf m'"
  by (simp add: om_wf_def)

lemma dev_inv_keeps: "keeps_dev w w' \<Longrightarrow> dev_inv w \<Longrightarrow> dev_inv w'"
proof -
  assume k: "keeps_dev w w'" and i: "dev_inv w"
  have "om_wf (m_mapDevice w')" using om_wf_keys [OF keeps_dev_keys [OF k]] i by (simp add: dev_inv_def)
  moreover have "\<exists>d0. om_find key (m_mapDevice w) = Some d0 \<and> m_DeviceAddress d = m_DeviceAddress d0 \<and>
      m_pProtocolPaser d = m_pProtocolPaser d0" if "om_find key (m_mapDevice w') = Some d" for key d
    using keeps_dev_find [OF k, of key] that by (cases "om_find key (m_mapDevice w)") auto
  ultimately show ?thesis
    using i keeps_dev_bus [OF k] unfolding dev_inv_def by metis
qed

lemma dev_inv_upd_device:
  assumes "dev_inv w"
    and "\<And>d. om_find key (m_mapDevice w) = Some d \<Longrightarrow>
      m_DeviceAddress (f d) = m_DeviceAddress d \<and> (\<exists>b. m_pProtocolPaser (f d) = Some b \<and> sb_wf b)"
  shows "dev_inv (upd_device key f w)"
proof -
  have "om_wf (m_mapDevice (upd_device key f w))"
    using assms(1) om_wf_keys [OF keys_upd_device [of key f w]] by (simp add: dev_inv_def)
  moreover have "k = GetAddressKey (bus_at w (m_DeviceAddress d)) \<and> (\<exists>b. m_pProtocolPaser d = Some b \<and> sb_wf b)"
    if upd: "om_find k (m_mapDevice (upd_device key f w)) = Some d" for k d
  proof (cases "k = key")
    case True
    then obtain d0 where "om_find k (m_mapDevice w) = Some d0" "d = f d0"
      using upd by (auto simp: find_upd_device)
    then show ?thesis using True assms by (auto simp: dev_inv_def)
  next
    case False
    then show ?thesis using upd assms(1) by (simp add: find_upd_device dev_inv_def)
  qed
  ultimately show ?thesis by (auto simp: dev_inv_def)
qed

locale interface_client =
  fixes ui :: "'a dev_base_scheme report_interface"
  assumes connect_keeps: "ui_ShowClientConnect ui a w = Some w' \<Longrightarrow> keeps_dev w w'"
    and disconnect_keeps: "ui_ShowClientDisConnect ui a u l w = Some w' \<Longrightarrow> keeps_dev w w'"
    and receive_keeps: "ui_ShowClientReceiveData ui i c r len p w = Some w' \<Longrightarrow> keeps_dev w w'"
begin

lemma reports_keep:
  shows "ShowClientConnect ui a w = Some w' \<Longrightarrow> keeps_dev w w'"
    and "ShowClientDisConnect ui a u l w = Some w' \<Longrightarrow> keeps_dev w w'"
    and "ShowNetDataToInterface ui i c r len p w = Some w' \<Longrightarrow> keeps_dev w w'"
  using connect_keeps disconnect_keeps receive_keeps
  by (auto simp: ShowClientConnect_def ShowClientDisConnect_def ShowNetDataToInterface_def split: if_splits)

lemma ParserCallback_keeps:
  "ParserCallback ui key w c r len p = Some w' \<Longrightarrow> keeps_dev w w'"
  using reports_keep(3) by (auto simp: ParserCallback_def split: option.splits if_splits)

lemma parse_loop_keeps:
  "parse_loop (ParserCallback ui key) b w = Some (b', w') \<Longrightarrow>
   keeps_dev w w' \<and> (sb_wf b \<longrightarrow> sb_wf b')"
proof (induction "ParserCallback ui key" b w arbitrary: b' w' rule: parse_loop.induct)
  case (1 b w)
  show ?case
  proof (cases "(b', w') = (b, w) \<or> (b', w') = (sb_empty b, w)")
    case True
    then show ?thesis using sb.clear_contents by auto
  next
    case False
    let ?n = "sint (dec32 (drop 8 (sb_data b)))"
    have c: "12 \<le> sb_length b" "size_of_int ?n \<le> sb_length b - 12"
      "CheckCheckSum (Some (sb_data b)) (of_int ?n + 12) = Some True"
      using "1.prems" False
      by (subst (asm) parse_loop.simps, auto simp: Let_def split: if_splits option.splits bool.splits)+
    then obtain w1 where w1: "ParserCallback ui key w (dec32 (drop 4 (sb_data b))) 0 ?n (drop 12 (sb_data b)) = Some w1"
      and rec: "parse_loop (ParserCallback ui key) (sb_truncate b (size_of_int ?n + 12)) w1 = Some (b', w')"
      using "1.prems" by (subst (asm) parse_loop.simps) (auto simp: Let_def split: option.splits)
    have k: "keeps_dev w w1" using ParserCallback_keeps w1 by blast
    have "keeps_dev w1 w' \<and> (sb_wf (sb_truncate b (size_of_int ?n + 12)) \<longrightarrow> sb_wf b')"
      using 1(1) [OF _ refl c(2) c(3) _ w1 rec] c(1) by auto
    with k show ?thesis using keeps_dev_trans sb.truncate_contents by blast
  qed
qed

lemma Receive_keeps:
  assumes "CDevice_Receive ui key data w = Some w'"
  shows "link_part (tcp w') = link_part (tcp w)" "map fst (m_mapDevice w') = map fst (m_mapDevice w)"
    "dev_inv w \<Longrightarrow> dev_inv w'"
proof -
  have all: "link_part (tcp w') = link_part (tcp w) \<and> map fst (m_mapDevice w') = map fst (m_mapDevice w) \<and>
    (dev_inv w \<longrightarrow> dev_inv w')"
  proof (cases "data = []")
    case True
    with assms show ?thesis by (simp add: CDevice_Receive_def)
  next
    case False
    obtain d p w1 where d: "om_find key (m_mapDevice w) = Some d"
      and r: "module_ParseSocketProtocol (ParserCallback ui key) (m_pProtocolPaser d) data w = Some (p, w1)"
      and w': "w' = upd_device key (\<lambda>d. d\<lparr>m_pProtocolPaser := p\<rparr>) w1"
      using assms False by (auto simp: CDevice_Receive_def split: option.splits)
    have k: "keeps_dev w w1 \<and> (\<forall>b. m_pProtocolPaser d = Some b \<and> sb_wf b \<longrightarrow> (\<exists>b'. p = Some b' \<and> sb_wf b'))"
    proof (cases "m_pProtocolPaser d")
      case None
      with r show ?thesis by (simp add: module_ParseSocketProtocol_def)
    next
      case (Some b)
      then obtain b1 b' where b1: "sb_append b data = Some b1" "p = Some b'"
        and pl: "parse_loop (ParserCallback ui key) b1 w = Some (b', w1)"
        using r by (auto simp: module_ParseSocketProtocol_def ParseSocketProtocol_def split: bind_splits)
      have "sb_wf b \<longrightarrow> sb_wf b1" using b1 sb.append_contents by blast
      then show ?thesis using parse_loop_keeps [OF pl] b1 Some by auto
    qed
    have "dev_inv w \<longrightarrow> dev_inv w'"
    proof
      assume i: "dev_inv w"
      then obtain b' where "p = Some b'" "sb_wf b'" using k d by (auto simp: dev_inv_def)
      moreover have i1: "dev_inv w1" by (rule dev_inv_keeps [OF conjunct1 [OF k] i])
      ultimately show "dev_inv w'"
        unfolding w' by (intro dev_inv_upd_device [OF i1]) simp
    qed
    moreover have "link_part (tcp w') = link_part (tcp w)" using keeps_dev_link [OF conjunct1 [OF k]] by (simp add: w')
    moreover have "map fst (m_mapDevice w') = map fst (m_mapDevice w)" using keeps_dev_keys [OF conjunct1 [OF k]] by (simp add: w')
    ultimately show ?thesis by blast
  qed
  then show "link_part (tcp w') = link_part (tcp w)" "map fst (m_mapDevice w') = map fst (m_mapDevice w)"
    "dev_inv w \<Longrightarrow> dev_inv w'" by blast+
qed

lemma keys_Delete: "map fst (m_mapDevice (DeleteDeviceClient a w)) =
  filter (\<lambda>k. k \<noteq> GetAddressKey (bus_at w a)) (map fst (m_mapDevice w))"
proof -
  have "filter (\<lambda>e. fst e \<noteq> k) m = m" if "om_find k m = None" for k :: bytes and m :: "(bytes \<times> cdevice) list"
    using that by (induction m) (auto split: if_splits)
  then show ?thesis
    by (simp add: DeleteDeviceClient_def Let_def om_erase_def filter_map o_def)
qed

lemma dev_inv_Delete: "dev_inv w \<Longrightarrow> dev_inv (DeleteDeviceClient a w)"
  by (auto simp: DeleteDeviceClient_def Let_def dev_inv_def om_lookup bus_at_def)

lemma dev_inv_Insert:
  assumes "dev_inv w" "GetAddressKey (bus_at w (m_DeviceAddress d)) = GetAddressKey (bus_at w a)"
    and "m_pProtocolPaser d = Some b" "sb_wf b"
  shows "dev_inv (InsertDeviceClient a d w)"
  using assms by (auto simp: InsertDeviceClient_def dev_inv_def om_lookup bus_at_def)

lemma OnConnect_keeps:
  assumes "OnConnect ui a w = Some w'"
  shows "link_part (tcp w') = link_part (tcp w)" "dev_inv w \<Longrightarrow> dev_inv w'"
proof -
  obtain d where d: "d = (case GetDeviceClient a w of None \<Rightarrow> CDevice_new a | Some (_, d) \<Rightarrow> d)"
    and s: "ShowClientConnect ui a (InsertDeviceClient a d w) = Some w'"
    using assms by (simp add: OnConnect_def Let_def)
  have k: "keeps_dev (InsertDeviceClient a d w) w'" using reports_keep(1) s by blast
  show "link_part (tcp w') = link_part (tcp w)"
    using keeps_dev_link [OF k] by (simp add: InsertDeviceClient_def)
  assume i: "dev_inv w"
  have "dev_inv (InsertDeviceClient a d w)"
  proof (cases "GetDeviceClient a w")
    case None
    then have "d = CDevice_new a" using d by simp
    then show ?thesis
      using dev_inv_Insert [OF i _ _ CDevice_new_parser(3), of d a] by (simp add: CDevice_new_parser)
  next
    case (Some kd)
    then have "om_find (GetAddressKey (bus_at w a)) (m_mapDevice w) = Some d"
      using d by (auto simp: GetDeviceClient_def Let_def)
    then have "GetAddressKey (bus_at w (m_DeviceAddress d)) = GetAddressKey (bus_at w a)"
      "\<exists>b. m_pProtocolPaser d = Some b \<and> sb_wf b"
      using i by (auto simp: dev_inv_def)
    then show ?thesis using dev_inv_Insert [OF i] by blast
  qed
  then show "dev_inv w'" by (rule dev_inv_keeps [OF k])
qed

lemma OnDisconnect_keeps:
  assumes "OnDisconnect ui a w = Some w'"
  shows "link_part (tcp w') = link_part (tcp w)" "dev_inv w \<Longrightarrow> dev_inv w'"
proof -
  have "w' = w \<or> (\<exists>w1. keeps_dev w w1 \<and> w' = DeleteDeviceClient a w1)"
  proof (cases "GetDeviceClient a w")
    case None
    with assms show ?thesis by (simp add: OnDisconnect_def)
  next
    case (Some kd)
    then obtain key d where kd: "GetDeviceClient a w = Some (key, d)" by (cases kd) simp
    obtain w1 where "w1 = w \<or> ShowClientDisConnect ui a (m_uuid d) (m_loginType d) w = Some w1"
      "w' = DeleteDeviceClient a w1"
      using assms kd by (auto simp: OnDisconnect_def Let_def split: if_splits bind_splits)
    then show ?thesis using reports_keep(2) keeps_dev_refl by blast
  qed
  moreover have "tcp (DeleteDeviceClient a v) = tcp v" for v
    by (simp add: DeleteDeviceClient_def Let_def)
  ultimately show "link_part (tcp w') = link_part (tcp w)" "dev_inv w \<Longrightarrow> dev_inv w'"
    using keeps_dev_link dev_inv_keeps dev_inv_Delete by metis+
qed

lemma MessageCallback_keeps:
  assumes "MessageCallback ui ow msg sz data w = Some w'"
  shows "link_part (tcp w') = link_part (tcp w)" "dev_inv w \<Longrightarrow> dev_inv w'"
proof -
  consider "w' = w" | a where "OnConnect ui a w = Some w'" | a where "OnDisconnect ui a w = Some w'"
    | a bs where "OnReceive ui a bs w = Some w'"
    using assms unfolding MessageCallback_def
    by (cases "ow = 0"; cases msg; cases data) simp_all
  then have "link_part (tcp w') = link_part (tcp w) \<and> (dev_inv w \<longrightarrow> dev_inv w')"
  proof cases
    case 1
    then show ?thesis by simp
  next
    case 2
    then show ?thesis using OnConnect_keeps by simp
  next
    case 3
    then show ?thesis using OnDisconnect_keeps by simp
  next
    case 4
    then show ?thesis using Receive_keeps by (auto simp: OnReceive_def split: option.splits)
  qed
  then show "link_part (tcp w') = link_part (tcp w)" "dev_inv w \<Longrightarrow> dev_inv w'" by simp_all
qed

end

text \<open>A device manager on a well-behaved application is a well-behaved client of the link layer.\<close>

sublocale interface_client \<subseteq> link: link_client "MessageCallback ui"
  by unfold_locales (rule MessageCallback_keeps(1))

section \<open>What goes out\<close>

lemma wire_module_Make:
  assumes "length x < 2 ^ 31 - 12" "hp = Some b"
  shows "module_MakeProtocolForSocket hp c (Some (x @ tail)) (word_of_int (int (length x)))
      (replicate (nat (int (length x) + 12)) NUL) = Some (mk_frame c x, of_nat (length x + 12))"
proof -
  have "nat (int (length x) + 12) = length x + 12" by simp
  moreover have "length x < 2 ^ 31" using assms(1) by simp
  ultimately show ?thesis
    using MakeProtocol_frame [of x "replicate (length x + 12) NUL" c tail]
    by (simp add: module_MakeProtocolForSocket_def assms(2))
qed

text \<open>Sending a payload of at most \<open>2 ^ 31 - 13\<close> bytes to a device with a parser hands the
  frame to the link layer.\<close>

lemma CDevice_Send_payload:
  assumes "note_login c (Some (x @ tail)) n d = Some (int (length x), d1)"
    and "length x < 2 ^ 31 - 12" "m_pProtocolPaser d \<noteq> None"
  shows "CDevice_Send wr c (Some (x @ tail)) n d t =
    (case tcp_SendData wr (mk_frame c x) (m_DeviceAddress d) t of
       (ok, t') \<Rightarrow> Some (ok, note_kickout c d1, t'))"
proof -
  obtain b where b: "m_pProtocolPaser d = Some b" using assms(3) by blast
  have d1: "m_pProtocolPaser d1 = Some b" "m_DeviceAddress d1 = m_DeviceAddress d"
    using note_login_frame [OF assms(1)] b by auto
  note M = wire_module_Make [OF assms(2) d1(1), of c tail]
  have u: "unat (of_nat (length x + 12) :: u32) = length x + 12"
    using assms(2) by (simp add: unsigned_of_nat take_bit_nat_eq_self_iff del: of_nat_add)
  then have nz: "(of_nat (length x + 12) :: u32) \<noteq> 0" by (metis add_gr_0 less_numeral_extra(3) unat_0 zero_less_numeral)
  have r: "rd_bytes (mk_frame c x) 0 (length x + 12) = Some (mk_frame c x)"
    by (simp add: rd_bytes_def)
  show ?thesis
    unfolding CDevice_Send_def assms(1) module_SendData_def
    using M r u nz by (simp add: Let_def d1 del: of_nat_add split: prod.splits)
qed

lemma note_login_other: "c \<noteq> WIS_CMD_LOGIN \<Longrightarrow> c \<noteq> WIS_CMD_USER_AUTO_LOGIN \<Longrightarrow>
  note_login c data n d = Some (n, d)"
  by (simp add: note_login_def)

lemma dm_SendData_known:
  assumes "om_find (GetAddressKey (bus_at w a)) (m_mapDevice w) = Some d"
    and "c \<noteq> WIS_CMD_LOGIN" "c \<noteq> WIS_CMD_USER_AUTO_LOGIN"
    and "length x < 2 ^ 31 - 12" "m_pProtocolPaser d \<noteq> None"
  shows "dm_SendData wr a c (Some (x @ tail)) (int (length x)) w =
    (case tcp_SendData wr (mk_frame c x) (m_DeviceAddress d) (tcp w) of
       (ok, t) \<Rightarrow> Some (ok, upd_device (GetAddressKey (bus_at w a)) (\<lambda>_. note_kickout c d) (w\<lparr>tcp := t\<rparr>)))"
  using CDevice_Send_payload [OF note_login_other [OF assms(2,3)] assms(4,5), of wr tail "tcp w"] assms(1)
  by (simp add: dm_SendData_def GetDeviceClient_def Let_def split: prod.splits)

text \<open>The reply to a successful login.\<close>

lemma dm_SendData_login:
  assumes "om_find (GetAddressKey (bus_at w a)) (m_mapDevice w) = Some d" "m_pProtocolPaser d \<noteq> None"
    and "NUL \<notin> set uuid" "length uuid \<le> 32"
    and "c = WIS_CMD_LOGIN \<and> result = 1 \<and> role = TYPE_DEVICE \<or>
      c = WIS_CMD_USER_AUTO_LOGIN \<and> result = 0 \<and> role = TYPE_USER"
  shows "dm_SendData wr a c (Some (enc32 result @ pad_to 32 uuid)) 36 w =
    (case tcp_SendData wr (mk_frame c (enc32 result)) (m_DeviceAddress d) (tcp w) of
       (ok, t) \<Rightarrow> Some (ok, upd_device (GetAddressKey (bus_at w a))
         (\<lambda>_. d\<lparr>m_isLogined := True, m_loginType := role, m_uuid := uuid\<rparr>) (w\<lparr>tcp := t\<rparr>)))"
proof -
  let ?d = "d\<lparr>m_isLogined := True, m_loginType := role, m_uuid := uuid\<rparr>"
  have "getUuidFromBuffer (pad_to 32 uuid) = Some uuid"
    using buf_string_pad_to [OF assms(3,4), of "[]"] by (simp add: getUuidFromBuffer_def UUID_LEN_def)
  then have n: "note_login c (Some (enc32 result @ pad_to 32 uuid)) 36 d = Some (int (length (enc32 result)), ?d)"
    using assms(5) by (auto simp: note_login_def mem_simps wis_cmd_defs)
  moreover have "note_kickout c ?d = ?d" using assms(5) by (auto simp: note_kickout_def wis_cmd_defs)
  ultimately show ?thesis
    using CDevice_Send_payload [OF n _ assms(2), of wr "tcp w"] assms(1)
    by (simp add: dm_SendData_def GetDeviceClient_def Let_def split: prod.splits)
qed

section \<open>Messages that are dropped\<close>

lemma parse_loop_drops:
  assumes "sb_wf b" "data_size b < 2 ^ 63" "split_frames (sb_contents b) = (ms, r, e)"
    and "\<And>c len mem. c \<in> fst ` set ms \<Longrightarrow> cb w c 0 len mem = Some w"
  shows "\<exists>b'. parse_loop cb b w = Some (b', w) \<and> sb_wf b' \<and> sb_contents b' = r"
  using assms
proof (induction "sb_contents b" arbitrary: b ms rule: split_frames_induct)
  case waits
  then show ?case by (auto simp: split_frames_wait parse_loop_cases(1))
next
  case bad
  then show ?case using sb.clear_contents by (auto simp: split_frames_bad parse_loop_cases(2))
next
  case step
  let ?xs = "sb_contents b"
  let ?b = "sb_truncate b (frame_len ?xs + 12)"
  obtain ms1 where rec: "split_frames (drop (frame_len ?xs + 12) ?xs) = (ms1, r, e)"
    and ms: "ms = (dec32 (drop 4 ?xs), take (frame_len ?xs) (drop 12 ?xs)) # ms1"
    using step.prems(3) step.hyps(1,2) by (auto simp: split_frames_step split: prod.splits)
  have t: "sb_wf ?b" "sb_contents ?b = drop (frame_len ?xs + 12) ?xs"
    using sb.truncate_contents [OF step.prems(1)] by auto
  have sz: "data_size ?b < 2 ^ 63"
    using step.prems(2) by (simp add: sb_truncate_def Let_def less_imp_diff_less)
  have drop: "cb w (dec32 (drop 4 ?xs)) 0 (int (frame_len ?xs)) (drop 12 (sb_data b)) = Some w"
    by (rule step.prems(4)) (simp add: ms)
  have "\<exists>b'. parse_loop cb ?b w = Some (b', w) \<and> sb_wf b' \<and> sb_contents b' = r"
    by (rule step.hyps(3) [OF t(2) [symmetric] t(1) sz]) (use rec t(2) ms step.prems(4) in auto)
  then show ?case
    by (simp add: parse_loop_cases(3) [OF step.prems(1,2) step.hyps(1,2), of cb w] drop)
qed

section \<open>A connected device\<close>

text \<open>One listening socket, one accepted connection and its device, not logged in.\<close>

definition sample_ip :: bytes where
  "sample_ip = ''10.0.0.1'' @ replicate 56 NUL"

definition sample_world :: dev_base where
  "sample_world =
     \<lparr>tcp = \<lparr>tcp_net = snd (accept_conn_cb 0 5 sample_ip 5000 7 9 11 one_server),
              m_mapHostAddress = [(''10.0.0.1:5000'', CHostAddress_new (ba_host (server_address sample_ip 5000)) 9)],
              m_mapTcpLink = [], services = [(1, InitServer 1 7788 True)], heap_next = 2\<rparr>,
      m_mapDevice = [(''10.0.0.1-5000'', CDevice_new 7)], ui_registered = True\<rparr>"

lemma c_str_sample_ip: "c_str sample_ip = ''10.0.0.1''"
  by (simp add: sample_ip_def c_str_def numeral_eq_Suc)

lemma show_nat_5000: "show_nat 5000 = ''5000''"
  by (simp add: show_nat.simps digit_def char_of_def bit_Suc_0_iff)

lemma sample_bus: "bus_at sample_world 7 = server_address sample_ip 5000"
  by (simp add: sample_world_def bus_at_def accept_conn_cb_def Let_def)

lemma sample_keys:
  "GetAddressKey (server_address sample_ip 5000) = ''10.0.0.1-5000''"
  "GetKey sample_ip 5000 = ''10.0.0.1:5000''"
  by (simp_all add: GetAddressKey_def server_address_def c_str_sample_ip show_nat_5000 GetKey_def RemoveComma_def)

lemma sample_device: "om_find ''10.0.0.1-5000'' (m_mapDevice sample_world) = Some (CDevice_new 7)"
  "GetDeviceClient 7 sample_world = Some (''10.0.0.1-5000'', CDevice_new 7)"
  by (simp_all add: GetDeviceClient_def sample_bus sample_keys Let_def) (simp_all add: sample_world_def)

lemma sample_send: "tcp_SendData wr d 7 (tcp sample_world) =
  (if wr [] 9 d = 0 then (True, (tcp sample_world)\<lparr>tcp_net := (tcp_net (tcp sample_world))\<lparr>sent := [(9, d)]\<rparr>\<rparr>)
   else (False, tcp sample_world))"
proof -
  let ?n = "tcp_net (tcp sample_world)"
  have n: "servr ?n 0 = \<lparr>bufMap = [(9, 11)], mCounter = [(9, 0)], m_LocalAddr = CADDRINFO_default\<rparr>"
    "length (ServrSocketList ?n) = 1" "sent ?n = []" "bus_mem ?n 7 = server_address sample_ip 5000"
    by (simp_all add: sample_world_def accept_conn_cb_def Let_def frame_simps bufMapAddBuf_def om_insert_def)
  have h: "GetHostAddress (GetKey sample_ip 5000) (tcp sample_world) = 9"
    by (simp add: GetHostAddress_def sample_keys sample_world_def CHostAddress_IsValid_def
        CHostAddress_new_def server_address_def)
  have "ha_ip (ba_host (server_address sample_ip 5000)) = sample_ip"
    "ha_port (ba_host (server_address sample_ip 5000)) = 5000"
    by (simp_all add: server_address_def)
  then show ?thesis
    using n h by (simp add: tcp_SendData_def Let_def manager_Send_def send_from_eq)
qed

section \<open>Properties\<close>

text \<open>C5: Strangers are ignored. As long as a connection has not logged in, frames with any command but
  login, user login, registration and password reset only change its parse buffer: no report reaches
  the application, no matter how many frames arrive in a read. (Heartbeats are always dropped.)\<close>

theorem strangers_are_ignored:
  assumes "GetDeviceClient a w = Some (key, d)" "m_pProtocolPaser d = Some b" "data \<noteq> []"
    and "buffer_room b (length data)" "split_frames (sb_contents b @ data) = (ms, r, e)"
    and "\<And>c x. (c, x) \<in> set ms \<Longrightarrow> c = WIS_CMD_HEART_BEAT \<or> \<not> login_free c \<and> \<not> m_isLogined d"
  shows "\<exists>b'. OnReceive ui a data w = Some (upd_device key (\<lambda>d. d\<lparr>m_pProtocolPaser := Some b'\<rparr>) w) \<and>
    sb_contents b' = r"
proof -
  have d: "om_find key (m_mapDevice w) = Some d"
    using assms(1) by (auto simp: GetDeviceClient_def Let_def)
  obtain b1 where b1: "sb_append b data = Some b1" "sb_wf b1" "sb_contents b1 = sb_contents b @ data"
    "step_size b1 = step_size b" "data_size b1 = data_size b + length data"
    using Parse_append [OF assms(4)] by blast
  have "data_size b1 < 2 ^ 63" using b1(5) assms(4) by (simp add: buffer_room_def)
  moreover have "ParserCallback ui key w c 0 len mem = Some w" if "c \<in> fst ` set ms" for c len mem
    using assms(6) that d by (force simp: ParserCallback_def login_free_def)
  ultimately obtain b' where "parse_loop (ParserCallback ui key) b1 w = Some (b', w)" "sb_contents b' = r"
    using parse_loop_drops [OF b1(2) _ assms(5) [folded b1(3)], of "ParserCallback ui key" w] by blast
  then show ?thesis
    using assms(1-3) d b1(1)
    by (auto simp: OnReceive_def CDevice_Receive_def module_ParseSocketProtocol_def ParseSocketProtocol_def)
qed

theorem strangers_are_ignored_witness:
  "\<exists>b'. OnReceive \<lparr>ui_ShowClientConnect = (\<lambda>_ _. None), ui_ShowClientDisConnect = (\<lambda>_ _ _ _. None),
      ui_ShowClientReceiveData = (\<lambda>_ _ _ _ _ _. None)\<rparr> 7 (mk_frame WIS_CMD_USER_GET_DEVICES ''x'') sample_world
    = Some (upd_device ''10.0.0.1-5000'' (\<lambda>d. d\<lparr>m_pProtocolPaser := Some b'\<rparr>) sample_world) \<and>
    sb_contents b' = []"
proof (rule strangers_are_ignored [OF sample_device(2) CDevice_new_parser(1)])
  let ?f = "mk_frame WIS_CMD_USER_GET_DEVICES ''x''"
  show "?f \<noteq> []" using length_mk_frame [of WIS_CMD_USER_GET_DEVICES "''x''"] by (metis list.size(3) add_is_0 zero_neq_numeral)
  show "buffer_room CProtocolParser_new (length ?f)"
    by (rule CProtocolParser_new_room) simp
  show "split_frames (sb_contents CProtocolParser_new @ ?f) = ([(WIS_CMD_USER_GET_DEVICES, ''x'')], [], False)"
    using split_frames_frame [of "''x''" WIS_CMD_USER_GET_DEVICES "[]"] by simp
qed (auto simp: login_free_def wis_cmd_defs CDevice_new_def)

text \<open>C27: A reply leaves as one frame. Sending \<open>n\<close> bytes to a known device with a command other than
  the two login replies hands exactly the frame of those bytes to the link of the device's address; of
  the device only a kick-out changes the login state.\<close>

theorem reply_is_one_frame:
  assumes "om_find (GetAddressKey (bus_at w a)) (m_mapDevice w) = Some d"
    and "c \<noteq> WIS_CMD_LOGIN" "c \<noteq> WIS_CMD_USER_AUTO_LOGIN"
    and "length x < 2 ^ 31 - 12" "m_pProtocolPaser d \<noteq> None"
  shows "unite_SendData wr a c (Some (x @ tail)) (int (length x)) w =
    (case tcp_SendData wr (mk_frame c x) (m_DeviceAddress d) (tcp w) of
       (ok, t) \<Rightarrow> Some (ok, upd_device (GetAddressKey (bus_at w a))
         (\<lambda>_. if c = WIS_CMD_SERVICE_KICKOUT_USER then d\<lparr>m_isLogined := False\<rparr> else d) (w\<lparr>tcp := t\<rparr>)))"
  using dm_SendData_known [OF assms]
  by (simp add: unite_SendData_def note_kickout_def SetLogined_def split: prod.splits)

theorem reply_is_one_frame_witness:
  "map_option (\<lambda>(ok, w). (ok, sent (tcp_net (tcp w))))
     (unite_SendData (\<lambda>_ _ _. 0) 7 WIS_CMD_USER_REGIST (Some ''ab'') 2 sample_world)
   = Some (True, [(9, mk_frame WIS_CMD_USER_REGIST ''ab'')])"
  using reply_is_one_frame [of sample_world 7 "CDevice_new 7" WIS_CMD_USER_REGIST "''ab''" "\<lambda>_ _ _. 0" "[]"]
  by (simp add: sample_bus sample_keys sample_device CDevice_new_parser sample_send wis_cmd_defs upd_device_def)

text \<open>C28: The reply to a successful login is what logs the connection in. Replying to a device login
  with result 1, or to a user login with result 0, sets login flag, role and user id of the device, and
  only the four bytes of the result are sent.\<close>

theorem login_reply_registers:
  assumes "om_find (GetAddressKey (bus_at w a)) (m_mapDevice w) = Some d" "m_pProtocolPaser d \<noteq> None"
    and "NUL \<notin> set uuid" "length uuid \<le> 32"
    and "c = WIS_CMD_LOGIN \<and> result = 1 \<and> role = TYPE_DEVICE \<or>
      c = WIS_CMD_USER_AUTO_LOGIN \<and> result = 0 \<and> role = TYPE_USER"
  shows "dm_SendData wr a c (Some (enc32 result @ pad_to 32 uuid)) 36 w =
    (case tcp_SendData wr (mk_frame c (enc32 result)) (m_DeviceAddress d) (tcp w) of
       (ok, t) \<Rightarrow> Some (ok, upd_device (GetAddressKey (bus_at w a))
         (\<lambda>_. d\<lparr>m_isLogined := True, m_loginType := role, m_uuid := uuid\<rparr>) (w\<lparr>tcp := t\<rparr>)))"
  by (rule dm_SendData_login [OF assms])

theorem login_reply_registers_witness:
  "map_option (\<lambda>(ok, w). (ok, sent (tcp_net (tcp w)), map (\<lambda>(k, d). (m_isLogined d, m_uuid d)) (m_mapDevice w)))
     (dm_SendData (\<lambda>_ _ _. 0) 7 WIS_CMD_USER_AUTO_LOGIN (Some (enc32 0 @ pad_to 32 ''bob'')) 36 sample_world)
   = Some (True, [(9, mk_frame WIS_CMD_USER_AUTO_LOGIN (enc32 0))], [(True, ''bob'')])"
  using login_reply_registers [of sample_world 7 "CDevice_new 7" "''bob''" WIS_CMD_USER_AUTO_LOGIN 0 TYPE_USER "\<lambda>_ _ _. 0"]
  by (simp add: sample_bus sample_keys sample_device CDevice_new_parser sample_send)
    (simp add: upd_device_def sample_world_def)

end
