(* ===== verification/Database.thy ===== *)
theory Database
  imports Wis
begin

text \<open>
  libSql: \<open>CNVDataAccess\<close> (one MySQL handle with the result set and the row being read),
  \<open>CDatabaseConnection\<close> (a pooled handle with its use count and life count) and
  \<open>CDbNVManager\<close> (the pool, a map from the address of an access object to its connection).

  The MySQL client library and the clock are parameters: a record \<open>'d mysql\<close> of functions on
  an outside world of type \<open>'d\<close>. \<open>CNVDataAccess\<close> objects live in \<open>accesses\<close>;
  \<open>db_room\<close> is how many more of them \<open>new\<close> can allocate, so that the paths on which the
  pool hands out \<open>NULL\<close> are part of the model. Using a freed result set, reading a row that
  was never fetched and making a string of a NULL column have no result.
\<close>

section \<open>The MySQL client library\<close>

record my_result =
  res_fields :: "bytes list"
  res_rows :: "bytes option list list"

record 'd mysql =
  my_real_connect :: "ptr \<Rightarrow> bytes \<Rightarrow> bytes \<Rightarrow> bytes \<Rightarrow> bytes \<Rightarrow> 'd \<Rightarrow> 'd"
  my_real_query :: "ptr \<Rightarrow> bytes \<Rightarrow> 'd \<Rightarrow> int \<times> 'd"
  my_store_result :: "ptr \<Rightarrow> 'd \<Rightarrow> my_result option \<times> 'd"
  my_affected_rows :: "ptr \<Rightarrow> 'd \<Rightarrow> int"
  my_field_count :: "ptr \<Rightarrow> 'd \<Rightarrow> u32"
  my_close :: "ptr \<Rightarrow> 'd \<Rightarrow> 'd"
  local_time_string :: "'d \<Rightarrow> bytes"

text \<open>A \<open>MYSQL_RES *\<close>: \<open>NULL\<close>, a result set with the index of the next row to fetch, or
  one that was freed.\<close>

datatype res_ptr = ResNull | ResLive my_result nat | ResFreed

section \<open>\<open>CNVDataAccess\<close>\<close>

text \<open>\<open>row_\<close> is \<open>None\<close> when it is \<open>NULL\<close>, not yet set, or points into a freed result.\<close>

record cnv_access =
  isInited_flag :: bool
  pRes_field :: res_ptr
  row_field :: "bytes option list option"

record db_connection =
  adapter_field :: ptr
  is_long_connection :: bool
  life_count :: u32
  create_time :: bytes
  reference_count :: u32

record 'd database =
  db_server :: 'd
  accesses :: "(ptr \<times> cnv_access) list"
  db_next :: ptr
  db_room :: nat
  m_mapConnection :: "(ptr \<times> db_connection) list"
  m_strHost :: bytes
  m_strDbname :: bytes
  m_strUsername :: bytes
  m_strPwd :: bytes

definition CNVDataAccess_new :: cnv_access where
  "CNVDataAccess_new = \<lparr>isInited_flag = True, pRes_field = ResNull, row_field = None\<rparr>"

text \<open>Following a pointer to an access object; there is none at \<open>NULL\<close>.\<close>

definition the_access :: "ptr \<Rightarrow> 'd database \<Rightarrow> cnv_access option" where
  "the_access a db = (if a = 0 then None else om_find a (accesses db))"

definition put_access :: "ptr \<Rightarrow> cnv_access \<Rightarrow> 'd database \<Rightarrow> 'd database" where
  "put_access a x db = db\<lparr>accesses := om_set a x (accesses db)\<rparr>"

definition access_Connect :: "'d mysql \<Rightarrow> ptr \<Rightarrow> bytes \<Rightarrow> bytes \<Rightarrow> bytes \<Rightarrow> bytes \<Rightarrow> 'd database \<Rightarrow> 'd database" where
  "access_Connect my a host pcDbname pcUsername pcPwd db =
     db\<lparr>db_server := my_real_connect my a (c_str host) (c_str pcUsername) (c_str pcPwd) (c_str pcDbname) (db_server db)\<rparr>"

definition access_Disconnect :: "'d mysql \<Rightarrow> ptr \<Rightarrow> 'd database \<Rightarrow> 'd database" where
  "access_Disconnect my a db = db\<lparr>db_server := my_close my a (db_server db)\<rparr>"

definition ExecuteNonQuery :: "'d mysql \<Rightarrow> ptr \<Rightarrow> bytes \<Rightarrow> 'd database \<Rightarrow> (int \<times> 'd database) option" where
  "ExecuteNonQuery my a pcCmdText db =
     (case the_access a db of
        None \<Rightarrow> None
      | Some x \<Rightarrow>
          if isInited_flag x then
            (case my_real_query my a (c_str pcCmdText) (db_server db) of
               (rc, d) \<Rightarrow> Some (if rc = 0 then 0 else - 1, db\<lparr>db_server := d\<rparr>))
          else Some (- 1, db))"

definition ExecuteDataSet :: "'d mysql \<Rightarrow> ptr \<Rightarrow> bytes \<Rightarrow> 'd database \<Rightarrow> 'd database option" where
  "ExecuteDataSet my a pcCmdText db =
     (if the_access a db = None then None
      else Some (db\<lparr>db_server := snd (my_real_query my a (c_str pcCmdText) (db_server db))\<rparr>))"

definition IsResultSet :: "'d mysql \<Rightarrow> ptr \<Rightarrow> 'd database \<Rightarrow> (bool \<times> 'd database) option" where
  "IsResultSet my a db =
     (case the_access a db of
        None \<Rightarrow> None
      | Some x \<Rightarrow>
          (case my_store_result my a (db_server db) of
             (r, d) \<Rightarrow>
               Some (r \<noteq> None,
                 put_access a (x\<lparr>pRes_field := (case r of None \<Rightarrow> ResNull | Some res \<Rightarrow> ResLive res 0)\<rparr>)
                   (db\<lparr>db_server := d\<rparr>))))"

definition ExecuteNoThrow :: "'d mysql \<Rightarrow> ptr \<Rightarrow> bytes \<Rightarrow> 'd database \<Rightarrow> (int \<times> 'd database) option" where
  "ExecuteNoThrow my a pcCmdText db =
     (if the_access a db = None then None
      else case my_real_query my a (c_str pcCmdText) (db_server db) of
        (rc, d) \<Rightarrow>
          if rc = 0 then do {
            (is_set, db1) \<leftarrow> IsResultSet my a (db\<lparr>db_server := d\<rparr>);
            Some (if is_set then my_affected_rows my a (db_server db1) else - 1, db1)
          }
          else Some (- 1, db\<lparr>db_server := d\<rparr>))"

definition RowsAffected :: "'d mysql \<Rightarrow> ptr \<Rightarrow> 'd database \<Rightarrow> int" where
  "RowsAffected my a db = my_affected_rows my a (db_server db)"

text \<open>\<open>mysql_fetch_row\<close> and \<open>mysql_free_result\<close>.\<close>

definition my_fetch_row :: "res_ptr \<Rightarrow> (bytes option list option \<times> res_ptr) option" where
  "my_fetch_row r =
     (case r of
        ResLive res i \<Rightarrow>
          Some (if i < length (res_rows res) then (Some (res_rows res ! i), ResLive res (Suc i)) else (None, r))
      | _ \<Rightarrow> None)"

definition my_free_result :: "res_ptr \<Rightarrow> bool" where
  "my_free_result r \<longleftrightarrow> r \<noteq> ResFreed"

definition FetchFirst :: "ptr \<Rightarrow> 'd database \<Rightarrow> (bool \<times> 'd database) option" where
  "FetchFirst a db = do {
     x \<leftarrow> the_access a db;
     if pRes_field x = ResNull then Some (False, db)
     else do {
       (row, r) \<leftarrow> my_fetch_row (pRes_field x);
       Some (row \<noteq> None, put_access a (x\<lparr>row_field := row, pRes_field := r\<rparr>) db)
     }
   }"

text \<open>Frees the result without clearing \<open>pRes_\<close>.\<close>

definition FetchNext :: "ptr \<Rightarrow> 'd database \<Rightarrow> (bool \<times> 'd database) option" where
  "FetchNext a db = do {
     x \<leftarrow> the_access a db;
     (row, r) \<leftarrow> my_fetch_row (pRes_field x);
     if row = None then Some (False, put_access a (x\<lparr>row_field := row, pRes_field := ResFreed\<rparr>) db)
     else Some (True, put_access a (x\<lparr>row_field := row, pRes_field := r\<rparr>) db)
   }"

definition FetchNewRow :: "ptr \<Rightarrow> 'd database \<Rightarrow> (bool \<times> 'd database) option" where
  "FetchNewRow a db = do {
     x \<leftarrow> the_access a db;
     if pRes_field x = ResNull then Some (False, put_access a (x\<lparr>pRes_field := ResNull, row_field := None\<rparr>) db)
     else do {
       (row, r) \<leftarrow> my_fetch_row (pRes_field x);
       if row \<noteq> None then Some (True, put_access a (x\<lparr>row_field := row, pRes_field := r\<rparr>) db)
       else Some (False, put_access a (x\<lparr>row_field := None, pRes_field := ResNull\<rparr>) db)
     }
   }"

definition live_result :: "ptr \<Rightarrow> 'd database \<Rightarrow> my_result option" where
  "live_result a db =
     (case the_access a db of
        None \<Rightarrow> None
      | Some x \<Rightarrow> (case pRes_field x of ResLive res i \<Rightarrow> Some res | _ \<Rightarrow> None))"

definition GetFieldCount :: "ptr \<Rightarrow> 'd database \<Rightarrow> nat option" where
  "GetFieldCount a db = map_option (\<lambda>res. length (res_fields res)) (live_result a db)"

definition FieldsOfRow :: "ptr \<Rightarrow> 'd database \<Rightarrow> nat option" where
  "FieldsOfRow a db = map_option (\<lambda>res. length (res_fields res)) (live_result a db)"

definition Field_at :: "'d mysql \<Rightarrow> ptr \<Rightarrow> int \<Rightarrow> 'd database \<Rightarrow> bytes option option" where
  "Field_at my a nField db =
     (if word_of_int nField > my_field_count my a (db_server db) - 1 then Some None
      else map_option (\<lambda>res. if nat nField < length (res_fields res) then Some (res_fields res ! nat nField) else None)
        (live_result a db))"

text \<open>Compares a prefix and leaves out the last column.\<close>

definition Field_named :: "ptr \<Rightarrow> bytes \<Rightarrow> 'd database \<Rightarrow> bytes option option" where
  "Field_named a pcField db =
     (case live_result a db of
        None \<Rightarrow> None
      | Some res \<Rightarrow>
          if res_fields res = [] then None
          else Some (find (\<lambda>f. take (length (c_str pcField)) (c_str f) = c_str pcField) (butlast (res_fields res))))"

fun column_of :: "bytes \<Rightarrow> bytes list \<Rightarrow> 'c list \<Rightarrow> 'c option option" where
  "column_of n (f # fs) (c # cs) = (if n = f then Some (Some c) else column_of n fs cs)"
| "column_of n [] _ = Some None"
| "column_of n (f # fs) [] = (if n \<in> set (f # fs) then None else Some None)"

definition GetString :: "ptr \<Rightarrow> bytes \<Rightarrow> 'd database \<Rightarrow> bytes option" where
  "GetString a lineName db = do {
     res \<leftarrow> live_result a db;
     x \<leftarrow> the_access a db;
     if lineName \<notin> set (res_fields res) then Some []
     else do {
       row \<leftarrow> row_field x;
       c \<leftarrow> column_of lineName (res_fields res) row;
       v \<leftarrow> c;
       map_option c_str v
     }
   }"

definition GetInt :: "ptr \<Rightarrow> bytes \<Rightarrow> 'd database \<Rightarrow> int option" where
  "GetInt a lineName db = do {
     res \<leftarrow> live_result a db;
     x \<leftarrow> the_access a db;
     if lineName \<notin> set (res_fields res) then None
     else do {
       row \<leftarrow> row_field x;
       c \<leftarrow> column_of lineName (res_fields res) row;
       v \<leftarrow> c;
       s \<leftarrow> v;
       atoi s
     }
   }"

definition FreeResult :: "ptr \<Rightarrow> 'd database \<Rightarrow> 'd database option" where
  "FreeResult a db = do {
     x \<leftarrow> the_access a db;
     if pRes_field x = ResNull then Some db
     else if my_free_result (pRes_field x)
     then Some (put_access a (x\<lparr>pRes_field := ResNull, row_field := None\<rparr>) db) else None
   }"

definition ResNumRows :: "ptr \<Rightarrow> 'd database \<Rightarrow> int option" where
  "ResNumRows a db = do {
     x \<leftarrow> the_access a db;
     if pRes_field x = ResNull then Some (- 1)
     else map_option (\<lambda>res. int (length (res_rows res))) (live_result a db)
   }"

section \<open>\<open>CDatabaseConnection\<close>\<close>

definition LIFE_COUNT_Default :: u32 where "LIFE_COUNT_Default = 3"

definition CDatabaseConnection_long :: "bytes \<Rightarrow> ptr \<Rightarrow> db_connection" where
  "CDatabaseConnection_long now adapter =
     \<lparr>adapter_field = adapter, is_long_connection = True, life_count = LIFE_COUNT_Default,
      create_time = now, reference_count = 0\<rparr>"

definition CDatabaseConnection_short :: "bytes \<Rightarrow> ptr \<Rightarrow> u32 \<Rightarrow> db_connection" where
  "CDatabaseConnection_short now adapter n =
     \<lparr>adapter_field = adapter, is_long_connection = False, life_count = n,
      create_time = now, reference_count = 0\<rparr>"

definition conn_GetKey :: "db_connection \<Rightarrow> ptr" where
  "conn_GetKey c = adapter_field c"

definition conn_Lock :: "db_connection \<Rightarrow> db_connection" where
  "conn_Lock c = c\<lparr>reference_count := reference_count c + 1\<rparr>"

definition conn_Unlock :: "db_connection \<Rightarrow> db_connection" where
  "conn_Unlock c = c\<lparr>reference_count := reference_count c - 1\<rparr>"

definition DecreaseLife :: "db_connection \<Rightarrow> db_connection" where
  "DecreaseLife c = (if is_long_connection c then c else c\<lparr>life_count := life_count c - 1\<rparr>)"

definition IsLock :: "db_connection \<Rightarrow> bool" where
  "IsLock c \<longleftrightarrow> reference_count c > 0"

definition IsExpired :: "db_connection \<Rightarrow> bool" where
  "IsExpired c =
     (if is_long_connection c then False
      else if IsLock c then False
      else if life_count c > 0 then False
      else True)"

section \<open>\<open>CDbNVManager\<close>\<close>

definition SetDNS :: "bytes option \<Rightarrow> bytes option \<Rightarrow> bytes option \<Rightarrow> bytes option \<Rightarrow> 'd database \<Rightarrow>
    (int \<times> 'd database) option" where
  "SetDNS pcHost pcDbname pcUsername pcPwd db =
     (case (pcDbname, pcUsername, pcPwd) of
        (Some n, Some u, Some p) \<Rightarrow>
          (case pcHost of
             None \<Rightarrow> None
           | Some h \<Rightarrow> Some (0, db\<lparr>m_strHost := c_str h, m_strDbname := c_str n, m_strUsername := c_str u, m_strPwd := c_str p\<rparr>))
      | _ \<Rightarrow> Some (- 1, db))"

definition CreateNVDataAccess :: "'d mysql \<Rightarrow> 'd database \<Rightarrow> ptr \<times> 'd database" where
  "CreateNVDataAccess my db =
     (if db_room db = 0 then (0, db)
      else let a = db_next db;
               db1 = put_access a CNVDataAccess_new (db\<lparr>db_next := Suc a, db_room := db_room db - 1\<rparr>)
           in (a, access_Connect my a (m_strHost db1) (m_strDbname db1) (m_strUsername db1) (m_strPwd db1) db1))"

fun first_unlocked :: "(ptr \<times> db_connection) list \<Rightarrow> (ptr \<times> db_connection) option" where
  "first_unlocked [] = None"
| "first_unlocked ((k, c) # m) = (if \<not> IsLock c then Some (k, c) else first_unlocked m)"

definition put_connection :: "ptr \<Rightarrow> db_connection \<Rightarrow> 'd database \<Rightarrow> 'd database" where
  "put_connection k c db = db\<lparr>m_mapConnection := om_set k c (m_mapConnection db)\<rparr>"

definition GetNVDataAccess :: "'d mysql \<Rightarrow> 'd database \<Rightarrow> ptr \<times> 'd database" where
  "GetNVDataAccess my db =
     (if length (m_mapConnection db) \<le> 0 then
        (case CreateNVDataAccess my db of (a, db1) \<Rightarrow>
           if a = 0 then (0, db1)
           else let c = CDatabaseConnection_long (local_time_string my (db_server db1)) a
                in (a, put_connection (conn_GetKey c) (conn_Lock c) db1))
      else case first_unlocked (m_mapConnection db) of
        Some (k, c) \<Rightarrow> (adapter_field c, put_connection k (conn_Lock c) db)
      | None \<Rightarrow>
          (case CreateNVDataAccess my db of (a, db1) \<Rightarrow>
             if a = 0 then (0, db1)
             else let c = CDatabaseConnection_short (local_time_string my (db_server db1)) a LIFE_COUNT_Default
                  in (a, put_connection (conn_GetKey c) (conn_Lock c) db1)))"

definition ReleaseNVDataAccess :: "ptr \<Rightarrow> 'd database \<Rightarrow> 'd database option" where
  "ReleaseNVDataAccess a db =
     (case om_find a (m_mapConnection db) of
        None \<Rightarrow> Some db
      | Some c \<Rightarrow> FreeResult a (put_connection a (conn_Unlock c) db))"

text \<open>\<open>Release\<close> calls \<open>m_mapConnection.clear()\<close> inside its loop: the iterator it goes on with is
  valid afterwards only when it is the end.\<close>

definition Release :: "'d mysql \<Rightarrow> 'd database \<Rightarrow> 'd database option" where
  "Release my db =
     (case m_mapConnection db of
        [] \<Rightarrow> Some db
      | (k, c) # rest \<Rightarrow>
          let db1 = (if \<not> IsLock c
                     then access_Disconnect my (adapter_field c) (db\<lparr>m_mapConnection := om_erase k (m_mapConnection db)\<rparr>)
                     else db);
              db2 = db1\<lparr>m_mapConnection := []\<rparr>
          in if rest = [] then Some db2 else None)"

definition DbaModule_GetNVDataAccess :: "'d mysql \<Rightarrow> 'd database \<Rightarrow> ptr \<times> 'd database" where
  "DbaModule_GetNVDataAccess my db = GetNVDataAccess my db"

definition DbaModule_ReleaseNVDataAccess :: "ptr \<Rightarrow> 'd database \<Rightarrow> 'd database option" where
  "DbaModule_ReleaseNVDataAccess a db = ReleaseNVDataAccess a db"

definition DbaModule_Initialize :: "'d mysql \<Rightarrow> bytes option \<Rightarrow> bytes option \<Rightarrow> bytes option \<Rightarrow> bytes option \<Rightarrow>
    'd database \<Rightarrow> (int \<times> 'd database) option" where
  "DbaModule_Initialize my pcHost pcDbname pcUsername pcPwd db = do {
     (res, db1) \<leftarrow> SetDNS pcHost pcDbname pcUsername pcPwd db;
     if res \<noteq> 0 then Some (res, db1)
     else let (a, db2) = DbaModule_GetNVDataAccess my db1 in
       if a = 0 then Some (- 1, db2)
       else do {
         (r1, db3) \<leftarrow> ExecuteNonQuery my a ''update wis_user_tbl set `status`=0'' db2;
         if r1 \<noteq> 0 then do {
           db4 \<leftarrow> DbaModule_ReleaseNVDataAccess a db3;
           Some (- 1, db4)
         } else do {
           (r2, db4) \<leftarrow> ExecuteNonQuery my a ''update wis_device_tbl set `status`=0'' db3;
           db5 \<leftarrow> DbaModule_ReleaseNVDataAccess a db4;
           Some (if r2 \<noteq> 0 then - 1 else 0, db5)
         }
       }
   }"

definition DbaModule_UnInitialize :: "'d mysql \<Rightarrow> 'd database \<Rightarrow> (int \<times> 'd database) option" where
  "DbaModule_UnInitialize my db = map_option (\<lambda>db. (0, db)) (Release my db)"

section \<open>The pool never lends an access object twice\<close>

text \<open>\<open>held\<close>: the access objects in use. The pool is well formed when every connection sits
  under the address of its own, existing access object and is in use at most once.\<close>

definition held :: "'d database \<Rightarrow> ptr set" where
  "held db = {k. \<exists>c. om_find k (m_mapConnection db) = Some c \<and> IsLock c}"

definition pooled :: "'d database \<Rightarrow> ptr set" where
  "pooled db = om.keys (m_mapConnection db)"

definition usable :: "ptr \<Rightarrow> 'd database \<Rightarrow> bool" where
  "usable a db \<longleftrightarrow> (\<exists>x. the_access a db = Some x \<and> isInited_flag x \<and> pRes_field x \<noteq> ResFreed)"

definition conn_ok :: "ptr \<Rightarrow> db_connection \<Rightarrow> bool" where
  "conn_ok k c \<longleftrightarrow> adapter_field c = k \<and> (reference_count c = 0 \<or> reference_count c = 1)"

definition db_inv :: "'d database \<Rightarrow> bool" where
  "db_inv db \<longleftrightarrow> 0 < db_next db \<and> om_wf (m_mapConnection db) \<and>
     (\<forall>k c. om_find k (m_mapConnection db) = Some c \<longrightarrow> conn_ok k c \<and> 0 < k \<and> k < db_next db \<and> usable k db)"

lemma db_inv_conn: "db_inv db \<Longrightarrow> om_find k (m_mapConnection db) = Some c \<Longrightarrow>
  conn_ok k c \<and> 0 < k \<and> k < db_next db \<and> usable k db"
  by (simp add: db_inv_def)

lemma db_inv_wf: "db_inv db \<Longrightarrow> om_wf (m_mapConnection db)"
  by (simp add: db_inv_def)

lemma held_usable: "db_inv db \<Longrightarrow> a \<in> held db \<Longrightarrow> usable a db"
  by (auto simp: held_def dest: db_inv_conn)

lemma held_find:
  "om_find k (m_mapConnection db) = Some c \<Longrightarrow> k \<in> held db \<longleftrightarrow> IsLock c"
  "om_find k (m_mapConnection db) = None \<Longrightarrow> k \<notin> held db"
  by (auto simp: held_def)

lemma held_cong: "m_mapConnection db' = m_mapConnection db \<Longrightarrow> held db' = held db"
  by (simp add: held_def)

lemma db_init_inv:
  "db_inv \<lparr>db_server = d, accesses = [], db_next = 1, db_room = n, m_mapConnection = [],
     m_strHost = h, m_strDbname = b, m_strUsername = u, m_strPwd = p\<rparr>"
  by (simp add: db_inv_def)

lemma db_init_held: "m_mapConnection db = [] \<Longrightarrow> held db = {}"
  by (simp add: held_def)

lemma IsLock_simps [simp]: "IsLock c \<longleftrightarrow> reference_count c \<noteq> 0"
  by (simp add: IsLock_def word_gt_0)

lemma the_access_put [simp]:
  "the_access b (put_access a x db) = (if b = a \<and> 0 < a then Some x else the_access b db)"
  by (simp add: the_access_def put_access_def om_lookup)

lemma the_access_pos: "the_access a db = Some x \<Longrightarrow> 0 < a"
  by (simp add: the_access_def split: if_splits)

lemma the_access_NULL [simp]: "the_access 0 db = None"
  by (simp add: the_access_def)

lemma put_access_frame [simp]:
  "m_mapConnection (put_access a x db) = m_mapConnection db" "db_next (put_access a x db) = db_next db"
  "db_server (put_access a x db) = db_server db" "db_room (put_access a x db) = db_room db"
  by (simp_all add: put_access_def)

lemma put_connection_frame [simp]:
  "db_next (put_connection k c db) = db_next db" "db_server (put_connection k c db) = db_server db"
  "accesses (put_connection k c db) = accesses db" "db_room (put_connection k c db) = db_room db"
  by (simp_all add: put_connection_def)

lemma the_access_put_connection [simp]: "the_access a (put_connection k c db) = the_access a db"
  by (simp add: the_access_def)

lemma usable_put_connection [simp]: "usable a (put_connection k c db) = usable a db"
  by (simp add: usable_def)

lemma held_put_connection: "held (put_connection k c db) =
  (if IsLock c then insert k (held db) else held db - {k})"
  by (auto simp: held_def put_connection_def om_lookup split: if_splits)

lemma db_inv_put_connection:
  assumes "db_inv db" "conn_ok k c" "0 < k" "k < db_next db" "usable k db"
  shows "db_inv (put_connection k c db)"
  proof -
  have "usable j (put_connection k c db) = usable j db" for j by simp
  with assms show ?thesis
    unfolding db_inv_def by (simp add: put_connection_def om_lookup)
qed

text \<open>Steps that only run statements or move in result sets.\<close>

definition same_pool :: "'d database \<Rightarrow> 'd database \<Rightarrow> bool" where
  "same_pool db db' \<longleftrightarrow> m_mapConnection db' = m_mapConnection db \<and> db_next db' = db_next db \<and>
     db_room db' = db_room db \<and> (\<forall>a. usable a db \<longrightarrow> usable a db')"

lemma same_pool_refl [simp]: "same_pool db db"
  by (simp add: same_pool_def)

lemma same_pool_trans: "same_pool a b \<Longrightarrow> same_pool b c \<Longrightarrow> same_pool a c"
  by (simp add: same_pool_def)

lemma same_pool_inv: "same_pool db db' \<Longrightarrow> db_inv db \<Longrightarrow> db_inv db'"
  by (auto simp: same_pool_def db_inv_def)

lemma same_pool_held: "same_pool db db' \<Longrightarrow> held db' = held db"
  by (simp add: same_pool_def held_def)

lemma same_pool_server [simp]: "same_pool db (db\<lparr>db_server := d\<rparr>)"
  by (simp add: same_pool_def usable_def the_access_def)

lemma same_pool_put:
  "pRes_field x \<noteq> ResFreed \<Longrightarrow> isInited_flag x \<Longrightarrow> same_pool db (put_access a x (db\<lparr>db_server := d\<rparr>))"
  "pRes_field x \<noteq> ResFreed \<Longrightarrow> isInited_flag x \<Longrightarrow> same_pool db (put_access a x db)"
  by (auto simp: same_pool_def usable_def the_access_def put_access_def om_lookup)

lemma ExecuteNonQuery_usable:
  assumes "usable a db"
  shows "ExecuteNonQuery my a q db =
    Some (if fst (my_real_query my a (c_str q) (db_server db)) = 0 then 0 else - 1,
      db\<lparr>db_server := snd (my_real_query my a (c_str q) (db_server db))\<rparr>)"
proof -
  obtain x where "the_access a db = Some x" "isInited_flag x"
    using assms by (auto simp: usable_def)
  then show ?thesis by (simp add: ExecuteNonQuery_def case_prod_beta)
qed

lemma ExecuteNoThrow_pool:
  assumes "usable a db"
  shows "\<exists>r db'. ExecuteNoThrow my a q db = Some (r, db') \<and> same_pool db db' \<and>
    (1 \<le> r \<longrightarrow> (\<exists>res. live_result a db' = Some res))"
proof -
  obtain x where x: "the_access a db = Some x" "isInited_flag x" "pRes_field x \<noteq> ResFreed"
    using assms by (auto simp: usable_def)
  obtain rc d where q: "my_real_query my a (c_str q) (db_server db) = (rc, d)" by fastforce
  obtain res d' where st: "my_store_result my a d = (res, d')" by fastforce
  let ?x = "x\<lparr>pRes_field := (case res of None \<Rightarrow> ResNull | Some res \<Rightarrow> ResLive res 0)\<rparr>"
  have "the_access a (db\<lparr>db_server := d\<rparr>) = Some x" using x by (simp add: the_access_def split: if_splits)
  then have i: "IsResultSet my a (db\<lparr>db_server := d\<rparr>) = Some (res \<noteq> None, put_access a ?x (db\<lparr>db_server := d'\<rparr>))"
    by (simp add: IsResultSet_def st)
  have "same_pool db (put_access a ?x (db\<lparr>db_server := d'\<rparr>))"
    by (rule same_pool_put) (use x in \<open>simp_all split: option.split\<close>)
  then show ?thesis
    by (cases res) (simp_all add: ExecuteNoThrow_def q i live_result_def x(1) the_access_pos [OF x(1)])
qed

lemma FreeResult_pool:
  assumes "usable a db"
  shows "\<exists>db'. FreeResult a db = Some db' \<and> same_pool db db' \<and> live_result a db' = None"
proof -
  obtain x where "the_access a db = Some x" "isInited_flag x" "pRes_field x \<noteq> ResFreed"
    using assms by (auto simp: usable_def)
  then show ?thesis
    by (auto simp: FreeResult_def my_free_result_def same_pool_put live_result_def)
qed

lemma FetchNewRow_pool:
  assumes "usable a db"
  shows "\<exists>more db'. FetchNewRow a db = Some (more, db') \<and> same_pool db db'"
proof -
  obtain x where "the_access a db = Some x" "isInited_flag x" "pRes_field x \<noteq> ResFreed"
    using assms by (auto simp: usable_def)
  then show ?thesis
    by (cases "pRes_field x") (auto simp: FetchNewRow_def my_fetch_row_def same_pool_put)
qed

text \<open>What a client of the pool relies on.\<close>

locale access_pool =
  fixes acquire :: "'s \<Rightarrow> ptr \<times> 's"
    and release :: "ptr \<Rightarrow> 's \<Rightarrow> 's option"
    and works :: "'s \<Rightarrow> 's \<Rightarrow> bool"
    and inv :: "'s \<Rightarrow> bool"
    and lent :: "'s \<Rightarrow> ptr set"
  assumes acquire_none: "inv s \<Longrightarrow> acquire s = (0, s') \<Longrightarrow> inv s' \<and> lent s' = lent s"
    and acquire_new: "inv s \<Longrightarrow> acquire s = (a, s') \<Longrightarrow> a \<noteq> 0 \<Longrightarrow>
      inv s' \<and> a \<notin> lent s \<and> lent s' = insert a (lent s)"
    and release_lent: "inv s \<Longrightarrow> a \<in> lent s \<Longrightarrow>
      \<exists>s'. release a s = Some s' \<and> inv s' \<and> lent s' = lent s - {a}"
    and works_inv: "works s s' \<Longrightarrow> inv s \<Longrightarrow> inv s' \<and> lent s' = lent s"
begin

text \<open>\<open>at L s\<close>: the state is well formed and exactly \<open>L\<close> is lent.\<close>

definition at :: "ptr set \<Rightarrow> 's \<Rightarrow> bool" where
  "at L s \<longleftrightarrow> inv s \<and> lent s = L"

lemma at_lent: "inv s \<Longrightarrow> at (lent s) s"
  by (simp add: at_def)

lemma at_acquire: "at L s \<Longrightarrow> acquire s = (a, s') \<Longrightarrow> a \<noteq> 0 \<Longrightarrow> at (insert a L) s' \<and> a \<notin> L"
  using acquire_new by (auto simp: at_def)

lemma at_acquire_none: "at L s \<Longrightarrow> acquire s = (0, s') \<Longrightarrow> at L s'"
  using acquire_none by (auto simp: at_def)

lemma at_works: "at L s \<Longrightarrow> works s s' \<Longrightarrow> at L s'"
  using works_inv by (auto simp: at_def)

lemma at_release: "at (insert a L) s \<Longrightarrow> a \<notin> L \<Longrightarrow> \<exists>s'. release a s = Some s' \<and> at L s'"
  using release_lent [of s a] by (auto simp: at_def)

text \<open>A client that borrows, works and gives back leaves the pool as it was.\<close>

lemma borrow:
  assumes "inv s" "acquire s = (a, s1)" "a \<noteq> 0" "works s1 s2"
  shows "\<exists>s3. release a s2 = Some s3 \<and> inv s3 \<and> lent s3 = lent s"
proof -
  have "at (insert a (lent s)) s1" "a \<notin> lent s"
    using at_acquire [OF at_lent] assms by blast+
  then show ?thesis using at_works [OF _ assms(4)] at_release by (auto simp: at_def)
qed

text \<open>Two clients that hold access objects at the same time hold different ones.\<close>

lemma exclusive:
  assumes "inv s" "acquire s = (a, s1)" "a \<noteq> 0" "works s1 s2" "acquire s2 = (b, s3)" "b \<noteq> 0"
  shows "a \<noteq> b"
  using at_acquire [OF at_lent] assms at_works at_acquire by blast

end

lemma first_unlocked_None: "first_unlocked m = None \<longleftrightarrow> (\<forall>(k, c) \<in> set m. IsLock c)"
  by (induction m) (auto split: if_splits)

lemma first_unlocked_Some: "first_unlocked m = Some (k, c) \<Longrightarrow> (k, c) \<in> set m \<and> \<not> IsLock c"
  by (induction m) (auto split: if_splits)

lemma all_busy:
  assumes "m_mapConnection db = [] \<or> first_unlocked (m_mapConnection db) = None"
  shows "pooled db \<subseteq> held db"
proof
  fix k assume "k \<in> pooled db"
  then obtain cn where f: "om_find k (m_mapConnection db) = Some cn" by (auto simp: pooled_def om.in_keys)
  then have "(k, cn) \<in> set (m_mapConnection db)" by (rule om_find_in)
  then have "IsLock cn" using assms by (auto simp: first_unlocked_None)
  with held_find(1) [OF f] show "k \<in> held db" by simp
qed

lemma idle_found:
  assumes "db_inv db" "first_unlocked (m_mapConnection db) = Some (k, c)"
  shows "om_find k (m_mapConnection db) = Some c" "reference_count c = 0" "k \<in> pooled db" "adapter_field c = k" "k \<noteq> 0"
proof -
  show f: "om_find k (m_mapConnection db) = Some c" "reference_count c = 0"
    using first_unlocked_Some [OF assms(2)] by (simp_all add: om_find_iff [OF db_inv_wf [OF assms(1)]])
  show "k \<in> pooled db" "adapter_field c = k" "k \<noteq> 0"
    using db_inv_conn [OF assms(1) f(1)] f by (auto simp: pooled_def om.in_keys conn_ok_def)
qed

lemma held_pooled: "held db \<subseteq> pooled db"
  by (auto simp: held_def pooled_def om.in_keys)

lemma pooled_cong: "m_mapConnection db' = m_mapConnection db \<Longrightarrow> pooled db' = pooled db"
  by (simp add: pooled_def)

lemma pooled_put_connection: "pooled (put_connection k c db) = insert k (pooled db)"
  by (simp add: pooled_def put_connection_def om.keys_set)

lemma CreateNVDataAccess_pool:
  assumes "db_inv db" "CreateNVDataAccess my db = (a, db1)" "a \<noteq> 0"
  shows "db_inv db1" "m_mapConnection db1 = m_mapConnection db" "a = db_next db" "db_next db1 = Suc a"
    "usable a db1" "om_find a (m_mapConnection db) = None"
proof -
  have a: "a = db_next db" "the_access a db1 = Some CNVDataAccess_new"
    "m_mapConnection db1 = m_mapConnection db" "db_next db1 = Suc a"
    "\<And>k. k \<noteq> a \<Longrightarrow> the_access k db1 = the_access k db"
    using assms(2,3)
    by (auto simp: CreateNVDataAccess_def Let_def access_Connect_def the_access_def put_access_def om_lookup
        split: if_splits)
  then show "db_inv db1"
    using assms(1) by (force simp: db_inv_def usable_def)
  show "m_mapConnection db1 = m_mapConnection db" "a = db_next db" "db_next db1 = Suc a" "usable a db1"
    using a by (simp_all add: usable_def CNVDataAccess_new_def)
  show "om_find a (m_mapConnection db) = None"
    using assms(1) a(1) by (metis db_inv_conn less_irrefl not_None_eq)
qed

lemma Create_fails: "CreateNVDataAccess my db = (0, db1) \<Longrightarrow> db_inv db \<Longrightarrow> db1 = db"
  by (auto simp: CreateNVDataAccess_def Let_def db_inv_def split: if_splits)

lemma Get_spec:
  assumes "db_inv db" "GetNVDataAccess my db = (a, db')" "a \<noteq> 0"
  shows "db_inv db' \<and> a \<notin> held db \<and> held db' = insert a (held db)"
proof -
  have created: "db_inv (put_connection a (conn_Lock c) db1) \<and> a \<notin> held db \<and>
      held (put_connection a (conn_Lock c) db1) = insert a (held db)"
    if "CreateNVDataAccess my db = (a, db1)" "conn_ok a c" "reference_count c = 0" for c db1
  proof -
    note C = CreateNVDataAccess_pool [OF assms(1) that(1) assms(3)]
    have l: "conn_ok a (conn_Lock c)" "IsLock (conn_Lock c)"
      using that(2,3) by (simp_all add: conn_Lock_def conn_ok_def)
    have "a \<notin> held db" using held_find(2) C(6) by blast
    moreover have "db_inv (put_connection a (conn_Lock c) db1)"
      by (rule db_inv_put_connection [OF C(1) l(1) _ _ C(5)]) (use C(4) assms(3) in simp_all)
    moreover have "held (put_connection a (conn_Lock c) db1) = insert a (held db)"
      using l(2) held_cong [OF C(2)] by (simp add: held_put_connection)
    ultimately show ?thesis by blast
  qed
  have idle: "db_inv (put_connection k (conn_Lock c) db) \<and> adapter_field c = k \<and> k \<notin> held db \<and>
      held (put_connection k (conn_Lock c) db) = insert k (held db)"
    if "first_unlocked (m_mapConnection db) = Some (k, c)" for k c
  proof -
    note f = idle_found [OF assms(1) that]
    have k: "conn_ok k c" "0 < k" "k < db_next db" "usable k db"
      using db_inv_conn [OF assms(1) f(1)] by auto
    have l: "conn_ok k (conn_Lock c)" "IsLock (conn_Lock c)"
      using k(1) f(2) by (simp_all add: conn_Lock_def conn_ok_def)
    have "k \<notin> held db" using held_find(1) [OF f(1)] f(2) by simp
    moreover have "db_inv (put_connection k (conn_Lock c) db)"
      by (rule db_inv_put_connection [OF assms(1) l(1) k(2-4)])
    moreover have "held (put_connection k (conn_Lock c) db) = insert k (held db)"
      using l(2) by (simp add: held_put_connection)
    ultimately show ?thesis using k(1) by (simp add: conn_ok_def)
  qed
  note new = conn_ok_def conn_GetKey_def CDatabaseConnection_long_def CDatabaseConnection_short_def
  obtain b db1 where c: "CreateNVDataAccess my db = (b, db1)" by fastforce
  show ?thesis
  proof (cases "m_mapConnection db = [] \<or> first_unlocked (m_mapConnection db) = None")
    case True
    with assms(2,3) c have a: "a = b" by (auto simp: GetNVDataAccess_def Let_def split: if_splits)
    with True assms(2,3) c obtain cn where "db' = put_connection (conn_GetKey cn) (conn_Lock cn) db1"
      "conn_ok a cn" "reference_count cn = 0" "conn_GetKey cn = a"
      by (auto simp: GetNVDataAccess_def Let_def new split: if_splits)
    then show ?thesis using created c a by simp
  next
    case False
    then obtain k cn where f: "first_unlocked (m_mapConnection db) = Some (k, cn)" by fastforce
    with idle [OF f] False assms(2) show ?thesis by (auto simp: GetNVDataAccess_def)
  qed
qed

lemma Get_none:
  assumes "db_inv db" "GetNVDataAccess my db = (0, db')"
  shows "db' = db \<and> (\<forall>k \<in> pooled db. k \<in> held db) \<and> db_room db = 0"
proof -
  obtain b db1 where c: "CreateNVDataAccess my db = (b, db1)" by fastforce
  show ?thesis
  proof (cases "m_mapConnection db = [] \<or> first_unlocked (m_mapConnection db) = None")
    case True
    have b: "b = 0" "db' = db1"
      using True assms(2) c by (auto simp: GetNVDataAccess_def Let_def split: if_splits)
    then have "db1 = db" "db_room db = 0"
      using Create_fails [of my db db1] c assms(1)
      by (auto simp: CreateNVDataAccess_def Let_def db_inv_def split: if_splits)
    moreover have "\<forall>k \<in> pooled db. k \<in> held db" using all_busy [OF True] by blast
    ultimately show ?thesis using b by simp
  next
    case False
    then obtain k cn where f: "first_unlocked (m_mapConnection db) = Some (k, cn)" by fastforce
    have "adapter_field cn = k" "k \<noteq> 0" using idle_found [OF assms(1) f] by auto
    with f False assms(2) show ?thesis by (auto simp: GetNVDataAccess_def)
  qed
qed

lemma Release_spec:
  assumes "db_inv db" "a \<in> held db"
  shows "\<exists>db'. ReleaseNVDataAccess a db = Some db' \<and> db_inv db' \<and> held db' = held db - {a} \<and>
    pooled db' = pooled db \<and> live_result a db' = None"
proof -
  obtain c where c: "om_find a (m_mapConnection db) = Some c" "reference_count c \<noteq> 0"
    using assms(2) by (auto simp: held_def)
  have ok: "conn_ok a c" "0 < a" "a < db_next db" "usable a db"
    using db_inv_conn [OF assms(1) c(1)] by auto
  let ?db = "put_connection a (conn_Unlock c) db"
  have u: "conn_ok a (conn_Unlock c)" "\<not> IsLock (conn_Unlock c)"
    using ok(1) c(2) by (auto simp: conn_Unlock_def conn_ok_def)
  have i: "db_inv ?db" by (rule db_inv_put_connection [OF assms(1) u(1) ok(2-4)])
  have h: "held ?db = held db - {a}" "usable a ?db"
    using u(2) ok(4) by (simp_all add: held_put_connection)
  have p: "pooled ?db = pooled db"
    using c(1) by (auto simp: pooled_def put_connection_def om.keys_set om.in_keys)
  obtain db' where "FreeResult a ?db = Some db'" "same_pool ?db db'" "live_result a db' = None"
    using FreeResult_pool [OF h(2)] by blast
  note r = this
  have "ReleaseNVDataAccess a db = Some db'" using r(1) c(1) by (simp add: ReleaseNVDataAccess_def)
  moreover have "pooled db' = pooled db" using p r(2) by (simp add: pooled_def same_pool_def)
  ultimately show ?thesis
    using same_pool_inv [OF r(2) i] same_pool_held [OF r(2)] h(1) r(3) by auto
qed

interpretation pool: access_pool "GetNVDataAccess my" ReleaseNVDataAccess same_pool db_inv held for my
proof
  show "db_inv db' \<and> held db' = held db" if "db_inv db" "GetNVDataAccess my db = (0, db')" for db db'
    using Get_none [OF that] that by simp
  show "db_inv db' \<and> a \<notin> held db \<and> held db' = insert a (held db)"
    if "db_inv db" "GetNVDataAccess my db = (a, db')" "a \<noteq> 0" for db db' a
    using Get_spec [OF that] .
  show "\<exists>db'. ReleaseNVDataAccess a db = Some db' \<and> db_inv db' \<and> held db' = held db - {a}"
    if "db_inv db" "a \<in> held db" for db a
    using Release_spec [OF that] by blast
  show "db_inv db' \<and> held db' = held db" if "same_pool db db'" "db_inv db" for db db'
    using same_pool_inv same_pool_held that by blast
qed

section \<open>A server that accepts everything\<close>

text \<open>Every statement succeeds, a result set has the one row \<open>row\<close> of the columns \<open>cols\<close>.\<close>

definition quiet_mysql :: "bytes list \<Rightarrow> bytes option list \<Rightarrow> bytes list mysql" where
  "quiet_mysql cols row =
     \<lparr>my_real_connect = (\<lambda>_ _ _ _ _ d. d), my_real_query = (\<lambda>_ q d. (0, d @ [q])),
      my_store_result = (\<lambda>_ d. (Some \<lparr>res_fields = cols, res_rows = [row]\<rparr>, d)),
      my_affected_rows = (\<lambda>_ _. 1), my_field_count = (\<lambda>_ _. of_nat (length cols)),
      my_close = (\<lambda>_ d. d), local_time_string = (\<lambda>_. ''now'')\<rparr>"

definition empty_db :: "'d \<Rightarrow> 'd database" where
  "empty_db d = \<lparr>db_server = d, accesses = [], db_next = 1, db_room = 8, m_mapConnection = [],
     m_strHost = ''localhost'', m_strDbname = ''wis'', m_strUsername = ''wis'', m_strPwd = ''wis''\<rparr>"

lemma empty_db_inv [simp]: "db_inv (empty_db d)"
  unfolding empty_db_def by (rule db_init_inv)

lemma empty_db_held [simp]: "held (empty_db d) = {}"
  by (simp add: empty_db_def db_init_held)

lemma Get_empty_db: "fst (GetNVDataAccess my (empty_db d)) = 1"
  by (simp add: GetNVDataAccess_def empty_db_def CreateNVDataAccess_def Let_def)

section \<open>Properties\<close>

text \<open>C29: The pool lends exclusively and grows only under pressure. An access object that
  \<open>GetNVDataAccess\<close> hands out was not in use before, is now, no other one changes hands, and a new
  connection is opened only when every pooled one is in use.\<close>

theorem pool_lends_exclusively:
  assumes "db_inv db" "GetNVDataAccess my db = (a, db')" "a \<noteq> 0"
  shows "db_inv db' \<and> a \<notin> held db \<and> held db' = insert a (held db) \<and>
    (a \<in> pooled db \<and> pooled db' = pooled db \<or> pooled db \<subseteq> held db \<and> pooled db' = insert a (pooled db))"
proof (intro conjI)
  show "db_inv db'" "a \<notin> held db" "held db' = insert a (held db)"
    using Get_spec [OF assms] by auto
  obtain b db1 where c: "CreateNVDataAccess my db = (b, db1)" by fastforce
  show "a \<in> pooled db \<and> pooled db' = pooled db \<or> pooled db \<subseteq> held db \<and> pooled db' = insert a (pooled db)"
  proof (cases "m_mapConnection db = [] \<or> first_unlocked (m_mapConnection db) = None")
    case True
    then have "pooled db \<subseteq> held db" by (rule all_busy)
    moreover have "b = a" "\<exists>cn. db' = put_connection a cn db1"
      using True assms(2,3) c by (auto simp: GetNVDataAccess_def Let_def conn_GetKey_def
          CDatabaseConnection_long_def CDatabaseConnection_short_def split: if_splits)
    ultimately show ?thesis
      using pooled_cong [OF CreateNVDataAccess_pool(2) [OF assms(1) c]] assms(3) by (auto simp: pooled_put_connection)
  next
    case False
    then obtain k cn where f: "first_unlocked (m_mapConnection db) = Some (k, cn)" by fastforce
    then have k: "k \<in> pooled db" "adapter_field cn = k" using idle_found [OF assms(1) f] by auto
    then show ?thesis
      using assms(2) f False by (auto simp: GetNVDataAccess_def pooled_put_connection)
  qed
qed

theorem pool_lends_exclusively_witness:
  "1 \<notin> held (empty_db []) \<and>
   held (snd (GetNVDataAccess (quiet_mysql [] []) (empty_db []))) = {1}"
  using pool_lends_exclusively [of "empty_db []" "quiet_mysql [] []" 1
      "snd (GetNVDataAccess (quiet_mysql [] []) (empty_db []))"] Get_empty_db [of "quiet_mysql [] []" "[]"]
  by (simp add: prod_eq_iff)

text \<open>What is given back can be had again. Releasing an access object in use frees its result set
  and takes it out of use, nothing else changes hands, and after that the pool cannot answer \<open>NULL\<close>,
  even when no memory is left for another access object.\<close>

lemma released_is_available:
  assumes "db_inv db" "a \<in> held db"
  shows "\<exists>db'. ReleaseNVDataAccess a db = Some db' \<and> db_inv db' \<and> held db' = held db - {a} \<and>
    live_result a db' = None \<and> fst (GetNVDataAccess my db') \<noteq> 0"
proof -
  obtain db' where r: "ReleaseNVDataAccess a db = Some db'" "db_inv db'" "held db' = held db - {a}"
    "pooled db' = pooled db" "live_result a db' = None"
    using Release_spec [OF assms] by blast
  have "a \<in> pooled db' - held db'" using held_pooled assms(2) r(3,4) by blast
  then have "GetNVDataAccess my db' \<noteq> (0, db'')" for db''
    using Get_none [OF r(2), of my db''] by blast
  then show ?thesis using r by (metis prod.collapse)
qed

lemma released_is_available_example:
  "\<exists>db'. ReleaseNVDataAccess 1 (snd (GetNVDataAccess (quiet_mysql [] []) (empty_db []))) = Some db' \<and>
     held db' = {}"
proof -
  let ?db = "snd (GetNVDataAccess (quiet_mysql [] []) (empty_db []))"
  have "db_inv ?db \<and> held ?db = {1}"
    using Get_spec [of "empty_db []" "quiet_mysql [] []" 1 ?db] Get_empty_db [of "quiet_mysql [] []" "[]"]
    by (simp add: prod_eq_iff)
  then show ?thesis using released_is_available [of ?db 1 "quiet_mysql [] []"] by auto
qed

end
