(* ===== verification/Dao.thy ===== *)
theory Dao
  imports Database
begin

text \<open>
  The data access objects of business and APNS: the statements they send, with the size of the
  buffer each is printed into, how they borrow and return an access object, and how result rows
  become values. \<open>WisUserDao\<close>, \<open>WisDeviceDao\<close>, \<open>WisBindDao\<close> (its two queries),
  \<open>WisLogDao\<close>, \<open>WisDeviceCommandDao\<close>, \<open>WisIOSTokenDao\<close> and \<open>WisIOSPushDao\<close>. The
  handlers of the same classes that also send replies are in the theories of the handlers.

  A \<open>std::string\<close> argument is read with \<open>c_str()\<close>; nothing is escaped.
\<close>

section \<open>Statements\<close>

definition quoted :: "bytes \<Rightarrow> bytes" where
  "quoted s = CHR 0x27 # c_str s @ [CHR 0x27]"

definition TAB :: char where "TAB = CHR 0x09"

definition sql_user :: "bytes \<Rightarrow> bytes" where
  "sql_user user = ''select * from wis_user_tbl where `name`='' @ quoted user"

definition sql_user_password :: "bytes \<Rightarrow> bytes \<Rightarrow> bytes" where
  "sql_user_password user password =
     ''select * from wis_user_tbl where `name`='' @ quoted user @ '' and `password`='' @ quoted password"

definition sql_user_login :: "bytes \<Rightarrow> bytes" where
  "sql_user_login user =
     ''update wis_user_tbl set `login_time`=CURRENT_TIMESTAMP,`login_cnt`=`login_cnt`+1,`status`=1 where `name`=''
     @ quoted user"

definition sql_user_logout :: "bytes \<Rightarrow> bytes" where
  "sql_user_logout user = ''update wis_user_tbl set `status`=0 where `name`='' @ quoted user"

definition sql_user_insert :: "bytes \<Rightarrow> bytes \<Rightarrow> bytes" where
  "sql_user_insert user passwd =
     ''insert into wis_user_tbl(`name`,`password`,`type`,`permission`,'' @ [TAB, TAB]
     @ ''`reg_time`,`login_cnt`,`bind_status`) values('' @ quoted user @ '','' @ quoted passwd
     @ '', 0, 0, CURRENT_TIMESTAMP,0,0)''"

definition sql_device :: "bytes \<Rightarrow> bytes" where
  "sql_device uuid = ''SELECT * FROM wis_device_tbl WHERE uuid='' @ quoted uuid"

definition sql_device_insert :: "bytes \<Rightarrow> bytes \<Rightarrow> bytes" where
  "sql_device_insert uuid name =
     ''INSERT INTO wis_device_tbl VALUES('' @ quoted uuid @ '','' @ quoted ''device'' @ '','' @ quoted ''1''
     @ '','' @ quoted ''1'' @ '',CURRENT_TIMESTAMP,CURRENT_TIMESTAMP,1,1,'' @ quoted name @ '')''"

definition sql_device_login :: "bytes \<Rightarrow> bytes \<Rightarrow> bytes" where
  "sql_device_login uuid name =
     ''UPDATE wis_device_tbl SET `status`=1,`login_cnt`=`login_cnt`+1,`name`='' @ quoted name
     @ '',`login_time`=CURRENT_TIMESTAMP  WHERE `uuid`='' @ quoted uuid"

definition sql_device_logout :: "bytes \<Rightarrow> bytes" where
  "sql_device_logout uuid = ''UPDATE wis_device_tbl SET `status`=0 WHERE `uuid`='' @ quoted uuid"

definition sql_bound_devices :: "bytes \<Rightarrow> bytes" where
  "sql_bound_devices user =
     ''SELECT `uuid`,`name`,`bind_time`,`status` FROM wis_device_tbl,wis_device_bind_tbl WHERE '' @ [TAB]
     @ ''`dev_id`=`uuid` AND `user_id`='' @ quoted user"

definition sql_bound_users :: "bytes \<Rightarrow> bytes" where
  "sql_bound_users dev =
     ''SELECT `name`,`bind_time`,`status` FROM wis_user_tbl, '' @ [TAB]
     @ ''wis_device_bind_tbl WHERE `user_id`=`name` AND `dev_id`='' @ quoted dev"

definition sql_log :: "int \<Rightarrow> int \<Rightarrow> bytes \<Rightarrow> int \<Rightarrow> bytes \<Rightarrow> bytes" where
  "sql_log src logType srcId argLen arg =
     ''insert into wis_log_tbl(`submit_time`,`src`,`type`,`src_id`,`arg_len`,`arg`) values (CURRENT_TIMESTAMP,''
     @ show_int src @ '','' @ show_int logType @ '','' @ quoted srcId @ '','' @ show_int argLen @ '','' @ quoted arg
     @ '')''"

definition sql_command :: "bytes \<Rightarrow> bytes \<Rightarrow> int \<Rightarrow> int \<Rightarrow> bytes \<Rightarrow> bytes" where
  "sql_command user device cmd arglen arg =
     ''INSERT INTO wis_device_cmd_tbl(`user_id`,`dev_id`,`cmd`,`arg_len`,`arg`,`submit_time`,`status`) ''
     @ ''VALUES('' @ [CHR 0x27] @ user @ [CHR 0x27] @ '','' @ [CHR 0x27] @ device @ [CHR 0x27] @ '',''
     @ show_int cmd @ '','' @ show_int arglen @ '','' @ [CHR 0x27] @ arg @ [CHR 0x27] @ '',''
     @ ''CURRENT_TIMESTAMP,1)''"

definition sql_token_update :: "bytes \<Rightarrow> bytes \<Rightarrow> bytes" where
  "sql_token_update uuid token =
     ''update wis_ios_token_tbl2 set `user`='' @ quoted uuid
     @ '',`update_time`=CURRENT_TIMESTAMP where `token`='' @ quoted token"

definition sql_token_insert :: "bytes \<Rightarrow> bytes \<Rightarrow> bytes" where
  "sql_token_insert uuid token =
     ''insert into wis_ios_token_tbl2 values('' @ quoted uuid @ '','' @ quoted token @ '',CURRENT_TIMESTAMP)''"

definition sql_token :: "bytes \<Rightarrow> bytes" where
  "sql_token uuid = ''select `token` from wis_ios_token_tbl2 where `user`='' @ quoted uuid"

definition sql_push :: "bytes \<Rightarrow> int \<Rightarrow> int \<Rightarrow> bytes \<Rightarrow> bytes" where
  "sql_push device flag len msg =
     ''INSERT INTO wis_ios_push_tbl(`submit_time`,`from_dev`,`flag`,`len`,`message`,`status`) VALUES(CURRENT_TIMESTAMP,''
     @ quoted device @ '','' @ show_int flag @ '','' @ show_int len @ '','' @ quoted msg @ '',1)''"

section \<open>\<open>WisUserDao\<close>\<close>

definition checkUser :: "'d mysql \<Rightarrow> bytes \<Rightarrow> 'd database \<Rightarrow> (bool \<times> 'd database) option" where
  "checkUser my user db =
     (let sql = snprintf 200 (sql_user user);
          (access, db1) = DbaModule_GetNVDataAccess my db
      in if access \<noteq> 0 then do {
           (n, db2) \<leftarrow> ExecuteNoThrow my access sql db1;
           if n \<ge> 1 then do {
             db3 \<leftarrow> DbaModule_ReleaseNVDataAccess access db2;
             Some (True, db3)
           } else do {
             db3 \<leftarrow> DbaModule_ReleaseNVDataAccess access db2;
             Some (False, db3)
           }
         }
         else Some (False, db1))"

definition checkUserAndPassword :: "'d mysql \<Rightarrow> bytes \<Rightarrow> bytes \<Rightarrow> 'd database \<Rightarrow> (bool \<times> 'd database) option" where
  "checkUserAndPassword my user password db =
     (let (access, db1) = DbaModule_GetNVDataAccess my db
      in if access \<noteq> 0 then do {
           let sql = snprintf 200 (sql_user_password user password);
           (n, db2) \<leftarrow> ExecuteNoThrow my access sql db1;
           if n \<ge> 1 then do {
             db3 \<leftarrow> DbaModule_ReleaseNVDataAccess access db2;
             Some (True, db3)
           } else do {
             db3 \<leftarrow> DbaModule_ReleaseNVDataAccess access db2;
             Some (False, db3)
           }
         }
         else Some (False, db1))"

definition user_login :: "'d mysql \<Rightarrow> bytes \<Rightarrow> bytes \<Rightarrow> 'd database \<Rightarrow> (bool \<times> 'd database) option" where
  "user_login my user passwd db =
     (let sql = snprintf 200 (sql_user_password user passwd);
          (access, db1) = DbaModule_GetNVDataAccess my db
      in if access \<noteq> 0 then do {
           (n, db2) \<leftarrow> ExecuteNoThrow my access sql db1;
           if n \<ge> 1 then do {
             db3 \<leftarrow> FreeResult access db2;
             (r, db4) \<leftarrow> ExecuteNonQuery my access (snprintf 200 (sql_user_login user)) db3;
             db5 \<leftarrow> DbaModule_ReleaseNVDataAccess access db4;
             Some (- 1 \<noteq> r, db5)
           } else do {
             db3 \<leftarrow> DbaModule_ReleaseNVDataAccess access db2;
             Some (False, db3)
           }
         }
         else Some (False, db1))"

definition user_logout :: "'d mysql \<Rightarrow> bytes \<Rightarrow> bytes \<Rightarrow> 'd database \<Rightarrow> (bool \<times> 'd database) option" where
  "user_logout my user passwd db =
     (let (access, db1) = DbaModule_GetNVDataAccess my db
      in if access \<noteq> 0 then do {
           (r, db2) \<leftarrow> ExecuteNonQuery my access (snprintf 200 (sql_user_logout user)) db1;
           if - 1 \<noteq> r then do {
             db3 \<leftarrow> DbaModule_ReleaseNVDataAccess access db2;
             Some (True, db3)
           } else do {
             db3 \<leftarrow> DbaModule_ReleaseNVDataAccess access db2;
             Some (False, db3)
           }
         }
         else Some (False, db1))"

definition user_regist :: "'d mysql \<Rightarrow> bytes \<Rightarrow> bytes \<Rightarrow> 'd database \<Rightarrow> (bool \<times> 'd database) option" where
  "user_regist my user passwd db =
     (let (access, db1) = DbaModule_GetNVDataAccess my db
      in if access \<noteq> 0 then do {
           (r, db2) \<leftarrow> ExecuteNonQuery my access (snprintf 200 (sql_user_insert user passwd)) db1;
           if - 1 \<noteq> r then do {
             db3 \<leftarrow> DbaModule_ReleaseNVDataAccess access db2;
             Some (True, db3)
           } else do {
             db3 \<leftarrow> DbaModule_ReleaseNVDataAccess access db2;
             Some (False, db3)
           }
         }
         else Some (False, db1))"

definition user_logoutAll :: "'d mysql \<Rightarrow> 'd database \<Rightarrow> (bool \<times> 'd database) option" where
  "user_logoutAll my db =
     (let (access, db1) = DbaModule_GetNVDataAccess my db
      in if access \<noteq> 0 then do {
           (r, db2) \<leftarrow> ExecuteNonQuery my access ''update wis_user_tbl set `status`=0'' db1;
           if - 1 \<noteq> r then do {
             db3 \<leftarrow> DbaModule_ReleaseNVDataAccess access db2;
             Some (True, db3)
           } else do {
             db3 \<leftarrow> DbaModule_ReleaseNVDataAccess access db2;
             Some (False, db3)
           }
         }
         else Some (False, db1))"

definition defaultPassword :: bytes where "defaultPassword = ''R800JL.Ke8MBo''"

section \<open>\<open>WisDeviceDao\<close>\<close>

definition device_check :: "'d mysql \<Rightarrow> bytes \<Rightarrow> 'd database \<Rightarrow> (bool \<times> 'd database) option" where
  "device_check my uuid db =
     (let sql = snprintf 200 (sql_device uuid);
          (access, db1) = DbaModule_GetNVDataAccess my db
      in if access \<noteq> 0 then do {
           (n, db2) \<leftarrow> ExecuteNoThrow my access sql db1;
           db3 \<leftarrow> DbaModule_ReleaseNVDataAccess access db2;
           Some (n \<ge> 1, db3)
         }
         else Some (False, db1))"

text \<open>Does not give the access object back when the statement succeeds.\<close>

definition device_regist :: "'d mysql \<Rightarrow> bytes \<Rightarrow> bytes \<Rightarrow> 'd database \<Rightarrow> (bool \<times> 'd database) option" where
  "device_regist my uuid name db =
     (let insertSQL = snprintf 1024 (sql_device_insert uuid name);
          (access, db1) = DbaModule_GetNVDataAccess my db
      in if access \<noteq> 0 then do {
           (r, db2) \<leftarrow> ExecuteNonQuery my access insertSQL db1;
           if - 1 \<noteq> r then Some (True, db2)
           else do {
             db3 \<leftarrow> DbaModule_ReleaseNVDataAccess access db2;
             Some (False, db3)
           }
         }
         else Some (False, db1))"

definition device_login :: "'d mysql \<Rightarrow> bytes \<Rightarrow> bytes \<Rightarrow> 'd database \<Rightarrow> (bool \<times> 'd database) option" where
  "device_login my uuid name db =
     (let updateSQL = snprintf 1024 (sql_device_login uuid name);
          (access, db1) = DbaModule_GetNVDataAccess my db
      in if access \<noteq> 0 then do {
           (r, db2) \<leftarrow> ExecuteNonQuery my access updateSQL db1;
           if - 1 \<noteq> r then do {
             db3 \<leftarrow> DbaModule_ReleaseNVDataAccess access db2;
             Some (True, db3)
           } else do {
             db3 \<leftarrow> DbaModule_ReleaseNVDataAccess access db2;
             Some (False, db3)
           }
         }
         else Some (False, db1))"

definition device_logout :: "'d mysql \<Rightarrow> bytes \<Rightarrow> 'd database \<Rightarrow> (bool \<times> 'd database) option" where
  "device_logout my uuid db =
     (let updateSQL = snprintf 200 (sql_device_logout uuid);
          (access, db1) = DbaModule_GetNVDataAccess my db
      in if access \<noteq> 0 then do {
           (r, db2) \<leftarrow> ExecuteNonQuery my access updateSQL db1;
           if - 1 \<noteq> r then do {
             db3 \<leftarrow> DbaModule_ReleaseNVDataAccess access db2;
             Some (True, db3)
           } else do {
             db3 \<leftarrow> DbaModule_ReleaseNVDataAccess access db2;
             Some (False, db3)
           }
         }
         else Some (False, db1))"

definition device_logoutAll :: "'d mysql \<Rightarrow> 'd database \<Rightarrow> (bool \<times> 'd database) option" where
  "device_logoutAll my db =
     (let (access, db1) = DbaModule_GetNVDataAccess my db
      in if access \<noteq> 0 then do {
           (r, db2) \<leftarrow> ExecuteNonQuery my access ''UPDATE wis_device_tbl SET `status`=0'' db1;
           if - 1 \<noteq> r then do {
             db3 \<leftarrow> DbaModule_ReleaseNVDataAccess access db2;
             Some (True, db3)
           } else do {
             db3 \<leftarrow> DbaModule_ReleaseNVDataAccess access db2;
             Some (False, db3)
           }
         }
         else Some (False, db1))"

section \<open>\<open>WisBindDao\<close>: the queries\<close>

text \<open>Packed structs of \<open>char\<close> arrays and an \<open>int\<close>. Their \<open>uuid\<close> is read back as a C string from
  the struct's memory: when all 32 bytes are used it runs on into the field behind it.\<close>

record wis_device_info =
  wd_uuid :: bytes
  wd_name :: bytes
  wd_time :: bytes
  wd_status :: int

record wis_user_info =
  wu_uuid :: bytes
  wu_time :: bytes
  wu_status :: int

definition device_info_mem :: "wis_device_info \<Rightarrow> bytes" where
  "device_info_mem b = wd_uuid b @ wd_name b @ wd_time b @ enc32 (word_of_int (wd_status b))"

definition user_info_mem :: "wis_user_info \<Rightarrow> bytes" where
  "user_info_mem b = wu_uuid b @ wu_time b @ enc32 (word_of_int (wu_status b))"

partial_function (option) fetch_devices ::
  "ptr \<Rightarrow> (bytes \<times> wis_device_info) list \<Rightarrow> 'd database \<Rightarrow> ((bytes \<times> wis_device_info) list \<times> 'd database) option" where
  "fetch_devices access buddies db =
     Option.bind (FetchNewRow access db) (\<lambda>(more, db1).
       if more then
         Option.bind (GetString access ''uuid'' db1) (\<lambda>u.
         Option.bind (GetString access ''name'' db1) (\<lambda>n.
         Option.bind (GetString access ''bind_time'' db1) (\<lambda>t.
         Option.bind (GetInt access ''status'' db1) (\<lambda>s.
         let buddy = \<lparr>wd_uuid = pad_to 32 u, wd_name = pad_to 32 n, wd_time = pad_to 20 t, wd_status = s\<rparr> in
         Option.bind (string_at (device_info_mem buddy)) (\<lambda>key.
         fetch_devices access (om_set key buddy buddies) db1)))))
       else Some (buddies, db1))"

definition getBindedDevices :: "'d mysql \<Rightarrow> bytes \<Rightarrow> (bytes \<times> wis_device_info) list \<Rightarrow> 'd database \<Rightarrow>
    (int \<times> (bytes \<times> wis_device_info) list \<times> 'd database) option" where
  "getBindedDevices my userUUID buddies db =
     (let sql = snprintf 200 (sql_bound_devices userUUID);
          (access, db1) = DbaModule_GetNVDataAccess my db
      in do {
        (n, db2) \<leftarrow> ExecuteNoThrow my access sql db1;
        if n < 1 then do {
          db3 \<leftarrow> DbaModule_ReleaseNVDataAccess access db2;
          Some (0, buddies, db3)
        } else do {
          (buddies', db3) \<leftarrow> fetch_devices access buddies db2;
          db4 \<leftarrow> DbaModule_ReleaseNVDataAccess access db3;
          Some (int (length buddies'), buddies', db4)
        }
      })"

partial_function (option) fetch_users ::
  "ptr \<Rightarrow> (bytes \<times> wis_user_info) list \<Rightarrow> 'd database \<Rightarrow> ((bytes \<times> wis_user_info) list \<times> 'd database) option" where
  "fetch_users access buddies db =
     Option.bind (FetchNewRow access db) (\<lambda>(more, db1).
       if more then
         Option.bind (GetString access ''name'' db1) (\<lambda>u.
         Option.bind (GetString access ''bind_time'' db1) (\<lambda>t.
         Option.bind (GetInt access ''status'' db1) (\<lambda>s.
         let buddy = \<lparr>wu_uuid = pad_to 32 u, wu_time = pad_to 20 t, wu_status = s\<rparr> in
         Option.bind (string_at (user_info_mem buddy)) (\<lambda>key.
         fetch_users access (om_set key buddy buddies) db1))))
       else Some (buddies, db1))"

definition getBindedUsers :: "'d mysql \<Rightarrow> bytes \<Rightarrow> (bytes \<times> wis_user_info) list \<Rightarrow> 'd database \<Rightarrow>
    (int \<times> (bytes \<times> wis_user_info) list \<times> 'd database) option" where
  "getBindedUsers my devUUID buddies db =
     (let sql = snprintf 200 (sql_bound_users devUUID);
          (access, db1) = DbaModule_GetNVDataAccess my db
      in do {
        (n, db2) \<leftarrow> ExecuteNoThrow my access sql db1;
        if n < 1 then do {
          db3 \<leftarrow> DbaModule_ReleaseNVDataAccess access db2;
          Some (0, buddies, db3)
        } else do {
          (buddies', db3) \<leftarrow> fetch_users access buddies db2;
          db4 \<leftarrow> DbaModule_ReleaseNVDataAccess access db3;
          Some (int (length buddies'), buddies', db4)
        }
      })"

section \<open>\<open>WisLogDao\<close>, \<open>WisDeviceCommandDao\<close>\<close>

definition saveLog :: "'d mysql \<Rightarrow> int \<Rightarrow> int \<Rightarrow> bytes \<Rightarrow> int \<Rightarrow> bytes \<Rightarrow> 'd database \<Rightarrow> 'd database option" where
  "saveLog my src logType srcId argLen arg db =
     (let (access, db1) = DbaModule_GetNVDataAccess my db
      in if access \<noteq> 0 then do {
           (r, db2) \<leftarrow> ExecuteNonQuery my access (snprintf 2000 (sql_log src logType srcId argLen arg)) db1;
           DbaModule_ReleaseNVDataAccess access db2
         }
         else Some db1)"

definition LOG_SRC_USER :: int where "LOG_SRC_USER = 1"
definition LOG_SRC_DEVICE :: int where "LOG_SRC_DEVICE = 2"
definition LOG_SRC_SERVER :: int where "LOG_SRC_SERVER = 3"

definition saveUserLog where "saveUserLog my logType srcId argLen arg = saveLog my LOG_SRC_USER logType srcId argLen arg"
definition saveDeviceLog where "saveDeviceLog my logType srcId argLen arg = saveLog my LOG_SRC_DEVICE logType srcId argLen arg"
definition saveServerLog where "saveServerLog my logType srcId argLen arg = saveLog my LOG_SRC_SERVER logType srcId argLen arg"

definition saveUserLoginWebLog where "saveUserLoginWebLog my srcId argLen arg = saveUserLog my 0 srcId argLen arg"
definition saveUserRegLog where "saveUserRegLog my srcId argLen arg = saveUserLog my 1 srcId argLen arg"
definition saveUserLoginLog where "saveUserLoginLog my srcId argLen arg = saveUserLog my 2 srcId argLen arg"
definition saveUserLogoutLog where "saveUserLogoutLog my srcId argLen arg = saveUserLog my 3 srcId argLen arg"
definition saveUserBindLog where "saveUserBindLog my srcId argLen arg = saveUserLog my 4 srcId argLen arg"
definition saveUserUnBindLog where "saveUserUnBindLog my srcId argLen arg = saveUserLog my 5 srcId argLen arg"
definition saveUserCtrlLog where "saveUserCtrlLog my srcId argLen arg = saveUserLog my 6 srcId argLen arg"
definition saveUserAccountLog where "saveUserAccountLog my srcId argLen arg = saveUserLog my 7 srcId argLen arg"
definition saveDeviceRegLog where "saveDeviceRegLog my srcId argLen arg = saveDeviceLog my 1 srcId argLen arg"
definition saveDeviceLoginLog where "saveDeviceLoginLog my srcId argLen arg = saveDeviceLog my 2 srcId argLen arg"
definition saveDeviceLogoutLog where "saveDeviceLogoutLog my srcId argLen arg = saveDeviceLog my 3 srcId argLen arg"
definition saveDeviceRebootLog where "saveDeviceRebootLog my srcId argLen arg = saveDeviceLog my 4 srcId argLen arg"
definition saveDevicePowerOffLog where "saveDevicePowerOffLog my srcId argLen arg = saveDeviceLog my 5 srcId argLen arg"
definition saveServerStartLog where "saveServerStartLog my srcId argLen arg = saveServerLog my 0 srcId argLen arg"
definition saveServerRegLog where "saveServerRegLog my srcId argLen arg = saveServerLog my 1 srcId argLen arg"
definition saveServerUpdateLog where "saveServerUpdateLog my srcId argLen arg = saveServerLog my 2 srcId argLen arg"

text \<open>Only logs that there is no access object, then uses it.\<close>

definition command_save :: "'d mysql \<Rightarrow> bytes \<Rightarrow> bytes \<Rightarrow> int \<Rightarrow> int \<Rightarrow> bytes \<Rightarrow> 'd database \<Rightarrow> (bool \<times> 'd database) option" where
  "command_save my user device cmd arglen arg db =
     (let sql = sql_command user device cmd arglen arg;
          (access, db1) = DbaModule_GetNVDataAccess my db
      in do {
        (r, db2) \<leftarrow> ExecuteNonQuery my access sql db1;
        if - 1 = r then do {
          db3 \<leftarrow> DbaModule_ReleaseNVDataAccess access db2;
          Some (False, db3)
        } else do {
          db3 \<leftarrow> DbaModule_ReleaseNVDataAccess access db2;
          Some (True, db3)
        }
      })"

section \<open>\<open>WisIOSTokenDao\<close>, \<open>WisIOSPushDao\<close>\<close>

definition token_save :: "'d mysql \<Rightarrow> bytes \<Rightarrow> bytes \<Rightarrow> 'd database \<Rightarrow> (int \<times> 'd database) option" where
  "token_save my uuid token db =
     (let (access, db1) = DbaModule_GetNVDataAccess my db
      in if access \<noteq> 0 then do {
           (r, db2) \<leftarrow> ExecuteNonQuery my access (snprintf 200 (sql_token_update uuid token)) db1;
           if - 1 \<noteq> r \<and> RowsAffected my access db2 \<le> 0 then do {
             db3 \<leftarrow> FreeResult access db2;
             (r2, db4) \<leftarrow> ExecuteNonQuery my access (snprintf 200 (sql_token_insert uuid token)) db3;
             db5 \<leftarrow> DbaModule_ReleaseNVDataAccess access db4;
             Some (if - 1 \<noteq> r2 then 0 else - 1, db5)
           } else do {
             db3 \<leftarrow> DbaModule_ReleaseNVDataAccess access db2;
             Some (- 1, db3)
           }
         }
         else Some (- 1, db1))"

text \<open>A \<open>std::set<std::string>\<close> is an ordered map to \<open>()\<close>.\<close>

partial_function (option) fetch_tokens ::
  "ptr \<Rightarrow> (bytes \<times> unit) list \<Rightarrow> 'd database \<Rightarrow> ((bytes \<times> unit) list \<times> 'd database) option" where
  "fetch_tokens access tokens db =
     Option.bind (FetchNewRow access db) (\<lambda>(more, db1).
       if more then
         Option.bind (GetString access ''token'' db1) (\<lambda>token.
         fetch_tokens access (if length token \<noteq> 0 then om_insert token () tokens else tokens) db1)
       else Some (tokens, db1))"

definition getToken :: "'d mysql \<Rightarrow> bytes \<Rightarrow> (bytes \<times> unit) list \<Rightarrow> 'd database \<Rightarrow>
    (int \<times> (bytes \<times> unit) list \<times> 'd database) option" where
  "getToken my uuid tokens db =
     (let sql = snprintf 100 (sql_token uuid);
          (access, db1) = DbaModule_GetNVDataAccess my db
      in do {
        (tokens', db3) \<leftarrow>
          (if access \<noteq> 0 then do {
             (n, db2) \<leftarrow> ExecuteNoThrow my access sql db1;
             if n \<ge> 1 then fetch_tokens access tokens db2 else Some (tokens, db2)
           } else Some (tokens, db1));
        db4 \<leftarrow> DbaModule_ReleaseNVDataAccess access db3;
        Some (int (length tokens'), tokens', db4)
      })"

fun in_list :: "bytes list \<Rightarrow> bytes" where
  "in_list [] = []"
| "in_list [u] = [CHR 0x27] @ u @ [CHR 0x27]"
| "in_list (u # us) = [CHR 0x27] @ u @ [CHR 0x27] @ '','' @ in_list us"

definition sql_tokens :: "bytes list \<Rightarrow> bytes" where
  "sql_tokens uuids = ''SELECT `token` FROM wis_ios_token_tbl2 WHERE `user` IN ('' @ in_list uuids @ '')''"

definition getTokens :: "'d mysql \<Rightarrow> bytes list \<Rightarrow> (bytes \<times> unit) list \<Rightarrow> 'd database \<Rightarrow>
    (int \<times> (bytes \<times> unit) list \<times> 'd database) option" where
  "getTokens my uuids tokens db =
     (let selectSQL = sql_tokens uuids;
          (access, db1) = DbaModule_GetNVDataAccess my db
      in do {
        (tokens', db3) \<leftarrow>
          (if access \<noteq> 0 then do {
             (n, db2) \<leftarrow> ExecuteNoThrow my access selectSQL db1;
             if n \<ge> 1 then fetch_tokens access tokens db2 else Some (tokens, db2)
           } else Some (tokens, db1));
        db4 \<leftarrow> DbaModule_ReleaseNVDataAccess access db3;
        Some (int (length tokens'), tokens', db4)
      })"

definition push_save :: "'d mysql \<Rightarrow> bytes \<Rightarrow> int \<Rightarrow> int \<Rightarrow> bytes \<Rightarrow> 'd database \<Rightarrow> (bool \<times> 'd database) option" where
  "push_save my device flag len msg db =
     (let sql = snprintf 400 (sql_push device flag len msg);
          (access, db1) = DbaModule_GetNVDataAccess my db
      in if access = 0 then do {
           db2 \<leftarrow> DbaModule_ReleaseNVDataAccess access db1;
           Some (False, db2)
         } else do {
           (r, db2) \<leftarrow> ExecuteNonQuery my access sql db1;
           if 0 \<noteq> r then do {
             db3 \<leftarrow> DbaModule_ReleaseNVDataAccess access db2;
             Some (False, db3)
           } else do {
             db3 \<leftarrow> DbaModule_ReleaseNVDataAccess access db2;
             Some (True, db3)
           }
         })"

section \<open>What a data access object does to the server and to the pool\<close>

text \<open>The abstract operations: run a statement that changes data, ask a question and count the
  rows of the answer.\<close>

definition srv_exec :: "'d mysql \<Rightarrow> ptr \<Rightarrow> bytes \<Rightarrow> 'd \<Rightarrow> bool \<times> 'd" where
  "srv_exec my a sql d = (fst (my_real_query my a (c_str sql) d) = 0, snd (my_real_query my a (c_str sql) d))"

definition srv_ask :: "'d mysql \<Rightarrow> ptr \<Rightarrow> bytes \<Rightarrow> 'd \<Rightarrow> int \<times> 'd" where
  "srv_ask my a sql d =
     (let (rc, d1) = my_real_query my a (c_str sql) d in
      if rc \<noteq> 0 then (- 1, d1)
      else let (r, d2) = my_store_result my a d1 in
        (if r = None then - 1 else my_affected_rows my a d2, d2))"

definition srv_rows :: "'d mysql \<Rightarrow> ptr \<Rightarrow> bytes \<Rightarrow> 'd \<Rightarrow> my_result option" where
  "srv_rows my a sql d = fst (my_store_result my a (snd (my_real_query my a (c_str sql) d)))"

text \<open>The object is about to read row \<open>i\<close> of \<open>res\<close>.\<close>

definition reading :: "ptr \<Rightarrow> my_result \<Rightarrow> nat \<Rightarrow> 'd database \<Rightarrow> bool" where
  "reading a res i db \<longleftrightarrow> (\<exists>x. the_access a db = Some x \<and> isInited_flag x \<and> pRes_field x = ResLive res i)"

text \<open>\<open>settled\<close>: nothing more and nothing less is borrowed than before, the server has moved on to \<open>d\<close>.\<close>

definition settled :: "'d database \<Rightarrow> 'd database \<Rightarrow> 'd \<Rightarrow> bool" where
  "settled db db' d \<longleftrightarrow> db_inv db' \<and> held db' = held db \<and> db_server db' = d"

lemma settledD:
  "settled db db' d \<Longrightarrow> db_inv db'" "settled db db' d \<Longrightarrow> held db' = held db" "settled db db' d \<Longrightarrow> db_server db' = d"
  by (simp_all add: settled_def)

lemma FreeResult_server: "FreeResult a db = Some db' \<Longrightarrow> db_server db' = db_server db"
  by (auto simp: FreeResult_def split: bind_splits if_splits)

lemma Release_server: "ReleaseNVDataAccess a db = Some db' \<Longrightarrow> db_server db' = db_server db"
  by (auto simp: ReleaseNVDataAccess_def dest: FreeResult_server split: option.splits)

lemma Get_cases:
  assumes "db_inv db" "GetNVDataAccess my db = (a, db1)"
  obtains "a = 0" "db1 = db" | "a \<noteq> 0" "pool.at (insert a (held db)) db1" "a \<notin> held db" "usable a db1"
proof (cases "a = 0")
  case True
  then show ?thesis using that(1) Get_none [of db my db1] assms by simp
next
  case False
  have "db_inv db1" "a \<notin> held db" "held db1 = insert a (held db)"
    using Get_spec [OF assms False] by auto
  moreover from this have "usable a db1" using held_usable [of db1 a] by simp
  ultimately show ?thesis using that(2) False by (simp add: pool.at_def)
qed

lemma at_server [simp]: "pool.at L (db\<lparr>db_server := d\<rparr>) = pool.at L db"
  "usable a (db\<lparr>db_server := d\<rparr>) = usable a db"
proof -
  have u: "usable k (db\<lparr>db_server := d\<rparr>) = usable k db" for k by (simp add: usable_def the_access_def)
  then show "usable a (db\<lparr>db_server := d\<rparr>) = usable a db" by simp
  show "pool.at L (db\<lparr>db_server := d\<rparr>) = pool.at L db"
    by (simp add: pool.at_def held_def db_inv_def u)
qed

lemma give_back:
  assumes "pool.at (insert a (held db)) db2" "a \<notin> held db"
  shows "\<exists>db3. DbaModule_ReleaseNVDataAccess a db2 = Some db3 \<and> settled db db3 (db_server db2)"
proof -
  obtain db3 where "ReleaseNVDataAccess a db2 = Some db3" "pool.at (held db) db3"
    using pool.at_release [OF assms] by blast
  then show ?thesis
    using Release_server by (auto simp: DbaModule_ReleaseNVDataAccess_def settled_def pool.at_def)
qed

lemma exec_usable: "usable a db \<Longrightarrow> ExecuteNonQuery my a sql db =
  Some (if fst (srv_exec my a sql (db_server db)) then 0 else - 1, db\<lparr>db_server := snd (srv_exec my a sql (db_server db))\<rparr>)"
  by (simp add: ExecuteNonQuery_usable srv_exec_def)

lemma ask_usable:
  assumes "usable a db"
  shows "\<exists>db'. ExecuteNoThrow my a sql db = Some (fst (srv_ask my a sql (db_server db)), db') \<and>
    db_server db' = snd (srv_ask my a sql (db_server db)) \<and> same_pool db db' \<and>
    (1 \<le> fst (srv_ask my a sql (db_server db)) \<longrightarrow>
      (\<exists>res. srv_rows my a sql (db_server db) = Some res \<and> reading a res 0 db'))"
proof -
  obtain r db' where e: "ExecuteNoThrow my a sql db = Some (r, db')" and k: "same_pool db db'"
    using ExecuteNoThrow_pool [OF assms] by blast
  obtain x where x: "the_access a db = Some x" "isInited_flag x" using assms by (auto simp: usable_def)
  then have x': "the_access a (db\<lparr>db_server := d\<rparr>) = Some x" for d by (simp add: the_access_def split: if_splits)
  have "r = fst (srv_ask my a sql (db_server db)) \<and> db_server db' = snd (srv_ask my a sql (db_server db))"
    using e by (auto simp: ExecuteNoThrow_def IsResultSet_def srv_ask_def split: prod.splits if_splits option.splits)
  moreover have "1 \<le> r \<longrightarrow> (\<exists>res. srv_rows my a sql (db_server db) = Some res \<and> reading a res 0 db')"
    using e x(2) the_access_pos [OF x(1)] by (auto simp: ExecuteNoThrow_def IsResultSet_def srv_rows_def reading_def x'
        split: prod.splits if_splits option.splits)
  ultimately show ?thesis using e k by simp
qed

text \<open>Every update borrows one access object, runs its statement and gives it back.\<close>

definition one_update :: "'d mysql \<Rightarrow> bytes \<Rightarrow> 'd database \<Rightarrow> bool \<times> 'd" where
  "one_update my sql db =
     (let (a, db1) = GetNVDataAccess my db in
      if a = 0 then (False, db_server db) else srv_exec my a sql (db_server db1))"

definition one_question :: "'d mysql \<Rightarrow> bytes \<Rightarrow> 'd database \<Rightarrow> int \<times> 'd" where
  "one_question my sql db =
     (let (a, db1) = GetNVDataAccess my db in
      if a = 0 then (- 1, db_server db) else srv_ask my a sql (db_server db1))"

lemma update_skeleton:
  assumes "db_inv db"
  shows "\<exists>db'. (let (a, db1) = DbaModule_GetNVDataAccess my db
      in if a \<noteq> 0 then do {
           (r, db2) \<leftarrow> ExecuteNonQuery my a sql db1;
           if - 1 \<noteq> r then do {
             db3 \<leftarrow> DbaModule_ReleaseNVDataAccess a db2;
             Some (True, db3)
           } else do {
             db3 \<leftarrow> DbaModule_ReleaseNVDataAccess a db2;
             Some (False, db3)
           }
         }
         else Some (False, db1)) = Some (fst (one_update my sql db), db') \<and>
    settled db db' (snd (one_update my sql db))"
proof -
  obtain a db1 where g: "GetNVDataAccess my db = (a, db1)" by fastforce
  show ?thesis
  proof (rule Get_cases [OF assms g])
    assume "a = 0" "db1 = db"
    then show ?thesis using g assms by (simp add: DbaModule_GetNVDataAccess_def one_update_def settled_def)
  next
    assume a: "a \<noteq> 0" "pool.at (insert a (held db)) db1" "a \<notin> held db" "usable a db1"
    let ?d = "snd (srv_exec my a sql (db_server db1))"
    obtain db3 where "DbaModule_ReleaseNVDataAccess a (db1\<lparr>db_server := ?d\<rparr>) = Some db3" "settled db db3 ?d"
      using give_back [of a db "db1\<lparr>db_server := ?d\<rparr>"] a by auto
    then show ?thesis
      using g a by (simp add: DbaModule_GetNVDataAccess_def one_update_def exec_usable)
  qed
qed

lemmas updates = user_logout_def user_regist_def user_logoutAll_def device_login_def device_logout_def
  device_logoutAll_def

lemma update_daos:
  assumes "db_inv db"
  shows "\<exists>db'. user_logout my u p db = Some (fst (one_update my (snprintf 200 (sql_user_logout u)) db), db') \<and>
      settled db db' (snd (one_update my (snprintf 200 (sql_user_logout u)) db))"
    and "\<exists>db'. user_regist my u p db = Some (fst (one_update my (snprintf 200 (sql_user_insert u p)) db), db') \<and>
      settled db db' (snd (one_update my (snprintf 200 (sql_user_insert u p)) db))"
    and "\<exists>db'. user_logoutAll my db = Some (fst (one_update my ''update wis_user_tbl set `status`=0'' db), db') \<and>
      settled db db' (snd (one_update my ''update wis_user_tbl set `status`=0'' db))"
    and "\<exists>db'. device_login my u p db = Some (fst (one_update my (snprintf 1024 (sql_device_login u p)) db), db') \<and>
      settled db db' (snd (one_update my (snprintf 1024 (sql_device_login u p)) db))"
    and "\<exists>db'. device_logout my u db = Some (fst (one_update my (snprintf 200 (sql_device_logout u)) db), db') \<and>
      settled db db' (snd (one_update my (snprintf 200 (sql_device_logout u)) db))"
    and "\<exists>db'. device_logoutAll my db = Some (fst (one_update my ''UPDATE wis_device_tbl SET `status`=0'' db), db') \<and>
      settled db db' (snd (one_update my ''UPDATE wis_device_tbl SET `status`=0'' db))"
  unfolding updates Let_def by (rule update_skeleton [OF assms, unfolded Let_def])+

lemma question_skeleton:
  assumes "db_inv db"
  shows "\<exists>db'. (let (a, db1) = DbaModule_GetNVDataAccess my db
      in if a \<noteq> 0 then do {
           (n, db2) \<leftarrow> ExecuteNoThrow my a sql db1;
           if n \<ge> 1 then do {
             db3 \<leftarrow> DbaModule_ReleaseNVDataAccess a db2;
             Some (True, db3)
           } else do {
             db3 \<leftarrow> DbaModule_ReleaseNVDataAccess a db2;
             Some (False, db3)
           }
         }
         else Some (False, db1)) = Some (1 \<le> fst (one_question my sql db), db') \<and>
    settled db db' (snd (one_question my sql db))"
proof -
  obtain a db1 where g: "GetNVDataAccess my db = (a, db1)" by fastforce
  show ?thesis
  proof (rule Get_cases [OF assms g])
    assume "a = 0" "db1 = db"
    then show ?thesis using g assms by (simp add: DbaModule_GetNVDataAccess_def one_question_def settled_def)
  next
    assume a: "a \<noteq> 0" "pool.at (insert a (held db)) db1" "a \<notin> held db" "usable a db1"
    obtain db2 where e: "ExecuteNoThrow my a sql db1 = Some (fst (srv_ask my a sql (db_server db1)), db2)"
      "db_server db2 = snd (srv_ask my a sql (db_server db1))" "same_pool db1 db2"
      using ask_usable [OF a(4)] by blast
    obtain db3 where "DbaModule_ReleaseNVDataAccess a db2 = Some db3" "settled db db3 (db_server db2)"
      using give_back [OF pool.at_works [OF a(2) e(3)] a(3)] by blast
    then show ?thesis
      using g a(1) e by (simp add: DbaModule_GetNVDataAccess_def one_question_def)
  qed
qed

lemma question_daos:
  assumes "db_inv db"
  shows "\<exists>db'. checkUser my u db = Some (1 \<le> fst (one_question my (snprintf 200 (sql_user u)) db), db') \<and>
      settled db db' (snd (one_question my (snprintf 200 (sql_user u)) db))"
    and "\<exists>db'. checkUserAndPassword my u p db =
        Some (1 \<le> fst (one_question my (snprintf 200 (sql_user_password u p)) db), db') \<and>
      settled db db' (snd (one_question my (snprintf 200 (sql_user_password u p)) db))"
  unfolding checkUser_def checkUserAndPassword_def Let_def
  by (rule question_skeleton [OF assms, unfolded Let_def])+

lemma device_check_question:
  assumes "db_inv db"
  shows "\<exists>db'. device_check my u db = Some (1 \<le> fst (one_question my (snprintf 200 (sql_device u)) db), db') \<and>
      settled db db' (snd (one_question my (snprintf 200 (sql_device u)) db))"
proof -
  have "device_check my u db = (let (a, db1) = DbaModule_GetNVDataAccess my db
      in if a \<noteq> 0 then do {
           (n, db2) \<leftarrow> ExecuteNoThrow my a (snprintf 200 (sql_device u)) db1;
           if n \<ge> 1 then do {
             db3 \<leftarrow> DbaModule_ReleaseNVDataAccess a db2;
             Some (True, db3)
           } else do {
             db3 \<leftarrow> DbaModule_ReleaseNVDataAccess a db2;
             Some (False, db3)
           }
         }
         else Some (False, db1))"
    by (auto simp: device_check_def Let_def split: prod.splits intro!: Option.bind_cong [OF refl])
  then show ?thesis using question_skeleton [OF assms] by metis
qed

lemma log_settles:
  assumes "db_inv db"
  shows "\<exists>db'. saveLog my src t u n arg db = Some db' \<and>
    settled db db' (snd (one_update my (snprintf 2000 (sql_log src t u n arg)) db))"
proof -
  have "map_option snd (let (a, db1) = DbaModule_GetNVDataAccess my db
      in if a \<noteq> 0 then do {
           (r, db2) \<leftarrow> ExecuteNonQuery my a (snprintf 2000 (sql_log src t u n arg)) db1;
           if - 1 \<noteq> r then do {
             db3 \<leftarrow> DbaModule_ReleaseNVDataAccess a db2;
             Some (True, db3)
           } else do {
             db3 \<leftarrow> DbaModule_ReleaseNVDataAccess a db2;
             Some (False, db3)
           }
         }
         else Some (False, db1)) = saveLog my src t u n arg db"
    by (auto simp: saveLog_def Let_def map_option_bind o_def split: prod.splits intro!: Option.bind_cong [OF refl])
  then show ?thesis using update_skeleton [OF assms, of my "snprintf 2000 (sql_log src t u n arg)"] by force
qed

lemma push_save_update:
  assumes "db_inv db"
  shows "\<exists>db'. push_save my dev f n m db = Some (fst (one_update my (snprintf 400 (sql_push dev f n m)) db), db') \<and>
    settled db db' (snd (one_update my (snprintf 400 (sql_push dev f n m)) db))"
proof -
  let ?sql = "snprintf 400 (sql_push dev f n m)"
  obtain a db1 where g: "GetNVDataAccess my db = (a, db1)" by fastforce
  show ?thesis
  proof (rule Get_cases [OF assms g])
    assume "a = 0" "db1 = db"
    moreover from this have "ReleaseNVDataAccess 0 db = Some db"
      using db_inv_conn [OF assms, of 0] by (auto simp: ReleaseNVDataAccess_def split: option.splits)
    ultimately show ?thesis
      using g assms by (simp add: push_save_def DbaModule_GetNVDataAccess_def DbaModule_ReleaseNVDataAccess_def
          one_update_def settled_def)
  next
    assume a: "a \<noteq> 0" "pool.at (insert a (held db)) db1" "a \<notin> held db" "usable a db1"
    let ?d = "snd (srv_exec my a ?sql (db_server db1))"
    obtain db3 where "DbaModule_ReleaseNVDataAccess a (db1\<lparr>db_server := ?d\<rparr>) = Some db3" "settled db db3 ?d"
      using give_back [of a db "db1\<lparr>db_server := ?d\<rparr>"] a by auto
    then show ?thesis
      using g a by (simp add: push_save_def Let_def DbaModule_GetNVDataAccess_def one_update_def exec_usable)
  qed
qed

text \<open>A user login asks for name and password and, when there is such a row, records the login.\<close>

definition login_on_server :: "'d mysql \<Rightarrow> bytes \<Rightarrow> bytes \<Rightarrow> 'd database \<Rightarrow> bool \<times> 'd" where
  "login_on_server my u p db =
     (let (a, db1) = GetNVDataAccess my db in
      if a = 0 then (False, db_server db)
      else let (n, d) = srv_ask my a (snprintf 200 (sql_user_password u p)) (db_server db1) in
        if n < 1 then (False, d) else srv_exec my a (snprintf 200 (sql_user_login u)) d)"

lemma user_login_server:
  assumes "db_inv db"
  shows "\<exists>db'. user_login my u p db = Some (fst (login_on_server my u p db), db') \<and>
    settled db db' (snd (login_on_server my u p db))"
proof -
  let ?q = "snprintf 200 (sql_user_password u p)" and ?up = "snprintf 200 (sql_user_login u)"
  obtain a db1 where g: "GetNVDataAccess my db = (a, db1)" by fastforce
  show ?thesis
  proof (rule Get_cases [OF assms g])
    assume "a = 0" "db1 = db"
    then show ?thesis
      using g assms by (simp add: user_login_def DbaModule_GetNVDataAccess_def login_on_server_def settled_def)
  next
    assume a: "a \<noteq> 0" "pool.at (insert a (held db)) db1" "a \<notin> held db" "usable a db1"
    obtain n d where q: "srv_ask my a ?q (db_server db1) = (n, d)" by fastforce
    obtain db2 where e: "ExecuteNoThrow my a ?q db1 = Some (n, db2)" "db_server db2 = d" "same_pool db1 db2"
      using ask_usable [OF a(4), of my ?q] q by auto
    have a2: "pool.at (insert a (held db)) db2" "usable a db2"
      using pool.at_works [OF a(2) e(3)] e(3) a(4) by (auto simp: same_pool_def)
    show ?thesis
    proof (cases "n < 1")
      case True
      obtain db3 where "DbaModule_ReleaseNVDataAccess a db2 = Some db3" "settled db db3 (db_server db2)"
        using give_back [OF a2(1) a(3)] by blast
      with True show ?thesis
        using g a(1) e q by (simp add: user_login_def DbaModule_GetNVDataAccess_def login_on_server_def)
    next
      case False
      obtain db3 where f: "FreeResult a db2 = Some db3" "same_pool db2 db3"
        using FreeResult_pool [OF a2(2)] by blast
      have a3: "pool.at (insert a (held db)) db3" "usable a db3" "db_server db3 = d"
        using pool.at_works [OF a2(1) f(2)] f(2) a2(2) FreeResult_server [OF f(1)] e(2) by (auto simp: same_pool_def)
      let ?d = "snd (srv_exec my a ?up d)"
      obtain db4 where "DbaModule_ReleaseNVDataAccess a (db3\<lparr>db_server := ?d\<rparr>) = Some db4" "settled db db4 ?d"
        using give_back [of a db "db3\<lparr>db_server := ?d\<rparr>"] a3 a(3) by auto
      with False show ?thesis
        using g a(1) e q f a3 by (simp add: user_login_def DbaModule_GetNVDataAccess_def login_on_server_def exec_usable)
    qed
  qed
qed

lemma token_save_settles:
  assumes "db_inv db"
  shows "\<exists>r db' d. token_save my u t db = Some (r, db') \<and> settled db db' d"
proof -
  let ?q = "snprintf 200 (sql_token_update u t)" and ?in = "snprintf 200 (sql_token_insert u t)"
  obtain a db1 where g: "GetNVDataAccess my db = (a, db1)" by fastforce
  show ?thesis
  proof (rule Get_cases [OF assms g])
    assume "a = 0" "db1 = db"
    then show ?thesis
      using g assms by (simp add: token_save_def DbaModule_GetNVDataAccess_def settled_def)
  next
    assume a: "a \<noteq> 0" "pool.at (insert a (held db)) db1" "a \<notin> held db" "usable a db1"
    let ?d2 = "snd (srv_exec my a ?q (db_server db1))"
    let ?db2 = "db1\<lparr>db_server := ?d2\<rparr>"
    obtain db3 where f: "FreeResult a ?db2 = Some db3" "same_pool ?db2 db3"
      using FreeResult_pool [of a ?db2] a(4) by auto
    have a2: "pool.at (insert a (held db)) ?db2" "usable a ?db2" using a by auto
    have a3: "pool.at (insert a (held db)) db3" "usable a db3"
      using pool.at_works [OF a2(1) f(2)] f(2) a2(2) by (auto simp: same_pool_def)
    let ?db4 = "db3\<lparr>db_server := snd (srv_exec my a ?in (db_server db3))\<rparr>"
    obtain db5 where r5: "DbaModule_ReleaseNVDataAccess a ?db4 = Some db5" "settled db db5 (db_server ?db4)"
      using give_back [of a db ?db4] a3 a(3) by auto
    obtain db6 where r6: "DbaModule_ReleaseNVDataAccess a ?db2 = Some db6" "settled db db6 (db_server ?db2)"
      using give_back [OF a2(1) a(3)] by auto
    show ?thesis
      using g a(1) r5 r6 f a3 by (auto simp: token_save_def DbaModule_GetNVDataAccess_def exec_usable a(4))
  qed
qed

section \<open>Rows of a result\<close>

text \<open>A cell of a row as \<open>GetString\<close> and \<open>GetInt\<close> see it.\<close>

definition cell :: "bytes list \<Rightarrow> bytes option list \<Rightarrow> bytes \<Rightarrow> bytes option" where
  "cell cols row n = (if n \<notin> set cols then Some []
     else Option.bind (Option.bind (column_of n cols row) (\<lambda>v. v)) (map_option c_str))"

definition int_cell :: "bytes list \<Rightarrow> bytes option list \<Rightarrow> bytes \<Rightarrow> int option" where
  "int_cell cols row n = (if n \<notin> set cols then None
     else Option.bind (Option.bind (Option.bind (column_of n cols row) (\<lambda>v. v)) (\<lambda>v. v)) atoi)"

definition user_of_row :: "bytes list \<Rightarrow> bytes option list \<Rightarrow> (bytes \<times> wis_user_info) option" where
  "user_of_row cols row = do {
     u \<leftarrow> cell cols row ''name'';
     t \<leftarrow> cell cols row ''bind_time'';
     s \<leftarrow> int_cell cols row ''status'';
     let buddy = \<lparr>wu_uuid = pad_to 32 u, wu_time = pad_to 20 t, wu_status = s\<rparr>;
     key \<leftarrow> string_at (user_info_mem buddy);
     Some (key, buddy)
   }"

definition device_of_row :: "bytes list \<Rightarrow> bytes option list \<Rightarrow> (bytes \<times> wis_device_info) option" where
  "device_of_row cols row = do {
     u \<leftarrow> cell cols row ''uuid'';
     n \<leftarrow> cell cols row ''name'';
     t \<leftarrow> cell cols row ''bind_time'';
     s \<leftarrow> int_cell cols row ''status'';
     let buddy = \<lparr>wd_uuid = pad_to 32 u, wd_name = pad_to 32 n, wd_time = pad_to 20 t, wd_status = s\<rparr>;
     key \<leftarrow> string_at (device_info_mem buddy);
     Some (key, buddy)
   }"

definition token_of_row :: "bytes list \<Rightarrow> bytes option list \<Rightarrow> bytes option" where
  "token_of_row cols row = cell cols row ''token''"

text \<open>Taking the rows of a result one after another; the map each row is stored into.\<close>

fun fold_rows :: "('r \<Rightarrow> 'm \<Rightarrow> 'm option) \<Rightarrow> 'r list \<Rightarrow> 'm \<Rightarrow> 'm option" where
  "fold_rows f [] m = Some m"
| "fold_rows f (r # rs) m = Option.bind (f r m) (fold_rows f rs)"

definition store_row :: "('r \<Rightarrow> ('k::linorder \<times> 'v) option) \<Rightarrow> 'r \<Rightarrow> ('k \<times> 'v) list \<Rightarrow> ('k \<times> 'v) list option" where
  "store_row f r m = map_option (\<lambda>(k, v). om_set k v m) (f r)"

definition store_token :: "bytes list \<Rightarrow> bytes option list \<Rightarrow> (bytes \<times> unit) list \<Rightarrow> (bytes \<times> unit) list option" where
  "store_token cols r m = map_option (\<lambda>t. if t \<noteq> [] then om_insert t () m else m) (token_of_row cols r)"

lemma find_snoc: "find P (xs @ [y]) = (case find P xs of Some z \<Rightarrow> Some z | None \<Rightarrow> if P y then Some y else None)"
  by (induction xs) auto

lemma fold_rows_store: "fold_rows (store_row f) (r # rs) m =
  (case f r of None \<Rightarrow> None | Some (k, v) \<Rightarrow> fold_rows (store_row f) rs (om_set k v m))"
  by (simp add: store_row_def split: option.splits)

lemma fold_rows_wf: "om_wf m \<Longrightarrow> fold_rows (store_row f) rs m = Some m' \<Longrightarrow> om_wf m'"
  by (induction rs arbitrary: m) (auto simp: store_row_def split: bind_splits)

lemma fold_rows_keys: "fold_rows (store_row f) rs m = Some m' \<Longrightarrow>
  om.keys m' = om.keys m \<union> {k. \<exists>r \<in> set rs. \<exists>v. f r = Some (k, v)}"
  by (induction rs arbitrary: m) (auto simp: store_row_def om.keys_set split: bind_splits)

lemma fold_rows_total: "\<forall>r \<in> set rs. f r \<noteq> None \<Longrightarrow> \<exists>m'. fold_rows (store_row f) rs m = Some m'"
  by (induction rs arbitrary: m) (auto simp: store_row_def)

text \<open>The value under a key is that of the last row with this key.\<close>

lemma fold_rows_last: "fold_rows (store_row f) rs m = Some m' \<Longrightarrow>
  om_find k m' = (case find (\<lambda>r. \<exists>v. f r = Some (k, v)) (rev rs) of
     Some r \<Rightarrow> map_option snd (f r) | None \<Rightarrow> om_find k m)"
proof (induction rs arbitrary: m)
  case (Cons r rs)
  then obtain j v where j: "f r = Some (j, v)" "fold_rows (store_row f) rs (om_set j v m) = Some m'"
    by (auto simp: fold_rows_store simp del: fold_rows.simps(2) split: option.splits)
  show ?case
    using Cons.IH [OF j(2)] j(1) by (auto simp: find_snoc om_lookup split: option.splits)
qed simp

lemma FetchNewRow_row:
  assumes "reading a res i db" "i < length (res_rows res)"
  shows "\<exists>db'. FetchNewRow a db = Some (True, db') \<and> reading a res (Suc i) db' \<and> same_pool db db' \<and>
    db_server db' = db_server db \<and>
    (\<forall>n. GetString a n db' = cell (res_fields res) (res_rows res ! i) n) \<and>
    (\<forall>n. GetInt a n db' = int_cell (res_fields res) (res_rows res ! i) n)"
proof -
  obtain x where x: "the_access a db = Some x" "isInited_flag x" "pRes_field x = ResLive res i"
    using assms(1) by (auto simp: reading_def)
  let ?x = "x\<lparr>row_field := Some (res_rows res ! i), pRes_field := ResLive res (Suc i)\<rparr>"
  let ?db = "put_access a ?x db"
  have "FetchNewRow a db = Some (True, ?db)"
    using x assms(2) by (simp add: FetchNewRow_def my_fetch_row_def)
  moreover have "reading a res (Suc i) ?db" "db_server ?db = db_server db" using x the_access_pos [OF x(1)] by (auto simp: reading_def)
  moreover have "same_pool db ?db" by (rule same_pool_put(2)) (use x in simp_all)
  moreover have "GetString a n ?db = cell (res_fields res) (res_rows res ! i) n"
    "GetInt a n ?db = int_cell (res_fields res) (res_rows res ! i) n" for n
    using the_access_pos [OF x(1)]
    by (simp_all add: GetString_def GetInt_def cell_def int_cell_def live_result_def)
  ultimately show ?thesis by blast
qed

lemma FetchNewRow_end:
  assumes "reading a res i db" "length (res_rows res) \<le> i"
  obtains db' where "FetchNewRow a db = Some (False, db')" "same_pool db db'" "db_server db' = db_server db"
proof -
  obtain x where x: "the_access a db = Some x" "isInited_flag x" "pRes_field x = ResLive res i"
    using assms(1) by (auto simp: reading_def)
  let ?db = "put_access a (x\<lparr>row_field := None, pRes_field := ResNull\<rparr>) db"
  have "FetchNewRow a db = Some (False, ?db)"
    using x assms(2) by (simp add: FetchNewRow_def my_fetch_row_def)
  moreover have "same_pool db ?db" by (rule same_pool_put(2)) (use x in simp_all)
  ultimately show ?thesis using that by fastforce
qed

text \<open>What the loops over a result set have in common: each takes a row and goes on, or ends.\<close>

locale row_loop =
  fixes loop :: "ptr \<Rightarrow> 'm \<Rightarrow> 'd database \<Rightarrow> ('m \<times> 'd database) option"
    and take_row :: "bytes list \<Rightarrow> bytes option list \<Rightarrow> 'm \<Rightarrow> 'm option"
  assumes loop_row: "FetchNewRow a db = Some (True, db1) \<Longrightarrow>
      (\<And>n. GetString a n db1 = cell cols row n) \<Longrightarrow> (\<And>n. GetInt a n db1 = int_cell cols row n) \<Longrightarrow>
      loop a m db = Option.bind (take_row cols row m) (\<lambda>m'. loop a m' db1)"
    and loop_end: "FetchNewRow a db = Some (False, db1) \<Longrightarrow> loop a m db = Some (m, db1)"
begin

text \<open>The loop reads all remaining rows and returns, unless one cannot be read.\<close>

lemma loop_rows:
  assumes "reading a res i db"
  shows "\<exists>db'. same_pool db db' \<and> db_server db' = db_server db \<and> loop a m db =
    map_option (\<lambda>m'. (m', db')) (fold_rows (take_row (res_fields res)) (drop i (res_rows res)) m)"
  using assms
proof (induction "length (res_rows res) - i" arbitrary: i m db)
  case 0
  then obtain db' where "FetchNewRow a db = Some (False, db')" "same_pool db db'" "db_server db' = db_server db"
    using FetchNewRow_end [of a res i db] by auto
  with 0 show ?case using loop_end by auto
next
  case (Suc k)
  then have i: "i < length (res_rows res)" by simp
  obtain db1 where f: "FetchNewRow a db = Some (True, db1)" "reading a res (Suc i) db1" "same_pool db db1"
    "db_server db1 = db_server db"
    "\<forall>n. GetString a n db1 = cell (res_fields res) (res_rows res ! i) n"
    "\<forall>n. GetInt a n db1 = int_cell (res_fields res) (res_rows res ! i) n"
    using FetchNewRow_row [OF Suc.prems i] by blast
  have d: "drop i (res_rows res) = res_rows res ! i # drop (Suc i) (res_rows res)"
    using i by (rule Cons_nth_drop_Suc [symmetric])
  note step = loop_row [OF f(1) f(5,6) [rule_format], of m]
  show ?case
  proof (cases "take_row (res_fields res) (res_rows res ! i) m")
    case None
    then show ?thesis using step d f(3,4) by auto
  next
    case (Some m1)
    have "k = length (res_rows res) - Suc i" using Suc.hyps(2) by simp
    from Suc.hyps(1) [OF this f(2), of m1] show ?thesis
      using step d Some f(3,4) same_pool_trans by auto
  qed
qed

text \<open>Asking with a borrowed object, looping over the answer, and giving it back.\<close>

lemma loop_settles:
  assumes "pool.at (insert a (held db)) db1" "a \<notin> held db" "usable a db1"
    and "ExecuteNoThrow my a sql db1 = Some (n, db2)" "1 \<le> n"
  shows "\<exists>res db4. srv_rows my a sql (db_server db1) = Some res \<and>
    settled db db4 (snd (srv_ask my a sql (db_server db1))) \<and>
    Option.bind (loop a m db2) (\<lambda>(m', db3).
      Option.bind (DbaModule_ReleaseNVDataAccess a db3) (\<lambda>db4. Some (h m', m', db4))) =
    map_option (\<lambda>m'. (h m', m', db4)) (fold_rows (take_row (res_fields res)) (res_rows res) m)"
proof -
  obtain res where r: "srv_rows my a sql (db_server db1) = Some res" "reading a res 0 db2" "same_pool db1 db2"
    "db_server db2 = snd (srv_ask my a sql (db_server db1))"
    using ask_usable [OF assms(3), of my sql] assms(4,5) by auto
  obtain db3 where l: "same_pool db2 db3" "db_server db3 = db_server db2"
    "loop a m db2 = map_option (\<lambda>m'. (m', db3)) (fold_rows (take_row (res_fields res)) (res_rows res) m)"
    using loop_rows [OF r(2)] by (metis drop0)
  have "pool.at (insert a (held db)) db3"
    using pool.at_works [OF pool.at_works [OF assms(1) r(3)] l(1)] .
  then obtain db4 where "DbaModule_ReleaseNVDataAccess a db3 = Some db4" "settled db db4 (db_server db3)"
    using give_back assms(2) by blast
  with r l show ?thesis
    by (cases "fold_rows (take_row (res_fields res)) (res_rows res) m") auto
qed

text \<open>The whole query: borrow, ask, and either return nothing or loop.\<close>

lemma query:
  assumes "db_inv db" "GetNVDataAccess my db = (a, db1)" "a \<noteq> 0" "srv_ask my a sql (db_server db1) = (n, d)"
    and "q = (let (access, db1) = DbaModule_GetNVDataAccess my db in do {
        (n, db2) \<leftarrow> ExecuteNoThrow my access sql db1;
        if n < 1 then do {
          db3 \<leftarrow> DbaModule_ReleaseNVDataAccess access db2;
          Some (0, m, db3)
        } else do {
          (m', db3) \<leftarrow> loop access m db2;
          db4 \<leftarrow> DbaModule_ReleaseNVDataAccess access db3;
          Some (h m', m', db4)
        }
      })"
  shows "n < 1 \<Longrightarrow> \<exists>db'. q = Some (0, m, db') \<and> settled db db' d"
    and "1 \<le> n \<Longrightarrow> \<exists>res db'. srv_rows my a sql (db_server db1) = Some res \<and> settled db db' d \<and>
      q = map_option (\<lambda>m'. (h m', m', db')) (fold_rows (take_row (res_fields res)) (res_rows res) m)"
proof -
  have p: "pool.at (insert a (held db)) db1" "a \<notin> held db" "usable a db1"
    using Get_cases [OF assms(1,2)] assms(3) by auto
  obtain db2 where e: "ExecuteNoThrow my a sql db1 = Some (n, db2)" "db_server db2 = d" "same_pool db1 db2"
    using ask_usable [OF p(3), of my sql] assms(4) by auto
  show "\<exists>db'. q = Some (0, m, db') \<and> settled db db' d" if "n < 1"
  proof -
    obtain db3 where "DbaModule_ReleaseNVDataAccess a db2 = Some db3" "settled db db3 (db_server db2)"
      using give_back [OF pool.at_works [OF p(1) e(3)] p(2)] by blast
    then show ?thesis using that e assms(2,5) by (simp add: DbaModule_GetNVDataAccess_def)
  qed
  show "\<exists>res db'. srv_rows my a sql (db_server db1) = Some res \<and> settled db db' d \<and>
      q = map_option (\<lambda>m'. (h m', m', db')) (fold_rows (take_row (res_fields res)) (res_rows res) m)" if n: "1 \<le> n"
    using loop_settles [OF p e(1) n, of m h] n e(1) assms(2,4,5)
    by (simp add: DbaModule_GetNVDataAccess_def)
qed

lemma query_balanced:
  assumes "db_inv db" "GetNVDataAccess my db = (a, db1)" "a \<noteq> 0"
    and "q = Some (r, m', db')" "q = (let (access, db1) = DbaModule_GetNVDataAccess my db in do {
        (n, db2) \<leftarrow> ExecuteNoThrow my access sql db1;
        if n < 1 then do {
          db3 \<leftarrow> DbaModule_ReleaseNVDataAccess access db2;
          Some (0, m, db3)
        } else do {
          (m', db3) \<leftarrow> loop access m db2;
          db4 \<leftarrow> DbaModule_ReleaseNVDataAccess access db3;
          Some (h m', m', db4)
        }
      })"
  shows "\<exists>d. settled db db' d"
proof -
  obtain n d where nd: "srv_ask my a sql (db_server db1) = (n, d)" by fastforce
  show ?thesis
    using query [OF assms(1-3) nd assms(5)] assms(4) by (cases "n < 1") (auto simp: map_option_case split: option.splits)
qed

end

interpretation users: row_loop fetch_users "\<lambda>cols. store_row (user_of_row cols)"
proof
  show "fetch_users a m db = Option.bind (store_row (user_of_row cols) row m) (\<lambda>m'. fetch_users a m' db1)"
    if "FetchNewRow a db = Some (True, db1)" "\<And>n. GetString a n db1 = cell cols row n"
      "\<And>n. GetInt a n db1 = int_cell cols row n" for a and db db1 :: "'d database" and cols row m
    by (subst fetch_users.simps) (simp add: that store_row_def user_of_row_def Let_def map_option_bind o_def bind_map_option)
qed (simp add: fetch_users.simps)

interpretation devices: row_loop fetch_devices "\<lambda>cols. store_row (device_of_row cols)"
proof
  show "fetch_devices a m db = Option.bind (store_row (device_of_row cols) row m) (\<lambda>m'. fetch_devices a m' db1)"
    if "FetchNewRow a db = Some (True, db1)" "\<And>n. GetString a n db1 = cell cols row n"
      "\<And>n. GetInt a n db1 = int_cell cols row n" for a and db db1 :: "'d database" and cols row m
    by (subst fetch_devices.simps) (simp add: that store_row_def device_of_row_def Let_def map_option_bind o_def bind_map_option)
qed (simp add: fetch_devices.simps)

interpretation tokens: row_loop fetch_tokens store_token
proof
  show "fetch_tokens a m db = Option.bind (store_token cols row m) (\<lambda>m'. fetch_tokens a m' db1)"
    if "FetchNewRow a db = Some (True, db1)" "\<And>n. GetString a n db1 = cell cols row n"
      "\<And>n. GetInt a n db1 = int_cell cols row n" for a and db db1 :: "'d database" and cols row m
    by (subst fetch_tokens.simps) (simp add: that store_token_def token_of_row_def bind_map_option o_def)
qed (simp add: fetch_tokens.simps)

lemma bound_users_unfold: "getBindedUsers my dev m db = (let (access, db1) = DbaModule_GetNVDataAccess my db in do {
        (n, db2) \<leftarrow> ExecuteNoThrow my access (snprintf 200 (sql_bound_users dev)) db1;
        if n < 1 then do {
          db3 \<leftarrow> DbaModule_ReleaseNVDataAccess access db2;
          Some (0, m, db3)
        } else do {
          (m', db3) \<leftarrow> fetch_users access m db2;
          db4 \<leftarrow> DbaModule_ReleaseNVDataAccess access db3;
          Some (int (length m'), m', db4)
        }
      })"
  by (simp add: getBindedUsers_def Let_def)

lemma bound_devices_unfold: "getBindedDevices my u m db = (let (access, db1) = DbaModule_GetNVDataAccess my db in do {
        (n, db2) \<leftarrow> ExecuteNoThrow my access (snprintf 200 (sql_bound_devices u)) db1;
        if n < 1 then do {
          db3 \<leftarrow> DbaModule_ReleaseNVDataAccess access db2;
          Some (0, m, db3)
        } else do {
          (m', db3) \<leftarrow> fetch_devices access m db2;
          db4 \<leftarrow> DbaModule_ReleaseNVDataAccess access db3;
          Some (int (length m'), m', db4)
        }
      })"
  by (simp add: getBindedDevices_def Let_def)

lemma ExecuteNoThrow_NULL: "ExecuteNoThrow my 0 sql db = None"
  by (simp add: ExecuteNoThrow_def)

lemma bound_users_balanced:
  assumes "db_inv db" "getBindedUsers my dev m db = Some (n, m', db')"
  shows "\<exists>d. settled db db' d"
proof -
  obtain a db1 where g: "GetNVDataAccess my db = (a, db1)" by fastforce
  have "a \<noteq> 0"
    using assms(2) g by (intro notI) (simp add: getBindedUsers_def Let_def DbaModule_GetNVDataAccess_def ExecuteNoThrow_NULL)
  then show ?thesis by (rule users.query_balanced [OF assms(1) g _ assms(2) bound_users_unfold])
qed

lemma bound_devices_balanced:
  assumes "db_inv db" "getBindedDevices my dev m db = Some (n, m', db')"
  shows "\<exists>d. settled db db' d"
proof -
  obtain a db1 where g: "GetNVDataAccess my db = (a, db1)" by fastforce
  have "a \<noteq> 0"
    using assms(2) g by (intro notI) (simp add: getBindedDevices_def Let_def DbaModule_GetNVDataAccess_def ExecuteNoThrow_NULL)
  then show ?thesis by (rule devices.query_balanced [OF assms(1) g _ assms(2) bound_devices_unfold])
qed

lemma ReleaseNULL: "db_inv db \<Longrightarrow> ReleaseNVDataAccess 0 db = Some db"
  using db_inv_conn [of db 0] by (auto simp: ReleaseNVDataAccess_def split: option.splits)

lemma getTokens_balanced:
  assumes "db_inv db" "getTokens my us m db = Some (n, m', db')"
  shows "\<exists>d. settled db db' d"
proof -
  let ?sql = "sql_tokens us"
  obtain a db1 where g: "GetNVDataAccess my db = (a, db1)" by fastforce
  show ?thesis
  proof (rule Get_cases [OF assms(1) g])
    assume "a = 0" "db1 = db"
    then show ?thesis
      using g assms ReleaseNULL [OF assms(1)] by (auto simp: getTokens_def Let_def DbaModule_GetNVDataAccess_def
        DbaModule_ReleaseNVDataAccess_def settled_def)
  next
    assume a: "a \<noteq> 0" "pool.at (insert a (held db)) db1" "a \<notin> held db" "usable a db1"
    obtain k db2 where e: "ExecuteNoThrow my a ?sql db1 = Some (k, db2)" "same_pool db1 db2"
      using ask_usable [OF a(4), of my ?sql] by blast
    show ?thesis
    proof (cases "1 \<le> k")
      case True
      have "Some (n, m', db') = Option.bind (fetch_tokens a m db2) (\<lambda>(m', db3).
          Option.bind (DbaModule_ReleaseNVDataAccess a db3) (\<lambda>db4. Some (int (length m'), m', db4)))"
        using assms(2) g a(1) e(1) True by (simp add: getTokens_def Let_def DbaModule_GetNVDataAccess_def)
      then show ?thesis
        using tokens.loop_settles [OF a(2-4) e(1) True, of m "\<lambda>m'. int (length m')"]
        by (metis (no_types, lifting) map_option_eq_Some prod.inject)
    next
      case False
      obtain db3 where "DbaModule_ReleaseNVDataAccess a db2 = Some db3" "settled db db3 (db_server db2)"
        using give_back [OF pool.at_works [OF a(2) e(2)] a(3)] by blast
      with False show ?thesis
        using assms(2) g a(1) e(1) by (auto simp: getTokens_def Let_def DbaModule_GetNVDataAccess_def)
    qed
  qed
qed

lemma command_save_balanced:
  assumes "db_inv db" "command_save my u v c n arg db = Some (r, db')"
  shows "\<exists>d. settled db db' d"
proof -
  let ?sql = "sql_command u v c n arg"
  obtain a db1 where g: "GetNVDataAccess my db = (a, db1)" by fastforce
  show ?thesis
  proof (rule Get_cases [OF assms(1) g])
    assume "a = 0" "db1 = db"
    then show ?thesis
      using g assms by (auto simp: command_save_def Let_def DbaModule_GetNVDataAccess_def ExecuteNonQuery_def)
  next
    assume a: "a \<noteq> 0" "pool.at (insert a (held db)) db1" "a \<notin> held db" "usable a db1"
    let ?d = "snd (srv_exec my a ?sql (db_server db1))"
    obtain db3 where "DbaModule_ReleaseNVDataAccess a (db1\<lparr>db_server := ?d\<rparr>) = Some db3" "settled db db3 ?d"
      using give_back [of a db "db1\<lparr>db_server := ?d\<rparr>"] a by auto
    then show ?thesis
      using assms(2) g a(1,4)
      by (auto simp: command_save_def Let_def DbaModule_GetNVDataAccess_def exec_usable split: if_splits)
  qed
qed

text \<open>A successful registration of a device keeps its access object.\<close>

lemma device_regist_spec:
  assumes "db_inv db"
  shows "\<exists>r db'. device_regist my u nm db = Some (r, db') \<and> db_inv db' \<and>
    (if r then \<exists>a. a \<notin> held db \<and> held db' = insert a (held db) else held db' = held db)"
proof -
  let ?sql = "snprintf 1024 (sql_device_insert u nm)"
  obtain a db1 where g: "GetNVDataAccess my db = (a, db1)" by fastforce
  show ?thesis
  proof (rule Get_cases [OF assms g])
    assume "a = 0" "db1 = db"
    then have "device_regist my u nm db = Some (False, db)"
      using g by (simp add: device_regist_def Let_def DbaModule_GetNVDataAccess_def)
    then show ?thesis using assms by (auto intro: exI [of _ False])
  next
    assume a: "a \<noteq> 0" "pool.at (insert a (held db)) db1" "a \<notin> held db" "usable a db1"
    let ?d = "snd (srv_exec my a ?sql (db_server db1))"
    let ?db2 = "db1\<lparr>db_server := ?d\<rparr>"
    obtain db3 where r: "DbaModule_ReleaseNVDataAccess a ?db2 = Some db3" "settled db db3 ?d"
      using give_back [of a db ?db2] a by auto
    have h: "db_inv ?db2" "held ?db2 = insert a (held db)"
      using at_server(1) [THEN iffD2, OF a(2)] by (simp_all add: pool.at_def)
    show ?thesis
      using g a(1,3,4) r h
      by (auto simp: device_regist_def Let_def DbaModule_GetNVDataAccess_def exec_usable settled_def)
  qed
qed

text \<open>In short, every operation keeps the pool in order and takes no access object away from
  whoever holds it.\<close>

definition pool_step :: "'d database \<Rightarrow> 'd database \<Rightarrow> bool" where
  "pool_step db db' \<longleftrightarrow> db_inv db' \<and> held db \<subseteq> held db'"

lemma settled_pool: "settled db db' d \<Longrightarrow> pool_step db db'"
  by (simp add: settled_def pool_step_def)

lemma settles_inv: "\<exists>db1. m = Some (v, db1) \<and> settled db db1 d \<Longrightarrow> m = Some (r, db') \<Longrightarrow> pool_step db db'"
  using settled_pool by auto

lemma dao_inv:
  assumes "db_inv db"
  shows "user_login my u p db = Some (r, db') \<Longrightarrow> pool_step db db'"
    and "user_logout my u p db = Some (r, db') \<Longrightarrow> pool_step db db'"
    and "checkUser my u db = Some (r, db') \<Longrightarrow> pool_step db db'"
    and "device_check my u db = Some (r, db') \<Longrightarrow> pool_step db db'"
    and "device_login my u p db = Some (r, db') \<Longrightarrow> pool_step db db'"
    and "device_logout my u db = Some (r, db') \<Longrightarrow> pool_step db db'"
    and "push_save my u f n t db = Some (r, db') \<Longrightarrow> pool_step db db'"
  by (erule settles_inv [OF user_login_server [OF assms]] settles_inv [OF update_daos(1) [OF assms]]
      settles_inv [OF question_daos(1) [OF assms]] settles_inv [OF device_check_question [OF assms]]
      settles_inv [OF update_daos(4) [OF assms]] settles_inv [OF update_daos(5) [OF assms]]
      settles_inv [OF push_save_update [OF assms]])+

lemma dao_inv':
  assumes "db_inv db"
  shows "token_save my u t db = Some (i, db') \<Longrightarrow> pool_step db db'"
    and "device_regist my u p db = Some (r, db') \<Longrightarrow> pool_step db db'"
    and "saveLog my src lt u n t db = Some db' \<Longrightarrow> pool_step db db'"
    and "command_save my u t c n arg db = Some (r, db') \<Longrightarrow> pool_step db db'"
    and "getBindedUsers my u m0 db = Some (i, users, db') \<Longrightarrow> pool_step db db'"
    and "getBindedDevices my u m1 db = Some (i, devs, db') \<Longrightarrow> pool_step db db'"
    and "getTokens my us m2 db = Some (i, toks, db') \<Longrightarrow> pool_step db db'"
proof -
  show "token_save my u t db = Some (i, db') \<Longrightarrow> pool_step db db'"
    using token_save_settles [OF assms, of my u t] settled_pool by auto
  show "device_regist my u p db = Some (r, db') \<Longrightarrow> pool_step db db'"
    using device_regist_spec [OF assms, of my u p] by (auto simp: pool_step_def split: if_splits)
  show "saveLog my src lt u n t db = Some db' \<Longrightarrow> pool_step db db'"
    using log_settles [OF assms, of my src lt u n t] settled_pool by auto
  show "command_save my u t c n arg db = Some (r, db') \<Longrightarrow> pool_step db db'"
    by (auto dest!: command_save_balanced [OF assms] settled_pool)
  show "getBindedUsers my u m0 db = Some (i, users, db') \<Longrightarrow> pool_step db db'"
    by (auto dest!: bound_users_balanced [OF assms] settled_pool)
  show "getBindedDevices my u m1 db = Some (i, devs, db') \<Longrightarrow> pool_step db db'"
    by (auto dest!: bound_devices_balanced [OF assms] settled_pool)
  show "getTokens my us m2 db = Some (i, toks, db') \<Longrightarrow> pool_step db db'"
    by (auto dest!: getTokens_balanced [OF assms] settled_pool)
qed

section \<open>Properties\<close>

lemma length_c_str: "length (c_str s) \<le> length s"
  unfolding c_str_def by (rule length_takeWhile_le)

lemma length_quoted: "length (quoted s) \<le> length s + 2"
  using length_c_str [of s] by (simp add: quoted_def)

lemmas sql_defs = sql_user_def sql_user_password_def sql_user_login_def sql_user_logout_def sql_device_def
  sql_device_insert_def sql_device_login_def sql_device_logout_def sql_bound_devices_def sql_bound_users_def
  sql_token_update_def sql_token_insert_def sql_token_def

lemmas fits = snprintf_fits [symmetric]

lemma snprintf_fits_iff: "0 < n \<Longrightarrow> snprintf n s = s \<longleftrightarrow> length s < n"
  by (auto simp: snprintf_def)



text \<open>C31: A user logs in with the right password only. \<open>WisUserDao::login\<close> succeeds exactly when the
  question for name and password has an answer of at least one row and the login could be recorded;
  the recording statement runs only then, and the access object is given back in every case.\<close>

theorem login_needs_a_match:
  assumes "db_inv db" "GetNVDataAccess my db = (a, db1)" "a \<noteq> 0"
    and "srv_ask my a (snprintf 200 (sql_user_password u p)) (db_server db1) = (n, d)"
    and "srv_exec my a (snprintf 200 (sql_user_login u)) d = (ok, d')"
  shows "\<exists>db'. user_login my u p db = Some (1 \<le> n \<and> ok, db') \<and> settled db db' (if 1 \<le> n then d' else d)"
proof -
  have "login_on_server my u p db = (1 \<le> n \<and> ok, if 1 \<le> n then d' else d)"
    using assms(2-5) by (simp add: login_on_server_def)
  then show ?thesis using user_login_server [OF assms(1), of my u p] by simp
qed

theorem login_needs_a_match_witness:
  "\<exists>db'. user_login (quiet_mysql [] []) ''bob'' ''secret'' (empty_db []) = Some (True, db')"
proof -
  let ?my = "quiet_mysql [] []"
  let ?db1 = "snd (GetNVDataAccess ?my (empty_db []))"
  have g: "GetNVDataAccess ?my (empty_db []) = (1, ?db1)"
    using Get_empty_db [of ?my "[]"] by (simp add: prod_eq_iff)
  have "srv_ask ?my 1 sql d = (1, d @ [c_str sql])" "srv_exec ?my 1 sql d = (True, d @ [c_str sql])" for sql d
    by (simp_all add: srv_ask_def srv_exec_def quiet_mysql_def)
  then show ?thesis
    using login_needs_a_match [OF empty_db_inv g] by fastforce
qed

text \<open>C30: Data access objects are balanced. Whatever the server answers, each of these operations
  returns with exactly the access objects in use that were in use before.\<close>

theorem daos_are_balanced:
  assumes "db_inv db"
  shows "(\<exists>r db' d. checkUser my u db = Some (r, db') \<and> settled db db' d) \<and>
    (\<exists>r db' d. user_login my u p db = Some (r, db') \<and> settled db db' d) \<and>
    (\<exists>r db' d. user_logout my u p db = Some (r, db') \<and> settled db db' d) \<and>
    (\<exists>r db' d. device_check my u db = Some (r, db') \<and> settled db db' d) \<and>
    (\<exists>r db' d. device_login my u nm db = Some (r, db') \<and> settled db db' d) \<and>
    (\<exists>r db' d. device_logout my u db = Some (r, db') \<and> settled db db' d) \<and>
    (\<exists>r db' d. token_save my u t db = Some (r, db') \<and> settled db db' d) \<and>
    (\<exists>r db' d. push_save my u f n msg db = Some (r, db') \<and> settled db db' d) \<and>
    (\<exists>db' d. saveLog my src lt u n msg db = Some db' \<and> settled db db' d)"
  using question_daos(1) [OF assms, of my u] user_login_server [OF assms, of my u p]
    update_daos(1) [OF assms, of my u p] device_check_question [OF assms, of my u]
    update_daos(4) [OF assms, of my u nm] update_daos(5) [OF assms, of my u]
    token_save_settles [OF assms, of my u t] push_save_update [OF assms, of my u f n msg]
    log_settles [OF assms, of my src lt u n msg]
  by (elim exE conjE) (intro conjI exI; assumption)

theorem daos_are_balanced_witness:
  "\<exists>r db' d. user_logout (quiet_mysql [] []) ''bob'' ''x'' (empty_db []) = Some (r, db') \<and> settled (empty_db []) db' d"
  using daos_are_balanced [OF empty_db_inv, of "quiet_mysql [] []" "''bob''" "[]" "''x''"] by blast

text \<open>C37: One operation is not: registering a device keeps an access object for ever when it succeeds.\<close>

theorem device_registration_leaks:
  assumes "db_inv db" "device_regist my uuid name db = Some (True, db')"
  shows "\<exists>a. a \<notin> held db \<and> held db' = insert a (held db)"
  using device_regist_spec [OF assms(1), of my uuid name] assms(2) by auto

theorem device_registration_leaks_witness:
  "\<exists>db'. device_regist (quiet_mysql [] []) ''lamp'' ''Lamp'' (empty_db []) = Some (True, db') \<and> held db' \<noteq> {}"
proof -
  let ?my = "quiet_mysql [] []"
  obtain db1 where g: "GetNVDataAccess ?my (empty_db []) = (1, db1)"
    using Get_empty_db by (metis prod.collapse)
  then have u: "usable 1 db1" by (rule Get_cases [OF empty_db_inv]) auto
  have x: "fst (srv_exec ?my 1 q d)" for q d by (simp add: srv_exec_def quiet_mysql_def)
  have "\<exists>db'. device_regist ?my ''lamp'' ''Lamp'' (empty_db []) = Some (True, db')"
    unfolding device_regist_def DbaModule_GetNVDataAccess_def g Let_def
    by (simp add: exec_usable [OF u] x del: One_nat_def)
  then obtain db' where d: "device_regist ?my ''lamp'' ''Lamp'' (empty_db []) = Some (True, db')" by blast
  then show ?thesis using device_registration_leaks [OF empty_db_inv d] by blast
qed

text \<open>The users bound to a device are read completely. When the question has an answer, the map
  that \<open>getBindedUsers\<close> fills holds, for every row of the answer, an entry under the id in that row,
  the one of the last row with this id, and nothing else that was not there before; and the access object
  is given back.\<close>

lemma bound_users_are_the_rows:
  assumes "db_inv db" "GetNVDataAccess my db = (a, db1)" "a \<noteq> 0"
    and "srv_ask my a (snprintf 200 (sql_bound_users dev)) (db_server db1) = (n, d)" "1 \<le> n"
    and "srv_rows my a (snprintf 200 (sql_bound_users dev)) (db_server db1) = Some res"
    and "\<forall>row \<in> set (res_rows res). user_of_row (res_fields res) row \<noteq> None"
  shows "\<exists>m db'. getBindedUsers my dev [] db = Some (int (length m), m, db') \<and> settled db db' d \<and> om_wf m \<and>
    (\<forall>k. om_find k m =
      (case find (\<lambda>row. \<exists>v. user_of_row (res_fields res) row = Some (k, v)) (rev (res_rows res)) of
         Some row \<Rightarrow> map_option snd (user_of_row (res_fields res) row) | None \<Rightarrow> None))"
proof -
  let ?f = "user_of_row (res_fields res)"
  obtain db' where q: "settled db db' d" "getBindedUsers my dev [] db =
      map_option (\<lambda>m'. (int (length m'), m', db')) (fold_rows (store_row ?f) (res_rows res) [])"
    using users.query(2) [OF assms(1-4) bound_users_unfold assms(5)] assms(6) by auto
  obtain m where m: "fold_rows (store_row ?f) (res_rows res) [] = Some m"
    using fold_rows_total [OF assms(7)] by blast
  show ?thesis
    using q m fold_rows_wf [OF om_wf_Nil m] fold_rows_last [OF m, unfolded om_find_simps(1)] by simp
qed

text \<open>An update that was made and a log leave an idle access object behind, so the next operation gets one.\<close>

lemma back_is_available:
  assumes "pool.at (insert a (held db)) db2" "DbaModule_ReleaseNVDataAccess a db2 = Some db3"
  shows "fst (GetNVDataAccess my db3) \<noteq> 0"
  using released_is_available [of db2 a my] assms by (auto simp: pool.at_def DbaModule_ReleaseNVDataAccess_def)

lemma logout_leaves_access:
  assumes "db_inv db" "device_logout my u db = Some (True, db')"
  shows "fst (GetNVDataAccess my' db') \<noteq> 0"
proof -
  obtain a db1 where g: "GetNVDataAccess my db = (a, db1)" by fastforce
  show ?thesis
  proof (rule Get_cases [OF assms(1) g])
    assume "a = 0"
    then show ?thesis using assms(2) g by (simp add: device_logout_def DbaModule_GetNVDataAccess_def Let_def)
  next
    assume a: "a \<noteq> 0" "pool.at (insert a (held db)) db1" "usable a db1"
    then obtain d where "DbaModule_ReleaseNVDataAccess a (db1\<lparr>db_server := d\<rparr>) = Some db'"
      using assms(2) g by (auto simp: device_logout_def DbaModule_GetNVDataAccess_def Let_def exec_usable split: bind_splits if_splits)
    from back_is_available [OF _ this, of db my'] a(2) show ?thesis by simp
  qed
qed

lemma log_leaves_access:
  assumes "db_inv db" "fst (GetNVDataAccess my db) \<noteq> 0" "saveLog my src t u n arg db = Some db'"
  shows "fst (GetNVDataAccess my' db') \<noteq> 0"
proof -
  obtain a db1 where g: "GetNVDataAccess my db = (a, db1)" by fastforce
  show ?thesis
  proof (rule Get_cases [OF assms(1) g])
    assume "a = 0"
    then show ?thesis using assms(2) g by simp
  next
    assume a: "a \<noteq> 0" "pool.at (insert a (held db)) db1" "usable a db1"
    then obtain d where "DbaModule_ReleaseNVDataAccess a (db1\<lparr>db_server := d\<rparr>) = Some db'"
      using assms(3) g by (auto simp: saveLog_def DbaModule_GetNVDataAccess_def Let_def exec_usable split: bind_splits if_splits)
    from back_is_available [OF _ this, of db my'] a(2) show ?thesis by simp
  qed
qed

text \<open>The users bound to a device can be read: whatever the server answers to the question for them, every row has
  a name and a time and a number as status.\<close>

definition readable_users :: "'d mysql \<Rightarrow> bytes \<Rightarrow> bool" where
  "readable_users my dev \<longleftrightarrow> (\<forall>a d res. srv_rows my a (snprintf 200 (sql_bound_users dev)) d = Some res \<longrightarrow>
     (\<forall>row \<in> set (res_rows res). user_of_row (res_fields res) row \<noteq> None))"

lemma bound_users_total:
  assumes "db_inv db" "fst (GetNVDataAccess my db) \<noteq> 0" "readable_users my dev"
  shows "\<exists>n m db'. getBindedUsers my dev [] db = Some (n, m, db') \<and> (\<forall>(k, v) \<in> set m. string_at (user_info_mem v) = Some k)"
proof -
  obtain a db1 where g: "GetNVDataAccess my db = (a, db1)" "a \<noteq> 0" using assms(2) by (metis prod.collapse)
  obtain n d where n: "srv_ask my a (snprintf 200 (sql_bound_users dev)) (db_server db1) = (n, d)" by fastforce
  note q = users.query [OF assms(1) g n bound_users_unfold [of my dev "[]"]]
  show ?thesis
  proof (cases "n < 1")
    case True
    then show ?thesis using q(1) by auto
  next
    case False
    then obtain res where r: "srv_rows my a (snprintf 200 (sql_bound_users dev)) (db_server db1) = Some res"
      using q(2) by auto
    let ?f = "user_of_row (res_fields res)"
    have rows: "\<forall>row \<in> set (res_rows res). ?f row \<noteq> None" using assms(3) r by (auto simp: readable_users_def)
    have one: "1 \<le> n" using False by simp
    obtain m db' where m: "getBindedUsers my dev [] db = Some (int (length m), m, db')" "om_wf m"
      "\<forall>k. om_find k m = (case find (\<lambda>row. \<exists>v. ?f row = Some (k, v)) (rev (res_rows res)) of
         Some row \<Rightarrow> map_option snd (?f row) | None \<Rightarrow> None)"
      using bound_users_are_the_rows [OF assms(1) g n one r rows] by blast
    have "string_at (user_info_mem v) = Some k" if "(k, v) \<in> set m" for k v
    proof -
      have "om_find k m = Some v" using that m(2) by (simp add: om_find_iff)
      then obtain row where f: "find (\<lambda>row. \<exists>v. ?f row = Some (k, v)) (rev (res_rows res)) = Some row" "map_option snd (?f row) = Some v"
        using m(3) by (metis (no_types, lifting) option.case_eq_if option.collapse option.distinct(1))
      have "\<exists>v. ?f row = Some (k, v)" using f(1) unfolding find_Some_iff by blast
      with f(2) have "?f row = Some (k, v)" by auto
      then show ?thesis by (auto simp: user_of_row_def Let_def split: bind_splits)
    qed
    then show ?thesis using m(1) by blast
  qed
qed

end
