(* ===== verification/Xml_Text.thy ===== *)
theory Xml_Text
  imports Smart_Buffer
begin

text \<open>
  The lexical layer of the repository's copy of tinyXML (tinyXml/src/tinyxmlparser.cpp, the inline
  functions of include/XML/tinyxml.h): white space, names, entities, characters, text up to an end
  tag, and the row/column bookkeeping of \<open>TiXmlParsingData\<close>.

  The text being parsed lies in a \<open>TiXmlString\<close>: \<open>deadline\<close> is its end, and the byte there is the
  NUL that every \<open>TiXmlString\<close> keeps. A \<open>const char *\<close> into it is a \<open>cptr\<close>: \<open>Null\<close>, \<open>At s\<close> with the
  bytes \<open>s\<close> that are left before \<open>deadline\<close>, or \<open>Beyond\<close>, a place behind the NUL. The tests
  \<open>p >= deadline\<close> of the code hold exactly of \<open>At []\<close> and \<open>Beyond\<close>; a read through \<open>Beyond\<close> sees
  memory nothing has written.

  A computation ends in \<open>Inr\<close> of its result or in \<open>Inl\<close> of the reason why there is none:
  \<open>Undefined\<close> (such a read, or a failed \<open>assert\<close>), \<open>Hangs\<close> (an endless loop in \<open>Stamp\<close>), and
  \<open>Out_of_fuel\<close>, which the bounded recursion of the parser never meets (theory Xml_Parse).
\<close>

section \<open>Pointers into the text\<close>

datatype TiXmlEncoding = TIXML_ENCODING_UNKNOWN | TIXML_ENCODING_UTF8 | TIXML_ENCODING_LEGACY

datatype cptr = Null | At bytes | Beyond

datatype stuck = Undefined | Hangs | Out_of_fuel

type_synonym 'a run = "stuck + 'a"

definition and_then :: "'a run \<Rightarrow> ('a \<Rightarrow> 'b run) \<Rightarrow> 'b run" where
  "and_then m f = (case m of Inl e \<Rightarrow> Inl e | Inr x \<Rightarrow> f x)"

definition adv :: "nat \<Rightarrow> bytes \<Rightarrow> cptr" where
  "adv n s = (if n \<le> length s then At (drop n s) else Beyond)"

definition peek :: "bytes \<Rightarrow> nat \<Rightarrow> char" where
  "peek s i = (if i < length s then s ! i else NUL)"

lemma and_then_simps [simp]:
  "and_then (Inl e) f = Inl e" "and_then (Inr x) f = f x"
  by (simp_all add: and_then_def)

lemma and_then_Inr: "and_then m f = Inr y \<longleftrightarrow> (\<exists>x. m = Inr x \<and> f x = Inr y)"
  by (cases m) auto

lemma and_then_Inl: "and_then m f = Inl e \<longleftrightarrow> m = Inl e \<or> (\<exists>x. m = Inr x \<and> f x = Inl e)"
  by (cases m) auto

lemma peek_simps [simp]: "peek [] i = NUL" "peek (c # s) 0 = c" "peek (c # s) (Suc i) = peek s i"
  by (simp_all add: peek_def)

lemma peek_numeral [simp]: "peek (c # s) (numeral k) = peek s (pred_numeral k)"
  by (simp add: numeral_eq_Suc)

lemma peek_1 [simp]: "peek (c # s) 1 = peek s 0"
  by (simp add: peek_def)

section \<open>Character classes\<close>

definition IsWhiteSpace :: "char \<Rightarrow> bool" where
  "IsWhiteSpace c \<longleftrightarrow> is_space c \<or> c = CHR 0x0A \<or> c = CHR 0x0D"

definition isalpha :: "char \<Rightarrow> bool" where
  "isalpha c \<longleftrightarrow> (65 \<le> byte_val c \<and> byte_val c \<le> 90) \<or> (97 \<le> byte_val c \<and> byte_val c \<le> 122)"

definition isdigit :: "char \<Rightarrow> bool" where
  "isdigit c \<longleftrightarrow> 48 \<le> byte_val c \<and> byte_val c \<le> 57"

definition IsAlpha :: "char \<Rightarrow> bool" where
  "IsAlpha c \<longleftrightarrow> (if byte_val c < 127 then isalpha c else True)"

definition IsAlphaNum :: "char \<Rightarrow> bool" where
  "IsAlphaNum c \<longleftrightarrow> (if byte_val c < 127 then isalpha c \<or> isdigit c else True)"

text \<open>\<open>tolower\<close> of the C locale; bytes from 128 on are negative as \<open>char\<close> and map to themselves, so
  the two branches of \<open>ToLower\<close> agree.\<close>

definition ToLower :: "char \<Rightarrow> char" where
  "ToLower c = (if 65 \<le> byte_val c \<and> byte_val c \<le> 90 then char_of (byte_val c + 32) else c)"

definition utf8ByteTable :: "char \<Rightarrow> nat" where
  "utf8ByteTable c =
     (let b = byte_val c in
      if b < 194 then 1 else if b < 224 then 2 else if b < 240 then 3 else if b < 245 then 4 else 1)"

definition TIXML_UTF_LEAD_0 :: char where "TIXML_UTF_LEAD_0 = CHR 0xEF"
definition TIXML_UTF_LEAD_1 :: char where "TIXML_UTF_LEAD_1 = CHR 0xBB"
definition TIXML_UTF_LEAD_2 :: char where "TIXML_UTF_LEAD_2 = CHR 0xBF"

definition zero_width :: "bytes \<Rightarrow> bool" where
  "zero_width s \<longleftrightarrow> peek s 0 = TIXML_UTF_LEAD_0 \<and>
     ((peek s 1 = TIXML_UTF_LEAD_1 \<and> peek s 2 = TIXML_UTF_LEAD_2) \<or>
      (peek s 1 = CHR 0xBF \<and> peek s 2 = CHR 0xBE) \<or>
      (peek s 1 = CHR 0xBF \<and> peek s 2 = CHR 0xBF))"

section \<open>White space, comparison, names\<close>

fun skip_utf8 :: "bytes \<Rightarrow> bytes" where
  "skip_utf8 [] = []"
| "skip_utf8 (c # s) =
     (if c = NUL then c # s
      else if zero_width (c # s) then skip_utf8 (drop 2 s)
      else if IsWhiteSpace c then skip_utf8 s
      else c # s)"

definition SkipWhiteSpace :: "TiXmlEncoding \<Rightarrow> cptr \<Rightarrow> cptr" where
  "SkipWhiteSpace enc p =
     (case p of
        At s \<Rightarrow>
          if s = [] \<or> peek s 0 = NUL then Null
          else if enc = TIXML_ENCODING_UTF8 then At (skip_utf8 s)
          else At (dropWhile IsWhiteSpace s)
      | _ \<Rightarrow> Null)"

fun starts_with :: "bool \<Rightarrow> bytes \<Rightarrow> bytes \<Rightarrow> bool" where
  "starts_with ic [] s = True"
| "starts_with ic (t # tag) [] = False"
| "starts_with ic (t # tag) (c # s) =
     (c \<noteq> NUL \<and> (if ic then ToLower c = ToLower t else c = t) \<and> starts_with ic tag s)"

definition StringEqual :: "bool \<Rightarrow> bytes \<Rightarrow> bytes \<Rightarrow> bool" where
  "StringEqual ignoreCase tag s \<longleftrightarrow> s \<noteq> [] \<and> peek s 0 \<noteq> NUL \<and> starts_with ignoreCase tag s"

definition name_char :: "char \<Rightarrow> bool" where
  "name_char c \<longleftrightarrow> c \<noteq> NUL \<and>
     (IsAlphaNum c \<or> c = CHR ''_'' \<or> c = CHR ''-'' \<or> c = CHR ''.'' \<or> c = CHR '':'')"

text \<open>\<open>ReadName\<close>: the name and the place behind it, or no name.\<close>

definition ReadName :: "bytes \<Rightarrow> (bytes \<times> bytes) option" where
  "ReadName s =
     (if s \<noteq> [] \<and> peek s 0 \<noteq> NUL \<and> (IsAlpha (peek s 0) \<or> peek s 0 = CHR ''_'')
      then Some (takeWhile name_char s, dropWhile name_char s) else None)"

section \<open>Characters and entities\<close>

definition ConvertUTF32ToUTF8 :: "64 word \<Rightarrow> bytes" where
  "ConvertUTF32ToUTF8 input =
     (let tail = (\<lambda>w :: 64 word. char_of (unat ((w OR 0x80) AND 0xBF)));
          head = (\<lambda>w mark :: 64 word. char_of (unat (w OR mark)))
      in if input < 0x80 then [head input 0]
         else if input < 0x800 then [head (drop_bit 6 input) 0xC0, tail input]
         else if input < 0x10000 then [head (drop_bit 12 input) 0xE0, tail (drop_bit 6 input), tail input]
         else if input < 0x200000 then
           [head (drop_bit 18 input) 0xF0, tail (drop_bit 12 input), tail (drop_bit 6 input), tail input]
         else [])"

definition hex_val :: "char \<Rightarrow> nat option" where
  "hex_val c =
     (let b = byte_val c in
      if 48 \<le> b \<and> b \<le> 57 then Some (b - 48)
      else if 97 \<le> b \<and> b \<le> 102 then Some (b - 97 + 10)
      else if 65 \<le> b \<and> b \<le> 70 then Some (b - 65 + 10)
      else None)"

definition dec_val :: "char \<Rightarrow> nat option" where
  "dec_val c = (if 48 \<le> byte_val c \<and> byte_val c \<le> 57 then Some (byte_val c - 48) else None)"

text \<open>The loop over the digits, the last one first. \<open>mult\<close> is an \<open>unsigned\<close> and wraps, as does its
  product with a digit; \<open>ucs\<close> is an \<open>unsigned long\<close>.\<close>

fun ucs_of :: "(char \<Rightarrow> nat option) \<Rightarrow> 32 word \<Rightarrow> bytes \<Rightarrow> 32 word \<Rightarrow> 64 word \<Rightarrow> 64 word option" where
  "ucs_of val base [] mult ucs = Some ucs"
| "ucs_of val base (q # qs) mult ucs =
     (case val q of
        None \<Rightarrow> None
      | Some v \<Rightarrow> ucs_of val base qs (mult * base) (ucs + ucast (mult * of_nat v)))"

definition entities :: "(bytes \<times> char) list" where
  "entities = [(''&amp;'', CHR ''&''), (''&lt;'', CHR ''<''), (''&gt;'', CHR ''>''),
     (''&quot;'', CHR 0x22), (''&apos;'', CHR 0x27)]"

definition encode_ucs :: "TiXmlEncoding \<Rightarrow> 64 word \<Rightarrow> bytes" where
  "encode_ucs enc ucs =
     (if enc = TIXML_ENCODING_UTF8 then ConvertUTF32ToUTF8 ucs else [char_of (unat ucs)])"

text \<open>A numeric reference: \<open>body\<close> is the text behind \<open>&#x\<close> or \<open>&#\<close>. The loop runs back from the
  semicolon to the first \<open>stop\<close> it meets.\<close>

definition numeric_entity ::
  "TiXmlEncoding \<Rightarrow> (char \<Rightarrow> nat option) \<Rightarrow> 32 word \<Rightarrow> char \<Rightarrow> bytes \<Rightarrow> cptr \<times> bytes" where
  "numeric_entity enc val base stop body =
     (if CHR '';'' \<notin> set (takeWhile (\<lambda>c. c \<noteq> NUL) body) then (Null, [])
      else let t = takeWhile (\<lambda>c. c \<noteq> CHR '';'') body in
        case ucs_of val base (takeWhile (\<lambda>c. c \<noteq> stop) (rev t)) 1 0 of
          None \<Rightarrow> (Null, [])
        | Some ucs \<Rightarrow> (At (drop (Suc (length t)) body), encode_ucs enc ucs))"

text \<open>\<open>GetEntity\<close> at an ampersand: where reading goes on, and the bytes it stands for. An ampersand that
  starts no entity stands for none: \<open>*length\<close> stays 0.\<close>

definition GetEntity :: "TiXmlEncoding \<Rightarrow> bytes \<Rightarrow> cptr \<times> bytes" where
  "GetEntity enc s =
     (if peek s 1 = CHR ''#'' \<and> peek s 2 \<noteq> NUL then
        (if peek s 2 = CHR ''x'' then
           (if peek s 3 = NUL then (Null, [])
            else numeric_entity enc hex_val 16 (CHR ''x'') (drop 3 s))
         else numeric_entity enc dec_val 10 (CHR ''#'') (drop 2 s))
      else case find (\<lambda>e. starts_with False (fst e) s) entities of
          Some (str, chr) \<Rightarrow> (At (drop (length str) s), [chr])
        | None \<Rightarrow> (At (drop 1 s), []))"

text \<open>\<open>GetChar\<close>: a multi-byte character is copied up to a NUL, and reading goes on behind its full
  length even when the text ends before.\<close>

definition GetChar :: "TiXmlEncoding \<Rightarrow> bytes \<Rightarrow> cptr \<times> bytes" where
  "GetChar enc s =
     (let c = peek s 0; len = (if enc = TIXML_ENCODING_UTF8 then utf8ByteTable c else 1) in
      if len = 1 then (if c = CHR ''&'' then GetEntity enc s else (At (drop 1 s), [c]))
      else (adv len s, (let v = takeWhile (\<lambda>c. c \<noteq> NUL) (take len s) in v @ replicate (len - length v) NUL)))"

lemma adv_At: "adv n s = At t \<Longrightarrow> length t = length s - n \<and> n \<le> length s"
  by (auto simp: adv_def split: if_splits)

lemma numeric_entity_length: "numeric_entity enc val base stop body = (At t, v) \<Longrightarrow> length t \<le> length body"
  by (auto simp: numeric_entity_def Let_def split: if_splits option.splits)

lemma entities_length: "(str, chr) \<in> set entities \<Longrightarrow> 0 < length str"
  by (auto simp: entities_def)

lemma GetEntity_progress:
  assumes "GetEntity enc s = (At t, v)" "s \<noteq> []"
  shows "length t < length s"
proof (cases "peek s 1 = CHR ''#'' \<and> peek s 2 \<noteq> NUL")
  case True
  then have "2 < length s" by (auto simp: peek_def split: if_splits)
  with True assms(1) show ?thesis
    by (auto simp: GetEntity_def split: if_splits dest!: numeric_entity_length)
next
  case False
  show ?thesis
  proof (cases "find (\<lambda>e. starts_with False (fst e) s) entities")
    case (Some e)
    then have "e \<in> set entities" by (auto simp: find_Some_iff)
    with Some False assms entities_length show ?thesis
      by (cases e) (auto simp: GetEntity_def)
  qed (use False assms in \<open>auto simp: GetEntity_def\<close>)
qed

lemma utf8ByteTable_pos: "0 < utf8ByteTable c"
  by (simp add: utf8ByteTable_def Let_def)

lemma GetChar_progress:
  assumes "GetChar enc s = (At t, v)" "s \<noteq> []"
  shows "length t < length s"
proof -
  define len where "len = (if enc = TIXML_ENCODING_UTF8 then utf8ByteTable (peek s 0) else 1)"
  have pos: "0 < len" by (simp add: len_def utf8ByteTable_pos)
  consider (one) "len = 1" | (many) "len \<noteq> 1" by blast
  then show ?thesis
  proof cases
    case one
    with assms show ?thesis
      by (auto simp: GetChar_def len_def [symmetric] Let_def split: if_splits dest: GetEntity_progress)
  next
    case many
    with assms pos show ?thesis
      by (auto simp: GetChar_def len_def [symmetric] Let_def dest!: adv_At)
  qed
qed

section \<open>Text\<close>

definition condenseWhiteSpace :: bool where "condenseWhiteSpace = True"

text \<open>The two loops of \<open>ReadText\<close>, up to the end tag or a NUL.\<close>

function read_kept :: "TiXmlEncoding \<Rightarrow> bytes \<Rightarrow> bool \<Rightarrow> bytes \<Rightarrow> bytes \<Rightarrow> (cptr \<times> bytes) run" where
  "read_kept enc endTag ic s text =
     (if s = [] \<or> peek s 0 = NUL \<or> StringEqual ic endTag s then Inr (At s, text)
      else case GetChar enc s of
          (Null, v) \<Rightarrow> Inr (Null, text @ v)
        | (Beyond, v) \<Rightarrow> Inl Undefined
        | (At t, v) \<Rightarrow> read_kept enc endTag ic t (text @ v))"
  by pat_completeness auto
termination
  by (relation "measure (\<lambda>(enc, endTag, ic, s, text). length s)") (auto simp: GetChar_progress dest: sym)

function read_condensed ::
  "TiXmlEncoding \<Rightarrow> bytes \<Rightarrow> bool \<Rightarrow> bool \<Rightarrow> bytes \<Rightarrow> bytes \<Rightarrow> (cptr \<times> bytes) run" where
  "read_condensed enc endTag ic whitespace s text =
     (if s = [] \<or> peek s 0 = NUL \<or> StringEqual ic endTag s then Inr (At s, text)
      else if IsWhiteSpace (peek s 0) then read_condensed enc endTag ic True (drop 1 s) text
      else let text' = (if whitespace then text @ '' '' else text) in
        case GetChar enc s of
          (Null, v) \<Rightarrow> Inr (Null, text' @ v)
        | (Beyond, v) \<Rightarrow> Inl Undefined
        | (At t, v) \<Rightarrow> read_condensed enc endTag ic False t (text' @ v))"
  by pat_completeness auto
termination
  by (relation "measure (\<lambda>(enc, endTag, ic, ws, s, text). length s)") (auto simp: GetChar_progress dest: sym)

declare read_kept.simps [simp del] read_condensed.simps [simp del]

text \<open>\<open>ReadText\<close> without its last step over the end tag, and with it.\<close>

definition ReadText_loop :: "TiXmlEncoding \<Rightarrow> bool \<Rightarrow> bytes \<Rightarrow> bool \<Rightarrow> cptr \<Rightarrow> (cptr \<times> bytes) run" where
  "ReadText_loop enc trimWhiteSpace endTag caseInsensitive p =
     (case (if trimWhiteSpace \<and> condenseWhiteSpace then SkipWhiteSpace enc p else p) of
        Null \<Rightarrow> Inr (Null, [])
      | Beyond \<Rightarrow> Inl Undefined
      | At s \<Rightarrow> if trimWhiteSpace \<and> condenseWhiteSpace
          then read_condensed enc endTag caseInsensitive False s []
          else read_kept enc endTag caseInsensitive s [])"

definition ReadText :: "TiXmlEncoding \<Rightarrow> bool \<Rightarrow> bytes \<Rightarrow> bool \<Rightarrow> cptr \<Rightarrow> (cptr \<times> bytes) run" where
  "ReadText enc trimWhiteSpace endTag caseInsensitive p =
     and_then (ReadText_loop enc trimWhiteSpace endTag caseInsensitive p) (\<lambda>(q, text).
       Inr (case q of At s \<Rightarrow> adv (length endTag) s | _ \<Rightarrow> q, text))"

definition hex_digit :: "nat \<Rightarrow> char" where
  "hex_digit n = ''0123456789ABCDEF'' ! n"

text \<open>\<open>EncodeString\<close>. What looks like a hexadecimal reference is copied up to its semicolon, or up to
  the last byte if it has none.\<close>

function EncodeString :: "bytes \<Rightarrow> bytes" where
  "EncodeString [] = []"
| "EncodeString (c # s) =
     (if c = CHR ''&'' \<and> 2 \<le> length s \<and> s ! 0 = CHR ''#'' \<and> s ! 1 = CHR ''x'' then
        (let copied = takeWhile (\<lambda>b. b \<noteq> CHR '';'') (butlast s) in
         c # copied @ EncodeString (drop (length copied) s))
      else if c = CHR ''&'' then ''&amp;'' @ EncodeString s
      else if c = CHR ''<'' then ''&lt;'' @ EncodeString s
      else if c = CHR ''>'' then ''&gt;'' @ EncodeString s
      else if c = CHR 0x22 then ''&quot;'' @ EncodeString s
      else if c = CHR 0x27 then ''&apos;'' @ EncodeString s
      else if byte_val c < 32 then
        ''&#x'' @ [hex_digit (byte_val c div 16), hex_digit (byte_val c mod 16)] @ '';'' @ EncodeString s
      else c # EncodeString s)"
  by pat_completeness auto
termination
  by (relation "measure length") auto

section \<open>Rows and columns\<close>

record cursor =
  cur_row :: int
  cur_col :: int

text \<open>\<open>TiXmlParsingData\<close>: where the cursor belongs to (\<open>stamp\<close>, here the bytes left from there; a
  step behind the end leaves none) and what it is.\<close>

record parsing_data =
  pd_cursor :: cursor
  pd_stamp :: bytes
  pd_tabsize :: int

text \<open>The loop of \<open>Stamp\<close> up to the place with \<open>now\<close> bytes left. Its result is \<open>None\<close> when it never
  ends, \<open>Some None\<close> when it returns at a NUL. At a lead byte EF with a NUL among the next two bytes the
  code changes nothing and goes on.\<close>

partial_function (option) Stamp_loop ::
  "TiXmlEncoding \<Rightarrow> int \<Rightarrow> nat \<Rightarrow> bytes \<Rightarrow> int \<Rightarrow> int \<Rightarrow> (bytes \<times> int \<times> int) option option" where
  "Stamp_loop enc tabsize now p row col =
     (if length p \<le> now then Some (Some (p, row, col))
      else let c = peek p 0 in
        if c = NUL then Some None
        else if c = CHR 0x0D then
          Stamp_loop enc tabsize now (if peek p 1 = CHR 0x0A then drop 2 p else drop 1 p) (row + 1) 0
        else if c = CHR 0x0A then
          Stamp_loop enc tabsize now (if peek p 1 = CHR 0x0D then drop 2 p else drop 1 p) (row + 1) 0
        else if c = CHR 0x09 then Stamp_loop enc tabsize now (drop 1 p) row ((col div tabsize + 1) * tabsize)
        else if c = TIXML_UTF_LEAD_0 \<and> enc = TIXML_ENCODING_UTF8 then
          (if peek p 1 \<noteq> NUL \<and> peek p 2 \<noteq> NUL
           then Stamp_loop enc tabsize now (drop 3 p) row (if zero_width p then col else col + 1)
           else Stamp_loop enc tabsize now p row col)
        else if enc = TIXML_ENCODING_UTF8 then
          Stamp_loop enc tabsize now (drop (utf8ByteTable c) p) row (col + 1)
        else Stamp_loop enc tabsize now (drop 1 p) row (col + 1))"

text \<open>The same loop with the endless case found at once.\<close>

function stamp_run ::
  "TiXmlEncoding \<Rightarrow> int \<Rightarrow> nat \<Rightarrow> bytes \<Rightarrow> int \<Rightarrow> int \<Rightarrow> (bytes \<times> int \<times> int) option option" where
  "stamp_run enc tabsize now p row col =
     (if length p \<le> now then Some (Some (p, row, col))
      else let c = peek p 0 in
        if c = NUL then Some None
        else if c = CHR 0x0D then
          stamp_run enc tabsize now (if peek p 1 = CHR 0x0A then drop 2 p else drop 1 p) (row + 1) 0
        else if c = CHR 0x0A then
          stamp_run enc tabsize now (if peek p 1 = CHR 0x0D then drop 2 p else drop 1 p) (row + 1) 0
        else if c = CHR 0x09 then stamp_run enc tabsize now (drop 1 p) row ((col div tabsize + 1) * tabsize)
        else if c = TIXML_UTF_LEAD_0 \<and> enc = TIXML_ENCODING_UTF8 then
          (if peek p 1 \<noteq> NUL \<and> peek p 2 \<noteq> NUL
           then stamp_run enc tabsize now (drop 3 p) row (if zero_width p then col else col + 1)
           else None)
        else if enc = TIXML_ENCODING_UTF8 then
          stamp_run enc tabsize now (drop (utf8ByteTable c) p) row (col + 1)
        else stamp_run enc tabsize now (drop 1 p) row (col + 1))"
  by pat_completeness auto
termination
  by (relation "measure (\<lambda>(enc, tabsize, now, p, row, col). length p)")
    (auto simp: utf8ByteTable_def Let_def)

declare stamp_run.simps [simp del]

lemma Stamp_loop_run_Some:
  "Stamp_loop enc tabsize now p r c = Some x \<Longrightarrow> stamp_run enc tabsize now p r c = Some x"
proof (erule Stamp_loop.raw_induct [where P = "\<lambda>enc tabsize now p r c x. stamp_run enc tabsize now p r c = Some x", rotated],
    goal_cases)
  case (1 f enc tabsize now p r c x)
  note IH = 1(1) and eq = 1(2)
  show ?case
  proof (cases "now < length p \<and> peek p 0 = TIXML_UTF_LEAD_0 \<and> enc = TIXML_ENCODING_UTF8 \<and>
      \<not> (peek p 1 \<noteq> NUL \<and> peek p 2 \<noteq> NUL)")
    case True
    with eq have "f enc tabsize now p r c = Some x" by (auto simp: TIXML_UTF_LEAD_0_def split: if_splits)
    then show ?thesis by (rule IH)
  next
    case False
    with eq show ?thesis
      by (subst stamp_run.simps) (auto simp: Let_def IH TIXML_UTF_LEAD_0_def split: if_split_asm)
  qed
qed

lemma Stamp_loop_run: "Stamp_loop enc tabsize now p r c = stamp_run enc tabsize now p r c"
proof (induction enc tabsize now p r c rule: stamp_run.induct)
  case (1 enc tabsize now p r c)
  show ?case
  proof (cases "now < length p \<and> peek p 0 = TIXML_UTF_LEAD_0 \<and> enc = TIXML_ENCODING_UTF8 \<and>
      (peek p 1 = NUL \<or> peek p 2 = NUL)")
    case True
    then have "stamp_run enc tabsize now p r c = None"
      by (subst stamp_run.simps) (auto simp: TIXML_UTF_LEAD_0_def)
    then show ?thesis
      using Stamp_loop_run_Some [of enc tabsize now p r c] by (cases "Stamp_loop enc tabsize now p r c") auto
  next
    case False
    with 1 show ?thesis
      by (subst Stamp_loop.simps, subst stamp_run.simps) (auto simp: Let_def)
  qed
qed

lemma stamp_run_code [code]: "Stamp_loop = stamp_run"
  by (intro ext) (rule Stamp_loop_run)

definition Stamp :: "TiXmlEncoding \<Rightarrow> bytes \<Rightarrow> parsing_data \<Rightarrow> parsing_data run" where
  "Stamp enc now pd =
     (if pd_tabsize pd < 1 then Inr pd
      else case Stamp_loop enc (pd_tabsize pd) (length now) (pd_stamp pd)
          (cur_row (pd_cursor pd)) (cur_col (pd_cursor pd)) of
          None \<Rightarrow> Inl Hangs
        | Some None \<Rightarrow> Inr pd
        | Some (Some (p, r, c)) \<Rightarrow> Inr (pd\<lparr>pd_cursor := \<lparr>cur_row = r, cur_col = c\<rparr>, pd_stamp := p\<rparr>))"

end
