(* ===== verification/Xml_Doc.thy ===== *)
theory Xml_Doc
  imports Xml_Text
begin

text \<open>
  The document tree of tinyXML (include/XML/tinyxml.h, tinyXml/src/tinyxml.cpp): node types, the
  attribute set of an element, errors, copying, printing, and the visitor \<open>TiXmlPrinter\<close>.

  A node owns its children, so the tree of nodes is a HOL tree; theory Xml_Links has the pointers
  \<open>parent\<close>, \<open>firstChild\<close>, \<open>lastChild\<close>, \<open>prev\<close>, \<open>next\<close> behind the lists. The field \<open>location\<close> of a node
  and \<open>userData\<close> are left out: nothing but \<open>Row()\<close>, \<open>Column()\<close> and \<open>GetUserData()\<close> reads them.
\<close>

section \<open>Nodes\<close>

datatype xml_node =
    ELEMENT (elem_name: bytes) (attributeSet: "(bytes \<times> bytes) list") (elem_children: "xml_node list")
  | COMMENT bytes
  | UNKNOWN bytes
  | TEXT (is_cdata: bool) bytes
  | DECLARATION (decl_version: bytes) (decl_encoding: bytes) (decl_standalone: bytes)

text \<open>The field \<open>value\<close>; \<open>Value()\<close> is its C string. A declaration never sets it.\<close>

fun node_value :: "xml_node \<Rightarrow> bytes" where
  "node_value (ELEMENT n as cs) = n"
| "node_value (COMMENT v) = v"
| "node_value (UNKNOWN v) = v"
| "node_value (TEXT cd v) = v"
| "node_value (DECLARATION ver enc sa) = []"

definition Value :: "xml_node \<Rightarrow> bytes" where
  "Value n = c_str (node_value n)"

fun ToElement :: "xml_node \<Rightarrow> bool" where
  "ToElement (ELEMENT n as cs) = True" | "ToElement _ = False"

fun ToText :: "xml_node \<Rightarrow> bool" where
  "ToText (TEXT cd v) = True" | "ToText _ = False"

fun ToUnknown :: "xml_node \<Rightarrow> bool" where
  "ToUnknown (UNKNOWN v) = True" | "ToUnknown _ = False"

fun ToDeclaration :: "xml_node \<Rightarrow> bool" where
  "ToDeclaration (DECLARATION ver enc sa) = True" | "ToDeclaration _ = False"

definition Blank :: "bytes \<Rightarrow> bool" where
  "Blank v \<longleftrightarrow> list_all IsWhiteSpace v"

section \<open>The document and its errors\<close>

datatype xml_error = TIXML_NO_ERROR | TIXML_ERROR | TIXML_ERROR_OPENING_FILE | TIXML_ERROR_OUT_OF_MEMORY
  | TIXML_ERROR_PARSING_ELEMENT | TIXML_ERROR_FAILED_TO_READ_ELEMENT_NAME
  | TIXML_ERROR_READING_ELEMENT_VALUE | TIXML_ERROR_READING_ATTRIBUTES | TIXML_ERROR_PARSING_EMPTY
  | TIXML_ERROR_READING_END_TAG | TIXML_ERROR_PARSING_UNKNOWN | TIXML_ERROR_PARSING_COMMENT
  | TIXML_ERROR_PARSING_DECLARATION | TIXML_ERROR_DOCUMENT_EMPTY | TIXML_ERROR_EMBEDDED_NULL
  | TIXML_ERROR_PARSING_CDATA | TIXML_ERROR_DOCUMENT_TOP_ONLY

fun errorString :: "xml_error \<Rightarrow> bytes" where
  "errorString TIXML_NO_ERROR = ''No error''"
| "errorString TIXML_ERROR = ''Error''"
| "errorString TIXML_ERROR_OPENING_FILE = ''Failed to open file''"
| "errorString TIXML_ERROR_OUT_OF_MEMORY = ''Memory allocation failed.''"
| "errorString TIXML_ERROR_PARSING_ELEMENT = ''Error parsing Element.''"
| "errorString TIXML_ERROR_FAILED_TO_READ_ELEMENT_NAME = ''Failed to read Element name''"
| "errorString TIXML_ERROR_READING_ELEMENT_VALUE = ''Error reading Element value.''"
| "errorString TIXML_ERROR_READING_ATTRIBUTES = ''Error reading Attributes.''"
| "errorString TIXML_ERROR_PARSING_EMPTY = ''Error: empty tag.''"
| "errorString TIXML_ERROR_READING_END_TAG = ''Error reading end tag.''"
| "errorString TIXML_ERROR_PARSING_UNKNOWN = ''Error parsing Unknown.''"
| "errorString TIXML_ERROR_PARSING_COMMENT = ''Error parsing Comment.''"
| "errorString TIXML_ERROR_PARSING_DECLARATION = ''Error parsing Declaration.''"
| "errorString TIXML_ERROR_DOCUMENT_EMPTY = ''Error document empty.''"
| "errorString TIXML_ERROR_EMBEDDED_NULL = ''Error null (0) or unexpected EOF found in input stream.''"
| "errorString TIXML_ERROR_PARSING_CDATA = ''Error parsing CDATA.''"
| "errorString TIXML_ERROR_DOCUMENT_TOP_ONLY =
     ''Error when TiXmlDocument added to document, because TiXmlDocument can only be at the root.''"

record error_state =
  es_error :: bool
  es_errorId :: xml_error
  es_errorDesc :: bytes
  es_errorLocation :: cursor

record xml_doc =
  doc_value :: bytes
  doc_children :: "xml_node list"
  doc_errors :: error_state
  doc_tabsize :: int
  useMicrosoftBOM :: bool

definition cursor_Clear :: cursor where
  "cursor_Clear = \<lparr>cur_row = - 1, cur_col = - 1\<rparr>"

definition ClearError :: error_state where
  "ClearError = \<lparr>es_error = False, es_errorId = TIXML_NO_ERROR, es_errorDesc = [],
     es_errorLocation = \<lparr>cur_row = 0, cur_col = 0\<rparr>\<rparr>"

definition TiXmlDocument_new :: "bytes \<Rightarrow> xml_doc" where
  "TiXmlDocument_new documentName = \<lparr>doc_value = c_str documentName, doc_children = [],
     doc_errors = ClearError, doc_tabsize = 4, useMicrosoftBOM = False\<rparr>"

text \<open>\<open>SetError\<close> keeps the first error of a chain. With a place in the text it also moves the cursor of
  the parsing data there.\<close>

definition mark_error :: "xml_error \<Rightarrow> error_state \<Rightarrow> error_state" where
  "mark_error err es = (if es_error es then es
     else \<lparr>es_error = True, es_errorId = err, es_errorDesc = errorString err, es_errorLocation = cursor_Clear\<rparr>)"

definition SetError :: "TiXmlEncoding \<Rightarrow> xml_error \<Rightarrow> bytes option \<Rightarrow> error_state \<times> parsing_data \<Rightarrow>
    (error_state \<times> parsing_data) run" where
  "SetError enc err pError st =
     (case st of (es, pd) \<Rightarrow>
        if es_error es then Inr (es, pd)
        else case pError of
            None \<Rightarrow> Inr (mark_error err es, pd)
          | Some p \<Rightarrow> and_then (Stamp enc p pd)
              (\<lambda>pd'. Inr ((mark_error err es)\<lparr>es_errorLocation := pd_cursor pd'\<rparr>, pd')))"

section \<open>Attributes\<close>

text \<open>The set is a list in the order of insertion; \<open>Find\<close> compares C strings. Iterating with \<open>Next\<close>
  stops before an attribute whose name and value are both empty, which it takes for the sentinel.\<close>

definition attr_Find :: "bytes \<Rightarrow> (bytes \<times> bytes) list \<Rightarrow> bytes option" where
  "attr_Find name as = map_option snd (find (\<lambda>a. c_str (fst a) = c_str name) as)"

definition attr_Add :: "bytes \<times> bytes \<Rightarrow> (bytes \<times> bytes) list \<Rightarrow> (bytes \<times> bytes) list" where
  "attr_Add a as = as @ [a]"

fun attr_Set :: "bytes \<Rightarrow> bytes \<Rightarrow> (bytes \<times> bytes) list \<Rightarrow> (bytes \<times> bytes) list" where
  "attr_Set name v [] = []"
| "attr_Set name v ((n, w) # as) =
     (if c_str n = c_str name then (n, v) # as else (n, w) # attr_Set name v as)"

fun attr_Remove :: "bytes \<Rightarrow> (bytes \<times> bytes) list \<Rightarrow> (bytes \<times> bytes) list" where
  "attr_Remove name [] = []"
| "attr_Remove name ((n, w) # as) =
     (if c_str n = c_str name then as else (n, w) # attr_Remove name as)"

fun attr_iterate :: "(bytes \<times> bytes) list \<Rightarrow> (bytes \<times> bytes) list" where
  "attr_iterate [] = []"
| "attr_iterate (a # as) = a # takeWhile (\<lambda>(n, v). \<not> (v = [] \<and> n = [])) as"

fun Attribute :: "bytes \<Rightarrow> xml_node \<Rightarrow> bytes" where
  "Attribute name (ELEMENT n as cs) = (case attr_Find name as of Some v \<Rightarrow> c_str v | None \<Rightarrow> [])"
| "Attribute name _ = []"

definition Attribute_int :: "bytes \<Rightarrow> xml_node \<Rightarrow> (bytes \<times> int) option" where
  "Attribute_int name e =
     (let s = Attribute name e in
      if s \<noteq> [] then map_option (\<lambda>i. (s, i)) (atoi s) else Some (s, 0))"

text \<open>\<open>SetAttribute\<close> ignores an empty name; \<open>SetValue\<close> and the constructor take C strings.\<close>

definition SetAttribute :: "bytes \<Rightarrow> bytes \<Rightarrow> (bytes \<times> bytes) list \<Rightarrow> (bytes \<times> bytes) list" where
  "SetAttribute cname cvalue as =
     (if c_str cname = [] then as
      else if attr_Find cname as \<noteq> None then attr_Set cname (c_str cvalue) as
      else attr_Add (c_str cname, c_str cvalue) as)"

definition SetAttribute_int :: "bytes \<Rightarrow> int \<Rightarrow> (bytes \<times> bytes) list \<Rightarrow> (bytes \<times> bytes) list" where
  "SetAttribute_int name val as = (if c_str name = [] then as else SetAttribute name (show_int val) as)"

definition RemoveAttribute :: "bytes \<Rightarrow> (bytes \<times> bytes) list \<Rightarrow> (bytes \<times> bytes) list" where
  "RemoveAttribute name as = (if attr_Find name as \<noteq> None then attr_Remove name as else as)"

section \<open>Finding children\<close>

definition FirstChild_value :: "bytes \<Rightarrow> xml_node list \<Rightarrow> xml_node list" where
  "FirstChild_value v cs = (if c_str v = [] then [] else dropWhile (\<lambda>n. Value n \<noteq> c_str v) cs)"

text \<open>\<open>FirstChildElement\<close> by type, and by value: from the first child with the value along the siblings
  with the value to the first element among them.\<close>

definition FirstChildElement_any :: "xml_node list \<Rightarrow> xml_node option" where
  "FirstChildElement_any cs = find ToElement cs"

function first_element_from :: "bytes \<Rightarrow> xml_node list \<Rightarrow> xml_node option" where
  "first_element_from v [] = None"
| "first_element_from v (n # cs) =
     (if ToElement n then Some n else first_element_from v (FirstChild_value v cs))"
  by pat_completeness auto
termination
  by (relation "measure (\<lambda>(v, cs). length cs)")
    (auto simp: FirstChild_value_def intro: le_less_trans [OF length_dropWhile_le])

definition FirstChildElement :: "bytes \<Rightarrow> xml_node list \<Rightarrow> xml_node option" where
  "FirstChildElement v cs = (if c_str v = [] then None else first_element_from v (FirstChild_value v cs))"

definition RootElement :: "xml_doc \<Rightarrow> xml_node option" where
  "RootElement d = FirstChildElement_any (doc_children d)"

fun GetText :: "xml_node \<Rightarrow> bytes" where
  "GetText (ELEMENT n as (TEXT cd v # cs)) = c_str v"
| "GetText _ = []"

lemma FirstChildElement_find:
  assumes "c_str v \<noteq> []"
  shows "FirstChildElement v cs = find (\<lambda>n. ToElement n \<and> Value n = c_str v) cs"
proof -
  have "first_element_from v (FirstChild_value v cs) = find (\<lambda>n. ToElement n \<and> Value n = c_str v) cs"
    using assms by (induction cs) (auto simp: FirstChild_value_def)
  with assms show ?thesis by (simp add: FirstChildElement_def)
qed

section \<open>Copying\<close>

definition copy_attributes :: "(bytes \<times> bytes) list \<Rightarrow> (bytes \<times> bytes) list" where
  "copy_attributes as = fold (\<lambda>(n, v). SetAttribute (c_str n) (c_str v)) (attr_iterate as) []"

fun Clone :: "xml_node \<Rightarrow> xml_node" where
  "Clone (ELEMENT n as cs) = ELEMENT n (copy_attributes as) (map Clone cs)"
| "Clone (COMMENT v) = COMMENT v"
| "Clone (UNKNOWN v) = UNKNOWN v"
| "Clone (TEXT cd v) = TEXT cd v"
| "Clone (DECLARATION ver enc sa) = DECLARATION ver enc sa"

text \<open>\<open>CopyTo\<close> of a document appends the copies to the children the target has.\<close>

definition doc_CopyTo :: "xml_doc \<Rightarrow> xml_doc \<Rightarrow> xml_doc" where
  "doc_CopyTo d target = target\<lparr>doc_value := doc_value d, doc_errors := doc_errors d,
     doc_tabsize := doc_tabsize d, useMicrosoftBOM := useMicrosoftBOM d,
     doc_children := doc_children target @ map Clone (doc_children d)\<rparr>"

definition doc_Clone :: "xml_doc \<Rightarrow> xml_doc" where
  "doc_Clone d = doc_CopyTo d (TiXmlDocument_new [])"

text \<open>Copying keeps a tree whose attributes have non-empty distinct names without NULs.\<close>

definition attrs_ok :: "(bytes \<times> bytes) list \<Rightarrow> bool" where
  "attrs_ok as \<longleftrightarrow> distinct (map fst as) \<and> list_all (\<lambda>(n, v). n \<noteq> [] \<and> NUL \<notin> set n \<and> NUL \<notin> set v) as"

fun node_attrs_ok :: "xml_node \<Rightarrow> bool" where
  "node_attrs_ok (ELEMENT n as cs) \<longleftrightarrow> attrs_ok as \<and> list_all node_attrs_ok cs"
| "node_attrs_ok _ \<longleftrightarrow> True"

lemma attr_iterate_ok: "attrs_ok as \<Longrightarrow> attr_iterate as = as"
  by (cases as) (auto simp: attrs_ok_def list_all_iff takeWhile_eq_all_conv)

lemma attr_Find_absent:
  assumes "attrs_ok as" "n \<notin> fst ` set as" "NUL \<notin> set n"
  shows "attr_Find n as = None"
  using assms by (force simp: attr_Find_def find_None_iff attrs_ok_def list_all_iff)

lemma attr_Find_map_of:
  assumes "attrs_ok as" "NUL \<notin> set n"
  shows "attr_Find n as = map_of as n"
  using assms
proof (induction as)
  case (Cons a as)
  then have "attr_Find n as = map_of as n" by (simp add: attrs_ok_def)
  with Cons.prems show ?case by (cases a) (auto simp: attr_Find_def attrs_ok_def)
qed (simp add: attr_Find_def)

lemma SetAttribute_new:
  assumes "attrs_ok (as @ [(n, v)])"
  shows "SetAttribute n v as = as @ [(n, v)]"
  using assms attr_Find_absent [of as n]
  by (force simp: SetAttribute_def attr_Add_def attrs_ok_def)

lemma copy_attributes_ok:
  assumes "attrs_ok as"
  shows "copy_attributes as = as"
proof -
  have "fold (\<lambda>(n, v). SetAttribute (c_str n) (c_str v)) bs as' = as' @ bs" if "attrs_ok (as' @ bs)" for as' bs
    using that
  proof (induction bs arbitrary: as')
    case (Cons b bs)
    obtain n v where b: "b = (n, v)" by (cases b)
    with Cons.prems have "attrs_ok (as' @ [(n, v)])" "NUL \<notin> set n" "NUL \<notin> set v"
      by (auto simp: attrs_ok_def)
    with Cons b show ?case by (simp add: SetAttribute_new)
  qed simp
  from this [of "[]" as] assms show ?thesis by (simp add: copy_attributes_def attr_iterate_ok)
qed

lemma Clone_id: "node_attrs_ok n \<Longrightarrow> Clone n = n"
proof (induction n)
  case (ELEMENT n as cs)
  then have "map Clone cs = cs" by (auto simp: list_all_iff intro!: map_idI)
  with ELEMENT.prems show ?case by (simp add: copy_attributes_ok)
qed simp_all

section \<open>Printing\<close>

text \<open>What is written, as the sequence of strings the code appends. These are the versions of \<open>Print\<close> for a
  \<open>CSmartBuffer\<close>; the ones for a \<open>FILE\<close> come below.\<close>

abbreviation newline :: bytes where "newline \<equiv> [CHR 0x0A]"
abbreviation dquote :: bytes where "dquote \<equiv> [CHR 0x22]"
abbreviation squote :: bytes where "squote \<equiv> [CHR 0x27]"

definition indentation :: "nat \<Rightarrow> bytes list" where
  "indentation depth = replicate depth ''    ''"

definition Attribute_Print :: "bytes \<times> bytes \<Rightarrow> bytes list" where
  "Attribute_Print a =
     (case a of (name, value) \<Rightarrow>
        let n = EncodeString name; v = EncodeString value in
        if CHR 0x22 \<notin> set (c_str value)
        then [c_str n, ''='' @ dquote, c_str v, dquote]
        else [c_str n, ''='' @ squote, c_str v, squote])"

definition Declaration_Print :: "bytes \<Rightarrow> bytes \<Rightarrow> bytes \<Rightarrow> bytes list" where
  "Declaration_Print ver enc sa =
     [''<?xml ''] @
     (if ver \<noteq> [] then [''version='' @ dquote, c_str ver, dquote @ '' ''] else []) @
     (if enc \<noteq> [] then [''encoding='' @ dquote, c_str enc, dquote @ '' ''] else []) @
     (if sa \<noteq> [] then [''standalone='' @ dquote, c_str sa, dquote @ '' ''] else []) @
     [''?>'']"

definition start_tag :: "bytes \<Rightarrow> (bytes \<times> bytes) list \<Rightarrow> bytes list" where
  "start_tag n as = [''<'', c_str n] @ concat (map (\<lambda>a. '' '' # Attribute_Print a) (attr_iterate as))"

definition end_tag :: "bytes \<Rightarrow> bytes list" where
  "end_tag n = [''</'', c_str n, ''>'']"

definition Comment_Print :: "nat \<Rightarrow> bytes \<Rightarrow> bytes list" where
  "Comment_Print depth v = indentation depth @ [''<!--'', c_str v, ''-->'']"

definition Unknown_Print :: "nat \<Rightarrow> bytes \<Rightarrow> bytes list" where
  "Unknown_Print depth v = indentation depth @ [''<'', c_str v, ''>'']"

text \<open>CDATA is written with its length, so it may hold NULs.\<close>

definition Text_Print :: "nat \<Rightarrow> bool \<Rightarrow> bytes \<Rightarrow> bytes list" where
  "Text_Print depth cd v =
     (if cd then [newline] @ indentation depth @ [''<![CDATA['', v, '']]>'' @ newline]
      else [c_str (EncodeString v)])"

declare Comment_Print_def [simp] Unknown_Print_def [simp] Text_Print_def [simp]

fun node_Print :: "nat \<Rightarrow> xml_node \<Rightarrow> bytes list" where
  "node_Print depth (ELEMENT n as cs) =
     indentation depth @ start_tag n as @
     (if cs = [] then ['' />'']
      else if length cs = 1 \<and> ToText (hd cs) then
        [''>''] @ concat (map (node_Print (depth + 1)) cs) @ end_tag n
      else
        [''>''] @ concat (map (\<lambda>c. (if ToText c then [] else [newline]) @ node_Print (depth + 1) c) cs) @
        [newline] @ indentation depth @ end_tag n)"
| "node_Print depth (COMMENT v) = Comment_Print depth v"
| "node_Print depth (UNKNOWN v) = Unknown_Print depth v"
| "node_Print depth (TEXT cd v) = Text_Print depth cd v"
| "node_Print depth (DECLARATION ver enc sa) = Declaration_Print ver enc sa"

text \<open>\<open>PrintChildren\<close>: at depth 0 it leaves out the tags of the element itself.\<close>

fun PrintChildren :: "nat \<Rightarrow> xml_node \<Rightarrow> bytes list" where
  "PrintChildren depth (ELEMENT n as cs) =
     indentation depth @ (if depth \<noteq> 0 then start_tag n as else []) @
     (if cs = [] then (if depth \<noteq> 0 then ['' />''] else [])
      else if length cs = 1 \<and> ToText (hd cs) then
        (if depth \<noteq> 0 then [''>''] else []) @ node_Print (depth + 1) (hd cs) @
        (if depth \<noteq> 0 then end_tag n else [])
      else
        (if depth \<noteq> 0 then [''>''] else []) @
        concat (map (\<lambda>c. (if ToText c then [] else [newline]) @ node_Print (depth + 1) c) cs) @
        [newline] @ indentation depth @ (if depth \<noteq> 0 then end_tag n else []))"
| "PrintChildren depth _ = []"

lemma PrintChildren_inner: "0 < depth \<Longrightarrow> PrintChildren depth (ELEMENT n as cs) = node_Print depth (ELEMENT n as cs)"
  by (cases cs) auto

text \<open>The \<open>FILE\<close> versions, which are code of their own: \<open>fprintf\<close> with \<open>%s\<close> writes up to a NUL,
  \<open>fwrite\<close> the bytes it is given.\<close>

definition Attribute_fprint :: "bytes \<times> bytes \<Rightarrow> bytes" where
  "Attribute_fprint a =
     (case a of (name, value) \<Rightarrow>
        let n = EncodeString name; v = EncodeString value in
        if CHR 0x22 \<notin> set (c_str value)
        then c_str n @ ''='' @ dquote @ c_str v @ dquote
        else c_str n @ ''='' @ squote @ c_str v @ squote)"

definition Comment_fprint :: "nat \<Rightarrow> bytes \<Rightarrow> bytes" where
  "Comment_fprint depth v = concat (replicate depth ''    '') @ ''<!--'' @ c_str v @ ''-->''"

definition Unknown_fprint :: "nat \<Rightarrow> bytes \<Rightarrow> bytes" where
  "Unknown_fprint depth v = concat (replicate depth ''    '') @ ''<'' @ c_str v @ ''>''"

definition Text_fprint :: "nat \<Rightarrow> bool \<Rightarrow> bytes \<Rightarrow> bytes" where
  "Text_fprint depth cd v =
     (if cd then newline @ concat (replicate depth ''    '') @ ''<![CDATA['' @ v @ '']]>'' @ newline
      else c_str (EncodeString v))"

definition Declaration_fprint :: "bytes \<Rightarrow> bytes \<Rightarrow> bytes \<Rightarrow> bytes" where
  "Declaration_fprint ver enc sa =
     ''<?xml '' @
     (if ver \<noteq> [] then ''version='' @ dquote @ c_str ver @ dquote @ '' '' else []) @
     (if enc \<noteq> [] then ''encoding='' @ dquote @ c_str enc @ dquote @ '' '' else []) @
     (if sa \<noteq> [] then ''standalone='' @ dquote @ c_str sa @ dquote @ '' '' else []) @ ''?>''"

fun node_fprint :: "nat \<Rightarrow> xml_node \<Rightarrow> bytes" where
  "node_fprint depth (ELEMENT n as cs) =
     concat (replicate depth ''    '') @ ''<'' @ c_str n @
     concat (map (\<lambda>a. '' '' @ Attribute_fprint a) (attr_iterate as)) @
     (if cs = [] then '' />''
      else if length cs = 1 \<and> ToText (hd cs) then
        ''>'' @ concat (map (node_fprint (depth + 1)) cs) @ ''</'' @ c_str n @ ''>''
      else
        ''>'' @ concat (map (\<lambda>c. (if ToText c then [] else newline) @ node_fprint (depth + 1) c) cs) @
        newline @ concat (replicate depth ''    '') @ ''</'' @ c_str n @ ''>'')"
| "node_fprint depth (COMMENT v) = Comment_fprint depth v"
| "node_fprint depth (UNKNOWN v) = Unknown_fprint depth v"
| "node_fprint depth (TEXT cd v) = Text_fprint depth cd v"
| "node_fprint depth (DECLARATION ver enc sa) = Declaration_fprint ver enc sa"

definition doc_fprint :: "nat \<Rightarrow> xml_doc \<Rightarrow> bytes" where
  "doc_fprint depth d = concat (map (\<lambda>n. node_fprint depth n @ newline) (doc_children d))"

definition doc_Print :: "nat \<Rightarrow> xml_doc \<Rightarrow> bytes list" where
  "doc_Print depth d = concat (map (\<lambda>n. node_Print depth n @ [newline]) (doc_children d))"

definition doc_text :: "xml_doc \<Rightarrow> bytes" where
  "doc_text d = concat (doc_Print 0 d)"

text \<open>\<open>SaveFile\<close> to a file writes the byte order mark the document had; to a buffer it does not. Each
  string is appended to the buffer on its own.\<close>

definition SaveFile_FILE :: "xml_doc \<Rightarrow> bytes" where
  "SaveFile_FILE d =
     (if useMicrosoftBOM d then [TIXML_UTF_LEAD_0, TIXML_UTF_LEAD_1, TIXML_UTF_LEAD_2] else []) @ doc_fprint 0 d"

fun append_all :: "smart_buffer \<Rightarrow> bytes list \<Rightarrow> smart_buffer option" where
  "append_all b [] = Some b"
| "append_all b (x # xs) = Option.bind (sb_append b x) (\<lambda>b'. append_all b' xs)"

definition SaveFile_buffer :: "xml_doc \<Rightarrow> smart_buffer \<Rightarrow> smart_buffer option" where
  "SaveFile_buffer d b = append_all b (doc_Print 0 d)"

text \<open>Both versions of \<open>Print\<close> write the same text.\<close>

lemma concat_concat_map: "concat (concat xss) = concat (map concat xss)"
  by (induction xss) auto

lemma Attribute_fprint_concat: "Attribute_fprint a = concat (Attribute_Print a)"
  by (auto simp: Attribute_fprint_def Attribute_Print_def Let_def split: prod.split)

lemma node_fprint_concat: "node_fprint depth n = concat (node_Print depth n)"
proof (induction n arbitrary: depth)
  case (ELEMENT n as cs)
  have *: "map (node_fprint (Suc depth)) cs = map (\<lambda>c. concat (node_Print (Suc depth) c)) cs"
    "map (\<lambda>c. (if ToText c then [] else newline) @ node_fprint (Suc depth) c) cs =
      map (\<lambda>c. concat ((if ToText c then [] else [newline]) @ node_Print (Suc depth) c)) cs"
    using ELEMENT by (auto simp: list_all_iff)
  show ?case
    by (simp add: * indentation_def start_tag_def end_tag_def concat_concat_map o_def Attribute_fprint_concat)
qed (auto simp: Comment_fprint_def Unknown_fprint_def Text_fprint_def Declaration_fprint_def
    Declaration_Print_def indentation_def)

lemma doc_fprint_text: "doc_fprint 0 d = doc_text d"
  by (simp add: doc_fprint_def doc_text_def doc_Print_def node_fprint_concat concat_concat_map o_def)

section \<open>The visitor\<close>

record xml_printer =
  pr_depth :: nat
  pr_simpleTextPrint :: bool
  pr_buffer :: bytes
  pr_indent :: bytes
  pr_lineBreak :: bytes

definition TiXmlPrinter_new :: xml_printer where
  "TiXmlPrinter_new = \<lparr>pr_depth = 0, pr_simpleTextPrint = False, pr_buffer = [], pr_indent = ''    '',
     pr_lineBreak = newline\<rparr>"

definition SetStreamPrinting :: "xml_printer \<Rightarrow> xml_printer" where
  "SetStreamPrinting v = v\<lparr>pr_indent := [], pr_lineBreak := []\<rparr>"

definition pr_add :: "bytes \<Rightarrow> xml_printer \<Rightarrow> xml_printer" where
  "pr_add s v = v\<lparr>pr_buffer := pr_buffer v @ s\<rparr>"

definition DoIndent :: "xml_printer \<Rightarrow> xml_printer" where
  "DoIndent v = pr_add (concat (replicate (pr_depth v) (pr_indent v))) v"

definition DoLineBreak :: "xml_printer \<Rightarrow> xml_printer" where
  "DoLineBreak v = pr_add (pr_lineBreak v) v"

text \<open>\<open>attrib->Print( 0, 0, &buffer )\<close> appends the strings of the attribute whole, NULs included.\<close>

definition Attribute_str :: "bytes \<times> bytes \<Rightarrow> bytes" where
  "Attribute_str a =
     (case a of (name, value) \<Rightarrow>
        let q = (if CHR 0x22 \<notin> set (c_str value) then dquote else squote)
        in EncodeString name @ ''='' @ q @ EncodeString value @ q)"

definition Declaration_str :: "bytes \<Rightarrow> bytes \<Rightarrow> bytes \<Rightarrow> bytes" where
  "Declaration_str ver enc sa =
     ''<?xml '' @
     (if ver \<noteq> [] then ''version='' @ dquote @ ver @ dquote @ '' '' else []) @
     (if enc \<noteq> [] then ''encoding='' @ dquote @ enc @ dquote @ '' '' else []) @
     (if sa \<noteq> [] then ''standalone='' @ dquote @ sa @ dquote @ '' '' else []) @ ''?>''"

definition simple_text :: "xml_node list \<Rightarrow> bool" where
  "simple_text cs \<longleftrightarrow> (case cs of [TEXT cd v] \<Rightarrow> \<not> cd | _ \<Rightarrow> False)"

definition VisitEnter :: "bytes \<Rightarrow> (bytes \<times> bytes) list \<Rightarrow> xml_node list \<Rightarrow> xml_printer \<Rightarrow> xml_printer" where
  "VisitEnter n as cs v =
     (let v1 = pr_add (''<'' @ c_str n @ concat (map (\<lambda>a. '' '' @ Attribute_str a) (attr_iterate as))) (DoIndent v);
          v2 = (if cs = [] then DoLineBreak (pr_add '' />'' v1)
                else if simple_text cs then (pr_add ''>'' v1)\<lparr>pr_simpleTextPrint := True\<rparr>
                else DoLineBreak (pr_add ''>'' v1))
      in v2\<lparr>pr_depth := pr_depth v2 + 1\<rparr>)"

definition VisitExit :: "bytes \<Rightarrow> xml_node list \<Rightarrow> xml_printer \<Rightarrow> xml_printer" where
  "VisitExit n cs v =
     (let v1 = v\<lparr>pr_depth := pr_depth v - 1\<rparr> in
      if cs = [] then v1
      else let v2 = (if pr_simpleTextPrint v1 then v1\<lparr>pr_simpleTextPrint := False\<rparr> else DoIndent v1)
        in DoLineBreak (pr_add (''</'' @ c_str n @ ''>'') v2))"

definition Visit_text :: "bool \<Rightarrow> bytes \<Rightarrow> xml_printer \<Rightarrow> xml_printer" where
  "Visit_text cd t v =
     (if cd then DoLineBreak (pr_add (''<![CDATA['' @ c_str t @ '']]>'') (DoIndent v))
      else if pr_simpleTextPrint v then pr_add (EncodeString t) v
      else DoLineBreak (pr_add (EncodeString t) (DoIndent v)))"

definition Visit_declaration :: "bytes \<Rightarrow> bytes \<Rightarrow> bytes \<Rightarrow> xml_printer \<Rightarrow> xml_printer" where
  "Visit_declaration ver enc sa v = DoLineBreak (pr_add (Declaration_str ver enc sa) (DoIndent v))"

definition Visit_comment :: "bytes \<Rightarrow> xml_printer \<Rightarrow> xml_printer" where
  "Visit_comment t v = DoLineBreak (pr_add (''<!--'' @ c_str t @ ''-->'') (DoIndent v))"

definition Visit_unknown :: "bytes \<Rightarrow> xml_printer \<Rightarrow> xml_printer" where
  "Visit_unknown t v = DoLineBreak (pr_add (''<'' @ c_str t @ ''>'') (DoIndent v))"

text \<open>\<open>Accept\<close> of the nodes, for a visitor whose functions return true, as those of the printer do.\<close>

fun Accept :: "xml_node \<Rightarrow> xml_printer \<Rightarrow> xml_printer" where
  "Accept (ELEMENT n as cs) v = VisitExit n cs (fold Accept cs (VisitEnter n as cs v))"
| "Accept (TEXT cd t) v = Visit_text cd t v"
| "Accept (DECLARATION ver enc sa) v = Visit_declaration ver enc sa v"
| "Accept (COMMENT t) v = Visit_comment t v"
| "Accept (UNKNOWN t) v = Visit_unknown t v"

definition doc_Accept :: "xml_doc \<Rightarrow> xml_printer \<Rightarrow> xml_printer" where
  "doc_Accept d v = fold Accept (doc_children d) v"

end
