(* ===== verification/Outbound.thy ===== *)
theory Outbound
  imports Database Xml_Doc
begin

text \<open>
  What the server sends on its own initiative: push notifications (JPush: the payload objects, the
  curl handle) and mail (mail: \<open>Mail\<close>), and the configuration both read.

  The libraries behind them are parameters on the outside world \<open>'d\<close>: \<open>'d curl\<close>, \<open>'d quickmail\<close>,
  and \<open>'j json\<close> for jsoncpp, whose values have an abstract type \<open>'j\<close>. The configuration is the
  document \<open>GetConfigXml\<close> returns (theory Server), an argument of everything that reads it; an attribute
  that is missing reads as the empty string (the copy of tinyXML in the repository was changed to do that).
\<close>

section \<open>Configuration\<close>

text \<open>The section of the configuration under a name, when there is a root element that has one.\<close>

definition config_section :: "bytes \<Rightarrow> xml_doc \<Rightarrow> xml_node option" where
  "config_section n xml = (case RootElement xml of Some (ELEMENT r as cs) \<Rightarrow> FirstChildElement n cs | _ \<Rightarrow> None)"

section \<open>Libraries\<close>

datatype curl_option = CURLOPT_USERPWD bytes | CURLOPT_URL bytes | CURLOPT_POST int | CURLOPT_NOSIGNAL int
  | CURLOPT_HTTPHEADER "bytes list" | CURLOPT_POSTFIELDS bytes

record 'd curl =
  curl_easy_init :: "'d \<Rightarrow> ptr \<times> 'd"
  curl_easy_setopt :: "ptr \<Rightarrow> curl_option \<Rightarrow> 'd \<Rightarrow> 'd"
  curl_easy_perform :: "ptr \<Rightarrow> 'd \<Rightarrow> int \<times> 'd"
  curl_easy_cleanup :: "ptr \<Rightarrow> 'd \<Rightarrow> 'd"
  curl_easy_strerror :: "int \<Rightarrow> bytes"

record 'j json =
  j_null :: 'j
  j_string :: "bytes \<Rightarrow> 'j"
  j_int :: "int \<Rightarrow> 'j"
  j_set :: "bytes \<Rightarrow> 'j \<Rightarrow> 'j \<Rightarrow> 'j"
  j_set_index :: "nat \<Rightarrow> 'j \<Rightarrow> 'j \<Rightarrow> 'j"
  j_write :: "'j \<Rightarrow> bytes"

record 'd quickmail =
  quickmail_initialize :: "'d \<Rightarrow> 'd"
  quickmail_create :: "bytes \<Rightarrow> bytes \<Rightarrow> 'd \<Rightarrow> ptr \<times> 'd"
  quickmail_add_header :: "ptr \<Rightarrow> bytes \<Rightarrow> 'd \<Rightarrow> 'd"
  quickmail_add_body :: "ptr \<Rightarrow> bytes \<Rightarrow> bytes \<Rightarrow> 'd \<Rightarrow> 'd"
  quickmail_add_to :: "ptr \<Rightarrow> bytes \<Rightarrow> 'd \<Rightarrow> 'd"
  quickmail_add_cc :: "ptr \<Rightarrow> bytes \<Rightarrow> 'd \<Rightarrow> 'd"
  quickmail_add_bcc :: "ptr \<Rightarrow> bytes \<Rightarrow> 'd \<Rightarrow> 'd"
  quickmail_add_attachment :: "ptr \<Rightarrow> bytes \<Rightarrow> 'd \<Rightarrow> 'd"
  quickmail_send :: "ptr \<Rightarrow> bytes \<Rightarrow> int \<Rightarrow> bytes \<Rightarrow> bytes \<Rightarrow> 'd \<Rightarrow> bytes option \<times> 'd"
  quickmail_destroy :: "ptr \<Rightarrow> 'd \<Rightarrow> 'd"

section \<open>\<open>CcurlHandle\<close>\<close>

record ccurl_handle =
  handle_field :: ptr
  errorno_field :: int
  plist_field :: "bytes list"

definition CURLE_OK :: int where "CURLE_OK = 0"

text \<open>\<open>curl_slist_append\<close> returns the new list; its result is dropped everywhere, so \<open>plist\<close>
  stays \<open>NULL\<close>.\<close>

definition configHandleForJPush :: "'d curl \<Rightarrow> xml_doc \<Rightarrow> ccurl_handle \<Rightarrow> 'd \<Rightarrow> 'd" where
  "configHandleForJPush cu xml h d =
     (case config_section ''JPush'' xml of
        None \<Rightarrow> d
      | Some e \<Rightarrow>
          let appkey = Attribute ''appKey'' e;
              masterSecret = Attribute ''masterSecret'' e;
              auth = appkey @ '':'' @ masterSecret;
              d1 = curl_easy_setopt cu (handle_field h) (CURLOPT_USERPWD (c_str auth)) d;
              d2 = curl_easy_setopt cu (handle_field h) (CURLOPT_URL ''https://api.jpush.cn/v3/push'') d1;
              d3 = curl_easy_setopt cu (handle_field h) (CURLOPT_POST 1) d2;
              d4 = curl_easy_setopt cu (handle_field h) (CURLOPT_NOSIGNAL 1) d3
          in curl_easy_setopt cu (handle_field h) (CURLOPT_HTTPHEADER (plist_field h)) d4)"

definition CcurlHandle_new :: "'d curl \<Rightarrow> xml_doc \<Rightarrow> ptr \<Rightarrow> 'd \<Rightarrow> ccurl_handle \<times> 'd" where
  "CcurlHandle_new cu xml url d =
     (let h = \<lparr>handle_field = url, errorno_field = CURLE_OK, plist_field = []\<rparr>
      in (h, configHandleForJPush cu xml h d))"

definition curl_setOption :: "'d curl \<Rightarrow> ccurl_handle \<Rightarrow> curl_option \<Rightarrow> 'd \<Rightarrow> 'd" where
  "curl_setOption cu h opt d = curl_easy_setopt cu (handle_field h) opt d"

definition curl_perform :: "'d curl \<Rightarrow> ccurl_handle \<Rightarrow> 'd \<Rightarrow> int \<times> ccurl_handle \<times> 'd" where
  "curl_perform cu h d =
     (case curl_easy_perform cu (handle_field h) d of (rc, d') \<Rightarrow> (rc, h\<lparr>errorno_field := rc\<rparr>, d'))"

definition curl_errorMessage :: "'d curl \<Rightarrow> ccurl_handle \<Rightarrow> bytes" where
  "curl_errorMessage cu h = curl_easy_strerror cu (errorno_field h)"

definition curlAppendHeader :: "'d curl \<Rightarrow> ccurl_handle \<Rightarrow> 'd \<Rightarrow> 'd" where
  "curlAppendHeader cu h d = curl_easy_setopt cu (handle_field h) (CURLOPT_HTTPHEADER (plist_field h)) d"

definition curlDeleteHander :: "'d curl \<Rightarrow> ccurl_handle \<Rightarrow> 'd \<Rightarrow> 'd" where
  "curlDeleteHander cu h d = curl_easy_setopt cu (handle_field h) (CURLOPT_HTTPHEADER (plist_field h)) d"

definition curlGetHandle :: "'d curl \<Rightarrow> xml_doc \<Rightarrow> 'd \<Rightarrow> ccurl_handle \<times> 'd" where
  "curlGetHandle cu xml d = (case curl_easy_init cu d of (url, d1) \<Rightarrow> CcurlHandle_new cu xml url d1)"

definition curlRelessHandle :: "'d curl \<Rightarrow> ccurl_handle \<Rightarrow> 'd \<Rightarrow> 'd" where
  "curlRelessHandle cu h d = curl_easy_cleanup cu (handle_field h) d"

section \<open>JPush payloads\<close>

datatype device_type = DT_ios | DT_android | DT_all
datatype audience_type = AT_ALL | AT_TAG | AT_TAG_AND | AT_ALIAS | AT_SEGMENT | AT_REGISTRATION_ID

definition platform_toJson :: "'j json \<Rightarrow> device_type \<Rightarrow> 'j \<Rightarrow> 'j" where
  "platform_toJson J typ jsonValue =
     (case typ of
        DT_ios \<Rightarrow> j_set J ''platform'' (j_string J ''ios'') jsonValue
      | DT_android \<Rightarrow> j_set J ''platform'' (j_string J ''android'') jsonValue
      | DT_all \<Rightarrow> j_set J ''platform'' (j_string J ''all'') jsonValue)"

fun audience_values :: "'j json \<Rightarrow> nat \<Rightarrow> bytes list \<Rightarrow> 'j \<Rightarrow> 'j" where
  "audience_values J i [] value = value"
| "audience_values J i (str # strs) value = audience_values J (Suc i) strs (j_set_index J i (j_string J str) value)"

definition audience_toJson :: "'j json \<Rightarrow> audience_type \<Rightarrow> bytes list \<Rightarrow> 'j \<Rightarrow> 'j" where
  "audience_toJson J typ values jsonValue =
     (if typ = AT_ALL then j_set J ''audience'' (j_string J ''all'') jsonValue
      else
        let value = audience_values J 0 values (j_null J);
            typeValue = (case typ of
                AT_TAG \<Rightarrow> j_set J ''tag'' value (j_null J)
              | AT_TAG_AND \<Rightarrow> j_set J ''tab_and'' value (j_null J)
              | AT_ALIAS \<Rightarrow> j_set J ''alias'' value (j_null J)
              | AT_SEGMENT \<Rightarrow> j_set J ''segment'' value (j_null J)
              | AT_REGISTRATION_ID \<Rightarrow> j_set J ''registration_id'' value (j_null J)
              | AT_ALL \<Rightarrow> j_null J)
        in j_set J ''audience'' typeValue jsonValue)"

record 'j notification =
  nt_alert :: bytes
  nt_title :: bytes
  nt_build_id :: int
  nt_extras :: 'j

text \<open>\<open>snprintf(badge + 1, sizeof(badge), ...)\<close> may write one byte behind the ten of \<open>badge\<close>.\<close>

definition badge_text :: "int \<Rightarrow> bytes option" where
  "badge_text build_id =
     (let t = snprintf 10 (show_int build_id) in if 1 + length t + 1 \<le> 10 then Some (CHR ''+'' # t) else None)"

definition notification_toJson :: "'j json \<Rightarrow> 'j notification \<Rightarrow> 'j \<Rightarrow> 'j option" where
  "notification_toJson J n jsonValue = do {
     badge \<leftarrow> badge_text (nt_build_id n);
     let allValue = j_set J ''alert'' (j_string J (c_str (nt_alert n))) (j_null J);
     let iosValueDetail = j_set J ''badge'' (j_string J badge) (j_null J);
     let allValue = j_set J ''ios'' iosValueDetail allValue;
     let androidValueDetail = j_set J ''title'' (j_string J (c_str (nt_title n))) (j_null J);
     let androidValueDetail = j_set J ''build_id'' (j_int J (nt_build_id n)) androidValueDetail;
     let allValue = j_set J ''android'' androidValueDetail allValue;
     Some (j_set J ''notification'' allValue jsonValue)
   }"

record 'j push_message =
  ms_content :: bytes
  ms_title :: bytes
  ms_type :: bytes
  ms_extras :: 'j

definition message_toJson :: "'j json \<Rightarrow> 'j push_message \<Rightarrow> 'j \<Rightarrow> 'j" where
  "message_toJson J m jsonValue =
     (let v1 = j_set J ''msg_content'' (j_string J (c_str (ms_content m))) (j_null J);
          v2 = j_set J ''title'' (j_string J (c_str (ms_title m))) v1;
          v3 = j_set J ''content_type_'' (j_string J (c_str (ms_type m))) v2;
          v4 = j_set J ''extras'' (ms_extras m) v3
      in j_set J ''message'' v4 jsonValue)"

definition sms_toJson :: "'j json \<Rightarrow> bytes \<Rightarrow> int \<Rightarrow> 'j \<Rightarrow> 'j" where
  "sms_toJson J content delay jsonValue =
     (let v1 = j_set J ''content'' (j_string J content) (j_null J);
          v2 = j_set J ''delay_time'' (j_int J delay) v1
      in j_set J ''sms_message'' v2 jsonValue)"

definition options_toJson :: "'j json \<Rightarrow> bool \<Rightarrow> 'j \<Rightarrow> 'j" where
  "options_toJson J isProduction jsonValue =
     j_set J ''options''
       (j_set J ''apns_production'' (j_string J (if isProduction then ''True'' else ''False'')) (j_null J)) jsonValue"

record 'j push_payload =
  pl_platform :: "device_type option"
  pl_audience :: "(audience_type \<times> bytes list) option"
  pl_message :: "'j push_message option"
  pl_notification :: "'j notification option"
  pl_options :: "bool option"
  pl_sms :: "(bytes \<times> int) option"
  pl_json :: 'j

definition CPushPayload_new :: "'j json \<Rightarrow> 'j push_payload" where
  "CPushPayload_new J = \<lparr>pl_platform = None, pl_audience = None, pl_message = None, pl_notification = None,
     pl_options = None, pl_sms = None, pl_json = j_null J\<rparr>"

definition payload_toJson :: "'j json \<Rightarrow> 'j push_payload \<Rightarrow> 'j option" where
  "payload_toJson J p = do {
     let v1 = (case pl_options p of None \<Rightarrow> pl_json p | Some b \<Rightarrow> options_toJson J b (pl_json p));
     let v2 = (case pl_sms p of None \<Rightarrow> v1 | Some (c, t) \<Rightarrow> sms_toJson J c t v1);
     let v3 = (case pl_message p of None \<Rightarrow> v2 | Some m \<Rightarrow> message_toJson J m v2);
     v4 \<leftarrow> (case pl_notification p of None \<Rightarrow> Some v3 | Some n \<Rightarrow> notification_toJson J n v3);
     let v5 = (case pl_audience p of None \<Rightarrow> v4 | Some (t, vs) \<Rightarrow> audience_toJson J t vs v4);
     Some (case pl_platform p of None \<Rightarrow> v5 | Some t \<Rightarrow> platform_toJson J t v5)
   }"

text \<open>Posting a payload: the writer's text without its last byte, up to a NUL.\<close>

definition post_payload :: "'d curl \<Rightarrow> 'j json \<Rightarrow> xml_doc \<Rightarrow> 'j push_payload \<Rightarrow> 'd \<Rightarrow> (int \<times> 'd) option" where
  "post_payload cu J xml payload d = do {
     let (h, d1) = curlGetHandle cu xml d;
     v \<leftarrow> payload_toJson J payload;
     let tmp3 = j_write J v;
     if tmp3 = [] then None
     else do {
       let targetFileds = butlast tmp3;
       let d2 = curl_setOption cu h (CURLOPT_POSTFIELDS (c_str targetFileds)) d1;
       let (ret, h', d3) = curl_perform cu h d2;
       Some (ret, curlRelessHandle cu h' d3)
     }
   }"

definition push_ALL_ALL_Alert :: "'d curl \<Rightarrow> 'j json \<Rightarrow> xml_doc \<Rightarrow> bytes \<Rightarrow> bytes \<Rightarrow> int \<Rightarrow> 'd \<Rightarrow> (int \<times> 'd) option"
where
  "push_ALL_ALL_Alert cu J xml alert title build_id d =
     post_payload cu J xml
       ((CPushPayload_new J)\<lparr>pl_platform := Some DT_all, pl_audience := Some (AT_ALL, []),
          pl_notification := Some \<lparr>nt_alert = alert, nt_title = title, nt_build_id = build_id, nt_extras = j_null J\<rparr>\<rparr>) d"

definition push_SpecifiedIDs :: "'d curl \<Rightarrow> 'j json \<Rightarrow> xml_doc \<Rightarrow> bytes \<Rightarrow> bytes \<Rightarrow> int \<Rightarrow> bytes list \<Rightarrow> 'd \<Rightarrow>
    (int \<times> 'd) option" where
  "push_SpecifiedIDs cu J xml alert title build_id ids d =
     post_payload cu J xml
       ((CPushPayload_new J)\<lparr>pl_platform := Some DT_all, pl_audience := Some (AT_REGISTRATION_ID, ids),
          pl_notification := Some \<lparr>nt_alert = alert, nt_title = title, nt_build_id = build_id, nt_extras = j_null J\<rparr>,
          pl_options := Some True\<rparr>) d"

section \<open>Mail\<close>

record mail_config =
  isQuickMail_inited :: bool
  mail_from :: bytes
  mail_user :: bytes
  mail_password :: bytes
  mail_subject :: bytes
  mail_smtpServer :: bytes
  mail_port :: int

text \<open>\<open>_port\<close> is a \<open>short\<close>.\<close>

definition to_short :: "int \<Rightarrow> int" where
  "to_short i = sint (word_of_int i :: 16 word)"

definition Mail_getInitParam :: "xml_doc \<Rightarrow> mail_config \<Rightarrow> (bool \<times> mail_config) option" where
  "Mail_getInitParam xml mc =
     (case config_section ''mail'' xml of
        None \<Rightarrow> Some (False, mc)
      | Some e \<Rightarrow> do {
          let from = Attribute ''from'' e;
          let user = Attribute ''user'' e;
          let password = Attribute ''password'' e;
          let subject = Attribute ''subject'' e;
          let smtpServer = Attribute ''smtpServer'' e;
          port \<leftarrow> atoi (Attribute ''port'' e);
          Some (True, mc\<lparr>mail_from := from, mail_user := user, mail_password := password,
            mail_subject := subject, mail_smtpServer := smtpServer, mail_port := to_short port\<rparr>)
        })"

definition Mail_new :: "'d quickmail \<Rightarrow> xml_doc \<Rightarrow> mail_config \<Rightarrow> 'd \<Rightarrow>
    (ptr \<times> mail_config \<times> 'd) option" where
  "Mail_new qm xml mc d = do {
     (mc1, d1) \<leftarrow> (if \<not> isQuickMail_inited mc then do {
         (ok, mc') \<leftarrow> Mail_getInitParam xml mc;
         Some (if ok then mc'\<lparr>isQuickMail_inited := True\<rparr> else mc', quickmail_initialize qm d)
       } else Some (mc, d));
     let (obj, d2) = quickmail_create qm (c_str (mail_from mc1)) (c_str (mail_subject mc1)) d1;
     Some (obj, mc1, d2)
   }"

definition Mail_delete :: "'d quickmail \<Rightarrow> ptr \<Rightarrow> 'd \<Rightarrow> 'd" where
  "Mail_delete qm obj d = (if obj \<noteq> 0 then quickmail_destroy qm obj d else d)"

definition Mail_sendMail :: "'d quickmail \<Rightarrow> ptr \<Rightarrow> mail_config \<Rightarrow> bytes \<Rightarrow> 'd \<Rightarrow> bool \<times> 'd" where
  "Mail_sendMail qm obj mc content d =
     (if isQuickMail_inited mc \<and> obj \<noteq> 0 then
        let d1 = quickmail_add_header qm obj ''Importance: Low'' d;
            d2 = quickmail_add_header qm obj ''X-Priority: 5'' d1;
            d3 = quickmail_add_header qm obj ''X-MSMail-Priority: Low'' d2;
            d4 = quickmail_add_body qm obj ''text/html'' content d3;
            (errmsg, d5) = quickmail_send qm obj (c_str (mail_smtpServer mc)) (mail_port mc) (c_str (mail_user mc))
              (c_str (mail_password mc)) d4
        in (errmsg = None, d5)
      else (False, d))"

definition Mail_addTo :: "'d quickmail \<Rightarrow> ptr \<Rightarrow> mail_config \<Rightarrow> bytes \<Rightarrow> 'd \<Rightarrow> bool \<times> 'd" where
  "Mail_addTo qm obj mc uuid d =
     (if isQuickMail_inited mc \<and> obj \<noteq> 0 then (True, quickmail_add_to qm obj (c_str uuid) d) else (False, d))"

definition Mail_addCc :: "'d quickmail \<Rightarrow> ptr \<Rightarrow> mail_config \<Rightarrow> bytes \<Rightarrow> 'd \<Rightarrow> bool \<times> 'd" where
  "Mail_addCc qm obj mc uuid d =
     (if isQuickMail_inited mc \<and> obj \<noteq> 0 then (True, quickmail_add_cc qm obj (c_str uuid) d) else (False, d))"

definition Mail_addBcc :: "'d quickmail \<Rightarrow> ptr \<Rightarrow> mail_config \<Rightarrow> bytes \<Rightarrow> 'd \<Rightarrow> bool \<times> 'd" where
  "Mail_addBcc qm obj mc uuid d =
     (if isQuickMail_inited mc \<and> obj \<noteq> 0 then (True, quickmail_add_bcc qm obj (c_str uuid) d) else (False, d))"

definition Mail_addAttachment :: "'d quickmail \<Rightarrow> ptr \<Rightarrow> mail_config \<Rightarrow> bytes \<Rightarrow> 'd \<Rightarrow> bool \<times> 'd" where
  "Mail_addAttachment qm obj mc file d =
     (if isQuickMail_inited mc \<and> obj \<noteq> 0 then (True, quickmail_add_attachment qm obj (c_str file) d) else (False, d))"

end
