(* ===== verification/App.thy ===== *)
theory App
  imports Device Dao Outbound
begin

text \<open>
  The state of the whole server and the services around it: the links and devices below
  (\<open>dev_base\<close>), the database pool with the outside world, the mail settings, and the two tables
  of logged-in users and devices that \<open>WisLoginHandler\<close> keeps, ordered by the address of the
  connection's \<open>BUS_ADDRESS\<close>.
\<close>

section \<open>State and services\<close>

record ('d, 'j) services =
  sv_mysql :: "'d mysql"
  sv_write :: write_rc
  sv_time :: "'d \<Rightarrow> int"
  sv_curl :: "'d curl"
  sv_json :: "'j json"
  sv_quickmail :: "'d quickmail"
  sv_config :: "xml_doc"

record 'd app = dev_base +
  app_db :: "'d database"
  app_mail :: mail_config
  mUser :: "(ptr \<times> bytes) list"
  mDevice :: "(ptr \<times> bytes) list"

text \<open>Running an operation of the database layer, or one on the outside world.\<close>

definition with_db :: "('d database \<Rightarrow> ('r \<times> 'd database) option) \<Rightarrow> 'd app \<Rightarrow> ('r \<times> 'd app) option" where
  "with_db f w = map_option (\<lambda>(r, x). (r, w\<lparr>app_db := x\<rparr>)) (f (app_db w))"

definition with_db_unit :: "('d database \<Rightarrow> 'd database option) \<Rightarrow> 'd app \<Rightarrow> 'd app option" where
  "with_db_unit f w = map_option (\<lambda>x. w\<lparr>app_db := x\<rparr>) (f (app_db w))"

definition world :: "'d app \<Rightarrow> 'd" where
  "world w = db_server (app_db w)"

definition set_world :: "'d \<Rightarrow> 'd app \<Rightarrow> 'd app" where
  "set_world d w = w\<lparr>app_db := (app_db w)\<lparr>db_server := d\<rparr>\<rparr>"

text \<open>\<open>SendData\<close> of the application with the result dropped; an \<open>int\<close> as a reply.\<close>

definition send :: "('d, 'j) services \<Rightarrow> ptr \<Rightarrow> u32 \<Rightarrow> bytes option \<Rightarrow> int \<Rightarrow> 'd app \<Rightarrow> (bool \<times> 'd app) option" where
  "send E addr cmd data n w = unite_SendData (sv_write E) addr cmd data n w"

definition reply_int :: "('d, 'j) services \<Rightarrow> ptr \<Rightarrow> u32 \<Rightarrow> int \<Rightarrow> 'd app \<Rightarrow> (bool \<times> 'd app) option" where
  "reply_int E addr cmd ret w = send E addr cmd (Some (enc32 (word_of_int ret))) 4 w"

section \<open>What the parts leave alone\<close>

text \<open>Everything the application keeps beside links and devices.\<close>

definition app_part :: "'d app \<Rightarrow> 'd database \<times> mail_config \<times> (ptr \<times> bytes) list \<times> (ptr \<times> bytes) list" where
  "app_part w = (app_db w, app_mail w, mUser w, mDevice w)"

lemma app_part_upd_device [simp]: "app_part (upd_device key f w) = app_part w"
  by (simp add: app_part_def upd_device_def)

lemma app_part_tcp [simp]: "app_part (w\<lparr>tcp := t\<rparr>) = app_part w"
  by (simp add: app_part_def)

lemma dm_SendData_app:
  "dm_SendData wr addr c data n w = Some (ok, w') \<Longrightarrow> app_part w' = app_part w"
  by (auto simp: dm_SendData_def split: option.splits)

lemma send_keeps:
  assumes "send E addr c data n w = Some (ok, w')"
  shows "keeps_dev w w'" "app_part w' = app_part w"
  using assms dm_SendData_keeps dm_SendData_app by (auto simp: send_def unite_SendData_def)

lemma reply_keeps:
  assumes "reply_int E addr c r w = Some (ok, w')"
  shows "keeps_dev w w'" "app_part w' = app_part w"
  using assms send_keeps by (auto simp: reply_int_def)

lemma app_part_eq:
  assumes "app_part w' = app_part w"
  shows "app_db w' = app_db w" "mUser w' = mUser w" "mDevice w' = mDevice w" "app_mail w' = app_mail w"
  using assms by (simp_all add: app_part_def)

lemma keeps_dev_app [simp, intro]:
  "keeps_dev w (w\<lparr>app_db := x\<rparr>)" "keeps_dev w (w\<lparr>mUser := m\<rparr>)" "keeps_dev w (w\<lparr>mDevice := m\<rparr>)"
  "keeps_dev w (w\<lparr>app_mail := mc\<rparr>)"
  by (simp_all add: keeps_dev_def dev_part_def)

lemma with_db_keeps: "with_db f w = Some (r, w') \<Longrightarrow> keeps_dev w w'"
  by (auto simp: with_db_def)

lemma with_db_unit_keeps: "with_db_unit f w = Some w' \<Longrightarrow> keeps_dev w w'"
  by (auto simp: with_db_unit_def)

lemma set_world_keeps [simp]: "keeps_dev w (set_world d w)"
  by (simp add: set_world_def)

lemma with_db_tables: "with_db f w = Some (r, w') \<Longrightarrow> mUser w' = mUser w \<and> mDevice w' = mDevice w"
  by (auto simp: with_db_def)

lemma with_db_unit_tables: "with_db_unit f w = Some w' \<Longrightarrow> mUser w' = mUser w \<and> mDevice w' = mDevice w"
  by (auto simp: with_db_unit_def)

lemma set_world_tables [simp]: "mUser (set_world d w) = mUser w" "mDevice (set_world d w) = mDevice w"
  by (simp_all add: set_world_def)

lemma send_tables: "send E addr c data n w = Some (ok, w') \<Longrightarrow> mUser w' = mUser w \<and> mDevice w' = mDevice w"
  using send_keeps(2) app_part_eq by metis

section \<open>Sending to a connected device\<close>

text \<open>Frames handed to the links so far.\<close>

definition frames :: "'a tcp_base_scheme \<Rightarrow> (ptr \<times> bytes) list" where
  "frames w = sent (tcp_net (tcp w))"

definition parsers_ok :: "'a dev_base_scheme \<Rightarrow> bool" where
  "parsers_ok w \<longleftrightarrow> (\<forall>k d. om_find k (m_mapDevice w) = Some d \<longrightarrow> m_pProtocolPaser d \<noteq> None)"

lemma dev_inv_parsers: "dev_inv w \<Longrightarrow> parsers_ok w"
  by (auto simp: dev_inv_def parsers_ok_def)

lemma parsers_keep: "keeps_dev w w' \<Longrightarrow> parsers_ok w \<Longrightarrow> parsers_ok w'"
  unfolding parsers_ok_def
proof (intro allI impI)
  fix k d assume k: "keeps_dev w w'" and p: "\<forall>k d. om_find k (m_mapDevice w) = Some d \<longrightarrow> m_pProtocolPaser d \<noteq> None"
    and d: "om_find k (m_mapDevice w') = Some d"
  obtain d0 where "om_find k (m_mapDevice w) = Some d0" "m_pProtocolPaser d = m_pProtocolPaser d0"
    using keeps_dev_find [OF k, of k] d by (cases "om_find k (m_mapDevice w)") auto
  with p show "m_pProtocolPaser d \<noteq> None" by auto
qed

lemma Make_NULL: "module_MakeProtocolForSocket hp c None 0 out = module_MakeProtocolForSocket hp c (Some []) 0 out"
  by (simp add: module_MakeProtocolForSocket_def MakeProtocolForSocket_def split: option.split)

lemma dm_SendData_NULL:
  assumes "c \<noteq> WIS_CMD_LOGIN" "c \<noteq> WIS_CMD_USER_AUTO_LOGIN"
  shows "dm_SendData wr a c None 0 w = dm_SendData wr a c (Some []) 0 w"
  by (simp add: dm_SendData_def CDevice_Send_def note_login_other [OF assms] Make_NULL split: option.splits prod.splits)

lemma send_total:
  assumes "parsers_ok w" "c \<noteq> WIS_CMD_LOGIN" "c \<noteq> WIS_CMD_USER_AUTO_LOGIN" "length x < 2 ^ 31 - 12"
  shows "\<exists>ok w'. send E a c (Some (x @ tail)) (int (length x)) w = Some (ok, w')"
    and "x = [] \<Longrightarrow> \<exists>ok w'. send E a c None 0 w = Some (ok, w')"
proof -
  show s: "\<exists>ok w'. send E a c (Some (x @ tail)) (int (length x)) w = Some (ok, w')" for tail
  proof (cases "om_find (GetAddressKey (bus_at w a)) (m_mapDevice w)")
    case None
    then show ?thesis by (auto simp: send_def unite_SendData_def dm_SendData_def GetDeviceClient_def Let_def)
  next
    case (Some d)
    with assms(1) have "m_pProtocolPaser d \<noteq> None" by (simp add: parsers_ok_def)
    from dm_SendData_known [OF Some assms(2-4) this, of "sv_write E" tail] show ?thesis
      by (simp add: send_def unite_SendData_def split: prod.splits)
  qed
  show "\<exists>ok w'. send E a c None 0 w = Some (ok, w')" if "x = []"
    using s [of "[]"] that by (simp add: send_def unite_SendData_def dm_SendData_NULL [OF assms(2,3)])
qed

lemma reply_total:
  assumes "parsers_ok w" "c \<noteq> WIS_CMD_LOGIN" "c \<noteq> WIS_CMD_USER_AUTO_LOGIN"
  shows "\<exists>ok w'. reply_int E a c r w = Some (ok, w')"
  using send_total(1) [OF assms, of "enc32 (word_of_int r)" E a "[]"] by (simp add: reply_int_def)

section \<open>A small server\<close>

text \<open>The connected device of \<open>sample_world\<close> with a database server that accepts everything, and
  given tables of logged-in users and devices.\<close>

definition sample_services :: "bytes list \<Rightarrow> bytes option list \<Rightarrow> (bytes list, bytes) services" where
  "sample_services cols row =
     \<lparr>sv_mysql = quiet_mysql cols row, sv_write = (\<lambda>_ _ _. 0), sv_time = (\<lambda>_. 100),
      sv_curl = \<lparr>curl_easy_init = (\<lambda>d. (1, d)), curl_easy_setopt = (\<lambda>_ _ d. d), curl_easy_perform = (\<lambda>_ d. (0, d)),
        curl_easy_cleanup = (\<lambda>_ d. d), curl_easy_strerror = (\<lambda>_. [])\<rparr>,
      sv_json = \<lparr>j_null = [], j_string = (\<lambda>s. s), j_int = show_int, j_set = (\<lambda>k v j. j @ k @ v),
        j_set_index = (\<lambda>i v j. j @ v), j_write = (\<lambda>j. j @ ''.'')\<rparr>,
      sv_quickmail = \<lparr>quickmail_initialize = (\<lambda>d. d), quickmail_create = (\<lambda>_ _ d. (1, d)),
        quickmail_add_header = (\<lambda>_ _ d. d), quickmail_add_body = (\<lambda>_ _ _ d. d), quickmail_add_to = (\<lambda>_ _ d. d),
        quickmail_add_cc = (\<lambda>_ _ d. d), quickmail_add_bcc = (\<lambda>_ _ d. d), quickmail_add_attachment = (\<lambda>_ _ d. d),
        quickmail_send = (\<lambda>_ _ _ _ _ d. (None, d)), quickmail_destroy = (\<lambda>_ d. d)\<rparr>,
      sv_config = TiXmlDocument_new []\<rparr>"

definition sample_app :: "(ptr \<times> bytes) list \<Rightarrow> (ptr \<times> bytes) list \<Rightarrow> bytes list app" where
  "sample_app users devices =
     \<lparr>tcp = tcp sample_world, m_mapDevice = m_mapDevice sample_world, ui_registered = True,
      app_db = empty_db [],
      app_mail = \<lparr>isQuickMail_inited = False, mail_from = [], mail_user = [], mail_password = [], mail_subject = [],
        mail_smtpServer = [], mail_port = 25\<rparr>,
      mUser = users, mDevice = devices\<rparr>"

lemma sample_app_simps [simp]:
  "mUser (sample_app us ds) = us" "mDevice (sample_app us ds) = ds" "app_db (sample_app us ds) = empty_db []"
  "tcp (sample_app us ds) = tcp sample_world" "m_mapDevice (sample_app us ds) = m_mapDevice sample_world"
  "bus_at (sample_app us ds) = bus_at sample_world" "ui_registered (sample_app us ds) = True"
  by (simp_all add: sample_app_def bus_at_def fun_eq_iff)

lemma sample_services_simps [simp]:
  "sv_mysql (sample_services cols row) = quiet_mysql cols row" "sv_write (sample_services cols row) x a b = 0"
  "sv_config (sample_services cols row) = TiXmlDocument_new []" "sv_time (sample_services cols row) d = 100"
  by (simp_all add: sample_services_def)

lemma sample_parsers [simp]: "parsers_ok (sample_app us ds)"
  by (auto simp: parsers_ok_def sample_world_def CDevice_new_parser)

lemma quiet_server:
  "srv_ask (quiet_mysql cols row) a sql d = (1, d @ [c_str sql])"
  "srv_exec (quiet_mysql cols row) a sql d = (True, d @ [c_str sql])"
  "srv_rows (quiet_mysql cols row) a sql d = Some \<lparr>res_fields = cols, res_rows = [row]\<rparr>"
  by (simp_all add: srv_ask_def srv_exec_def srv_rows_def quiet_mysql_def)

lemma quiet_login: "fst (login_on_server (quiet_mysql cols row) u p (empty_db [])) = True"
proof -
  obtain db1 where "GetNVDataAccess (quiet_mysql cols row) (empty_db []) = (1, db1)"
    using Get_empty_db by (metis prod.collapse)
  then show ?thesis by (simp add: login_on_server_def quiet_server)
qed

end
