(* ===== verification/Codecs.thy ===== *)
theory Codecs
  imports Prelude
begin

text \<open>
  parseProtocolModule/src/Base64.cpp (used for the Authorization header of push requests) and
  the hexadecimal conversions of include/tools.h. Both are shown to be codecs: decoding what was
  encoded gives the input back.
\<close>

section \<open>Base64\<close>

definition g_pCodes :: bytes where
  "g_pCodes = ''ABCDEFGHIJKLMNOPQRSTUVWXYZabcdefghijklmnopqrstuvwxyz0123456789+/=''"

text \<open>The table of 256 bytes, its runs of 255 written with \<open>replicate\<close>.\<close>

definition g_pMap :: "nat list" where
  "g_pMap =
     replicate 43 255 @ [62] @ replicate 3 255 @ [63] @
     [52, 53, 54, 55, 56, 57, 58, 59, 60, 61] @ replicate 3 255 @ [254] @ replicate 3 255 @
     [0, 1, 2, 3, 4, 5, 6, 7, 8, 9, 10, 11, 12, 13, 14, 15, 16, 17, 18, 19, 20, 21, 22, 23, 24, 25] @
     replicate 6 255 @
     [26, 27, 28, 29, 30, 31, 32, 33, 34, 35, 36, 37, 38, 39, 40, 41, 42, 43, 44, 45, 46, 47, 48, 49, 50, 51] @
     replicate 133 255"

definition code64 :: "nat \<Rightarrow> char" where
  "code64 i = g_pCodes ! i"

definition map64 :: "char \<Rightarrow> nat" where
  "map64 c = g_pMap ! byte_val c"

definition calcOutLength :: "nat \<Rightarrow> nat" where
  "calcOutLength inLen = (if inLen \<noteq> 0 then ((inLen - 1) div 3 + 1) * 4 else 0)"

text \<open>The characters both \<open>encode\<close> loops produce.\<close>

fun encode64 :: "bytes \<Rightarrow> bytes" where
  "encode64 [] = []"
| "encode64 [a] =
     [code64 (byte_val a div 4), code64 ((byte_val a mod 4) * 16 + 0 div 16), CHR ''='', CHR ''='']"
| "encode64 [a, b] =
     [code64 (byte_val a div 4), code64 ((byte_val a mod 4) * 16 + byte_val b div 16),
      code64 ((byte_val b mod 16) * 4 + 0 div 64), CHR ''='']"
| "encode64 (a # b # c # xs) =
     [code64 (byte_val a div 4), code64 ((byte_val a mod 4) * 16 + byte_val b div 16),
      code64 ((byte_val b mod 16) * 4 + byte_val c div 64), code64 (byte_val c mod 64)] @ encode64 xs"

text \<open>\<open>encode\<close> into a string, which it replaces; \<open>None\<close> is the null pointer.\<close>

definition Base64_encode :: "bytes option \<Rightarrow> bool \<times> bytes" where
  "Base64_encode inp = (case inp of None \<Rightarrow> (False, []) | Some s \<Rightarrow> (True, encode64 s))"

text \<open>\<open>encode\<close> into a vector, which it appends to and terminates with a NUL.\<close>

definition Base64_encode_Bytes :: "bytes option \<Rightarrow> bytes \<Rightarrow> bool \<times> bytes" where
  "Base64_encode_Bytes inp outBytes =
     (case inp of
        None \<Rightarrow> (False, outBytes)
      | Some s \<Rightarrow> if length s = 0 then (False, outBytes) else (True, outBytes @ encode64 s @ [NUL]))"

definition Base64_encode_string :: "bytes \<Rightarrow> bool \<times> bytes" where
  "Base64_encode_string s = Base64_encode (Some s)"

text \<open>The decoding loop. \<open>t\<close> never exceeds 24 bits, so \<open>t << 6 | c\<close> is \<open>64 * t + c\<close>; \<open>g\<close> is
  a \<open>size_t\<close> that is decremented by every padding character and never reset.\<close>

fun decode_loop :: "bytes \<Rightarrow> nat \<Rightarrow> nat \<Rightarrow> 64 word \<Rightarrow> bytes \<Rightarrow> bytes" where
  "decode_loop [] t y g out = out"
| "decode_loop (x # xs) t y g out =
     (let c = map64 x in
      if c = 255 then decode_loop xs t y g out
      else
        let g' = (if c = 254 then g - 1 else g);
            t' = 64 * t + (if c = 254 then 0 else c) in
        if y + 1 = 4 then
          decode_loop xs 0 0 g'
            (out @ [char_of (t' div 65536)] @
             (if g' > 1 then [char_of (t' div 256)] else []) @
             (if g' > 2 then [char_of t'] else []))
        else decode_loop xs t' (y + 1) g' out)"

definition Base64_decode :: "bytes option \<Rightarrow> bytes \<Rightarrow> bool \<times> bytes" where
  "Base64_decode inp strOut =
     (case inp of None \<Rightarrow> (False, strOut) | Some s \<Rightarrow> (True, decode_loop s 0 0 3 strOut))"

definition Base64_decode_string :: "bytes \<Rightarrow> bytes \<Rightarrow> bool \<times> bytes" where
  "Base64_decode_string s strOut = Base64_decode (Some s) strOut"

definition Base64_decode_Bytes :: "bytes option \<Rightarrow> bytes \<Rightarrow> bool \<times> bytes" where
  "Base64_decode_Bytes inp bytes0 =
     (case inp of None \<Rightarrow> (False, bytes0) | Some s \<Rightarrow> (True, decode_loop s 0 0 3 bytes0))"

section \<open>The tables invert each other\<close>

lemma map64_code64_all: "\<forall>i \<in> set [0..<64]. map64 (code64 i) = i"
  by code_simp

lemma map64_code64: "i < 64 \<Longrightarrow> map64 (code64 i) = i"
  using map64_code64_all by simp

lemma map64_pad: "map64 (CHR ''='') = 254" "map64 NUL = 255" "map64 (CHR 0x0A) = 255"
  by code_simp+

lemma byte_val_less [simp]: "byte_val c < 256"
  by simp

lemma byte_bits:
  fixes x :: nat
  assumes "x < 256"
  shows "x div 4 < 64" "x div 16 < 16" "x div 64 < 4" "x mod 4 < 4" "x mod 16 < 16" "x mod 64 < 64"
  using assms by (simp_all add: div_less_iff_less_mult)

lemma six_bits [simp]:
  "byte_val a div 4 < 64" "byte_val a mod 4 * 16 + byte_val b div 16 < 64"
  "byte_val a mod 4 * 16 < 64" "byte_val b mod 16 * 4 + byte_val c div 64 < 64"
  "byte_val b mod 16 * 4 < 64" "byte_val c mod 64 < 64"
proof -
  have sum: "x * 16 + y < 64" if "x < 4" "y < 16" for x y :: nat using that by linarith
  have sum': "x * 4 + y < 64" if "x < 16" "y < 4" for x y :: nat using that by linarith
  note B = byte_bits [OF byte_val_less]
  show "byte_val a div 4 < 64" "byte_val c mod 64 < 64" by (rule B)+
  show "byte_val a mod 4 * 16 + byte_val b div 16 < 64" by (rule sum [OF B(4) B(2)])
  show "byte_val a mod 4 * 16 < 64" using sum [OF B(4), of 0] by simp
  show "byte_val b mod 16 * 4 + byte_val c div 64 < 64" by (rule sum' [OF B(5) B(3)])
  show "byte_val b mod 16 * 4 < 64" using sum' [OF B(5), of 0] by simp
qed

lemma decode_code:
  "i < 64 \<Longrightarrow> decode_loop (code64 i # xs) t y g out =
     (if y + 1 = 4 then
        decode_loop xs 0 0 g (out @ [char_of ((64 * t + i) div 65536)] @
          (if g > 1 then [char_of ((64 * t + i) div 256)] else []) @
          (if g > 2 then [char_of (64 * t + i)] else []))
      else decode_loop xs (64 * t + i) (y + 1) g out)"
  by (simp add: map64_code64 Let_def)

lemma decode_pad:
  "decode_loop (CHR ''='' # xs) t y g out =
     (if y + 1 = 4 then
        decode_loop xs 0 0 (g - 1) (out @ [char_of ((64 * t) div 65536)] @
          (if g - 1 > 1 then [char_of ((64 * t) div 256)] else []) @
          (if g - 1 > 2 then [char_of (64 * t)] else []))
      else decode_loop xs (64 * t) (y + 1) (g - 1) out)"
  by (simp add: map64_pad Let_def)

declare decode_loop.simps(2) [simp del]

text \<open>The 24 bits of a group.\<close>

lemma group_sum:
  fixes a1 :: nat
  assumes "a = 4 * a1 + a2" "b = 16 * b1 + b2" "c = 64 * c1 + c2"
  shows "64 * (64 * (64 * a1 + (a2 * 16 + b1)) + (b2 * 4 + c1)) + c2 = 65536 * a + 256 * b + c"
  unfolding assms by simp

lemma group_bits:
  fixes a b c :: nat
  shows "64 * (64 * (64 * (a div 4) + (a mod 4 * 16 + b div 16)) + (b mod 16 * 4 + c div 64)) + c mod 64
    = 65536 * a + 256 * b + c"
  by (rule group_sum) simp_all

lemma char_of_high: "char_of (256 * k + byte_val c :: nat) = c"
  by (simp add: char_of_eq_iff take_bit_eq_mod)

lemma group_chars:
  fixes a b c :: char
  defines "n \<equiv> 65536 * byte_val a + 256 * byte_val b + byte_val c"
  shows "char_of (n div 65536) = a" "char_of (n div 256) = b" "char_of n = c"
proof -
  have "n div 65536 = byte_val a" "n div 256 = 256 * byte_val a + byte_val b"
    unfolding n_def using byte_val_less [of b] byte_val_less [of c] by linarith+
  then show "char_of (n div 65536) = a" "char_of (n div 256) = b"
    using char_of_high [of 0 a] char_of_high [of "byte_val a" b] by simp_all
  show "char_of n = c"
    using char_of_high [of "256 * byte_val a + byte_val b" c] by (simp add: n_def)
qed

lemma decode_encode_loop: "decode_loop (encode64 s) 0 0 3 out = out @ s"
proof (induction s arbitrary: out rule: encode64.induct)
  case 1
  then show ?case by simp
next
  case (2 a)
  have "64 * (64 * (64 * (byte_val a div 4) + byte_val a mod 4 * 16)) = 65536 * byte_val a"
    using group_bits [of "byte_val a" 0 0] by simp
  then show ?case
    using group_chars(1) [of a NUL NUL] by (simp add: decode_code decode_pad del: distrib_left_numeral)
next
  case (3 a b)
  have "64 * (64 * (64 * (byte_val a div 4) + (byte_val a mod 4 * 16 + byte_val b div 16)) +
      byte_val b mod 16 * 4) = 65536 * byte_val a + 256 * byte_val b"
    using group_bits [of "byte_val a" "byte_val b" 0] by simp
  then show ?case
    using group_chars(1,2) [of a b NUL] by (simp add: decode_code decode_pad del: distrib_left_numeral)
next
  case (4 a b c xs)
  show ?case
    using 4 group_chars [of a b c] group_bits [of "byte_val a" "byte_val b" "byte_val c"]
    by (simp add: decode_code del: distrib_left_numeral)
qed

interpretation base64: codec "\<lambda>s. snd (Base64_encode_string s)" "\<lambda>s. snd (Base64_decode_string s [])" "\<lambda>_. True"
  by unfold_locales
    (simp add: Base64_encode_string_def Base64_encode_def Base64_decode_string_def Base64_decode_def decode_encode_loop)

section \<open>Hexadecimal\<close>

definition to_upper :: "nat \<Rightarrow> nat" where
  "to_upper c = (if 97 \<le> c \<and> c \<le> 122 then c - 32 else c)"

text \<open>\<open>s1 = toupper(h1) - 0x30; if (s1 > 9) s1 -= 7\<close> on an unsigned byte.\<close>

definition hex_value :: "char \<Rightarrow> nat" where
  "hex_value h =
     (let s = (to_upper (byte_val h) + 256 - 48) mod 256 in
      if s > 9 then (s + 256 - 7) mod 256 else s)"

fun StrToHex :: "bytes \<Rightarrow> nat \<Rightarrow> bytes option" where
  "StrToHex pbSrc 0 = Some []"
| "StrToHex (h1 # h2 # pbSrc) (Suc n) =
     map_option ((#) (char_of (hex_value h1 * 16 + hex_value h2))) (StrToHex pbSrc n)"
| "StrToHex pbSrc (Suc n) = None"

definition hex_digit :: "nat \<Rightarrow> char" where
  "hex_digit v = char_of (if 48 + v > 57 then 48 + v + 7 else 48 + v)"

text \<open>The bytes \<open>HexToStr\<close> writes, its terminating NUL included.\<close>

definition HexToStr :: "bytes \<Rightarrow> bytes" where
  "HexToStr pbSrc = concat (map (\<lambda>c. [hex_digit (byte_val c div 16), hex_digit (byte_val c mod 16)]) pbSrc) @ [NUL]"

lemma hex_value_digit: "v < 16 \<Longrightarrow> hex_value (hex_digit v) = v"
proof -
  assume v: "v < 16"
  then have "(263 + v) mod 256 = v + 7" using mod_add_self2 [of "v + 7" 256] by (simp add: add.commute)
  moreover have "(249 + (v + 7)) mod 256 = v" using v mod_add_self2 [of v 256] by (simp add: add.commute)
  ultimately show ?thesis
    using v by (cases "v < 10") (simp_all add: hex_value_def hex_digit_def to_upper_def of_char_of Let_def)
qed

lemma StrToHex_HexToStr: "StrToHex (HexToStr s @ rest) (length s) = Some s"
proof (induction s)
  case (Cons c s)
  have "byte_val c div 16 < 16"
    using byte_val_less [of c] by (simp add: div_less_iff_less_mult del: byte_val_less)
  then have "char_of (hex_value (hex_digit (byte_val c div 16)) * 16 + hex_value (hex_digit (byte_val c mod 16))) = c"
    by (simp add: hex_value_digit mult.commute [of _ 16])
  then show ?case using Cons by (simp add: HexToStr_def)
qed (simp add: HexToStr_def)

interpretation hex: codec HexToStr "\<lambda>s. the (StrToHex s (length s div 2))" "\<lambda>_. True"
proof
  fix s
  have "length (HexToStr s) div 2 = length s"
    by (induction s) (auto simp: HexToStr_def)
  then show "the (StrToHex (HexToStr s) (length (HexToStr s) div 2)) = s"
    using StrToHex_HexToStr [of s "[]"] by simp
qed

text \<open>Characters outside the alphabet are skipped wherever they stand, so line breaks in the
  encoded text, or the NUL the vector variant of \<open>encode\<close> appends, do not change the result.\<close>

lemma base64_ignores_junk:
  "Base64_decode (Some s) out = Base64_decode (Some (filter (\<lambda>c. map64 c \<noteq> 255) s)) out"
proof -
  have "decode_loop s t y g out' = decode_loop (filter (\<lambda>c. map64 c \<noteq> 255) s) t y g out'" for t y g out'
    by (induction s t y g out' rule: decode_loop.induct) (auto simp: Let_def decode_loop.simps(2))
  then show ?thesis by (simp add: Base64_decode_def)
qed

text \<open>\<open>calcOutLength\<close> is the number of characters \<open>encode\<close> produces.\<close>

lemma base64_length: "length (snd (Base64_encode_string s)) = calcOutLength (length s)"
proof -
  have "length (encode64 s) = calcOutLength (length s)"
  proof (induction s rule: encode64.induct)
    case (4 a b c xs)
    have "calcOutLength (n + 3) = calcOutLength n + 4" for n
    proof (cases n)
      case (Suc m)
      have "(3 + m) div 3 = m div 3 + 1" by simp
      with Suc show ?thesis by (simp add: calcOutLength_def)
    qed (simp add: calcOutLength_def)
    with 4 show ?case by (simp add: numeral_3_eq_3)
  qed (simp_all add: calcOutLength_def)
  then show ?thesis by (simp add: Base64_encode_string_def Base64_encode_def)
qed

section \<open>Properties\<close>

text \<open>C36: Base64 round trip: decoding what \<open>encode\<close> made of any byte string appends exactly that
  string to the output.\<close>

theorem base64_roundtrip:
  "Base64_decode_string (snd (Base64_encode_string s)) out = (True, out @ s)"
  by (simp add: Base64_encode_string_def Base64_encode_def Base64_decode_string_def Base64_decode_def
      decode_encode_loop)

end
