(* ===== verification/Login.thy ===== *)
theory Login
  imports App Codecs
begin

text \<open>
  \<open>WisLoginHandler\<close> (business): who is logged in at which connection. \<open>mUser\<close> and \<open>mDevice\<close> map
  the address of a connection to an id, and a user may be logged in at one connection only: a new
  login kicks the others out. The handlers of the login and logout messages of users and devices
  are here, with the statements, log entries and replies they cause.

  Both mutexes are taken for granted. A request is read from \<open>pdata\<close>, the memory from the start of
  the message data on; reading past its end has no result.
\<close>

section \<open>The tables\<close>

definition isUserLogin :: "bytes \<Rightarrow> 'd app \<Rightarrow> bool" where
  "isUserLogin uuid w \<longleftrightarrow> find (\<lambda>(a, u). u = uuid) (mUser w) \<noteq> None"

definition isDeviceLogin :: "bytes \<Rightarrow> 'd app \<Rightarrow> bool" where
  "isDeviceLogin uuid w \<longleftrightarrow> find (\<lambda>(a, u). u = uuid) (mDevice w) \<noteq> None"

definition isLogin :: "bytes \<Rightarrow> 'd app \<Rightarrow> bool" where
  "isLogin uuid w \<longleftrightarrow> isUserLogin uuid w \<or> isDeviceLogin uuid w"

definition getUserAddress :: "bytes \<Rightarrow> 'd app \<Rightarrow> ptr" where
  "getUserAddress uuid w = (case find (\<lambda>(a, u). u = uuid) (mUser w) of Some (a, _) \<Rightarrow> a | None \<Rightarrow> 0)"

definition getDeviceAddress :: "bytes \<Rightarrow> 'd app \<Rightarrow> ptr" where
  "getDeviceAddress uuid w = (case find (\<lambda>(a, u). u = uuid) (mDevice w) of Some (a, _) \<Rightarrow> a | None \<Rightarrow> 0)"

text \<open>The loop of \<open>mapAddUser\<close> over the entries of the table: the ones of the same user at another
  connection are told and erased.\<close>

fun kick_others :: "('d, 'j) services \<Rightarrow> ptr \<Rightarrow> bytes \<Rightarrow> (ptr \<times> bytes) list \<Rightarrow> 'd app \<Rightarrow> 'd app option" where
  "kick_others E addr uuid [] w = Some w"
| "kick_others E addr uuid ((a, u) # rest) w =
     (if u = uuid \<and> addr \<noteq> a then do {
        (ok, w1) \<leftarrow> send E a WIS_CMD_SERVICE_KICKOUT_USER None 0 w;
        kick_others E addr uuid rest (w1\<lparr>mUser := om_erase a (mUser w1)\<rparr>)
      }
      else kick_others E addr uuid rest w)"

definition mapAddUser :: "('d, 'j) services \<Rightarrow> ptr \<Rightarrow> bytes \<Rightarrow> 'd app \<Rightarrow> 'd app option" where
  "mapAddUser E addr uuid w = do {
     w1 \<leftarrow> kick_others E addr uuid (mUser w) w;
     Some (w1\<lparr>mUser := om_set addr uuid (mUser w1)\<rparr>)
   }"

definition mapAddDevice :: "ptr \<Rightarrow> bytes \<Rightarrow> 'd app \<Rightarrow> 'd app" where
  "mapAddDevice addr uuid w =
     w\<lparr>mDevice := om_set addr uuid (filter (\<lambda>(a, u). \<not> (u = uuid \<and> addr \<noteq> a)) (mDevice w))\<rparr>"

definition mapDeleteUser :: "ptr \<Rightarrow> 'd app \<Rightarrow> 'd app" where
  "mapDeleteUser addr w =
     (if om_find addr (mUser w) \<noteq> None then w\<lparr>mUser := om_erase addr (mUser w)\<rparr> else w)"

definition mapDeleteSameUser :: "bytes \<Rightarrow> 'd app \<Rightarrow> 'd app" where
  "mapDeleteSameUser uuid w = w\<lparr>mUser := filter (\<lambda>(a, u). u \<noteq> uuid) (mUser w)\<rparr>"

definition mapDeleteDevice :: "ptr \<Rightarrow> 'd app \<Rightarrow> 'd app" where
  "mapDeleteDevice addr w =
     (if om_find addr (mDevice w) \<noteq> None then w\<lparr>mDevice := om_erase addr (mDevice w)\<rparr> else w)"

section \<open>Handlers\<close>

text \<open>\<open>uuid_mem\<close> is the memory behind the pointer, 32 bytes of which are copied up to a NUL.\<close>

definition sendLoginResponse :: "('d, 'j) services \<Rightarrow> ptr \<Rightarrow> bytes \<Rightarrow> int \<Rightarrow> int \<Rightarrow> 'd app \<Rightarrow> 'd app option" where
  "sendLoginResponse E addr uuid_mem done type w = do {
     u \<leftarrow> strncpy UUID_LEN uuid_mem;
     let result = enc32 (word_of_int done) @ u;
     if type = TYPE_DEVICE then map_option snd (send E addr WIS_CMD_LOGIN (Some result) 36 w)
     else if type = TYPE_USER then map_option snd (send E addr WIS_CMD_USER_AUTO_LOGIN (Some result) 36 w)
     else Some w
   }"

definition address_ip :: "ptr \<Rightarrow> 'd app \<Rightarrow> bytes option" where
  "address_ip addr w = string_at (ha_ip (ba_host (bus_at w addr)))"

definition handleUserLogin :: "('d, 'j) services \<Rightarrow> ptr \<Rightarrow> int \<Rightarrow> bytes \<Rightarrow> 'd app \<Rightarrow> 'd app option" where
  "handleUserLogin E addr datalen pdata w = do {
     uuid \<leftarrow> getUuidFromBuffer pdata;
     password \<leftarrow> getPasswordFromBuffer (drop 32 pdata);
     token \<leftarrow> getTokenFromBuffer (drop 56 pdata);
     (ok, w1) \<leftarrow> with_db (user_login (sv_mysql E) uuid password) w;
     if ok then do {
       w2 \<leftarrow> mapAddUser E addr uuid w1;
       ip \<leftarrow> address_ip addr w2;
       w3 \<leftarrow> with_db_unit (saveUserLoginLog (sv_mysql E) uuid (int (length ip)) ip) w2;
       w4 \<leftarrow> (if datalen \<ge> int (TOKEN_LEN + UUID_LEN + PASSWORD_LEN) then
                let token = map (\<lambda>c. char_of (to_upper (byte_val c))) token in
                if JIGUANG_TOKEN_LEN = length token
                then map_option snd (with_db (token_save (sv_mysql E) uuid token) w3)
                else Some w3
              else Some w3);
       sendLoginResponse E addr pdata 0 TYPE_USER w4
     }
     else sendLoginResponse E addr pdata (- 1) TYPE_USER w1
   }"

definition handleUserLogout :: "('d, 'j) services \<Rightarrow> ptr \<Rightarrow> bytes \<Rightarrow> 'd app \<Rightarrow> 'd app option" where
  "handleUserLogout E addr uuid w = do {
     (ok, w1) \<leftarrow> with_db (user_logout (sv_mysql E) uuid defaultPassword) w;
     if ok then with_db_unit (saveUserLogoutLog (sv_mysql E) uuid 0 []) (mapDeleteSameUser uuid w1)
     else Some w1
   }"

partial_function (option) handleKickoutUser :: "('d, 'j) services \<Rightarrow> bytes \<Rightarrow> 'd app \<Rightarrow> 'd app option" where
  "handleKickoutUser E uuid w =
     (let addr = getUserAddress uuid w in
      if addr \<noteq> 0 then
        Option.bind (send E addr WIS_CMD_SERVICE_KICKOUT_USER None 0 (mapDeleteUser addr w))
          (\<lambda>(ok, w1). handleKickoutUser E uuid w1)
      else Some w)"

text \<open>The loop of \<open>handleDeviceLogin\<close> over the users bound to the device: it looks up the device's
  own id among the users each time.\<close>

fun notify_login :: "('d, 'j) services \<Rightarrow> bytes \<Rightarrow> (bytes \<times> wis_user_info) list \<Rightarrow> 'd app \<Rightarrow> 'd app option" where
  "notify_login E sUuid [] w = Some w"
| "notify_login E sUuid ((key, info) # rest) w =
     (let addr = getUserAddress sUuid w in
      if addr \<noteq> 0 then do {
        (ok, w1) \<leftarrow> send E addr WIS_CMD_USER_DEV_LOGIN (Some sUuid) (int (length sUuid)) w;
        notify_login E sUuid rest w1
      }
      else notify_login E sUuid rest w)"

definition handleDeviceLogin :: "('d, 'j) services \<Rightarrow> ptr \<Rightarrow> int \<Rightarrow> bytes \<Rightarrow> 'd app \<Rightarrow> 'd app option" where
  "handleDeviceLogin E addr datalen pdata w = do {
     sUuid \<leftarrow> getUuidFromBuffer pdata;
     sName \<leftarrow> rd_bytes pdata 32 UUID_LEN;
     (known, w1) \<leftarrow> with_db (device_check (sv_mysql E) sUuid) w;
     (registered, w2) \<leftarrow> (if \<not> known then with_db (device_regist (sv_mysql E) sUuid sName) w1 else Some (True, w1));
     if \<not> registered then sendLoginResponse E addr (sUuid @ [NUL]) (- 1) TYPE_DEVICE w2
     else do {
       (ok, w3) \<leftarrow> with_db (device_login (sv_mysql E) sUuid (c_str sName)) w2;
       if \<not> ok then sendLoginResponse E addr (sUuid @ [NUL]) (- 1) TYPE_DEVICE w3
       else do {
         ip \<leftarrow> address_ip addr w3;
         w4 \<leftarrow> with_db_unit (if \<not> known
                  then saveDeviceRegLog (sv_mysql E) sUuid (int (length ip)) ip
                  else saveDeviceLoginLog (sv_mysql E) sUuid (int (length ip)) ip) w3;
         w5 \<leftarrow> sendLoginResponse E addr (sUuid @ [NUL]) 1 TYPE_DEVICE (mapAddDevice addr sUuid w4);
         ((n, users), w6) \<leftarrow> with_db (\<lambda>x. map_option (\<lambda>(n, m, y). ((n, m), y)) (getBindedUsers (sv_mysql E) sUuid [] x)) w5;
         if 0 < n then notify_login E sUuid users w6 else Some w6
       }
     }
   }"

fun notify_logout :: "('d, 'j) services \<Rightarrow> bytes \<Rightarrow> (bytes \<times> wis_user_info) list \<Rightarrow> 'd app \<Rightarrow> 'd app option" where
  "notify_logout E uuid [] w = Some w"
| "notify_logout E uuid ((key, info) # rest) w = do {
     user \<leftarrow> string_at (user_info_mem info);
     let addr = getUserAddress user w;
     if addr \<noteq> 0 then do {
       (ok, w1) \<leftarrow> send E addr WIS_CMD_USER_DEV_LOGOUT (Some (c_str uuid)) (int (length (c_str uuid))) w;
       notify_logout E uuid rest w1
     }
     else notify_logout E uuid rest w
   }"

definition handleDeviceLogout :: "('d, 'j) services \<Rightarrow> ptr \<Rightarrow> bytes \<Rightarrow> 'd app \<Rightarrow> 'd app option" where
  "handleDeviceLogout E addr uuid w = do {
     (ok, w1) \<leftarrow> with_db (device_logout (sv_mysql E) uuid) w;
     if ok then do {
       w2 \<leftarrow> with_db_unit (saveDeviceLogoutLog (sv_mysql E) uuid 0 []) (mapDeleteDevice addr w1);
       ((n, users), w3) \<leftarrow> with_db (\<lambda>x. map_option (\<lambda>(n, m, y). ((n, m), y)) (getBindedUsers (sv_mysql E) uuid [] x)) w2;
       if 0 < n then notify_logout E uuid users w3 else Some w3
     }
     else Some w1
   }"

section \<open>Tables with one entry per id\<close>

definition table_ok :: "(ptr \<times> bytes) list \<Rightarrow> bool" where
  "table_ok m \<longleftrightarrow> om_wf m \<and> distinct (map snd m)"

lemma table_ok_Nil [simp]: "table_ok []"
  by (simp add: table_ok_def)

lemma table_ok_filter: "table_ok m \<Longrightarrow> table_ok (filter P m)"
  by (auto simp: table_ok_def distinct_map_filter intro: om_wf_filter)

lemma table_ok_erase: "table_ok m \<Longrightarrow> table_ok (om_erase k m)"
  by (simp add: om_erase_def table_ok_filter)

lemma snd_om_set: "set (map snd (om_set k v m)) \<subseteq> insert v (set (map snd m))"
  by (induction k v m rule: om_set.induct) auto

lemma set_om_set_wf: "om_wf m \<Longrightarrow> set (om_set k v m) = insert (k, v) {e \<in> set m. fst e \<noteq> k}"
proof (induction k v m rule: om_set.induct)
  case (2 k v k' v' m)
  then have "om_wf m" "\<forall>e \<in> set m. k' < fst e" by (auto simp: om_wf_def)
  with 2 show ?case by (auto simp: om_wf_def)
qed simp

lemma distinct_snd_set: "om_wf m \<Longrightarrow> distinct (map snd m) \<Longrightarrow> \<forall>e \<in> set m. snd e = v \<longrightarrow> fst e = k \<Longrightarrow>
  distinct (map snd (om_set k v m))"
proof (induction k v m rule: om_set.induct)
  case (2 k v k' v' m)
  then have w: "om_wf m" "\<forall>e \<in> set m. k' < fst e" by (auto simp: om_wf_def)
  have "distinct (map snd (om_set k v m))" if "\<not> k < k'" "k \<noteq> k'"
    using 2 that w by simp
  moreover have "v' \<notin> snd ` set (om_set k v m)" if "\<not> k < k'" "k \<noteq> k'"
    using that 2(3,4) w snd_om_set [of k v m] by auto
  ultimately show ?case using 2(3,4) w by force
qed simp

lemma table_ok_add:
  assumes "table_ok m"
  shows "table_ok (om_set k v (filter (\<lambda>(a, u). \<not> (u = v \<and> k \<noteq> a)) m))"
proof -
  let ?m = "filter (\<lambda>(a, u). \<not> (u = v \<and> k \<noteq> a)) m"
  have "om_wf ?m" "distinct (map snd ?m)" using assms by (auto simp: table_ok_def distinct_map_filter)
  then show ?thesis
    by (auto simp: table_ok_def intro!: distinct_snd_set)
qed

text \<open>A lookup by id finds the one entry with this id.\<close>

lemma table_find:
  assumes "table_ok m"
  shows "find (\<lambda>(a, u). u = uuid) m = Some (a, u) \<longleftrightarrow> u = uuid \<and> om_find a m = Some uuid"
  using assms
proof (induction m)
  case (Cons e m)
  then have t: "table_ok m" "snd e \<notin> snd ` set m" "fst e \<notin> fst ` set m"
    using om_wf_distinct [of "e # m"] by (auto simp: table_ok_def om_wf_def)
  have "om_find a m \<noteq> Some (snd e)" using t(2) om_find_in by (metis imageI snd_conv)
  moreover have "om_find (fst e) m = None" using t(3) by (simp add: om_find_None)
  ultimately show ?case using Cons.IH [OF t(1)] by (cases e) auto
qed simp

lemma table_find_None: "find (\<lambda>(a, u). u = uuid) m = None \<longleftrightarrow> uuid \<notin> snd ` set m"
  by (induction m) auto

lemma getUserAddress_iff:
  assumes "table_ok (mUser w)" "a \<noteq> 0"
  shows "getUserAddress uuid w = a \<longleftrightarrow> om_find a (mUser w) = Some uuid"
proof (cases "find (\<lambda>(a, u). u = uuid) (mUser w)")
  case None
  then have "om_find a (mUser w) \<noteq> Some uuid" using om_find_in by (force simp: table_find_None)
  with None assms(2) show ?thesis by (simp add: getUserAddress_def)
next
  case (Some e)
  obtain b u where e: "e = (b, u)" by (cases e)
  have b: "om_find b (mUser w) = Some uuid" using table_find [OF assms(1), of uuid b u] Some e by simp
  have "b = a" if "om_find a (mUser w) = Some uuid"
    using table_find [OF assms(1), of uuid a uuid] that Some e by simp
  with b Some e show ?thesis by (auto simp: getUserAddress_def)
qed

section \<open>What the table operations do\<close>

lemma kick_others_keeps:
  assumes "kick_others E addr uuid l w = Some w'"
  shows "keeps_dev w w' \<and> app_db w' = app_db w \<and> mDevice w' = mDevice w \<and>
    mUser w' = filter (\<lambda>(a, u). (a, uuid) \<notin> set l \<or> addr = a) (mUser w)"
  using assms
proof (induction E addr uuid l w rule: kick_others.induct)
  case (1 E addr uuid w)
  then show ?case by (auto simp: case_prod_beta)
next
  case (2 E addr uuid a u rest w)
  show ?case
  proof (cases "u = uuid \<and> addr \<noteq> a")
    case True
    obtain ok w1 where s: "send E a WIS_CMD_SERVICE_KICKOUT_USER None 0 w = Some (ok, w1)"
      and k: "kick_others E addr uuid rest (w1\<lparr>mUser := om_erase a (mUser w1)\<rparr>) = Some w'"
      using "2.prems" True by (auto split: bind_splits)
    have w1: "keeps_dev w w1" "app_part w1 = app_part w" using send_keeps [OF s] by simp_all
    note IH = "2.IH"(1) [OF True s refl k]
    have "keeps_dev w w'"
      using keeps_dev_trans [OF keeps_dev_trans [OF w1(1) keeps_dev_app(2)] conjunct1 [OF IH]] .
    with IH True app_part_eq [OF w1(2)] show ?thesis
      by (auto simp: om_erase_def case_prod_beta intro!: filter_cong)
  next
    case False
    then have "kick_others E addr uuid rest w = Some w'" using "2.prems" by auto
    from "2.IH"(2) [OF False this] False show ?thesis by (auto intro!: filter_cong)
  qed
qed

lemma kick_others_total: "parsers_ok w \<Longrightarrow> \<exists>w'. kick_others E addr uuid l w = Some w'"
proof (induction E addr uuid l w rule: kick_others.induct)
  case (2 E addr uuid a u rest w)
  obtain ok w1 where s: "send E a WIS_CMD_SERVICE_KICKOUT_USER None 0 w = Some (ok, w1)"
    using send_total(2) [OF "2.prems", of WIS_CMD_SERVICE_KICKOUT_USER "[]" E a] by (auto simp: wis_cmd_defs)
  have "parsers_ok (w1\<lparr>mUser := om_erase a (mUser w1)\<rparr>)"
    using parsers_keep [OF keeps_dev_trans [OF send_keeps(1) [OF s]] "2.prems"] by simp
  then show ?case using 2 s by auto
qed simp

lemma mapAddUser_spec:
  assumes "mapAddUser E addr uuid w = Some w'" "table_ok (mUser w)"
  shows "keeps_dev w w' \<and> app_db w' = app_db w \<and> mDevice w' = mDevice w \<and>
    mUser w' = om_set addr uuid (filter (\<lambda>(a, u). \<not> (u = uuid \<and> addr \<noteq> a)) (mUser w))"
proof -
  obtain w1 where k: "kick_others E addr uuid (mUser w) w = Some w1"
    and w': "w' = w1\<lparr>mUser := om_set addr uuid (mUser w1)\<rparr>"
    using assms(1) by (auto simp: mapAddUser_def split: bind_splits)
  have "filter (\<lambda>(a, u). (a, uuid) \<notin> set (mUser w) \<or> addr = a) (mUser w) =
      filter (\<lambda>(a, u). \<not> (u = uuid \<and> addr \<noteq> a)) (mUser w)"
  proof (rule filter_cong)
    fix e assume e: "e \<in> set (mUser w)"
    obtain a u where au: "e = (a, u)" by (cases e)
    have "om_wf (mUser w)" using assms(2) by (simp add: table_ok_def)
    then have "(a, uuid) \<in> set (mUser w) \<longleftrightarrow> u = uuid"
      using e au om_find_iff by (metis option.inject)
    then show "(case e of (a, u) \<Rightarrow> (a, uuid) \<notin> set (mUser w) \<or> addr = a) =
        (case e of (a, u) \<Rightarrow> \<not> (u = uuid \<and> addr \<noteq> a))"
      using au by auto
  qed simp
  with kick_others_keeps [OF k] show ?thesis
    by (auto simp: w' intro: keeps_dev_trans)
qed

lemma kick_nobody: "\<forall>(a, v) \<in> set l. v = uuid \<longrightarrow> a = addr \<Longrightarrow> kick_others E addr uuid l w = Some w"
  by (induction E addr uuid l w rule: kick_others.induct) auto

lemma mapAddUser_total: "parsers_ok w \<Longrightarrow> \<exists>w'. mapAddUser E addr uuid w = Some w'"
  using kick_others_total [of w E addr uuid "mUser w"] by (auto simp: mapAddUser_def)

lemma find_added:
  assumes "om_wf m"
  shows "om_find a (om_set addr uuid (filter (\<lambda>(a, u). \<not> (u = uuid \<and> addr \<noteq> a)) m)) =
    (if a = addr then Some uuid else if om_find a m = Some uuid then None else om_find a m)"
  using om_find_filter [OF assms, of a] by (auto simp: om_lookup split: option.splits)

text \<open>Each of them keeps the tables in order.\<close>

lemma mapAdd_ok:
  "table_ok (mUser w) \<Longrightarrow> mapAddUser E addr uuid w = Some w' \<Longrightarrow> table_ok (mUser w')"
  "table_ok (mDevice w) \<Longrightarrow> table_ok (mDevice (mapAddDevice addr uuid w))"
  using mapAddUser_spec [of E addr uuid w w'] table_ok_add by (auto simp: mapAddDevice_def)

lemma mapDelete_ok:
  "table_ok (mUser w) \<Longrightarrow> table_ok (mUser (mapDeleteUser addr w))"
  "table_ok (mUser w) \<Longrightarrow> table_ok (mUser (mapDeleteSameUser uuid w))"
  "table_ok (mDevice w) \<Longrightarrow> table_ok (mDevice (mapDeleteDevice addr w))"
  by (auto simp: mapDeleteUser_def mapDeleteSameUser_def mapDeleteDevice_def table_ok_erase table_ok_filter)

section \<open>Steps of the application\<close>

text \<open>The invariant of the application's own state, and the relation every handler obeys: links and
  devices stay as they are (but for login fields and bytes sent), the invariant is kept, and nobody
  loses the access object it holds. \<open>step0\<close> and
  \<open>step1\<close> say that a computation, without and with a result, is such a step from \<open>v\<close> wherever it ends.\<close>

definition app_ok :: "'d app \<Rightarrow> bool" where
  "app_ok w \<longleftrightarrow> table_ok (mUser w) \<and> table_ok (mDevice w) \<and> db_inv (app_db w)"

definition app_step :: "'d app \<Rightarrow> 'd app \<Rightarrow> bool" where
  "app_step w w' \<longleftrightarrow> keeps_dev w w' \<and>
     (app_ok w \<longrightarrow> app_ok w' \<and> held (app_db w) \<subseteq> held (app_db w'))"

definition step0 :: "'d app \<Rightarrow> 'd app option \<Rightarrow> bool" where
  "step0 v m \<longleftrightarrow> (\<forall>w. m = Some w \<longrightarrow> app_step v w)"

definition step1 :: "'d app \<Rightarrow> ('r \<times> 'd app) option \<Rightarrow> bool" where
  "step1 v m \<longleftrightarrow> (\<forall>r w. m = Some (r, w) \<longrightarrow> app_step v w)"

named_theorems step_rules "steps of the application"

text \<open>How steps compose.\<close>

lemma step0_flow:
  "app_step v w \<Longrightarrow> step0 v (Some w)"
  "step1 v m1 \<Longrightarrow> (\<And>r w. app_step v w \<Longrightarrow> step0 v (k1 r w)) \<Longrightarrow> step0 v (Option.bind m1 (\<lambda>(r, w). k1 r w))"
  "step0 v m \<Longrightarrow> (\<And>w. app_step v w \<Longrightarrow> step0 v (k w)) \<Longrightarrow> step0 v (Option.bind m k)"
  "(b \<Longrightarrow> step0 v m) \<Longrightarrow> (\<not> b \<Longrightarrow> step0 v m') \<Longrightarrow> step0 v (if b then m else m')"
  "(\<And>x y. step0 v (k2 x y)) \<Longrightarrow> step0 v (case p of (x, y) \<Rightarrow> k2 x y)"
  "(\<And>x y. step0 v (k4 x y w)) \<Longrightarrow> step0 v ((case p of (x, y) \<Rightarrow> k4 x y) w)"
  "step0 v (k3 t) \<Longrightarrow> step0 v (Let t k3)"
  "step1 v m1 \<Longrightarrow> step0 v (map_option snd m1)"
  "step0 v None"
  by (auto simp: step0_def step1_def split: bind_splits prod.splits)

lemma step0_pure: "(\<And>x. step0 v (k x)) \<Longrightarrow> step0 v (Option.bind m k)"
  by (auto simp: step0_def split: bind_splits)

lemma step1_flow:
  "app_step v w \<Longrightarrow> step1 v (Some (r0, w))"
  "step1 v m1 \<Longrightarrow> (\<And>r w. app_step v w \<Longrightarrow> step1 v (k1 r w)) \<Longrightarrow> step1 v (Option.bind m1 (\<lambda>(r, w). k1 r w))"
  "step0 v m \<Longrightarrow> (\<And>w. app_step v w \<Longrightarrow> step1 v (k w)) \<Longrightarrow> step1 v (Option.bind m k)"
  "(b \<Longrightarrow> step1 v n) \<Longrightarrow> (\<not> b \<Longrightarrow> step1 v n') \<Longrightarrow> step1 v (if b then n else n')"
  "(\<And>x y. step1 v (k2 x y)) \<Longrightarrow> step1 v (case p of (x, y) \<Rightarrow> k2 x y)"
  "(\<And>x y. step1 v (k4 x y w)) \<Longrightarrow> step1 v ((case p of (x, y) \<Rightarrow> k4 x y) w)"
  "step1 v None"
  "step1 v (k3 t) \<Longrightarrow> step1 v (Let t k3)"
  by (auto simp: step0_def step1_def split: bind_splits prod.splits)

lemma step1_pure: "(\<And>x. step1 v (k x)) \<Longrightarrow> step1 v (Option.bind m k)"
  by (auto simp: step1_def split: bind_splits)

lemmas flow = step0_flow step1_flow

lemma step0D: "step0 v m \<Longrightarrow> m = Some w \<Longrightarrow> app_step v w"
  by (simp add: step0_def)

lemma step1D: "step1 v m \<Longrightarrow> m = Some (r, w) \<Longrightarrow> app_step v w"
  by (simp add: step1_def)

lemma app_step_refl [simp, intro]: "app_step w w"
  by (simp add: app_step_def)

lemma app_step_trans: "app_step w w1 \<Longrightarrow> app_step w1 w2 \<Longrightarrow> app_step w w2"
  unfolding app_step_def using keeps_dev_trans by blast

lemma app_step_keeps: "app_step w w' \<Longrightarrow> keeps_dev w w'"
  by (simp add: app_step_def)

lemma send_step [step_rules]: "app_step v w \<Longrightarrow> step1 v (send E a c data n w)"
  unfolding step1_def
proof (intro allI impI)
  fix ok w' assume v: "app_step v w" and s: "send E a c data n w = Some (ok, w')"
  show "app_step v w'"
    using send_keeps [OF s] app_part_eq [of w' w] v by (auto simp: app_step_def app_ok_def intro: keeps_dev_trans)
qed

lemma reply_step [step_rules]: "app_step v w \<Longrightarrow> step1 v (reply_int E a c r w)"
  unfolding reply_int_def by (rule send_step)

lemma with_db_step:
  assumes "app_step v w" "\<And>r x y. db_inv x \<Longrightarrow> f x = Some (r, y) \<Longrightarrow> pool_step x y"
  shows "step1 v (with_db f w)"
  unfolding step1_def
proof (intro allI impI)
  fix r w' assume "with_db f w = Some (r, w')"
  then obtain x where "f (app_db w) = Some (r, x)" "w' = w\<lparr>app_db := x\<rparr>"
    by (auto simp: with_db_def)
  then have "app_step w w'" using assms(2) by (auto simp: app_step_def app_ok_def pool_step_def)
  then show "app_step v w'" by (rule app_step_trans [OF assms(1)])
qed

lemma with_db_unit_step:
  assumes "app_step v w" "\<And>x y. db_inv x \<Longrightarrow> f x = Some y \<Longrightarrow> pool_step x y"
  shows "step0 v (with_db_unit f w)"
  unfolding step0_def
proof (intro allI impI)
  fix w' assume "with_db_unit f w = Some w'"
  then obtain x where "f (app_db w) = Some x" "w' = w\<lparr>app_db := x\<rparr>"
    by (auto simp: with_db_unit_def)
  then have "app_step w w'" using assms(2) by (auto simp: app_step_def app_ok_def pool_step_def)
  then show "app_step v w'" by (rule app_step_trans [OF assms(1)])
qed

lemma db_steps [step_rules]:
  "app_step v w \<Longrightarrow> step1 v (with_db (user_login my u p) w)"
  "app_step v w \<Longrightarrow> step1 v (with_db (user_logout my u p) w)"
  "app_step v w \<Longrightarrow> step1 v (with_db (checkUser my u) w)"
  "app_step v w \<Longrightarrow> step1 v (with_db (device_check my u) w)"
  "app_step v w \<Longrightarrow> step1 v (with_db (device_regist my u p) w)"
  "app_step v w \<Longrightarrow> step1 v (with_db (device_login my u p) w)"
  "app_step v w \<Longrightarrow> step1 v (with_db (device_logout my u) w)"
  "app_step v w \<Longrightarrow> step1 v (with_db (token_save my u t) w)"
  "app_step v w \<Longrightarrow> step1 v (with_db (push_save my u f n m) w)"
  "app_step v w \<Longrightarrow> step1 v (with_db (command_save my u dv c n m) w)"
  by (erule with_db_step, erule (1) dao_inv dao_inv')+

lemma log_step [step_rules]: "app_step v w \<Longrightarrow> step0 v (with_db_unit (saveLog my src t u n arg) w)"
  by (erule with_db_unit_step) (rule dao_inv'(3))

lemmas log_defs = saveUserLoginLog_def saveUserLogoutLog_def saveUserBindLog_def saveUserUnBindLog_def
  saveDeviceRegLog_def saveDeviceLoginLog_def saveDeviceLogoutLog_def saveUserLog_def saveDeviceLog_def

lemma log_if_step [step_rules]:
  "app_step v w \<Longrightarrow> step0 v (with_db_unit (if b then saveLog my src t u n arg else saveLog my src t' u n arg) w)"
  by (cases b) (simp_all add: log_step)

lemma bound_users_step [step_rules]: "app_step v w \<Longrightarrow>
  step1 v (with_db (\<lambda>x. map_option (\<lambda>(n, m, y). ((n, m), y)) (getBindedUsers my u m0 x)) w)"
  by (erule with_db_step) (auto dest: dao_inv'(5))

lemma table_steps [step_rules]:
  "app_step v w \<Longrightarrow> app_step v (mapDeleteUser a w)"
  "app_step v w \<Longrightarrow> app_step v (mapDeleteSameUser u w)"
  "app_step v w \<Longrightarrow> app_step v (mapDeleteDevice a w)"
  "app_step v w \<Longrightarrow> app_step v (mapAddDevice a u w)"
proof -
  have "app_step w (mapDeleteUser a w)" "app_step w (mapDeleteSameUser u w)" "app_step w (mapDeleteDevice a w)"
    "app_step w (mapAddDevice a u w)"
    using mapDelete_ok(1) [of w a] mapDelete_ok(2) [of w u] mapDelete_ok(3) [of w a] mapAdd_ok(2) [of w a u]
    by (auto simp: app_step_def app_ok_def mapDeleteUser_def mapDeleteSameUser_def mapDeleteDevice_def mapAddDevice_def)
  then show "app_step v w \<Longrightarrow> app_step v (mapDeleteUser a w)" "app_step v w \<Longrightarrow> app_step v (mapDeleteSameUser u w)"
    "app_step v w \<Longrightarrow> app_step v (mapDeleteDevice a w)" "app_step v w \<Longrightarrow> app_step v (mapAddDevice a u w)"
    using app_step_trans by blast+
qed

lemma mapAddUser_step [step_rules]: "app_step v w \<Longrightarrow> step0 v (mapAddUser E a u w)"
  unfolding step0_def
proof (intro allI impI)
  fix w' assume v: "app_step v w" and m: "mapAddUser E a u w = Some w'"
  obtain w1 where "kick_others E a u (mUser w) w = Some w1" "w' = w1\<lparr>mUser := om_set a u (mUser w1)\<rparr>"
    using m by (auto simp: mapAddUser_def split: bind_splits)
  then have "keeps_dev w w'" "app_db w' = app_db w" "mDevice w' = mDevice w"
    using kick_others_keeps [of E a u "mUser w" w w1] keeps_dev_trans by fastforce+
  moreover have "table_ok (mUser w) \<Longrightarrow> table_ok (mUser w')" using mapAdd_ok(1) m by blast
  ultimately have "app_step w w'" by (auto simp: app_step_def app_ok_def)
  then show "app_step v w'" by (rule app_step_trans [OF v])
qed

lemma sendLoginResponse_step [step_rules]: "app_step v w \<Longrightarrow> step0 v (sendLoginResponse E a u r t w)"
  unfolding sendLoginResponse_def by (rule step0_pure) (intro flow step_rules)

section \<open>The handlers are steps\<close>

lemma handleUserLogin_step [step_rules]: "app_step v w \<Longrightarrow> step0 v (handleUserLogin E addr n p w)"
  unfolding handleUserLogin_def log_defs
  by (rule step0_pure, rule step0_pure, rule step0_pure, intro flow step_rules step0_pure)

lemma handleUserLogout_step [step_rules]: "app_step v w \<Longrightarrow> step0 v (handleUserLogout E addr u w)"
  unfolding handleUserLogout_def log_defs by (intro flow step_rules)

lemma notify_step [step_rules]:
  shows "app_step v w \<Longrightarrow> step0 v (notify_login E u us w)"
    and "app_step v w \<Longrightarrow> step0 v (notify_logout E u us w)"
proof (induction us arbitrary: w)
  case (Cons e us)
  obtain key info where e: "e = (key, info)" by (cases e)
  {
    case 1
    then show ?case unfolding e notify_login.simps by (intro flow step_rules Cons.IH(1))
  next
    case 2
    then show ?case unfolding e notify_logout.simps by - (rule step0_pure, intro flow step_rules Cons.IH(2))
  }
qed (simp_all add: step0_def)

lemma handleDeviceLogin_step [step_rules]: "app_step v w \<Longrightarrow> step0 v (handleDeviceLogin E addr n p w)"
  unfolding handleDeviceLogin_def log_defs
  by (rule step0_pure, rule step0_pure, intro flow step_rules step0_pure)

lemma handleDeviceLogout_step [step_rules]: "app_step v w \<Longrightarrow> step0 v (handleDeviceLogout E addr u w)"
  unfolding handleDeviceLogout_def log_defs by (intro flow step_rules)

section \<open>Kicking a user out\<close>

lemma mapDeleteUser_parts: "keeps_dev w (mapDeleteUser a w)" "app_db (mapDeleteUser a w) = app_db w"
  "mDevice (mapDeleteUser a w) = mDevice w"
  by (auto simp: mapDeleteUser_def)

lemma find_address: "find (\<lambda>(a, u). u = uuid) m = Some (a, u) \<Longrightarrow> (a, uuid) \<in> set m"
  by (induction m) (auto split: if_splits)

lemma getUserAddress_in: "getUserAddress uuid w \<noteq> 0 \<Longrightarrow> (getUserAddress uuid w, uuid) \<in> set (mUser w)"
  by (auto simp: getUserAddress_def split: option.splits dest: find_address)

text \<open>Every turn removes an entry; in the end there is none left.\<close>

lemma kickout_ends:
  assumes "parsers_ok w" "om_find 0 (mUser w) = None" "om_wf (mUser w)"
  shows "\<exists>w'. handleKickoutUser E uuid w = Some w' \<and> keeps_dev w w' \<and> app_db w' = app_db w \<and>
    mDevice w' = mDevice w \<and> mUser w' = filter (\<lambda>(a, u). u \<noteq> uuid) (mUser w)"
  using assms
proof (induction "length (mUser w)" arbitrary: w rule: less_induct)
  case less
  let ?a = "getUserAddress uuid w"
  show ?case
  proof (cases "?a = 0")
    case True
    have "find (\<lambda>(a, u). u = uuid) (mUser w) = None"
    proof (rule ccontr)
      assume "find (\<lambda>(a, u). u = uuid) (mUser w) \<noteq> None"
      then obtain a u where f: "find (\<lambda>(a, u). u = uuid) (mUser w) = Some (a, u)" by fastforce
      then have "a = 0" using True by (simp add: getUserAddress_def)
      then show False using find_address [OF f] less.prems(2) by (force simp: om_find_None)
    qed
    then have "filter (\<lambda>(a, u). u \<noteq> uuid) (mUser w) = mUser w"
      by (force simp: table_find_None filter_id_conv)
    then show ?thesis using True by (simp add: handleKickoutUser.simps [of E uuid w])
  next
    case False
    let ?w0 = "mapDeleteUser ?a w"
    have a: "(?a, uuid) \<in> set (mUser w)" by (rule getUserAddress_in [OF False])
    then have f: "om_find ?a (mUser w) = Some uuid" using less.prems(3) by (simp add: om_find_iff)
    then have m0: "mUser ?w0 = om_erase ?a (mUser w)" by (simp add: mapDeleteUser_def)
    obtain ok w1 where s: "send E ?a WIS_CMD_SERVICE_KICKOUT_USER None 0 ?w0 = Some (ok, w1)"
      using send_total(2) [OF parsers_keep [OF mapDeleteUser_parts(1) less.prems(1)],
          of WIS_CMD_SERVICE_KICKOUT_USER "[]" E ?a ?a] by (auto simp: wis_cmd_defs)
    note k1 = send_keeps [OF s] and p1 = app_part_eq [OF send_keeps(2) [OF s]]
    have m1: "mUser w1 = om_erase ?a (mUser w)" using p1 m0 by simp
    have "length (mUser w1) < length (mUser w)"
      unfolding m1 om_erase_def using a by (intro length_filter_less [where x = "(?a, uuid)"]) auto
    moreover have k: "keeps_dev w w1" using keeps_dev_trans [OF mapDeleteUser_parts(1) k1(1)] .
    moreover have "om_find 0 (mUser w1) = None" "om_wf (mUser w1)"
      using less.prems m1 by (simp_all add: om_lookup om_wf_erase)
    ultimately obtain w' where IH: "handleKickoutUser E uuid w1 = Some w'" "keeps_dev w1 w'" "app_db w' = app_db w1"
      "mDevice w' = mDevice w1" "mUser w' = filter (\<lambda>(a, u). u \<noteq> uuid) (mUser w1)"
      using less.hyps [of w1] parsers_keep [OF k less.prems(1)] by blast
    have "filter (\<lambda>(a, u). u \<noteq> uuid) (om_erase ?a (mUser w)) = filter (\<lambda>(a, u). u \<noteq> uuid) (mUser w)"
      unfolding om_erase_def filter_filter
    proof (rule filter_cong)
      fix e assume e: "e \<in> set (mUser w)"
      have "snd e = uuid" if "fst e = ?a"
        using om_find_iff [OF less.prems(3), of ?a "snd e"] e f that by (cases e) simp
      then show "(fst e \<noteq> ?a \<and> (case e of (a, u) \<Rightarrow> u \<noteq> uuid)) = (case e of (a, u) \<Rightarrow> u \<noteq> uuid)"
        by (cases e) auto
    qed simp
    then have "mUser w' = filter (\<lambda>(a, u). u \<noteq> uuid) (mUser w)" using IH(5) m1 by simp
    moreover have "handleKickoutUser E uuid w = Some w'"
      using False s IH(1) by (subst handleKickoutUser.simps) (simp add: Let_def)
    ultimately show ?thesis
      using IH p1 keeps_dev_trans [OF k IH(2)] mapDeleteUser_parts by auto
  qed
qed

section \<open>Login replies\<close>

lemma note_login_reply:
  assumes "c = WIS_CMD_LOGIN \<or> c = WIS_CMD_USER_AUTO_LOGIN" "length u = 32"
  shows "(\<exists>d1. note_login c (Some (enc32 r @ u)) 36 d = Some (4, d1)) \<or> note_login c (Some (enc32 r @ u)) 36 d = Some (36, d)"
proof -
  have "buf_string UUID_LEN u \<noteq> None" using assms(2) by (simp add: buf_string_def UUID_LEN_def)
  then show ?thesis
    using assms(1) by (auto simp: note_login_def mem_simps getUuidFromBuffer_def)
qed

lemma login_reply_sent:
  assumes "parsers_ok w" "c = WIS_CMD_LOGIN \<or> c = WIS_CMD_USER_AUTO_LOGIN" "length u = 32"
  shows "\<exists>ok w'. send E a c (Some (enc32 r @ u)) 36 w = Some (ok, w')"
proof (cases "om_find (GetAddressKey (bus_at w a)) (m_mapDevice w)")
  case None
  then show ?thesis by (auto simp: send_def unite_SendData_def dm_SendData_def GetDeviceClient_def Let_def)
next
  case (Some d)
  with assms(1) have p: "m_pProtocolPaser d \<noteq> None" by (simp add: parsers_ok_def)
  consider d1 where "note_login c (Some (enc32 r @ u)) 36 d = Some (int (length (enc32 r)), d1)"
    | "note_login c (Some ((enc32 r @ u) @ [])) 36 d = Some (int (length (enc32 r @ u)), d)"
    using note_login_reply [OF assms(2,3), of r d] assms(3) by auto
  then have "\<exists>ok d' t. CDevice_Send (sv_write E) c (Some (enc32 r @ u)) 36 d (tcp w) = Some (ok, d', t)"
  proof cases
    case 1
    from CDevice_Send_payload [OF 1 _ p, of "sv_write E" "tcp w"] show ?thesis by (simp split: prod.splits)
  next
    case 2
    from CDevice_Send_payload [OF 2 _ p, of "sv_write E" "tcp w"] assms(3) show ?thesis by (simp split: prod.splits)
  qed
  then show ?thesis
    using Some by (auto simp: send_def unite_SendData_def dm_SendData_def GetDeviceClient_def Let_def)
qed

lemma sendLoginResponse_total:
  assumes "parsers_ok w" "strncpy UUID_LEN m \<noteq> None" "t = TYPE_DEVICE \<or> t = TYPE_USER"
  shows "\<exists>w'. sendLoginResponse E a m r t w = Some w'"
proof -
  obtain u where u: "strncpy UUID_LEN m = Some u" using assms(2) by blast
  then have "length u = 32" by (auto simp: strncpy_def UUID_LEN_def split: if_splits)
  from login_reply_sent [OF assms(1) disjI1 [OF refl] this, of E a "word_of_int r"]
    login_reply_sent [OF assms(1) disjI2 [OF refl] this, of E a "word_of_int r"] u assms(3)
  show ?thesis by (auto simp: sendLoginResponse_def Let_def)
qed

lemma sendLoginResponse_tables:
  assumes "sendLoginResponse E a m r t w = Some w'"
  shows "app_part w' = app_part w" "keeps_dev w w'"
proof -
  have "w' = w \<or> (\<exists>c d n ok. send E a c d n w = Some (ok, w'))"
    using assms by (auto simp: sendLoginResponse_def Let_def split: bind_splits if_splits)
  then show "app_part w' = app_part w" "keeps_dev w w'" using send_keeps by blast+
qed

lemma uuid_copied: "getUuidFromBuffer p = Some u \<Longrightarrow> strncpy UUID_LEN p \<noteq> None"
  by (auto simp: getUuidFromBuffer_def buf_string_def strncpy_def split: if_splits)

text \<open>A login reply to a known device is one frame, the code alone when the login succeeded, code and id when it did
  not.\<close>

lemma c_str_take: "c_str (take n s) = take n (c_str s)"
  unfolding c_str_def by (induction s arbitrary: n) (auto simp: take_Cons split: nat.splits)

lemma uuid_copy: "getUuidFromBuffer p = Some u \<Longrightarrow> strncpy UUID_LEN p = Some (pad_to 32 u) \<and> NUL \<notin> set u \<and> length u \<le> 32"
proof -
  assume u: "getUuidFromBuffer p = Some u"
  have b: "length u \<le> 32 \<and> NUL \<notin> set u" by (rule getUuid_bound [OF u])
  have "u = c_str (take 32 p)" "NUL \<in> set (take 32 p) \<or> 32 \<le> length p"
    using u by (auto simp: getUuidFromBuffer_def buf_string_def UUID_LEN_def split: if_splits)
  moreover from this b have "pad_to 32 u = pad_to 32 p" by (simp add: pad_to_def c_str_take)
  ultimately show ?thesis using b by (simp add: strncpy_def UUID_LEN_def)
qed

lemma user_reply_frame:
  assumes "parsers_ok v" "strncpy UUID_LEN p = Some (pad_to 32 u)" "NUL \<notin> set u" "length u \<le> 32"
    and "sendLoginResponse E a p (if ok then 0 else - 1) TYPE_USER v = Some w'"
  shows "case om_find (GetAddressKey (bus_at v a)) (m_mapDevice v) of None \<Rightarrow> w' = v
    | Some d \<Rightarrow> w' = upd_device (GetAddressKey (bus_at v a))
        (\<lambda>_. if ok then d\<lparr>m_isLogined := True, m_loginType := TYPE_USER, m_uuid := u\<rparr> else d)
        (v\<lparr>tcp := snd (tcp_SendData (sv_write E)
          (mk_frame WIS_CMD_USER_AUTO_LOGIN (if ok then enc32 0 else enc32 (- 1) @ pad_to 32 u)) (m_DeviceAddress d) (tcp v))\<rparr>)"
proof (cases "om_find (GetAddressKey (bus_at v a)) (m_mapDevice v)")
  case None
  then show ?thesis
    using assms(2,5) by (auto simp: sendLoginResponse_def Let_def send_def unite_SendData_def dm_SendData_def GetDeviceClient_def
        TYPE_USER_def TYPE_DEVICE_def)
next
  case (Some d)
  with assms(1) have p: "m_pProtocolPaser d \<noteq> None" by (simp add: parsers_ok_def)
  let ?c = WIS_CMD_USER_AUTO_LOGIN
  show ?thesis
  proof (cases ok)
    case True
    with dm_SendData_login [OF Some p assms(3,4), of ?c 0 TYPE_USER "sv_write E"] Some assms(2,5) show ?thesis
      by (auto simp: sendLoginResponse_def Let_def send_def unite_SendData_def TYPE_USER_def TYPE_DEVICE_def split: prod.splits)
  next
    case False
    let ?x = "enc32 (- 1) @ pad_to 32 u"
    have x: "length ?x = 36" by simp
    have n: "note_login ?c (Some (?x @ [])) 36 d = Some (int (length ?x), d)"
      by (simp add: note_login_def mem_simps wis_cmd_defs)
    have k: "note_kickout ?c d = d" by (simp add: note_kickout_def wis_cmd_defs)
    show ?thesis
      using CDevice_Send_payload [OF n _ p, of "sv_write E" "tcp v"] k False Some assms(2,5)
      by (auto simp: sendLoginResponse_def Let_def send_def unite_SendData_def dm_SendData_def GetDeviceClient_def
          TYPE_USER_def TYPE_DEVICE_def split: prod.splits)
  qed
qed

section \<open>A user logs in\<close>

lemma with_db_settled:
  assumes "\<exists>x. f (app_db w) = Some (r, x) \<and> settled (app_db w) x d"
  shows "\<exists>x. with_db f w = Some (r, w\<lparr>app_db := x\<rparr>) \<and> db_inv x"
  using assms by (auto simp: with_db_def settled_def)

lemma parsers_app [simp]: "parsers_ok (w\<lparr>app_db := x\<rparr>) = parsers_ok w" "parsers_ok (w\<lparr>mUser := m\<rparr>) = parsers_ok w"
  by (simp_all add: parsers_ok_def)

lemma address_ip_keeps: "keeps_dev w w' \<Longrightarrow> address_ip a w' = address_ip a w"
  by (simp add: address_ip_def keeps_dev_bus)

lemma saveUserLoginLog_settles: "db_inv x \<Longrightarrow> \<exists>y. saveUserLoginLog my u n ip x = Some y \<and>
  settled x y (snd (one_update my (snprintf 2000 (sql_log LOG_SRC_USER 2 u n ip)) x))"
  unfolding saveUserLoginLog_def saveUserLog_def by (rule log_settles)

text \<open>The tail of a successful login: log entry, token, reply.\<close>

lemma login_tail:
  assumes "db_inv (app_db w2)" "parsers_ok w2" "address_ip addr w2 = Some ip" "getUuidFromBuffer p = Some u"
  shows "\<exists>w'. Option.bind (with_db_unit (saveUserLoginLog my u (int (length ip)) ip) w2) (\<lambda>w3.
      Option.bind (if b then
                let token = map (\<lambda>c. char_of (to_upper (byte_val c))) token0 in
                if JIGUANG_TOKEN_LEN = length token
                then map_option snd (with_db (token_save my u token) w3)
                else Some w3
              else Some w3) (sendLoginResponse E addr p 0 TYPE_USER)) = Some w' \<and>
    mUser w' = mUser w2 \<and> mDevice w' = mDevice w2 \<and> db_inv (app_db w') \<and>
    (\<exists>z. sendLoginResponse E addr p 0 TYPE_USER (w2\<lparr>app_db := z\<rparr>) = Some w')"
proof -
  obtain x where x: "with_db_unit (saveUserLoginLog my u (int (length ip)) ip) w2 = Some (w2\<lparr>app_db := x\<rparr>)" "db_inv x"
    using saveUserLoginLog_settles [OF assms(1), of my u "int (length ip)" ip]
    by (auto simp: with_db_unit_def settled_def)
  let ?w3 = "w2\<lparr>app_db := x\<rparr>"
  let ?t = "map (\<lambda>c. char_of (to_upper (byte_val c))) token0"
  obtain i y where t: "with_db (token_save my u ?t) ?w3 = Some (i, ?w3\<lparr>app_db := y\<rparr>)" "db_inv y"
    using token_save_settles [OF x(2), of my u ?t] by (auto simp: with_db_def settled_def)
  obtain w4 where w4: "(if b then
                let token = ?t in
                if JIGUANG_TOKEN_LEN = length token
                then map_option snd (with_db (token_save my u token) ?w3)
                else Some ?w3
              else Some ?w3) = Some w4" "mUser w4 = mUser w2" "mDevice w4 = mDevice w2" "db_inv (app_db w4)" "parsers_ok w4"
      "\<exists>z. w4 = w2\<lparr>app_db := z\<rparr>"
    using t x(2) assms(2) by (cases b; cases "JIGUANG_TOKEN_LEN = length ?t") (auto simp: Let_def)
  obtain w' where w': "sendLoginResponse E addr p 0 TYPE_USER w4 = Some w'"
    using sendLoginResponse_total [OF w4(5) uuid_copied [OF assms(4)]] by blast
  moreover have "\<exists>z. sendLoginResponse E addr p 0 TYPE_USER (w2\<lparr>app_db := z\<rparr>) = Some w'"
    using w' w4(6) by blast
  ultimately show ?thesis
    using x(1) w4 sendLoginResponse_tables(1) [OF w'] app_part_eq [of w' w4] by auto
qed

text \<open>What a user login does.\<close>

lemma login_effect:
  assumes "app_ok w" "parsers_ok w" "address_ip addr w = Some ip"
    and "getUuidFromBuffer p = Some u" "getPasswordFromBuffer (drop 32 p) = Some pw" "getTokenFromBuffer (drop 56 p) = Some t"
    and "login_on_server (sv_mysql E) u pw (app_db w) = (ok, d)"
  shows "\<exists>w'. handleUserLogin E addr n p w = Some w' \<and> app_ok w' \<and> mDevice w' = mDevice w \<and>
    (\<exists>v. keeps_dev w v \<and> sendLoginResponse E addr p (if ok then 0 else - 1) TYPE_USER v = Some w' \<and>
      (\<not> ok \<or> (\<forall>a. om_find a (mUser w) = Some u \<longrightarrow> a = addr) \<longrightarrow> tcp v = tcp w \<and> m_mapDevice v = m_mapDevice w)) \<and>
    (\<forall>a. om_find a (mUser w') =
      (if \<not> ok then om_find a (mUser w)
       else if a = addr then Some u
       else if om_find a (mUser w) = Some u then None else om_find a (mUser w)))"
proof -
  have inv: "db_inv (app_db w)" "table_ok (mUser w)" "om_wf (mUser w)" using assms(1) by (auto simp: app_ok_def table_ok_def)
  obtain x where x: "with_db (user_login (sv_mysql E) u pw) w = Some (ok, w\<lparr>app_db := x\<rparr>)" "db_inv x"
    using with_db_settled [of "user_login (sv_mysql E) u pw" w ok d] user_login_server [OF inv(1), of "sv_mysql E" u pw]
      assms(7) by auto
  let ?w1 = "w\<lparr>app_db := x\<rparr>"
  have p1: "parsers_ok ?w1" using assms(2) by simp
  have step: "app_ok w'" if "handleUserLogin E addr n p w = Some w'" for w'
    using step0D [OF handleUserLogin_step [OF app_step_refl] that] assms(1) by (simp add: app_step_def)
  show ?thesis
  proof (cases ok)
    case False
    obtain w' where w': "sendLoginResponse E addr p (- 1) TYPE_USER ?w1 = Some w'"
      using sendLoginResponse_total [OF p1 uuid_copied [OF assms(4)]] by blast
    then have "handleUserLogin E addr n p w = Some w'"
      using x(1) False assms(4-6) by (simp add: handleUserLogin_def)
    moreover have "mUser w' = mUser w" "mDevice w' = mDevice w"
      using app_part_eq [OF sendLoginResponse_tables(1) [OF w']] by simp_all
    moreover have "keeps_dev w ?w1" "tcp ?w1 = tcp w" "m_mapDevice ?w1 = m_mapDevice w" using keeps_dev_app(1) by simp_all
    ultimately show ?thesis using step False w' by auto
  next
    case True
    obtain w2 where w2: "mapAddUser E addr u ?w1 = Some w2" using mapAddUser_total [OF p1] by blast
    have s: "keeps_dev ?w1 w2 \<and> app_db w2 = x \<and> mDevice w2 = mDevice w \<and>
        mUser w2 = om_set addr u (filter (\<lambda>(a, v). \<not> (v = u \<and> addr \<noteq> a)) (mUser w))"
      using mapAddUser_spec [OF w2] inv(2) by simp
    have "address_ip addr w2 = Some ip"
      using address_ip_keeps [OF keeps_dev_trans [OF keeps_dev_app(1) conjunct1 [OF s]]] assms(3) by simp
    then obtain w' z where w': "handleUserLogin E addr n p w = Some w'" "mUser w' = mUser w2" "mDevice w' = mDevice w2"
      "sendLoginResponse E addr p 0 TYPE_USER (w2\<lparr>app_db := z\<rparr>) = Some w'"
      using login_tail [of w2 addr ip p u "sv_mysql E" "n \<ge> int (TOKEN_LEN + UUID_LEN + PASSWORD_LEN)" t E]
        s x True assms(4-6) parsers_keep [OF conjunct1 [OF s] p1] w2
      by (auto simp: handleUserLogin_def)
    have k: "keeps_dev w (w2\<lparr>app_db := z\<rparr>)"
      using keeps_dev_trans [OF keeps_dev_trans [OF keeps_dev_app(1) conjunct1 [OF s]] keeps_dev_app(1)] .
    have quiet: "tcp w2 = tcp w \<and> m_mapDevice w2 = m_mapDevice w" if "\<forall>a. om_find a (mUser w) = Some u \<longrightarrow> a = addr"
      using w2 kick_nobody [of "mUser w" u addr E ?w1] that om_find_iff [OF inv(3)]
      by (force simp: mapAddUser_def)
    show ?thesis
      by (intro exI [of _ w'] conjI exI [of _ "w2\<lparr>app_db := z\<rparr>"] k)
        (use w' step True s find_added [OF inv(3)] quiet in simp_all)
  qed
qed

section \<open>Properties\<close>

text \<open>C6: One session per user, and an answer. When the server accepts name and
  password the connection is entered for the user, every other connection of the same user leaves the
  table and nobody else's entry changes; when it does not, no entry changes. The tables stay well formed
  (one entry per connection, one connection per user). The last thing a login does is its reply, in a state \<open>v\<close>: to a
  connection with a device one frame is handed to its link, code 0 when the login was accepted, which marks the device as
  logged in, and code -1 with the id otherwise; a connection without a device gets nothing. Before the reply nothing is
  sent unless the user is logged in at another connection.\<close>

theorem login_takes_over:
  assumes "app_ok w" "parsers_ok w" "address_ip addr w = Some ip"
    and "getUuidFromBuffer p = Some u" "getPasswordFromBuffer (drop 32 p) = Some pw" "getTokenFromBuffer (drop 56 p) = Some t"
    and "login_on_server (sv_mysql E) u pw (app_db w) = (ok, d)"
  shows "\<exists>w' v. handleUserLogin E addr n p w = Some w' \<and> app_ok w' \<and> mDevice w' = mDevice w \<and>
    (\<forall>a. om_find a (mUser w') =
      (if \<not> ok then om_find a (mUser w)
       else if a = addr then Some u
       else if om_find a (mUser w) = Some u then None else om_find a (mUser w))) \<and>
    keeps_dev w v \<and>
    (\<not> ok \<or> (\<forall>a. om_find a (mUser w) = Some u \<longrightarrow> a = addr) \<longrightarrow> tcp v = tcp w \<and> m_mapDevice v = m_mapDevice w) \<and>
    (case om_find (GetAddressKey (bus_at w addr)) (m_mapDevice v) of
       None \<Rightarrow> w' = v
     | Some d \<Rightarrow> w' = upd_device (GetAddressKey (bus_at w addr))
         (\<lambda>_. if ok then d\<lparr>m_isLogined := True, m_loginType := TYPE_USER, m_uuid := u\<rparr> else d)
         (v\<lparr>tcp := snd (tcp_SendData (sv_write E)
           (mk_frame WIS_CMD_USER_AUTO_LOGIN (if ok then enc32 0 else enc32 (- 1) @ pad_to 32 u)) (m_DeviceAddress d) (tcp v))\<rparr>))"
proof -
  obtain w' v where l: "handleUserLogin E addr n p w = Some w'" "app_ok w'" "mDevice w' = mDevice w"
    "keeps_dev w v" "sendLoginResponse E addr p (if ok then 0 else - 1) TYPE_USER v = Some w'"
    "\<not> ok \<or> (\<forall>a. om_find a (mUser w) = Some u \<longrightarrow> a = addr) \<longrightarrow> tcp v = tcp w \<and> m_mapDevice v = m_mapDevice w"
    "\<forall>a. om_find a (mUser w') =
      (if \<not> ok then om_find a (mUser w)
       else if a = addr then Some u
       else if om_find a (mUser w) = Some u then None else om_find a (mUser w))"
    using login_effect [OF assms, of n] by blast
  have "strncpy UUID_LEN p = Some (pad_to 32 u)" "NUL \<notin> set u" "length u \<le> 32" using uuid_copy [OF assms(4)] by simp_all
  note r = user_reply_frame [OF parsers_keep [OF l(4) assms(2)] this l(5), unfolded keeps_dev_bus [OF l(4)]]
  show ?thesis by (intro exI [of _ w'] exI [of _ v] conjI l(1-4) l(6,7) r)
qed

lemma sample_ip_of [simp]: "address_ip 7 (sample_app us ds) = Some ''10.0.0.1''"
  by (simp add: address_ip_def sample_bus server_address_def string_at_def c_str_sample_ip)
    (simp add: sample_ip_def)

definition login_request :: bytes where
  "login_request = pad_to 32 ''bob'' @ pad_to 24 ''secret'' @ pad_to 72 ''token''"

lemma login_request_fields:
  "getUuidFromBuffer login_request = Some ''bob''"
  "getPasswordFromBuffer (drop 32 login_request) = Some ''secret''"
  "getTokenFromBuffer (drop 56 login_request) = Some ''token''"
proof -
  have d: "drop 32 login_request = pad_to 24 ''secret'' @ pad_to 72 ''token''"
    "drop 56 login_request = pad_to 19 ''token'' @ replicate 53 NUL"
    by (simp_all add: login_request_def pad_to_short numeral_eq_Suc)
  show "getUuidFromBuffer login_request = Some ''bob''"
    by (simp add: login_request_def getUuidFromBuffer_def len_defs buf_string_pad_to)
  show "getPasswordFromBuffer (drop 32 login_request) = Some ''secret''"
    "getTokenFromBuffer (drop 56 login_request) = Some ''token''"
    unfolding d by (simp_all add: getPasswordFromBuffer_def getTokenFromBuffer_def len_defs buf_string_pad_to)
qed

theorem login_takes_over_witness:
  "(\<exists>w'. handleUserLogin (sample_services [] []) 7 128 login_request (sample_app [(3, ''bob''), (5, ''eve'')] []) = Some w' \<and>
      om_find 3 (mUser w') = None \<and> om_find 5 (mUser w') = Some ''eve'' \<and> om_find 7 (mUser w') = Some ''bob'') \<and>
   (\<exists>w'. handleUserLogin (sample_services [] []) 7 128 login_request (sample_app [(5, ''eve'')] []) = Some w' \<and>
      om_find 7 (mUser w') = Some ''bob'' \<and> frames w' = [(9, mk_frame WIS_CMD_USER_AUTO_LOGIN (enc32 0))])"
proof
  let ?E = "sample_services [] []"
  let ?w = "\<lambda>us. sample_app us []"
  have ok: "app_ok (?w us)" if "om_wf us \<and> distinct (map snd us)" for us using that by (simp add: app_ok_def table_ok_def om_wf_def)
  have d: "login_on_server (sv_mysql ?E) ''bob'' ''secret'' (app_db (?w us)) =
    (True, snd (login_on_server (sv_mysql ?E) ''bob'' ''secret'' (app_db (?w us))))" for us
    using quiet_login by (metis prod.collapse sample_app_simps(3) sample_services_simps(1))
  note l = login_takes_over [OF _ sample_parsers sample_ip_of login_request_fields d, of _ 128]
  show "\<exists>w'. handleUserLogin ?E 7 128 login_request (?w [(3, ''bob''), (5, ''eve'')]) = Some w' \<and>
      om_find 3 (mUser w') = None \<and> om_find 5 (mUser w') = Some ''eve'' \<and> om_find 7 (mUser w') = Some ''bob''"
    using l [of "[(3, ''bob''), (5, ''eve'')]"] ok [of "[(3, ''bob''), (5, ''eve'')]"]
    by (fastforce simp: om_wf_def)
  have k: "om_find (GetAddressKey (bus_at (?w [(5, ''eve'')]) 7)) (m_mapDevice (?w [(5, ''eve'')])) = Some (CDevice_new 7)"
    by (simp add: sample_bus sample_keys sample_device)
  have g: "om_wf [(5 :: nat, ''eve'')] \<and> distinct (map snd [(5 :: nat, ''eve'')])" by (simp add: om_wf_def)
  obtain w' v where w': "handleUserLogin ?E 7 128 login_request (?w [(5, ''eve'')]) = Some w'"
    "\<forall>a. om_find a (mUser w') = (if \<not> True then om_find a (mUser (?w [(5, ''eve'')])) else if a = 7 then Some ''bob''
       else if om_find a (mUser (?w [(5, ''eve'')])) = Some ''bob'' then None else om_find a (mUser (?w [(5, ''eve'')])))"
    "\<not> True \<or> (\<forall>a. om_find a (mUser (?w [(5, ''eve'')])) = Some ''bob'' \<longrightarrow> a = 7) \<longrightarrow>
       tcp v = tcp (?w [(5, ''eve'')]) \<and> m_mapDevice v = m_mapDevice (?w [(5, ''eve'')])"
    "case om_find (GetAddressKey (bus_at (?w [(5, ''eve'')]) 7)) (m_mapDevice v) of None \<Rightarrow> w' = v
     | Some d \<Rightarrow> w' = upd_device (GetAddressKey (bus_at (?w [(5, ''eve'')]) 7))
         (\<lambda>_. if True then d\<lparr>m_isLogined := True, m_loginType := TYPE_USER, m_uuid := ''bob''\<rparr> else d)
         (v\<lparr>tcp := snd (tcp_SendData (sv_write ?E)
           (mk_frame WIS_CMD_USER_AUTO_LOGIN (if True then enc32 0 else enc32 (- 1) @ pad_to 32 ''bob'')) (m_DeviceAddress d) (tcp v))\<rparr>)"
    using l [OF ok [OF g]] by (elim exE conjE) (rule that)
  have v: "tcp v = tcp sample_world" "m_mapDevice v = m_mapDevice sample_world" using w'(3) by simp_all
  have "m_DeviceAddress (CDevice_new 7) = 7" by (simp add: CDevice_new_def)
  then have "frames w' = [(9, mk_frame WIS_CMD_USER_AUTO_LOGIN (enc32 0))]"
    using w'(4) v k sample_send [of "sv_write ?E"] by (simp add: frames_def upd_device_def)
  with w'(1,2) show "\<exists>w'. handleUserLogin ?E 7 128 login_request (?w [(5, ''eve'')]) = Some w' \<and>
      om_find 7 (mUser w') = Some ''bob'' \<and> frames w' = [(9, mk_frame WIS_CMD_USER_AUTO_LOGIN (enc32 0))]" by simp
qed

text \<open>C22: A second login kicks the first one out. When the user is logged in at another connection
  whose device is known, entering the new connection sends exactly one frame, the kick-out, to the old
  one and marks its device as not logged in.\<close>

theorem second_login_kicks_first:
  assumes "table_ok (mUser w)" "om_find a (mUser w) = Some u" "a \<noteq> addr"
    and "om_find (GetAddressKey (bus_at w a)) (m_mapDevice w) = Some d" "m_pProtocolPaser d \<noteq> None"
  shows "mapAddUser E addr u w =
    (case tcp_SendData (sv_write E) (mk_frame WIS_CMD_SERVICE_KICKOUT_USER []) (m_DeviceAddress d) (tcp w) of
       (ok, t) \<Rightarrow> Some (upd_device (GetAddressKey (bus_at w a)) (\<lambda>_. d\<lparr>m_isLogined := False\<rparr>)
         (w\<lparr>tcp := t, mUser := om_set addr u (om_erase a (mUser w))\<rparr>)))"
proof -
  let ?K = WIS_CMD_SERVICE_KICKOUT_USER
  obtain ok t where t: "tcp_SendData (sv_write E) (mk_frame ?K []) (m_DeviceAddress d) (tcp w) = (ok, t)"
    by fastforce
  let ?w1 = "upd_device (GetAddressKey (bus_at w a)) (\<lambda>_. d\<lparr>m_isLogined := False\<rparr>) (w\<lparr>tcp := t\<rparr>)"
  have s: "send E a ?K None 0 w = Some (ok, ?w1)"
    using dm_SendData_known [OF assms(4), of ?K "[]" "sv_write E" "[]"] dm_SendData_NULL [of ?K "sv_write E" a w] assms(5) t
    by (simp add: send_def unite_SendData_def wis_cmd_defs note_kickout_def SetLogined_def)
  have none: "kick_others E addr u m v = Some v" if "\<forall>(b, x) \<in> set m. x = u \<longrightarrow> b = addr" for m v
    using that by (induction m) auto
  have "kick_others E addr u m w = kick_others E addr u [] (?w1\<lparr>mUser := om_erase a (mUser w)\<rparr>)"
    if "table_ok m" "om_find a m = Some u" for m
    using that
  proof (induction m)
    case (Cons e m)
    obtain b x where e: "e = (b, x)" by (cases e)
    have m: "table_ok m" "x \<notin> snd ` set m" using Cons.prems(1) by (auto simp: e table_ok_def om_wf_def)
    show ?case
    proof (cases "b = a")
      case True
      then have x: "x = u" using Cons.prems(2) e by simp
      have "kick_others E addr u m v = Some v" for v by (rule none) (use m(2) x in force)
      then show ?thesis using True x s assms(3) by (simp add: e upd_device_def)
    next
      case False
      then have "om_find a m = Some u" using Cons.prems(2) e by simp
      moreover from this have "u \<in> snd ` set m" using om_find_in by (metis imageI snd_conv)
      ultimately show ?thesis using Cons.IH [OF m(1)] m(2) by (auto simp: e)
    qed
  qed simp
  from this [OF assms(1,2)] show ?thesis
    by (simp add: mapAddUser_def t upd_device_def)
qed

theorem second_login_kicks_first_witness:
  "map_option frames (mapAddUser (sample_services [] []) 8 ''bob'' (sample_app [(7, ''bob'')] []))
   = Some [(9, mk_frame WIS_CMD_SERVICE_KICKOUT_USER [])]"
proof -
  let ?w = "sample_app [(7, ''bob'')] []"
  have "table_ok (mUser ?w)" by (simp add: table_ok_def om_wf_def)
  from second_login_kicks_first [OF this, of 7 "''bob''" 8 "CDevice_new 7" "sample_services [] []"] show ?thesis
    by (simp add: sample_bus sample_keys sample_device CDevice_new_parser sample_send frames_def)
qed

text \<open>C21: Kicking a user out terminates. The loop of \<open>handleKickoutUser\<close> returns, no connection of the
  user is left in the table, and no other entry is touched.\<close>

theorem kickout_terminates:
  assumes "parsers_ok w" "om_find 0 (mUser w) = None" "om_wf (mUser w)"
  shows "\<exists>w'. handleKickoutUser E uuid w = Some w' \<and> \<not> isUserLogin uuid w' \<and>
    (\<forall>a u. u \<noteq> uuid \<longrightarrow> om_find a (mUser w') = Some u \<longleftrightarrow> om_find a (mUser w) = Some u)"
proof -
  obtain w' where w': "handleKickoutUser E uuid w = Some w'" "mUser w' = filter (\<lambda>(a, u). u \<noteq> uuid) (mUser w)"
    using kickout_ends [OF assms] by blast
  have "\<not> isUserLogin uuid w'"
    unfolding isUserLogin_def w'(2) not_not table_find_None by auto
  moreover have "om_find a (mUser w') = Some u \<longleftrightarrow> om_find a (mUser w) = Some u" if "u \<noteq> uuid" for a u
    using om_find_filter [OF assms(3), of a] that by (auto simp: w'(2) split: option.splits)
  ultimately show ?thesis using w'(1) by blast
qed

theorem kickout_terminates_witness:
  "\<exists>w'. handleKickoutUser (sample_services [] []) ''bob'' (sample_app [(3, ''bob''), (7, ''bob'')] []) = Some w' \<and>
     \<not> isUserLogin ''bob'' w'"
  using kickout_terminates [OF sample_parsers, of "[(3, ''bob''), (7, ''bob'')]" "[]" "sample_services [] []" "''bob''"]
  by (auto simp: om_wf_def)

lemma with_db_same: "with_db f x = Some (r, x') \<Longrightarrow> frames x' = frames x \<and> mUser x' = mUser x"
  by (auto simp: with_db_def frames_def)

lemma with_db_unit_same: "with_db_unit f x = Some x' \<Longrightarrow> frames x' = frames x \<and> mUser x' = mUser x"
  by (auto simp: with_db_unit_def frames_def)

lemma reply_same_users: "sendLoginResponse E a m r t x = Some x' \<Longrightarrow> mUser x' = mUser x"
  using app_part_eq(2) [OF sendLoginResponse_tables(1)] .

definition lamp_request :: bytes where
  "lamp_request = pad_to 32 ''lamp'' @ pad_to 32 ''Lamp''"

text \<open>A database that knows every device and has no bindings.\<close>

definition unbound_mysql :: "bytes list mysql" where
  "unbound_mysql = (quiet_mysql [] [])\<lparr>my_affected_rows := (\<lambda>_ d. if take 8 (last d) = ''SELECT `'' then 0 else 1)\<rparr>"

lemma lamp_database: "map_option fst (do {
    (known, x1) \<leftarrow> device_check unbound_mysql ''lamp'' (empty_db []);
    (ok, x2) \<leftarrow> device_login unbound_mysql ''lamp'' ''Lamp'' x1;
    x3 \<leftarrow> saveDeviceLoginLog unbound_mysql ''lamp'' 8 ''10.0.0.1'' x2;
    (n, users, x4) \<leftarrow> getBindedUsers unbound_mysql ''lamp'' [] x3;
    Some ((known, ok, n), x4)
  }) = Some (True, True, 0)"
  by code_simp

text \<open>C38: The users bound to a device are not told that it has logged in. When nobody is logged in
  under the device's own id, a device login sends the reply to the device and nothing else, whoever is
  bound to it and logged in.\<close>

theorem device_login_tells_nobody:
  assumes "handleDeviceLogin E addr n p w = Some w'" "getUuidFromBuffer p = Some u" "getUserAddress u w = 0"
  shows "\<exists>r v v'. sendLoginResponse E addr (u @ [NUL]) r TYPE_DEVICE v = Some v' \<and> frames v = frames w \<and>
    frames w' = frames v'"
proof -
  have quiet: "notify_login E u us x = Some x" if "getUserAddress u x = 0" for us x
    using that by (induction us) auto
  have addr: "getUserAddress u x = 0" if "mUser x = mUser w" for x
    using assms(3) that by (simp add: getUserAddress_def)
  note S = assms(1) [unfolded handleDeviceLogin_def]
  obtain nm known w1 registered w2 where r: "with_db (device_check (sv_mysql E) u) w = Some (known, w1)"
    "(if \<not> known then with_db (device_regist (sv_mysql E) u nm) w1 else Some (True, w1)) = Some (registered, w2)"
    and rest: "(if \<not> registered then sendLoginResponse E addr (u @ [NUL]) (- 1) TYPE_DEVICE w2 else do {
       (ok, w3) \<leftarrow> with_db (device_login (sv_mysql E) u (c_str nm)) w2;
       if \<not> ok then sendLoginResponse E addr (u @ [NUL]) (- 1) TYPE_DEVICE w3
       else do {
         ip \<leftarrow> address_ip addr w3;
         w4 \<leftarrow> with_db_unit (if \<not> known
                  then saveDeviceRegLog (sv_mysql E) u (int (length ip)) ip
                  else saveDeviceLoginLog (sv_mysql E) u (int (length ip)) ip) w3;
         w5 \<leftarrow> sendLoginResponse E addr (u @ [NUL]) 1 TYPE_DEVICE (mapAddDevice addr u w4);
         ((n, users), w6) \<leftarrow> with_db (\<lambda>x. map_option (\<lambda>(n, m, y). ((n, m), y)) (getBindedUsers (sv_mysql E) u [] x)) w5;
         if 0 < n then notify_login E u users w6 else Some w6
       }
     }) = Some w'"
    using S assms(2) by (auto split: bind_splits)
  have w2: "frames w2 = frames w" "mUser w2 = mUser w"
    using with_db_same [OF r(1)] r(2) by (auto dest: with_db_same split: if_splits)
  show ?thesis
  proof (cases registered)
    case False
    with rest w2 show ?thesis by auto
  next
    case True
    then obtain ok w3 where w3: "with_db (device_login (sv_mysql E) u (c_str nm)) w2 = Some (ok, w3)"
      and rest3: "(if \<not> ok then sendLoginResponse E addr (u @ [NUL]) (- 1) TYPE_DEVICE w3
       else do {
         ip \<leftarrow> address_ip addr w3;
         w4 \<leftarrow> with_db_unit (if \<not> known
                  then saveDeviceRegLog (sv_mysql E) u (int (length ip)) ip
                  else saveDeviceLoginLog (sv_mysql E) u (int (length ip)) ip) w3;
         w5 \<leftarrow> sendLoginResponse E addr (u @ [NUL]) 1 TYPE_DEVICE (mapAddDevice addr u w4);
         ((n, users), w6) \<leftarrow> with_db (\<lambda>x. map_option (\<lambda>(n, m, y). ((n, m), y)) (getBindedUsers (sv_mysql E) u [] x)) w5;
         if 0 < n then notify_login E u users w6 else Some w6
       }) = Some w'"
      using rest by (auto split: bind_splits)
    have f3: "frames w3 = frames w" "mUser w3 = mUser w" using with_db_same [OF w3] w2 by auto
    show ?thesis
    proof (cases ok)
      case False
      with rest3 f3 show ?thesis by auto
    next
      case True
      then obtain f w4 w5 q w6 where w: "with_db_unit f w3 = Some w4"
        "sendLoginResponse E addr (u @ [NUL]) 1 TYPE_DEVICE (mapAddDevice addr u w4) = Some w5"
        "with_db (\<lambda>x. map_option (\<lambda>(n, m, y). ((n, m), y)) (getBindedUsers (sv_mysql E) u [] x)) w5 = Some (q, w6)"
        "(case q of (n, users) \<Rightarrow> if 0 < n then notify_login E u users w6 else Some w6) = Some w'"
        using rest3 by (auto split: bind_splits)
      have f4: "frames (mapAddDevice addr u w4) = frames w" "mUser (mapAddDevice addr u w4) = mUser w"
        using with_db_unit_same [OF w(1)] f3 by (simp_all add: mapAddDevice_def frames_def)
      have "getUserAddress u w6 = 0" by (rule addr) (use with_db_same [OF w(3)] reply_same_users [OF w(2)] f4(2) in simp)
      then have "w' = w6" using w(4) quiet by (auto split: prod.splits if_splits)
      then have "frames w' = frames w5" using with_db_same [OF w(3)] by simp
      with w(2) f4(1) show ?thesis by blast
    qed
  qed
qed

theorem device_login_tells_nobody_witness:
  "\<exists>w' r v v'. handleDeviceLogin ((sample_services [] [])\<lparr>sv_mysql := unbound_mysql\<rparr>) 7 64 lamp_request
       (sample_app [(3, ''bob'')] []) = Some w' \<and>
     sendLoginResponse ((sample_services [] [])\<lparr>sv_mysql := unbound_mysql\<rparr>) 7 (''lamp'' @ [NUL]) r TYPE_DEVICE v = Some v' \<and>
     frames w' = frames v'"
proof -
  let ?E = "(sample_services [] [])\<lparr>sv_mysql := unbound_mysql\<rparr>" and ?w = "sample_app [(3, ''bob'')] []"
  obtain x1 x2 x3 users x4 where x: "device_check unbound_mysql ''lamp'' (empty_db []) = Some (True, x1)"
    "device_login unbound_mysql ''lamp'' ''Lamp'' x1 = Some (True, x2)"
    "saveDeviceLoginLog unbound_mysql ''lamp'' 8 ''10.0.0.1'' x2 = Some x3"
    "getBindedUsers unbound_mysql ''lamp'' [] x3 = Some (0, users, x4)"
    using lamp_database by (auto simp: map_option_eq_Some split: bind_splits)
  have req: "getUuidFromBuffer lamp_request = Some ''lamp''" "rd_bytes lamp_request 32 UUID_LEN = Some (pad_to 32 ''Lamp'')"
    by (simp_all add: lamp_request_def getUuidFromBuffer_def UUID_LEN_def buf_string_pad_to rd_bytes_def)
  have nm: "c_str (pad_to 32 ''Lamp'') = ''Lamp''" using c_str_pad_to [of "''Lamp''" 32 "[]"] by simp
  have ip: "address_ip 7 (?w\<lparr>app_db := y\<rparr>) = Some ''10.0.0.1''" for y
    using address_ip_keeps [OF keeps_dev_app(1)] sample_ip_of by metis
  let ?v = "mapAddDevice 7 ''lamp'' (?w\<lparr>app_db := x3\<rparr>)"
  have "strncpy UUID_LEN (''lamp'' @ [NUL]) \<noteq> None" by (simp add: strncpy_def UUID_LEN_def)
  moreover have "parsers_ok ?v" by (simp add: mapAddDevice_def parsers_ok_def sample_parsers [unfolded parsers_ok_def])
  ultimately obtain w5 where w5: "sendLoginResponse ?E 7 (''lamp'' @ [NUL]) 1 TYPE_DEVICE ?v = Some w5"
    using sendLoginResponse_total by blast
  have "app_db w5 = x3" using app_part_eq(1) [OF sendLoginResponse_tables(1) [OF w5]] by (simp add: mapAddDevice_def)
  then have "handleDeviceLogin ?E 7 64 lamp_request ?w = Some (w5\<lparr>app_db := x4\<rparr>)"
    using x req nm ip w5 by (simp add: handleDeviceLogin_def with_db_def with_db_unit_def)
  from device_login_tells_nobody [OF this req(1)] this show ?thesis by (auto simp: getUserAddress_def)
qed

section \<open>A device that leaves\<close>

text \<open>A device that leaves: its entry goes when the server records the logout, and every reachable bound user is told.\<close>

lemma notify_logout_total:
  "parsers_ok w \<Longrightarrow> \<forall>(k, v) \<in> set us. string_at (user_info_mem v) = Some k \<Longrightarrow> length u \<le> 32 \<Longrightarrow>
   \<exists>w'. notify_logout E u us w = Some w' \<and> app_part w' = app_part w"
proof (induction us arbitrary: w)
  case (Cons e us)
  obtain k v where e: "e = (k, v)" "string_at (user_info_mem v) = Some k" using Cons.prems(2) by (cases e) auto
  have u: "length (c_str u) < 2 ^ 31 - 12" using length_takeWhile_le [of "\<lambda>c. c \<noteq> NUL" u] Cons.prems(3) by (simp add: c_str_def)
  show ?case
  proof (cases "getUserAddress k w = 0")
    case True
    then show ?thesis using Cons e by (simp add: Let_def)
  next
    case False
    have c: "WIS_CMD_USER_DEV_LOGOUT \<noteq> WIS_CMD_LOGIN" "WIS_CMD_USER_DEV_LOGOUT \<noteq> WIS_CMD_USER_AUTO_LOGIN"
      by (simp_all add: wis_cmd_defs)
    obtain ok w1 where s: "send E (getUserAddress k w) WIS_CMD_USER_DEV_LOGOUT (Some (c_str u)) (int (length (c_str u))) w = Some (ok, w1)"
      using send_total(1) [OF Cons.prems(1) c u, of E "getUserAddress k w" "[]"] by auto
    have "parsers_ok w1" using parsers_keep [OF send_keeps(1) [OF s] Cons.prems(1)] .
    then obtain w' where "notify_logout E u us w1 = Some w'" "app_part w' = app_part w1"
      using Cons.IH Cons.prems(2,3) by fastforce
    with False s e send_keeps(2) [OF s] show ?thesis by (simp add: Let_def)
  qed
qed simp

lemma om_erase_absent: "om_find k m = None \<Longrightarrow> om_erase k m = m"
  by (induction m) (auto simp: om_erase_def split: if_splits)

lemma handleDeviceLogout_effect:
  assumes "db_inv (app_db w)" "parsers_ok w" "length u \<le> 32" "readable_users (sv_mysql E) u"
    and "one_update (sv_mysql E) (snprintf 200 (sql_device_logout u)) (app_db w) = (ok, dw)"
  shows "\<exists>w'. handleDeviceLogout E a u w = Some w' \<and> mUser w' = mUser w \<and>
    mDevice w' = (if ok then om_erase a (mDevice w) else mDevice w)"
proof -
  obtain x where x: "device_logout (sv_mysql E) u (app_db w) = Some (ok, x)" "db_inv x"
    using update_daos(5) [OF assms(1), of "sv_mysql E" u] assms(5) by (auto simp: settled_def)
  show ?thesis
  proof (cases ok)
    case False
    then show ?thesis using x by (simp add: handleDeviceLogout_def with_db_def)
  next
    case True
    obtain y where y: "saveDeviceLogoutLog (sv_mysql E) u 0 [] x = Some y" "db_inv y"
      using log_settles [OF x(2)] unfolding saveDeviceLogoutLog_def saveDeviceLog_def by (metis settledD(1))
    have "fst (GetNVDataAccess (sv_mysql E) x) \<noteq> 0" using logout_leaves_access [OF assms(1)] x(1) True by simp
    then have "fst (GetNVDataAccess (sv_mysql E) y) \<noteq> 0"
      using log_leaves_access [OF x(2)] y(1) unfolding saveDeviceLogoutLog_def saveDeviceLog_def by blast
    then obtain n m z where b: "getBindedUsers (sv_mysql E) u [] y = Some (n, m, z)"
      "\<forall>(k, v) \<in> set m. string_at (user_info_mem v) = Some k"
      using bound_users_total [OF y(2) _ assms(4)] by blast
    let ?v = "mapDeleteDevice a (w\<lparr>app_db := x\<rparr>)" and ?w = "(mapDeleteDevice a (w\<lparr>app_db := x\<rparr>))\<lparr>app_db := z\<rparr>"
    have v: "app_db ?v = x" "mUser ?w = mUser w" "mDevice ?w = om_erase a (mDevice w)"
      by (simp_all add: mapDeleteDevice_def om_erase_absent)
    have h: "handleDeviceLogout E a u w = (if 0 < n then notify_logout E u m ?w else Some ?w)"
      using True by (simp add: handleDeviceLogout_def with_db_def with_db_unit_def x(1) y(1) b(1) v(1))
    have "parsers_ok ?w" using assms(2) by (simp add: mapDeleteDevice_def parsers_ok_def)
    then obtain w' where w': "notify_logout E u m ?w = Some w'" "app_part w' = app_part ?w"
      using notify_logout_total [OF _ b(2) assms(3)] by blast
    note t = app_part_eq(2,3) [OF w'(2)]
    show ?thesis
    proof (cases "0 < n")
      case n: True
      show ?thesis by (intro exI [of _ w']) (simp only: h n w'(1) t v True if_True)
    next
      case n: False
      show ?thesis by (intro exI [of _ ?w]) (simp only: h n v True if_True if_False)
    qed
  qed
qed

end
