(* ===== verification/Handlers.thy ===== *)
theory Handlers
  imports Login
begin

text \<open>
  The handlers of the other messages (business): \<open>WisUserDao\<close> (registration, passwords, quitting,
  the list of devices), \<open>WisBindDao\<close> (binding a device to a user), \<open>WisToUserHandler\<close> (messages
  of devices to users), \<open>WisUserPrivateHandler\<close> (commands of users for devices) and
  \<open>WisHeartBeatHandler\<close>. A request is the memory from the start of its data on, an id handed over
  as \<open>const char *\<close> is the memory it points to.

  Several handlers reply while they hold an access object, so borrowing, running a statement and
  giving back are steps of their own here.
\<close>

section \<open>Access objects\<close>

definition acquire :: "('d, 'j) services \<Rightarrow> 'd app \<Rightarrow> (ptr \<times> 'd app) option" where
  "acquire E w = with_db (\<lambda>x. Some (DbaModule_GetNVDataAccess (sv_mysql E) x)) w"

definition exec_on :: "('d, 'j) services \<Rightarrow> ptr \<Rightarrow> bytes \<Rightarrow> 'd app \<Rightarrow> (int \<times> 'd app) option" where
  "exec_on E a sql w = with_db (ExecuteNonQuery (sv_mysql E) a sql) w"

definition ask_on :: "('d, 'j) services \<Rightarrow> ptr \<Rightarrow> bytes \<Rightarrow> 'd app \<Rightarrow> (int \<times> 'd app) option" where
  "ask_on E a sql w = with_db (ExecuteNoThrow (sv_mysql E) a sql) w"

definition give :: "ptr \<Rightarrow> 'd app \<Rightarrow> 'd app option" where
  "give a w = with_db_unit (DbaModule_ReleaseNVDataAccess a) w"

definition bound_users :: "('d, 'j) services \<Rightarrow> bytes \<Rightarrow> 'd app \<Rightarrow> ((int \<times> (bytes \<times> wis_user_info) list) \<times> 'd app) option"
where
  "bound_users E dev w =
     with_db (\<lambda>x. map_option (\<lambda>(n, m, y). ((n, m), y)) (getBindedUsers (sv_mysql E) dev [] x)) w"

section \<open>\<open>WisUserDao\<close>\<close>

definition sendUserResponse :: "('d, 'j) services \<Rightarrow> ptr \<Rightarrow> u32 \<Rightarrow> int \<Rightarrow> 'd app \<Rightarrow> (bool \<times> 'd app) option" where
  "sendUserResponse E addr cmd ret w = reply_int E addr cmd ret w"

text \<open>The list of devices: their number and the structs. A size that does not fit into \<open>int\<close> has no
  result; \<open>malloc\<close> succeeds.\<close>

definition userGetDevice :: "('d, 'j) services \<Rightarrow> ptr \<Rightarrow> bytes \<Rightarrow> 'd app \<Rightarrow> (bool \<times> 'd app) option" where
  "userGetDevice E addr uuid w = do {
     user \<leftarrow> getUuidFromBuffer uuid;
     ((count, mapDevice), w1) \<leftarrow>
       with_db (\<lambda>x. map_option (\<lambda>(n, m, y). ((n, m), y)) (getBindedDevices (sv_mysql E) user [] x)) w;
     let size = 4 + count * 88;
     let deviceList = enc32 (word_of_int count) @ concat (map (\<lambda>(k, info). device_info_mem info) mapDevice);
     if size \<ge> 2 ^ 31 then None
     else do {
       (ok, w2) \<leftarrow> send E addr WIS_CMD_USER_GET_DEVICES (Some deviceList) size w1;
       Some (True, w2)
     }
   }"

definition sql_user_regist :: "bytes \<Rightarrow> bytes \<Rightarrow> bytes" where
  "sql_user_regist user password =
     ''insert into wis_user_tbl(`name`,`password`,`type`,`permission`,`reg_time`,`login_cnt`) values(''
     @ quoted user @ '','' @ quoted password @ '', 0, 0, CURRENT_TIMESTAMP,0)''"

definition handleUserRegist :: "('d, 'j) services \<Rightarrow> ptr \<Rightarrow> bytes \<Rightarrow> 'd app \<Rightarrow> (int \<times> 'd app) option" where
  "handleUserRegist E addr pdata w = do {
     sUuid \<leftarrow> getUuidFromBuffer pdata;
     password \<leftarrow> getPasswordFromBuffer (drop 32 pdata);
     (known, w1) \<leftarrow> with_db (checkUser (sv_mysql E) sUuid) w;
     if known then do {
       (ok, w2) \<leftarrow> sendUserResponse E addr WIS_CMD_USER_REGIST (- 2) w1;
       Some (- 2, w2)
     }
     else do {
       (access, w2) \<leftarrow> acquire E w1;
       if access \<noteq> 0 then do {
         (r, w3) \<leftarrow> exec_on E access (snprintf 200 (sql_user_regist sUuid password)) w2;
         w4 \<leftarrow> give access w3;
         if - 1 \<noteq> r then do {
           (ok, w5) \<leftarrow> sendUserResponse E addr WIS_CMD_USER_REGIST 0 w4;
           Some (0, w5)
         } else do {
           (ok, w5) \<leftarrow> sendUserResponse E addr WIS_CMD_USER_REGIST (- 1) w4;
           Some (- 1, w5)
         }
       }
       else do {
         (ok, w3) \<leftarrow> sendUserResponse E addr WIS_CMD_USER_REGIST (- 1) w2;
         Some (- 1, w3)
       }
     }
   }"

definition sql_user_new_password :: "bytes \<Rightarrow> bytes \<Rightarrow> bytes" where
  "sql_user_new_password password user =
     ''update wis_user_tbl set `password`='' @ quoted password @ '' where `name`='' @ quoted user"

definition handleUserModifyPassword :: "('d, 'j) services \<Rightarrow> bytes \<Rightarrow> ptr \<Rightarrow> bytes \<Rightarrow> 'd app \<Rightarrow> 'd app option" where
  "handleUserModifyPassword E uuid addr pdata w = do {
     password \<leftarrow> getPasswordFromBuffer pdata;
     (access, w1) \<leftarrow> acquire E w;
     if access \<noteq> 0 then do {
       (r, w2) \<leftarrow> exec_on E access (snprintf 200 (sql_user_new_password password uuid)) w1;
       if - 1 \<noteq> r then do {
         (ok, w3) \<leftarrow> sendUserResponse E addr WIS_CMD_USER_MODIFY_PASSWORD 0 w2;
         give access w3
       } else do {
         w3 \<leftarrow> give access w2;
         map_option snd (sendUserResponse E addr WIS_CMD_USER_MODIFY_PASSWORD (- 1) w3)
       }
     }
     else map_option snd (sendUserResponse E addr WIS_CMD_USER_MODIFY_PASSWORD (- 1) w1)
   }"

text \<open>\<open>url\<close> is what the string holds before.\<close>

definition makeupURL :: "('d, 'j) services \<Rightarrow> bytes \<Rightarrow> 'd app \<Rightarrow> bytes" where
  "makeupURL E url w =
     (case config_section ''tomcat'' (sv_config E) of
        None \<Rightarrow> url
      | Some e \<Rightarrow>
          let hostName = Attribute ''hostName'' e;
              port = Attribute ''port'' e;
              resetApi = Attribute ''api'' e
          in ''http://'' @ hostName @ '':'' @ port @ resetApi @ ''?'' @ ''mailTime='' @ show_int (sv_time E (world w)))"

text \<open>\<open>checkMail\<close> asks the mail server of an address: \<open>resolve\<close> is \<open>gethostbyname\<close> with the first
  address, \<open>connect_to\<close> the result of \<open>connect\<close> to its port 25. Nothing calls it.\<close>

definition checkMail :: "(bytes \<Rightarrow> bytes option) \<Rightarrow> (bytes \<Rightarrow> int) \<Rightarrow> bytes \<Rightarrow> bool" where
  "checkMail resolve connect_to mail =
     (if CHR ''@'' \<notin> set mail then False
      else let smtpServer = ''smtp.'' @ tl (dropWhile (\<lambda>c. c \<noteq> CHR ''@'') mail) in
        case resolve (c_str smtpServer) of
          None \<Rightarrow> False
        | Some address \<Rightarrow> connect_to address = 0)"

text \<open>A mail of the server: a \<open>Mail\<close> object is made, addressed, sent and destroyed.\<close>

definition mail_out :: "('d, 'j) services \<Rightarrow> bytes \<Rightarrow> bytes \<Rightarrow> 'd app \<Rightarrow> (bool \<times> 'd app) option" where
  "mail_out E uuid content w = do {
     (obj, mc, d1) \<leftarrow> Mail_new (sv_quickmail E) (sv_config E) (app_mail w) (world w);
     let (added, d2) = Mail_addTo (sv_quickmail E) obj mc uuid d1;
     let (ok, d3) = Mail_sendMail (sv_quickmail E) obj mc content d2;
     Some (ok, set_world (Mail_delete (sv_quickmail E) obj d3) (w\<lparr>app_mail := mc\<rparr>))
   }"

definition sendResetPasswordMailTo :: "('d, 'j) services \<Rightarrow> bytes \<Rightarrow> 'd app \<Rightarrow> (bool \<times> 'd app) option" where
  "sendResetPasswordMailTo E uuid w = do {
     let url = makeupURL E [] w;
     let content = ''dear sir:<br/> &nbsp &nbsp &nbsp &nbsp &nbsp  please click this link <a href=\"'' @ url
       @ ''\">'' @ ''reset password'' @ '' </a>to reset your password'';
     mail_out E uuid content w
   }"

definition sendGreetMailTo :: "('d, 'j) services \<Rightarrow> bytes \<Rightarrow> 'd app \<Rightarrow> (bool \<times> 'd app) option" where
  "sendGreetMailTo E uuid w =
     mail_out E uuid ''Dear sir:<br/> &nbsp &nbsp &nbsp &nbsp &nbsp  thanks for register wishome. '' w"

definition handleUserResetPassword :: "('d, 'j) services \<Rightarrow> ptr \<Rightarrow> bytes \<Rightarrow> 'd app \<Rightarrow> 'd app option" where
  "handleUserResetPassword E addr pdata w = do {
     sUuid \<leftarrow> getUuidFromBuffer pdata;
     (known, w1) \<leftarrow> with_db (checkUser (sv_mysql E) sUuid) w;
     if \<not> known then map_option snd (sendUserResponse E addr WIS_CMD_USER_RESET_PASSWORD (- 2) w1)
     else do {
       (mailed, w2) \<leftarrow> sendResetPasswordMailTo E sUuid w1;
       if mailed then map_option snd (sendUserResponse E addr WIS_CMD_USER_RESET_PASSWORD 0 w2)
       else map_option snd (sendUserResponse E addr WIS_CMD_USER_RESET_PASSWORD (- 1) w2)
     }
   }"

definition sql_token_delete :: "bytes \<Rightarrow> bytes" where
  "sql_token_delete token = ''delete from wis_ios_token_tbl2 where `token`='' @ quoted token"

definition handleUserQuit :: "('d, 'j) services \<Rightarrow> ptr \<Rightarrow> bytes \<Rightarrow> 'd app \<Rightarrow> (bool \<times> 'd app) option" where
  "handleUserQuit E addr pdata w = do {
     sUuid \<leftarrow> getUuidFromBuffer pdata;
     token \<leftarrow> getTokenFromBuffer (drop 32 pdata);
     (access, w1) \<leftarrow> acquire E w;
     if access \<noteq> 0 then do {
       (r, w2) \<leftarrow> exec_on E access (snprintf 200 (sql_token_delete token)) w1;
       if - 1 \<noteq> r then do {
         (ok, w3) \<leftarrow> sendUserResponse E addr WIS_CMD_USER_QUIT 0 w2;
         w4 \<leftarrow> handleUserLogout E addr sUuid w3;
         w5 \<leftarrow> give access w4;
         Some (True, w5)
       } else do {
         w3 \<leftarrow> give access w2;
         (ok, w4) \<leftarrow> sendUserResponse E addr WIS_CMD_USER_QUIT (- 1) w3;
         Some (False, w4)
       }
     }
     else do {
       (ok, w2) \<leftarrow> sendUserResponse E addr WIS_CMD_USER_QUIT (- 1) w1;
       Some (False, w2)
     }
   }"

section \<open>\<open>WisBindDao\<close>\<close>

definition sendBindResponse :: "('d, 'j) services \<Rightarrow> ptr \<Rightarrow> u32 \<Rightarrow> int \<Rightarrow> 'd app \<Rightarrow> 'd app option" where
  "sendBindResponse E addr cmd done w = map_option snd (reply_int E addr cmd done w)"

definition sql_bind_select :: "bytes \<Rightarrow> bytes \<Rightarrow> bytes" where
  "sql_bind_select dev user =
     ''SELECT * FROM wis_device_bind_tbl WHERE `dev_id`='' @ quoted dev @ '' AND `user_id`='' @ quoted user"

definition sql_bind_insert :: "bytes \<Rightarrow> bytes \<Rightarrow> bytes" where
  "sql_bind_insert dev user =
     ''INSERT INTO wis_device_bind_tbl(`dev_id`,`user_id`,`bind_time`) VALUES('' @ quoted dev @ '','' @ quoted user
     @ '',CURRENT_TIMESTAMP)''"

definition sql_bind_delete :: "bytes \<Rightarrow> bytes \<Rightarrow> bytes" where
  "sql_bind_delete dev user =
     ''DELETE FROM wis_device_bind_tbl WHERE `dev_id`='' @ quoted dev @ '' AND `user_id`='' @ quoted user"

text \<open>Both assert that there is an access object.\<close>

definition addBind :: "('d, 'j) services \<Rightarrow> ptr \<Rightarrow> bytes \<Rightarrow> bytes \<Rightarrow> 'd app \<Rightarrow> (bool \<times> 'd app) option" where
  "addBind E addr userUUID deviceUUID w = do {
     (access, w1) \<leftarrow> acquire E w;
     if access = 0 then None
     else do {
       (tmp, w2) \<leftarrow> ask_on E access (snprintf 200 (sql_bind_select deviceUUID userUUID)) w1;
       ((res, ret), w3) \<leftarrow>
         (if tmp = 0 then do {
            (r, w3) \<leftarrow> exec_on E access (snprintf 200 (sql_bind_insert deviceUUID userUUID)) w2;
            Some (if - 1 \<noteq> r then (0, True) else (1, False), w3)
          }
          else Some (if 0 < tmp then (2, True) else (1, False), w2));
       w4 \<leftarrow> give access w3;
       w5 \<leftarrow> sendBindResponse E addr WIS_CMD_USER_BIND res w4;
       w6 \<leftarrow> with_db_unit (saveUserBindLog (sv_mysql E) userUUID (int (length deviceUUID)) deviceUUID) w5;
       Some (ret, w6)
     }
   }"

definition delBind :: "('d, 'j) services \<Rightarrow> ptr \<Rightarrow> bytes \<Rightarrow> bytes \<Rightarrow> 'd app \<Rightarrow> (bool \<times> 'd app) option" where
  "delBind E addr userUUID deviceUUID w = do {
     (access, w1) \<leftarrow> acquire E w;
     if access = 0 then None
     else do {
       (r, w2) \<leftarrow> exec_on E access (snprintf 200 (sql_bind_delete deviceUUID userUUID)) w1;
       if - 1 = r then do {
         w3 \<leftarrow> give access w2;
         w4 \<leftarrow> sendBindResponse E addr WIS_CMD_USER_UNBIND 1 w3;
         Some (False, w4)
       }
       else do {
         w3 \<leftarrow> sendBindResponse E addr WIS_CMD_USER_UNBIND 0 w2;
         w4 \<leftarrow> give access w3;
         w5 \<leftarrow> with_db_unit (saveUserUnBindLog (sv_mysql E) userUUID (int (length deviceUUID)) deviceUUID) w4;
         Some (True, w5)
       }
     }
   }"

section \<open>\<open>WisToUserHandler\<close>\<close>

text \<open>A \<open>WisToUserData\<close> is a flag, an id of 32 bytes, a length and the data; \<open>pk\<close> is the memory from
  its start on.\<close>

definition sendToUserResponse :: "('d, 'j) services \<Rightarrow> ptr \<Rightarrow> u32 \<Rightarrow> int \<Rightarrow> 'd app \<Rightarrow> 'd app option" where
  "sendToUserResponse E addr cmd done w = map_option snd (reply_int E addr cmd done w)"

definition packet_data :: "bytes \<Rightarrow> bytes option" where
  "packet_data pk = do {
     len \<leftarrow> rd32 pk 36;
     if sint len < 0 then None else rd_bytes pk 40 (nat (sint len))
   }"

definition handlePushMessage :: "('d, 'j) services \<Rightarrow> ptr \<Rightarrow> bytes \<Rightarrow> bytes \<Rightarrow> 'd app \<Rightarrow> 'd app option" where
  "handlePushMessage E addr uuid pk w = do {
     dev \<leftarrow> string_at (drop 4 pk);
     flag \<leftarrow> rd32 pk 0;
     len \<leftarrow> rd32 pk 36;
     ((n, mapUser), w1) \<leftarrow> bound_users E dev w;
     (errCode, w2) \<leftarrow>
       (if n > 0 then do {
          deviceUUIDs \<leftarrow> those (map (\<lambda>(k, info). string_at (user_info_mem info)) mapUser);
          ((m, tokens), w2) \<leftarrow>
            with_db (\<lambda>x. map_option (\<lambda>(n, m, y). ((n, m), y)) (getTokens (sv_mysql E) deviceUUIDs [] x)) w1;
          if tokens \<noteq> [] then do {
            text \<leftarrow> packet_data pk;
            (err, d) \<leftarrow> push_SpecifiedIDs (sv_curl E) (sv_json E) (sv_config E) text ''device message'' 1
              (map fst tokens) (world w2);
            Some (err, set_world d w2)
          }
          else Some (CURLE_OK, w2)
        }
        else Some (CURLE_OK, w1));
     if CURLE_OK \<noteq> errCode then sendToUserResponse E addr WIS_CMD_TO_USER (- 1) w2
     else do {
       w3 \<leftarrow> sendToUserResponse E addr WIS_CMD_TO_USER 0 w2;
       from \<leftarrow> getUuidFromBuffer uuid;
       text \<leftarrow> packet_data pk;
       map_option snd (with_db (push_save (sv_mysql E) from (sint flag) (sint len) text) w3)
     }
   }"

text \<open>The message for a user: the 32 bytes at the sender's id, then the data.\<close>

definition user_packet :: "bytes \<Rightarrow> bytes \<Rightarrow> bytes option" where
  "user_packet uuid pk = do {
     x \<leftarrow> packet_data pk;
     u \<leftarrow> rd_bytes uuid 0 UUID_LEN;
     if UUID_LEN + length x \<ge> 2 ^ 31 then None else Some (u @ x)
   }"

definition handleSendToOne :: "('d, 'j) services \<Rightarrow> ptr \<Rightarrow> bytes \<Rightarrow> bytes \<Rightarrow> 'd app \<Rightarrow> 'd app option" where
  "handleSendToOne E addr uuid pk w = do {
     toUuid \<leftarrow> getUuidFromBuffer (drop 4 pk);
     toUser \<leftarrow> user_packet uuid pk;
     let to_addr = getUserAddress toUuid w;
     (ok, w1) \<leftarrow> (if to_addr \<noteq> 0 then send E to_addr WIS_CMD_TO_USER (Some toUser) (int (length toUser)) w
                  else Some (False, w));
     sendToUserResponse E addr WIS_CMD_TO_USER (if ok then 0 else - 1) w1
   }"

fun send_all :: "('d, 'j) services \<Rightarrow> bytes \<Rightarrow> (bytes \<times> wis_user_info) list \<Rightarrow> 'd app \<Rightarrow> 'd app option" where
  "send_all E toUser [] w = Some w"
| "send_all E toUser ((key, info) # rest) w = do {
     user \<leftarrow> string_at (user_info_mem info);
     let to_addr = getUserAddress user w;
     if to_addr \<noteq> 0 then do {
       (ok, w1) \<leftarrow> send E to_addr WIS_CMD_TO_USER (Some toUser) (int (length toUser)) w;
       send_all E toUser rest w1
     }
     else send_all E toUser rest w
   }"

definition handleSendToAll :: "('d, 'j) services \<Rightarrow> ptr \<Rightarrow> bytes \<Rightarrow> bytes \<Rightarrow> 'd app \<Rightarrow> 'd app option" where
  "handleSendToAll E addr uuid pk w = do {
     toUser \<leftarrow> user_packet uuid pk;
     dev \<leftarrow> string_at uuid;
     ((n, users), w1) \<leftarrow> bound_users E dev w;
     w2 \<leftarrow> send_all E toUser users w1;
     sendToUserResponse E addr WIS_CMD_TO_USER 0 w2
   }"

text \<open>The length is compared as \<open>size_t\<close>: a negative one passes.\<close>

definition handleToUser :: "('d, 'j) services \<Rightarrow> ptr \<Rightarrow> bytes \<Rightarrow> int \<Rightarrow> bytes \<Rightarrow> 'd app \<Rightarrow> 'd app option" where
  "handleToUser E addr uuid nDataLen pData w =
     (if 0 \<le> nDataLen \<and> nDataLen < 40 then sendToUserResponse E addr WIS_CMD_TO_USER (- 1) w
      else do {
        flag \<leftarrow> rd32 pData 0;
        if flag = CMD_FLAG_ISO_APNS_ALL_OFFLINE then handlePushMessage E addr uuid pData w
        else if flag = CMD_FLAG_USER_ONE then handleSendToOne E addr uuid pData w
        else if flag = CMD_FLAG_USER_ALL then handleSendToAll E addr uuid pData w
        else sendToUserResponse E addr WIS_CMD_TO_USER (- 1) w
      })"

section \<open>\<open>WisUserPrivateHandler\<close>, \<open>WisHeartBeatHandler\<close>\<close>

definition sendUserPrivateResponse :: "('d, 'j) services \<Rightarrow> ptr \<Rightarrow> int \<Rightarrow> 'd app \<Rightarrow> 'd app option" where
  "sendUserPrivateResponse E addr done w = map_option snd (reply_int E addr WIS_CMD_USER_PRIVATE done w)"

text \<open>A \<open>WisUserPrivatePacket\<close> is an id, a command, a length, a sender and the argument; what is sent
  starts at the sender.\<close>

definition handleUserPrivate :: "('d, 'j) services \<Rightarrow> ptr \<Rightarrow> bytes \<Rightarrow> int \<Rightarrow> bytes \<Rightarrow> 'd app \<Rightarrow> 'd app option" where
  "handleUserPrivate E addr uuid datalen pdata w = do {
     devID \<leftarrow> getUuidFromBuffer pdata;
     userID \<leftarrow> getUuidFromBuffer (drop 40 pdata);
     cmdId \<leftarrow> rd32 pdata 32;
     let dev_addr = getDeviceAddress devID w;
     if dev_addr \<noteq> 0 then do {
       argLen \<leftarrow> rd32 pdata 36;
       (ok, w1) \<leftarrow> send E dev_addr cmdId (Some (drop 40 pdata)) (sint argLen) w;
       if \<not> ok then do {
         user \<leftarrow> string_at uuid;
         arg \<leftarrow> string_at (drop 72 pdata);
         (saved, w2) \<leftarrow> with_db (command_save (sv_mysql E) user userID (sint cmdId) (sint argLen) arg) w1;
         sendUserPrivateResponse E addr (- 1) w2
       }
       else sendUserPrivateResponse E addr 0 w1
     }
     else Some w
   }"

definition handleDeviceHeartBeat :: "('d, 'j) services \<Rightarrow> ptr \<Rightarrow> 'd app \<Rightarrow> 'd app option" where
  "handleDeviceHeartBeat E addr w =
     map_option snd (send E addr WIS_CMD_HEART_BEAT (Some (enc32 (word_of_int (sv_time E (world w))))) 4 w)"

definition handleUserHeartBeat :: "('d, 'j) services \<Rightarrow> ptr \<Rightarrow> 'd app \<Rightarrow> 'd app option" where
  "handleUserHeartBeat E addr w =
     map_option snd (send E addr WIS_CMD_USER_HEART_BEAT (Some (enc32 (word_of_int (sv_time E (world w))))) 4 w)"

section \<open>The handlers are steps\<close>

text \<open>\<open>lent a v w\<close>: a step from \<open>v\<close> to \<open>w\<close> in which \<open>a\<close> was borrowed.\<close>

definition lent :: "ptr \<Rightarrow> 'd app \<Rightarrow> 'd app \<Rightarrow> bool" where
  "lent a v w \<longleftrightarrow> app_step v w \<and> (app_ok v \<longrightarrow> a \<in> held (app_db w) \<and> a \<notin> held (app_db v))"

lemma lent_step: "lent a v w \<Longrightarrow> app_step w w' \<Longrightarrow> lent a v w'"
  unfolding lent_def using app_step_trans by (auto simp: app_step_def)

lemma lent_app_step: "lent a v w \<Longrightarrow> app_step v w"
  by (simp add: lent_def)

lemma acquire_cases:
  assumes "acquire E w = Some (a, w')"
  shows "app_step w w'" "a \<noteq> 0 \<Longrightarrow> lent a w w'"
proof -
  obtain x where x: "GetNVDataAccess (sv_mysql E) (app_db w) = (a, x)" "w' = w\<lparr>app_db := x\<rparr>"
    using assms by (cases "GetNVDataAccess (sv_mysql E) (app_db w)")
      (auto simp: acquire_def with_db_def DbaModule_GetNVDataAccess_def)
  have p: "db_inv x \<and> held (app_db w) \<subseteq> held x \<and> (a \<noteq> 0 \<longrightarrow> a \<in> held x \<and> a \<notin> held (app_db w))"
    if "db_inv (app_db w)"
    by (rule Get_cases [OF that x(1)]) (use that in \<open>auto simp: pool.at_def\<close>)
  then show "app_step w w'" by (auto simp: x(2) app_step_def app_ok_def)
  then show "a \<noteq> 0 \<Longrightarrow> lent a w w'" using p by (auto simp: x(2) lent_def app_ok_def)
qed

lemma ExecuteNonQuery_pool: "ExecuteNonQuery my a q x = Some (r, y) \<Longrightarrow> same_pool x y"
  by (auto simp: ExecuteNonQuery_def split: option.splits if_splits prod.splits)

lemma ExecuteNonQuery_step: "db_inv x \<Longrightarrow> ExecuteNonQuery my a q x = Some (r, y) \<Longrightarrow> pool_step x y"
  using ExecuteNonQuery_pool same_pool_inv same_pool_held by (fastforce simp: pool_step_def)

lemma exec_on_step [step_rules]: "app_step v w \<Longrightarrow> step1 v (exec_on E a q w)"
  unfolding exec_on_def by (erule with_db_step) (rule ExecuteNonQuery_step)

lemma ask_on_usable:
  assumes "db_inv x" "a \<in> held x"
  shows "\<exists>r y. ExecuteNoThrow my a q x = Some (r, y) \<and> pool_step x y"
  using ask_usable [OF held_usable [OF assms], of my q] same_pool_inv same_pool_held assms(1)
  by (fastforce simp: pool_step_def)

text \<open>Borrowing, working and giving back. In \<open>lent_rules\<close> the first premise is the loan.\<close>

lemma borrow_rules:
  assumes "app_step v w"
  shows "(\<And>a w'. lent a v w' \<Longrightarrow> step0 v (k a w')) \<Longrightarrow> (\<And>w'. app_step v w' \<Longrightarrow> step0 v (l w')) \<Longrightarrow>
      step0 v (Option.bind (acquire E w) (\<lambda>(a, w'). if a \<noteq> 0 then k a w' else l w'))"
    and "(\<And>a w'. lent a v w' \<Longrightarrow> step1 v (k' a w')) \<Longrightarrow> (\<And>w'. app_step v w' \<Longrightarrow> step1 v (l' w')) \<Longrightarrow>
      step1 v (Option.bind (acquire E w) (\<lambda>(a, w'). if a \<noteq> 0 then k' a w' else l' w'))"
    and "(\<And>a w'. lent a v w' \<Longrightarrow> step1 v (k' a w')) \<Longrightarrow>
      step1 v (Option.bind (acquire E w) (\<lambda>(a, w'). if a = 0 then None else k' a w'))"
proof -
  have s: "app_step v w'" if "acquire E w = Some (a, w')" for a w'
    using app_step_trans [OF assms acquire_cases(1) [OF that]] .
  have l: "lent a v w'" if "acquire E w = Some (a, w')" "a \<noteq> 0" for a w'
    using acquire_cases(2) [OF that] s [OF that(1)] assms
    by (auto simp: lent_def app_step_def)
  show "(\<And>a w'. lent a v w' \<Longrightarrow> step0 v (k a w')) \<Longrightarrow> (\<And>w'. app_step v w' \<Longrightarrow> step0 v (l w')) \<Longrightarrow>
      step0 v (Option.bind (acquire E w) (\<lambda>(a, w'). if a \<noteq> 0 then k a w' else l w'))"
    using s l by (cases "acquire E w") (fastforce simp: step0_def split: if_splits)+
  show "(\<And>a w'. lent a v w' \<Longrightarrow> step1 v (k' a w')) \<Longrightarrow> (\<And>w'. app_step v w' \<Longrightarrow> step1 v (l' w')) \<Longrightarrow>
      step1 v (Option.bind (acquire E w) (\<lambda>(a, w'). if a \<noteq> 0 then k' a w' else l' w'))"
    "(\<And>a w'. lent a v w' \<Longrightarrow> step1 v (k' a w')) \<Longrightarrow>
      step1 v (Option.bind (acquire E w) (\<lambda>(a, w'). if a = 0 then None else k' a w'))"
    using s l by (cases "acquire E w"; fastforce simp: step1_def split: if_splits)+
qed

lemma give_lent: "lent a v w \<Longrightarrow> step0 v (give a w)"
  unfolding step0_def
proof (intro allI impI)
  fix w' assume l: "lent a v w" and g: "give a w = Some w'"
  obtain x where x: "ReleaseNVDataAccess a (app_db w) = Some x" "w' = w\<lparr>app_db := x\<rparr>"
    using g by (auto simp: give_def with_db_unit_def DbaModule_ReleaseNVDataAccess_def)
  have "app_ok w' \<and> held (app_db v) \<subseteq> held (app_db w')" if "app_ok v"
  proof -
    have w: "app_ok w" "a \<in> held (app_db w)" "a \<notin> held (app_db v)" "held (app_db v) \<subseteq> held (app_db w)"
      using l that by (auto simp: lent_def app_step_def)
    then have "db_inv x \<and> held x = held (app_db w) - {a}"
      using Release_spec [of "app_db w" a] x(1) by (auto simp: app_ok_def)
    with w show ?thesis by (auto simp: x(2) app_ok_def)
  qed
  moreover have "keeps_dev v w'"
    using keeps_dev_trans [OF app_step_keeps [OF lent_app_step [OF l]] keeps_dev_app(1)] by (simp add: x(2))
  ultimately show "app_step v w'" by (auto simp: app_step_def)
qed

lemma lent_via: "lent a v w \<Longrightarrow> step1 w m \<Longrightarrow> m = Some (r, w') \<Longrightarrow> lent a v w'"
  by (rule lent_step [OF _ step1D])

lemma lent_rules:
  assumes "lent a v w"
  shows "step0 v (give a w)"
    and "(\<And>w'. app_step v w' \<Longrightarrow> step0 v (k w')) \<Longrightarrow> step0 v (Option.bind (give a w) k)"
    and "(\<And>w'. app_step v w' \<Longrightarrow> step1 v (k' w')) \<Longrightarrow> step1 v (Option.bind (give a w) k')"
    and "step1 w m \<Longrightarrow> (\<And>r w'. lent a v w' \<Longrightarrow> step0 v (l r w')) \<Longrightarrow> step0 v (Option.bind m (\<lambda>(r, w'). l r w'))"
    and "step1 w m \<Longrightarrow> (\<And>r w'. lent a v w' \<Longrightarrow> step1 v (l' r w')) \<Longrightarrow> step1 v (Option.bind m (\<lambda>(r, w'). l' r w'))"
    and "step0 w n \<Longrightarrow> (\<And>w'. lent a v w' \<Longrightarrow> step1 v (k'' w')) \<Longrightarrow> step1 v (Option.bind n k'')"
proof -
  have g: "app_step v w'" if "give a w = Some w'" for w' by (rule step0D [OF give_lent [OF assms] that])
  have l0: "lent a v w'" if "step0 w n" "n = Some w'" for w' n
    by (rule lent_step [OF assms step0D [OF that]])
  show "step0 v (give a w)" by (rule give_lent [OF assms])
  show "(\<And>w'. app_step v w' \<Longrightarrow> step0 v (k w')) \<Longrightarrow> step0 v (Option.bind (give a w) k)"
    "(\<And>w'. app_step v w' \<Longrightarrow> step1 v (k' w')) \<Longrightarrow> step1 v (Option.bind (give a w) k')"
    using g by (cases "give a w"; simp add: step0_def step1_def)+
  show "step1 w m \<Longrightarrow> (\<And>r w'. lent a v w' \<Longrightarrow> step0 v (l r w')) \<Longrightarrow> step0 v (Option.bind m (\<lambda>(r, w'). l r w'))"
    using lent_via [OF assms, of m] by (cases m) (force simp: step0_def)+
  show "step1 w m \<Longrightarrow> (\<And>r w'. lent a v w' \<Longrightarrow> step1 v (l' r w')) \<Longrightarrow> step1 v (Option.bind m (\<lambda>(r, w'). l' r w'))"
    using lent_via [OF assms, of m] by (cases m) (force simp: step1_def)+
  show "step0 w n \<Longrightarrow> (\<And>w'. lent a v w' \<Longrightarrow> step1 v (k'' w')) \<Longrightarrow> step1 v (Option.bind n k'')"
    using l0 by (cases n) (auto simp: step1_def)
qed

lemma ask_lent: "lent a v w \<Longrightarrow> (\<And>r w'. lent a v w' \<Longrightarrow> step1 v (l r w')) \<Longrightarrow>
  step1 v (Option.bind (ask_on E a q w) (\<lambda>(r, w'). l r w'))"
  unfolding step1_def
proof (intro allI impI)
  fix r w'
  assume l: "lent a v w" and k: "\<And>r w'. lent a v w' \<Longrightarrow> \<forall>r0 w. l r w' = Some (r0, w) \<longrightarrow> app_step v w"
    and b: "Option.bind (ask_on E a q w) (\<lambda>(r, w'). l r w') = Some (r, w')"
  obtain n x where x: "ExecuteNoThrow (sv_mysql E) a q (app_db w) = Some (n, x)" "l n (w\<lparr>app_db := x\<rparr>) = Some (r, w')"
    using b by (auto simp: ask_on_def with_db_def split: bind_splits)
  have "lent a v (w\<lparr>app_db := x\<rparr>)"
  proof (cases "app_ok v")
    case True
    then have "app_ok w" "a \<in> held (app_db w)" using l by (auto simp: lent_def app_step_def)
    then have "pool_step (app_db w) x" using ask_on_usable [of "app_db w" a "sv_mysql E" q] x(1) by (auto simp: app_ok_def)
    then have "app_step w (w\<lparr>app_db := x\<rparr>)" by (auto simp: app_step_def app_ok_def pool_step_def)
    then show ?thesis by (rule lent_step [OF l])
  next
    case False
    then show ?thesis using l keeps_dev_trans [OF _ keeps_dev_app(1)] by (auto simp: lent_def app_step_def)
  qed
  with k x(2) show "app_step v w'" by blast
qed

lemma world_step [step_rules]: "app_step v w \<Longrightarrow> app_step v (set_world d w)"
proof -
  have "pool.at (held (app_db w)) ((app_db w)\<lparr>db_server := d\<rparr>)" if "db_inv (app_db w)"
    using pool.at_lent [OF that] by simp
  then have "app_step w (set_world d w)" by (auto simp: set_world_def app_step_def app_ok_def pool.at_def)
  then show "app_step v w \<Longrightarrow> app_step v (set_world d w)" using app_step_trans by blast
qed

lemma mail_config_step [step_rules]: "app_step v w \<Longrightarrow> app_step v (w\<lparr>app_mail := mc\<rparr>)"
proof -
  have "app_step w (w\<lparr>app_mail := mc\<rparr>)" by (auto simp: app_step_def app_ok_def)
  then show "app_step v w \<Longrightarrow> app_step v (w\<lparr>app_mail := mc\<rparr>)" using app_step_trans by blast
qed

lemma query_steps [step_rules]:
  "app_step v w \<Longrightarrow> step1 v (bound_users E dev w)"
  "app_step v w \<Longrightarrow>
    step1 v (with_db (\<lambda>x. map_option (\<lambda>(n, m, y). ((n, m), y)) (getBindedDevices my u m1 x)) w)"
  "app_step v w \<Longrightarrow>
    step1 v (with_db (\<lambda>x. map_option (\<lambda>(n, m, y). ((n, m), y)) (getTokens my us m2 x)) w)"
  unfolding bound_users_def by (erule with_db_step, auto dest: dao_inv'(5-7))+

lemmas responses = sendUserResponse_def sendBindResponse_def sendToUserResponse_def sendUserPrivateResponse_def

lemma response_steps [step_rules]:
  "app_step v w \<Longrightarrow> step1 v (sendUserResponse E a c r w)"
  "app_step v w \<Longrightarrow> step0 v (sendBindResponse E a c r w)"
  "app_step v w \<Longrightarrow> step0 v (sendToUserResponse E a c r w)"
  "app_step v w \<Longrightarrow> step0 v (sendUserPrivateResponse E a r w)"
  unfolding responses by (intro flow step_rules; assumption)+

lemma userGetDevice_step [step_rules]: "app_step v w \<Longrightarrow> step1 v (userGetDevice E addr u w)"
  unfolding userGetDevice_def by (rule step1_pure) (intro flow step_rules)

lemma handleUserRegist_step [step_rules]: "app_step v w \<Longrightarrow> step1 v (handleUserRegist E addr p w)"
  unfolding handleUserRegist_def
  by (rule step1_pure, rule step1_pure)
    (assumption | rule app_step_refl | erule lent_rules | rule borrow_rules flow step_rules)+

lemma handleUserModifyPassword_step [step_rules]: "app_step v w \<Longrightarrow> step0 v (handleUserModifyPassword E u addr p w)"
  unfolding handleUserModifyPassword_def
  by (rule step0_pure)
    (assumption | rule app_step_refl | erule lent_rules | rule borrow_rules flow step_rules)+

lemma mail_out_step [step_rules]: "app_step v w \<Longrightarrow> step1 v (mail_out E u c w)"
  unfolding mail_out_def
  by (rule step1_pure) (simp add: case_prod_beta Let_def step1_def world_step mail_config_step)

lemma sendResetPasswordMailTo_step [step_rules]: "app_step v w \<Longrightarrow> step1 v (sendResetPasswordMailTo E u w)"
  unfolding sendResetPasswordMailTo_def Let_def by (intro step_rules)

lemma handleUserResetPassword_step [step_rules]: "app_step v w \<Longrightarrow> step0 v (handleUserResetPassword E addr p w)"
  unfolding handleUserResetPassword_def by (rule step0_pure) (intro flow step_rules)

lemma handleUserQuit_step [step_rules]: "app_step v w \<Longrightarrow> step1 v (handleUserQuit E addr p w)"
  unfolding handleUserQuit_def
  by (rule step1_pure, rule step1_pure)
    (assumption | rule app_step_refl | erule lent_rules | rule borrow_rules flow step_rules)+

lemma addBind_step [step_rules]: "app_step v w \<Longrightarrow> step1 v (addBind E addr u d w)"
  unfolding addBind_def log_defs
  by (assumption | rule app_step_refl | erule ask_lent lent_rules | rule borrow_rules flow step_rules)+

lemma delBind_step [step_rules]: "app_step v w \<Longrightarrow> step1 v (delBind E addr u d w)"
  unfolding delBind_def log_defs
  by (assumption | rule app_step_refl | erule lent_rules | rule borrow_rules flow step_rules)+

lemma handlePushMessage_step [step_rules]: "app_step v w \<Longrightarrow> step0 v (handlePushMessage E addr u pk w)"
  unfolding handlePushMessage_def
  by (rule step0_pure, rule step0_pure, rule step0_pure) (intro flow step_rules step0_pure step1_pure)

lemma handleSendToOne_step [step_rules]: "app_step v w \<Longrightarrow> step0 v (handleSendToOne E addr u pk w)"
  unfolding handleSendToOne_def
  by (rule step0_pure, rule step0_pure) (intro flow step_rules)

lemma send_all_step [step_rules]: "app_step v w \<Longrightarrow> step0 v (send_all E x us w)"
proof (induction us arbitrary: w)
  case (Cons e us)
  obtain key info where e: "e = (key, info)" by (cases e)
  show ?case unfolding e send_all.simps by (rule step0_pure) (intro flow step_rules Cons)
qed (simp add: step0_def)

lemma handleSendToAll_step [step_rules]: "app_step v w \<Longrightarrow> step0 v (handleSendToAll E addr u pk w)"
  unfolding handleSendToAll_def
  by (rule step0_pure, rule step0_pure) (intro flow step_rules)

lemma handleToUser_step [step_rules]: "app_step v w \<Longrightarrow> step0 v (handleToUser E addr u n p w)"
  unfolding handleToUser_def
  by (assumption | rule step0_flow(4) step_rules step0_pure)+

lemma handleUserPrivate_step [step_rules]: "app_step v w \<Longrightarrow> step0 v (handleUserPrivate E addr u n p w)"
  unfolding handleUserPrivate_def
  by (rule step0_pure, rule step0_pure, rule step0_pure) (intro flow step_rules step0_pure)

lemma heartbeat_steps [step_rules]:
  "app_step v w \<Longrightarrow> step0 v (handleDeviceHeartBeat E addr w)"
  "app_step v w \<Longrightarrow> step0 v (handleUserHeartBeat E addr w)"
  unfolding handleDeviceHeartBeat_def handleUserHeartBeat_def by (intro flow step_rules; assumption)+

section \<open>Lemmas on requests and replies\<close>

lemma app_db_update_simps [simp]:
  "frames (w\<lparr>app_db := x\<rparr>) = frames w" "parsers_ok (w\<lparr>app_db := x\<rparr>) = parsers_ok w"
  by (simp_all add: frames_def)

lemma acquire_eq: "GetNVDataAccess (sv_mysql E) (app_db w) = (a, x) \<Longrightarrow> acquire E w = Some (a, w\<lparr>app_db := x\<rparr>)"
  by (simp add: acquire_def with_db_def DbaModule_GetNVDataAccess_def)

text \<open>An update on an access object of its own, as in the data access objects.\<close>

lemma update_on_access:
  assumes "db_inv (app_db w)" "one_update (sv_mysql E) sql (app_db w) = (ok, d)"
  shows "\<exists>a w1. acquire E w = Some (a, w1) \<and>
    (if a = 0 then w1 = w \<and> \<not> ok \<and> d = db_server (app_db w)
     else \<exists>w2 x. exec_on E a sql w1 = Some (if ok then 0 else - 1, w2) \<and> give a w2 = Some (w\<lparr>app_db := x\<rparr>) \<and>
       settled (app_db w) x d)"
proof -
  obtain a y where g: "GetNVDataAccess (sv_mysql E) (app_db w) = (a, y)" by fastforce
  show ?thesis
  proof (rule Get_cases [OF assms(1) g])
    assume "a = 0" "y = app_db w"
    then show ?thesis using g assms(2) acquire_eq [OF g] by (simp add: one_update_def)
  next
    assume a: "a \<noteq> 0" "pool.at (insert a (held (app_db w))) y" "a \<notin> held (app_db w)" "usable a y"
    have e: "srv_exec (sv_mysql E) a sql (db_server y) = (ok, d)" using assms(2) g a(1) by (simp add: one_update_def)
    obtain x where x: "DbaModule_ReleaseNVDataAccess a (y\<lparr>db_server := d\<rparr>) = Some x" "settled (app_db w) x d"
      using give_back [of a "app_db w" "y\<lparr>db_server := d\<rparr>"] a by auto
    have "exec_on E a sql (w\<lparr>app_db := y\<rparr>) = Some (if ok then 0 else - 1, w\<lparr>app_db := y\<lparr>db_server := d\<rparr>\<rparr>)"
      by (simp add: exec_on_def with_db_def exec_usable [OF a(4)] e)
    moreover have "give a (w\<lparr>app_db := y\<lparr>db_server := d\<rparr>\<rparr>) = Some (w\<lparr>app_db := x\<rparr>)"
      using x(1) by (simp add: give_def with_db_unit_def)
    ultimately show ?thesis using a(1) acquire_eq [OF g] x(2) by auto
  qed
qed

definition user_message :: "u32 \<Rightarrow> bytes \<Rightarrow> bytes \<Rightarrow> bytes" where
  "user_message flag user x = enc32 flag @ pad_to 32 user @ enc32 (of_nat (length x)) @ x"

lemma user_message_fields:
  assumes "NUL \<notin> set user" "length user \<le> 32" "length x < 2 ^ 31"
  shows "rd32 (user_message flag user x @ tail) 0 = Some flag"
    "getUuidFromBuffer (drop 4 (user_message flag user x @ tail)) = Some user"
    "packet_data (user_message flag user x @ tail) = Some x"
proof -
  let ?m = "user_message flag user x @ tail"
  have d: "drop 4 ?m = pad_to 32 user @ enc32 (of_nat (length x)) @ x @ tail"
    by (simp add: user_message_def)
  show "rd32 ?m 0 = Some flag" by (simp add: user_message_def mem_simps)
  show "getUuidFromBuffer (drop 4 ?m) = Some user"
    unfolding d using buf_string_pad_to [OF assms(1,2)] by (simp add: getUuidFromBuffer_def UUID_LEN_def)
  have "rd32 ?m 36 = Some (of_nat (length x))" "rd_bytes ?m 40 (length x) = Some x"
    by (simp_all add: rd32_def rd_bytes_def user_message_def)
  moreover have "sint (of_nat (length x) :: u32) = int (length x)"
    using assms(3) by (simp add: signed_of_nat signed_take_bit_int_eq_self)
  ultimately show "packet_data ?m = Some x" by (simp add: packet_data_def)
qed

lemma reply_after:
  assumes "parsers_ok w" "c \<noteq> WIS_CMD_LOGIN" "c \<noteq> WIS_CMD_USER_AUTO_LOGIN"
  obtains ok w' where "reply_int E addr c r w = Some (ok, w')"
  using reply_total [OF assms] by blast

section \<open>Properties\<close>

text \<open>The statements of the handlers fit into their buffers, for ids, passwords and tokens of the sizes of the wire.\<close>

lemma handler_statements_fit:
  assumes "length user \<le> UUID_LEN" "length dev \<le> UUID_LEN" "length password \<le> PASSWORD_LEN" "length token \<le> JIGUANG_TOKEN_LEN"
  shows "snprintf 200 (sql_user_regist user password) = sql_user_regist user password"
    and "snprintf 200 (sql_user_new_password password user) = sql_user_new_password password user"
    and "snprintf 200 (sql_token_delete token) = sql_token_delete token"
    and "snprintf 200 (sql_bind_select dev user) = sql_bind_select dev user"
    and "snprintf 200 (sql_bind_insert dev user) = sql_bind_insert dev user"
    and "snprintf 200 (sql_bind_delete dev user) = sql_bind_delete dev user"
  using assms length_quoted [of user] length_quoted [of dev] length_quoted [of password] length_quoted [of token]
  by (auto intro!: snprintf_fits simp: len_defs sql_user_regist_def sql_user_new_password_def sql_token_delete_def
      sql_bind_select_def sql_bind_insert_def sql_bind_delete_def)

text \<open>C13: Every registration is answered, once, and truthfully. The handler asks whether the name is taken:
  then the answer is -2 and nothing is written. Otherwise one insert statement is sent, untruncated, and
  the answer is 0 exactly when the server accepted it, -1 when it did not or there was no access object.
  No login entry changes, and no access object is kept.\<close>

theorem registration_outcome:
  assumes "app_ok w" "parsers_ok w"
    and "getUuidFromBuffer p = Some u" "getPasswordFromBuffer (drop 32 p) = Some pw"
    and "one_question (sv_mysql E) (snprintf 200 (sql_user u)) (app_db w) = (n, d)"
  shows "\<exists>code v ok w' x. handleUserRegist E addr p w = Some (code, w') \<and>
    reply_int E addr WIS_CMD_USER_REGIST code v = Some (ok, w') \<and>
    frames v = frames w \<and> mUser w' = mUser w \<and> mDevice w' = mDevice w \<and> settled (app_db w) x d \<and>
    (if 1 \<le> n then code = - 2 \<and> app_db w' = x
     else case one_update (sv_mysql E) (sql_user_regist u pw) x of (stored, d') \<Rightarrow>
       code = (if stored then 0 else - 1) \<and> (\<exists>y. app_db w' = y \<and> settled (app_db w) y d'))"
proof -
  let ?c = WIS_CMD_USER_REGIST
  have c: "?c \<noteq> WIS_CMD_LOGIN" "?c \<noteq> WIS_CMD_USER_AUTO_LOGIN" by (simp_all add: wis_cmd_defs)
  have inv: "db_inv (app_db w)" using assms(1) by (simp add: app_ok_def)
  have "length u \<le> UUID_LEN" "length pw \<le> PASSWORD_LEN"
    using getUuid_bound [OF assms(3)] assms(4) buf_string_bound [of PASSWORD_LEN]
    by (auto simp: getPasswordFromBuffer_def len_defs)
  then have fits: "snprintf 200 (sql_user_regist u pw) = sql_user_regist u pw"
    using handler_statements_fit(1) [of u "[]" pw "[]"] by simp
  obtain x where x: "with_db (checkUser (sv_mysql E) u) w = Some (1 \<le> n, w\<lparr>app_db := x\<rparr>)"
    and sx: "settled (app_db w) x d"
    using question_daos(1) [OF inv, of "sv_mysql E" u] assms(5) by (auto simp: with_db_def)
  have answer: ?thesis if "handleUserRegist E addr p w = Option.bind (sendUserResponse E addr ?c code v) (\<lambda>(ok, w'). Some (code, w'))"
    "v = w\<lparr>app_db := y\<rparr>"
    "if 1 \<le> n then code = - 2 \<and> y = x
     else case one_update (sv_mysql E) (sql_user_regist u pw) x of (stored, d') \<Rightarrow>
       code = (if stored then 0 else - 1) \<and> settled (app_db w) y d'" for code v y
  proof -
    have "parsers_ok v" using that(2) assms(2) by simp
    then obtain ok w' where r: "reply_int E addr ?c code v = Some (ok, w')" using reply_after c by metis
    then have "app_db w' = y" "mUser w' = mUser w" "mDevice w' = mDevice w"
      using app_part_eq [OF reply_keeps(2) [OF r]] that(2) by simp_all
    with that r sx show ?thesis
      by (intro exI [of _ code] exI [of _ v] exI [of _ ok] exI [of _ w'] exI [of _ x])
        (auto simp: sendUserResponse_def split: prod.splits)
  qed
  show ?thesis
  proof (cases "1 \<le> n")
    case True
    then show ?thesis using assms(3,4) x by (intro answer) (simp_all add: handleUserRegist_def)
  next
    case False
    have ix: "db_inv (app_db (w\<lparr>app_db := x\<rparr>))" using sx by (simp add: settled_def)
    obtain okk d' where u: "one_update (sv_mysql E) (sql_user_regist u pw) x = (okk, d')" by fastforce
    obtain a w1 where a: "acquire E (w\<lparr>app_db := x\<rparr>) = Some (a, w1)"
      "if a = 0 then w1 = w\<lparr>app_db := x\<rparr> \<and> \<not> okk \<and> d' = db_server x
       else \<exists>w2 y. exec_on E a (sql_user_regist u pw) w1 = Some (if okk then 0 else - 1, w2) \<and>
         give a w2 = Some (w\<lparr>app_db := x\<rparr>\<lparr>app_db := y\<rparr>) \<and> settled x y d'"
      using update_on_access [OF ix, of E "sql_user_regist u pw" okk d'] u by (auto cong: if_cong)
    show ?thesis
    proof (cases "a = 0")
      case True
      then show ?thesis
        using False a assms(3,4) x u sx by (intro answer [of "- 1"]) (simp_all add: handleUserRegist_def settled_def)
    next
      case False': False
      then obtain w2 y where y: "exec_on E a (sql_user_regist u pw) w1 = Some (if okk then 0 else - 1, w2)"
        "give a w2 = Some (w\<lparr>app_db := y\<rparr>)" "settled x y d'"
        using a(2) by auto
      have "settled (app_db w) y d'" using y(3) sx by (simp add: settled_def)
      then show ?thesis
        using False False' a(1) y(1,2) assms(3,4) x u fits
        by (intro answer [of "if okk then 0 else - 1"]) (simp_all add: handleUserRegist_def)
    qed
  qed
qed

lemma login_request_account:
  "getUuidFromBuffer login_request = Some ''bob''" "getPasswordFromBuffer (drop 32 login_request) = Some ''secret''"
  using login_request_fields by simp_all

theorem registration_outcome_witness:
  "\<exists>w'. handleUserRegist (sample_services [] []) 7 login_request (sample_app [] []) = Some (- 2, w') \<and> mUser w' = []"
proof -
  let ?E = "sample_services [] []" and ?w = "sample_app [] []"
  have ok: "app_ok ?w" by (simp add: app_ok_def)
  obtain db1 where "GetNVDataAccess (quiet_mysql [] []) (empty_db []) = (1, db1)"
    using Get_empty_db by (metis prod.collapse)
  then obtain d where "one_question (sv_mysql ?E) (snprintf 200 (sql_user ''bob'')) (app_db ?w) = (1, d)"
    by (simp add: one_question_def quiet_server)
  from registration_outcome [OF ok sample_parsers login_request_account this, of 7] show ?thesis by auto
qed

text \<open>C11: A message for one user reaches this user, if the id of its sender is long enough. A message whose length
  field is right, for a user logged in at a known connection, is sent there, to nobody else, as one frame of the first
  32 bytes behind the sender's id pointer and the data; then the sender is told whether it could be sent. That needs 32
  bytes behind the pointer, which is the character array of a string: with an id of fewer than 31 characters the copy
  reads past it, and the result is not defined.\<close>

theorem message_reaches_user:
  assumes "table_ok (mUser w)" "om_find a (mUser w) = Some user" "a \<noteq> 0"
    and "om_find (GetAddressKey (bus_at w a)) (m_mapDevice w) = Some d" "m_pProtocolPaser d \<noteq> None"
    and "NUL \<notin> set user" "length user \<le> 32" "length x < 2 ^ 31 - 44" "40 \<le> n"
  shows "handleToUser E addr uuid n (user_message CMD_FLAG_USER_ONE user x @ tail) w =
    (if length uuid < 32 then None else
     case tcp_SendData (sv_write E) (mk_frame WIS_CMD_TO_USER (take 32 uuid @ x)) (m_DeviceAddress d) (tcp w) of
       (ok, t) \<Rightarrow> sendToUserResponse E addr WIS_CMD_TO_USER (if ok then 0 else - 1)
         (upd_device (GetAddressKey (bus_at w a)) (\<lambda>_. d) (w\<lparr>tcp := t\<rparr>)))"
proof (cases "length uuid < 32")
  case True
  then have "user_packet uuid q = None" for q
    by (simp add: user_packet_def rd_bytes_def UUID_LEN_def bind_eq_None_conv split: option.split)
  moreover have "getUserAddress user w = a" using getUserAddress_iff [OF assms(1,3)] assms(2) by simp
  ultimately show ?thesis
    using True user_message_fields [OF assms(6,7), of x CMD_FLAG_USER_ONE tail] assms(8,9)
    by (auto simp: handleToUser_def handleSendToOne_def cmd_flag_defs)
next
  case False
  let ?p = "user_message CMD_FLAG_USER_ONE user x @ tail"
  have "length x < 2 ^ 31" using assms(8) by simp
  note f = user_message_fields [OF assms(6,7) this, of CMD_FLAG_USER_ONE tail]
  have pk: "user_packet uuid ?p = Some (take 32 uuid @ x)"
    using f(3) assms(8) False by (simp add: user_packet_def UUID_LEN_def rd_bytes_def)
  have "getUserAddress user w = a" using getUserAddress_iff [OF assms(1,3)] assms(2) by simp
  moreover have "send E a WIS_CMD_TO_USER (Some (take 32 uuid @ x)) (int (length (take 32 uuid @ x))) w =
    (case tcp_SendData (sv_write E) (mk_frame WIS_CMD_TO_USER (take 32 uuid @ x)) (m_DeviceAddress d) (tcp w) of
       (ok, t) \<Rightarrow> Some (ok, upd_device (GetAddressKey (bus_at w a)) (\<lambda>_. d) (w\<lparr>tcp := t\<rparr>)))"
    using dm_SendData_known [OF assms(4) _ _ _ assms(5), of WIS_CMD_TO_USER "take 32 uuid @ x" "sv_write E" "[]"] assms(8) False
    by (simp add: send_def unite_SendData_def wis_cmd_defs note_kickout_def)
  ultimately have "handleSendToOne E addr uuid ?p w =
    (case tcp_SendData (sv_write E) (mk_frame WIS_CMD_TO_USER (take 32 uuid @ x)) (m_DeviceAddress d) (tcp w) of
       (ok, t) \<Rightarrow> sendToUserResponse E addr WIS_CMD_TO_USER (if ok then 0 else - 1)
         (upd_device (GetAddressKey (bus_at w a)) (\<lambda>_. d) (w\<lparr>tcp := t\<rparr>)))"
    using f(2) pk assms(3) by (simp add: handleSendToOne_def Let_def split: prod.splits)
  then show ?thesis using f(1) assms(9) False by (simp add: handleToUser_def cmd_flag_defs)
qed

theorem message_reaches_user_witness:
  "\<exists>v. handleToUser (sample_services [] []) 8 (replicate 32 CHR ''d'') 42
      (user_message CMD_FLAG_USER_ONE ''bob'' ''hi'' @ []) (sample_app [(7, ''bob'')] []) =
      sendToUserResponse (sample_services [] []) 8 WIS_CMD_TO_USER 0 v \<and>
    frames v = [(9, mk_frame WIS_CMD_TO_USER (replicate 32 CHR ''d'' @ ''hi''))]"
proof -
  let ?w = "sample_app [(7, ''bob'')] []"
  have t: "table_ok (mUser ?w)" by (simp add: table_ok_def om_wf_def)
  have k: "om_find (GetAddressKey (bus_at ?w 7)) (m_mapDevice ?w) = Some (CDevice_new 7)"
    by (simp add: sample_bus sample_keys sample_device)
  let ?t = "(tcp sample_world)\<lparr>tcp_net := (tcp_net (tcp sample_world))\<lparr>sent :=
    [(9, mk_frame WIS_CMD_TO_USER (replicate 32 CHR ''d'' @ ''hi''))]\<rparr>\<rparr>"
  show ?thesis
    using message_reaches_user [OF t _ _ k, of "''bob''" "''hi''" 42 "sample_services [] []" 8 "replicate 32 CHR ''d''" "[]"]
    by (intro exI [of _ "upd_device (GetAddressKey (bus_at ?w 7)) (\<lambda>_. CDevice_new 7) (?w\<lparr>tcp := ?t\<rparr>)"])
      (simp add: CDevice_new_parser sample_send frames_def)
qed

text \<open>Senders with short ids read past their id. When the id of the sending device has fewer than 31
  characters, forwarding a message to one user or to all users copies 32 bytes from a string buffer that
  is shorter: there is no defined result.\<close>

lemma short_sender_overreads:
  assumes "length dev < 31" "flag = CMD_FLAG_USER_ONE \<or> flag = CMD_FLAG_USER_ALL" "40 \<le> n" "rd32 pk 0 = Some flag"
  shows "handleToUser E addr (dev @ [NUL]) n pk w = None"
proof -
  have "rd_bytes (dev @ [NUL]) 0 UUID_LEN = None"
    using assms(1) by (simp add: rd_bytes_def UUID_LEN_def)
  then have "user_packet (dev @ [NUL]) pk = None" by (simp add: user_packet_def bind_eq_None_conv split: option.split)
  then show ?thesis
    using assms(2-4) by (auto simp: handleToUser_def handleSendToOne_def handleSendToAll_def cmd_flag_defs)
qed


text \<open>Any user can rename a logged-in device. A command of a user for a device is passed on with the
  command number the user chose. With the number of a device login reply and a payload of 1 and a name,
  it passes through the login bookkeeping of the server: from then on the target's connection counts as
  logged in under that name, and the user is told that all went well.\<close>

lemma private_command_relabels:
  assumes "om_find (GetAddressKey (bus_at w a)) (m_mapDevice w) = Some d" "m_pProtocolPaser d \<noteq> None"
    and "getDeviceAddress dev w = a" "a \<noteq> 0" "NUL \<notin> set dev" "length dev \<le> 32" "NUL \<notin> set name" "length name \<le> 32"
    and "tcp_SendData (sv_write E) (mk_frame WIS_CMD_LOGIN (enc32 1)) (m_DeviceAddress d) (tcp w) = (True, t)"
  shows "handleUserPrivate E addr uuid n
      (pad_to 32 dev @ enc32 WIS_CMD_LOGIN @ enc32 36 @ enc32 1 @ pad_to 32 name) w =
    sendUserPrivateResponse E addr 0 (upd_device (GetAddressKey (bus_at w a))
      (\<lambda>_. d\<lparr>m_isLogined := True, m_loginType := TYPE_DEVICE, m_uuid := name\<rparr>) (w\<lparr>tcp := t\<rparr>))"
proof -
  let ?p = "pad_to 32 dev @ enc32 WIS_CMD_LOGIN @ enc32 36 @ enc32 1 @ pad_to 32 name"
  have d: "drop 40 ?p = enc32 1 @ pad_to 32 name" by simp
  have "getUuidFromBuffer ?p = Some dev"
    using buf_string_pad_to [OF assms(5,6)] by (simp add: getUuidFromBuffer_def UUID_LEN_def)
  moreover have "rd32 ?p 32 = Some WIS_CMD_LOGIN" "rd32 ?p 36 = Some 36"
    by (simp_all add: mem_simps rd32_def rd_bytes_def)
  moreover have "getUuidFromBuffer (drop 40 ?p) \<noteq> None"
    by (simp add: d getUuidFromBuffer_def buf_string_def UUID_LEN_def)
  then obtain u where "getUuidFromBuffer (drop 40 ?p) = Some u" by blast
  moreover have "send E a WIS_CMD_LOGIN (Some (enc32 1 @ pad_to 32 name)) 36 w =
    Some (True, upd_device (GetAddressKey (bus_at w a))
      (\<lambda>_. d\<lparr>m_isLogined := True, m_loginType := TYPE_DEVICE, m_uuid := name\<rparr>) (w\<lparr>tcp := t\<rparr>))"
    using dm_SendData_login [OF assms(1,2,7,8), of WIS_CMD_LOGIN 1 TYPE_DEVICE "sv_write E"] assms(9)
    by (simp add: send_def unite_SendData_def)
  ultimately show ?thesis
    using assms(3,4) d by (simp add: handleUserPrivate_def Let_def)
qed


end
