(* ===== verification/Badge_Timer.thy ===== *)
theory Badge_Timer
  imports Prelude
begin

text \<open>
  Two small services: \<open>WisBadgeCache\<close> (APNS), the badge number per push token, and
  \<open>TimerThread\<close> (timer), the list of periodic timers one thread counts down once a second.

  Badge numbers are C \<open>int\<close>s: a sum that does not fit has no result. The timers live in a store
  indexed by their address; the list holds addresses and may hold one twice. A callback is an
  argument of \<open>run_tick\<close> that changes the rest of the program only: registering a timer from a
  callback would lock the mutex twice, unregistering one there pulls the iterator of the loop away,
  neither is modelled.
\<close>

section \<open>\<open>WisBadgeCache\<close>\<close>

type_synonym badge_map = "(bytes \<times> int) list"

definition fits_int :: "int \<Rightarrow> bool" where
  "fits_int i \<longleftrightarrow> - (2 ^ 31) \<le> i \<and> i < 2 ^ 31"

definition getBadge :: "bytes \<Rightarrow> badge_map \<Rightarrow> int" where
  "getBadge token m = (case om_find token m of Some n \<Rightarrow> n | None \<Rightarrow> 1)"

definition addBadge :: "bytes \<Rightarrow> int \<Rightarrow> badge_map \<Rightarrow> badge_map option" where
  "addBadge token num m =
     (case om_find token m of
        Some n \<Rightarrow> if fits_int (n + num) then Some (om_set token (n + num) m) else None
      | None \<Rightarrow> Some (om_set token num m))"

definition setBadge :: "bytes \<Rightarrow> int \<Rightarrow> badge_map \<Rightarrow> badge_map" where
  "setBadge token num m = om_set token num m"

definition delBadge :: "bytes \<Rightarrow> badge_map \<Rightarrow> badge_map" where
  "delBadge token m = om_erase token m"

fun addBadges :: "bytes \<Rightarrow> int list \<Rightarrow> badge_map \<Rightarrow> badge_map option" where
  "addBadges token [] m = Some m"
| "addBadges token (n # ns) m = Option.bind (addBadge token n m) (addBadges token ns)"

lemma getBadge_simps:
  "getBadge u (setBadge t n m) = (if u = t then n else getBadge u m)"
  "getBadge u (delBadge t m) = (if u = t then 1 else getBadge u m)"
  by (simp_all add: getBadge_def setBadge_def delBadge_def om_lookup)

lemma addBadges_spec:
  assumes "om_find t m = Some a" "\<And>k. k \<le> length ns \<Longrightarrow> fits_int (a + sum_list (take k ns))"
  shows "\<exists>m'. addBadges t ns m = Some m' \<and> om_find t m' = Some (a + sum_list ns) \<and>
    (\<forall>u. u \<noteq> t \<longrightarrow> om_find u m' = om_find u m)"
  using assms
proof (induction ns arbitrary: m a)
  case (Cons n ns)
  have "fits_int (a + n)" using Cons.prems(2) [of 1] by simp
  then have add: "addBadge t n m = Some (om_set t (a + n) m)" using Cons.prems(1) by (simp add: addBadge_def)
  have "fits_int (a + n + sum_list (take k ns))" if "k \<le> length ns" for k
    using Cons.prems(2) [of "Suc k"] that by (simp add: add.assoc)
  then obtain m' where "addBadges t ns (om_set t (a + n) m) = Some m'"
    "om_find t m' = Some (a + n + sum_list ns)" "\<forall>u. u \<noteq> t \<longrightarrow> om_find u m' = om_find u (om_set t (a + n) m)"
    using Cons.IH [of "om_set t (a + n) m" "a + n"] by (auto simp: om_lookup)
  with add show ?case by (simp add: om_lookup add.assoc)
qed simp

section \<open>\<open>TimerThread\<close>\<close>

record timer =
  tm_args :: ptr
  tm_interval :: int
  leftsecs :: int

record timers =
  timer_list :: "ptr list"
  timer_at :: "ptr \<Rightarrow> timer"

definition Timer_open :: "int \<Rightarrow> ptr \<Rightarrow> timer" where
  "Timer_open interval args = \<lparr>tm_args = args, tm_interval = interval, leftsecs = interval\<rparr>"

definition Timer_less :: "timer \<Rightarrow> timer \<Rightarrow> bool" where
  "Timer_less this other \<longleftrightarrow> leftsecs other < leftsecs this"

definition Timer_eq :: "timer \<Rightarrow> timer \<Rightarrow> bool" where
  "Timer_eq this other \<longleftrightarrow> leftsecs other = leftsecs this"

definition timer_Register :: "ptr \<Rightarrow> timers \<Rightarrow> timers" where
  "timer_Register p ts = ts\<lparr>timer_list := timer_list ts @ [p]\<rparr>"

definition timer_unRegister :: "ptr \<Rightarrow> timers \<Rightarrow> timers" where
  "timer_unRegister p ts = ts\<lparr>timer_list := remove1 p (timer_list ts)\<rparr>"

definition tick_one :: "(ptr \<Rightarrow> 'w \<Rightarrow> 'w) \<Rightarrow> ptr \<Rightarrow> timers \<times> 'w \<Rightarrow> timers \<times> 'w" where
  "tick_one callback p s =
     (case s of (ts, w) \<Rightarrow>
        let t = (timer_at ts p)\<lparr>leftsecs := leftsecs (timer_at ts p) - 1\<rparr> in
        if leftsecs t = 0
        then (ts\<lparr>timer_at := (timer_at ts)(p := t\<lparr>leftsecs := tm_interval t\<rparr>)\<rparr>, callback (tm_args t) w)
        else (ts\<lparr>timer_at := (timer_at ts)(p := t)\<rparr>, w))"

definition run_tick :: "(ptr \<Rightarrow> 'w \<Rightarrow> 'w) \<Rightarrow> timers \<times> 'w \<Rightarrow> timers \<times> 'w" where
  "run_tick callback s = fold (tick_one callback) (timer_list (fst s)) s"

text \<open>What one second does to the timer at \<open>p\<close>, and how often it fires (0 or 1).\<close>

definition after_second :: "timer \<Rightarrow> timer" where
  "after_second t = t\<lparr>leftsecs := (if leftsecs t - 1 = 0 then tm_interval t else leftsecs t - 1)\<rparr>"

definition log_call :: "ptr \<Rightarrow> ptr list \<Rightarrow> ptr list" where
  "log_call args calls = calls @ [args]"

lemma tick_one_at: "timer_at (fst (tick_one cb q s)) p =
  (if p = q then after_second (timer_at (fst s) p) else timer_at (fst s) p)"
  by (auto simp: tick_one_def Let_def after_second_def split: prod.split)

lemma tick_one_list [simp]: "timer_list (fst (tick_one cb q s)) = timer_list (fst s)"
  by (auto simp: tick_one_def Let_def split: prod.split)

lemma fold_tick_list [simp]: "timer_list (fst (fold (tick_one cb) ps s)) = timer_list (fst s)"
  by (induction ps arbitrary: s) auto

lemma fold_tick_at: "distinct ps \<Longrightarrow> timer_at (fst (fold (tick_one cb) ps s)) p =
  (if p \<in> set ps then after_second (timer_at (fst s) p) else timer_at (fst s) p)"
  by (induction ps arbitrary: s) (auto simp: tick_one_at)

text \<open>How often a call with argument \<open>a\<close> is logged.\<close>

lemma count_tick_one: "count_list (snd (tick_one log_call q s)) a = count_list (snd s) a +
  (if leftsecs (timer_at (fst s) q) = 1 \<and> tm_args (timer_at (fst s) q) = a then 1 else 0)"
  by (auto simp: tick_one_def Let_def log_call_def split: prod.split)

lemma tick_one_args: "tm_args (timer_at (fst (tick_one cb q s)) r) = tm_args (timer_at (fst s) r)"
  by (simp add: tick_one_at after_second_def)

lemma count_fold_tick:
  assumes "distinct ps" "tm_args (timer_at (fst s) p) = a"
    and "\<forall>q \<in> set ps. q \<noteq> p \<longrightarrow> tm_args (timer_at (fst s) q) \<noteq> a"
  shows "count_list (snd (fold (tick_one log_call) ps s)) a =
    count_list (snd s) a + (if p \<in> set ps \<and> leftsecs (timer_at (fst s) p) = 1 then 1 else 0)"
  using assms
proof (induction ps arbitrary: s)
  case (Cons q ps)
  let ?s = "tick_one log_call q s"
  have IH: "count_list (snd (fold (tick_one log_call) ps ?s)) a = count_list (snd ?s) a +
      (if p \<in> set ps \<and> leftsecs (timer_at (fst ?s) p) = 1 then 1 else 0)"
    using Cons.prems by (intro Cons.IH) (simp_all add: tick_one_args)
  show ?case
  proof (cases "q = p")
    case True
    then have "p \<notin> set ps" using Cons.prems(1) by simp
    then show ?thesis using IH True Cons.prems(2) by (simp add: count_tick_one)
  next
    case False
    then have "tm_args (timer_at (fst s) q) \<noteq> a" "timer_at (fst ?s) p = timer_at (fst s) p"
      using Cons.prems(3) by (simp_all add: tick_one_at)
    then show ?thesis using IH False by (simp add: count_tick_one)
  qed
qed simp

lemma run_tick_timer:
  assumes "distinct (timer_list (fst s))" "p \<in> set (timer_list (fst s))"
  shows "timer_at (fst (run_tick cb s)) p = after_second (timer_at (fst s) p)"
    "timer_list (fst (run_tick cb s)) = timer_list (fst s)"
    "tm_args (timer_at (fst (run_tick cb s)) q) = tm_args (timer_at (fst s) q)"
  using assms by (auto simp: run_tick_def fold_tick_at after_second_def)

lemma count_run_tick:
  assumes "distinct (timer_list (fst s))" "p \<in> set (timer_list (fst s))" "tm_args (timer_at (fst s) p) = a"
    and "\<And>q. q \<in> set (timer_list (fst s)) \<Longrightarrow> q \<noteq> p \<Longrightarrow> tm_args (timer_at (fst s) q) \<noteq> a"
  shows "count_list (snd (run_tick log_call s)) a =
    count_list (snd s) a + (if leftsecs (timer_at (fst s) p) = 1 then 1 else 0)"
  using count_fold_tick [OF assms(1,3)] assms(2,4) by (simp add: run_tick_def)

text \<open>After setting a token's badge and adding numbers (no partial sum leaving the range of \<open>int\<close>), its
  badge is the sum, and no other token's badge has changed.\<close>

lemma badges_add_up:
  assumes "\<And>k. k \<le> length ns \<Longrightarrow> fits_int (a + sum_list (take k ns))"
  shows "\<exists>m'. addBadges t ns (setBadge t a m) = Some m' \<and> getBadge t m' = a + sum_list ns \<and>
    (\<forall>u. u \<noteq> t \<longrightarrow> getBadge u m' = getBadge u m)"
proof -
  have "om_find t (setBadge t a m) = Some a" by (simp add: setBadge_def om_lookup)
  then obtain m' where "addBadges t ns (setBadge t a m) = Some m'" "om_find t m' = Some (a + sum_list ns)"
    "\<forall>u. u \<noteq> t \<longrightarrow> om_find u m' = om_find u (setBadge t a m)"
    using addBadges_spec [of t "setBadge t a m" a ns] assms by blast
  then show ?thesis by (simp add: getBadge_def setBadge_def om_lookup)
qed

section \<open>Properties\<close>

text \<open>Timers are periodic. A timer in the list that has just been opened with an interval of
  \<open>n > 0\<close> seconds has fired \<open>k div n\<close> times after \<open>k\<close> seconds, whatever the other timers do.\<close>

lemma timer_is_periodic:
  assumes "distinct (timer_list ts)" "p \<in> set (timer_list ts)" "timer_at ts p = Timer_open (int n) a" "0 < n"
    and "\<And>q. q \<in> set (timer_list ts) \<Longrightarrow> q \<noteq> p \<Longrightarrow> tm_args (timer_at ts q) \<noteq> a"
  shows "count_list (snd ((run_tick log_call ^^ k) (ts, []))) a = k div n \<and>
    leftsecs (timer_at (fst ((run_tick log_call ^^ k) (ts, []))) p) = int n - int (k mod n)"
proof -
  let ?s = "\<lambda>k. (run_tick log_call ^^ k) (ts, [])"
  have "timer_list (fst (?s k)) = timer_list ts \<and>
    (\<forall>q. tm_args (timer_at (fst (?s k)) q) = tm_args (timer_at ts q)) \<and>
    timer_at (fst (?s k)) p = \<lparr>tm_args = a, tm_interval = int n, leftsecs = int n - int (k mod n)\<rparr> \<and>
    count_list (snd (?s k)) a = k div n"
  proof (induction k)
    case 0
    then show ?case using assms(3) by (simp add: Timer_open_def)
  next
    case (Suc k)
    have l: "distinct (timer_list (fst (?s k)))" "p \<in> set (timer_list (fst (?s k)))"
      using Suc assms by auto
    have a: "tm_args (timer_at (fst (?s k)) p) = a" using Suc by simp
    have c: "count_list (snd (?s (Suc k))) a = count_list (snd (?s k)) a +
        (if leftsecs (timer_at (fst (?s k)) p) = 1 then 1 else 0)"
    proof -
      have "tm_args (timer_at (fst (?s k)) q) \<noteq> a" if "q \<in> set (timer_list (fst (?s k)))" "q \<noteq> p" for q
        using Suc assms(5) that by simp
      then show ?thesis using count_run_tick [OF l a] by simp
    qed
    have lt: "k mod n < n" using assms(4) by simp
    have fire: "int n - int (k mod n) = 1 \<longleftrightarrow> Suc (k mod n) = n" using lt by linarith
    show ?case
      using run_tick_timer [OF l, of log_call] Suc c fire lt
      by (auto simp: after_second_def mod_Suc div_Suc)
  qed
  then show ?thesis by simp
qed


end
