(* ===== verification/Runtime.thy ===== *)
theory Runtime
  imports Prelude
begin

text \<open>
  Small wrappers around the runtime: the log manager and its macros (libLog4cxx), the event loop
  \<open>EventBase\<close>, the names of jobs and the base class of threads (libEventMoudle), and the thread of the
  timer (timer). The libraries behind them, log4cxx, libevent and pthreads, are parameters. Apart from the timer thread the
  server's results do not depend on them.
\<close>

section \<open>\<open>CZxLogManager\<close>\<close>

datatype log_level = LEVEL_DEBUG | LEVEL_INFO | LEVEL_WARN | LEVEL_ERROR | LEVEL_FATAL

text \<open>The static members, and what went to log4cxx: configurations and lines.\<close>

record log_manager =
  log_initialized :: bool
  log_logger :: "(bytes \<times> bytes) option"
  log_lines :: "(log_level \<times> bytes) list"

definition log_Init :: "bytes \<Rightarrow> bytes \<Rightarrow> log_manager \<Rightarrow> int \<times> log_manager" where
  "log_Init configFile loggerName m =
     (0, m\<lparr>log_logger := Some (configFile, loggerName), log_initialized := True\<rparr>)"

definition log_DeInit :: "log_manager \<Rightarrow> log_manager" where
  "log_DeInit m = m\<lparr>log_initialized := False\<rparr>"

text \<open>A value of \<open>LOG_LEVEL\<close> is one of its constants, so the default branch is never taken.\<close>

definition LogTo :: "bytes \<Rightarrow> log_level \<Rightarrow> log_manager \<Rightarrow> int \<times> log_manager" where
  "LogTo logInfo level m =
     (if \<not> log_initialized m then (- 1, m)
      else (0, m\<lparr>log_lines := log_lines m @ [(level, logInfo)]\<rparr>))"

text \<open>The log macros of a build with \<open>DEBUG\<close>: \<open>text\<close> is what the format and its arguments print, which
  \<open>sprintf\<close> writes with a newline and a NUL into an array of \<open>LOG_MAX_LEN\<close> bytes.\<close>

definition LOG_MAX_LEN :: nat where "LOG_MAX_LEN = 4096 * 4"

definition log_macro :: "log_level \<Rightarrow> bytes \<Rightarrow> log_manager \<Rightarrow> log_manager option" where
  "log_macro level text m =
     (if length text + 2 > LOG_MAX_LEN then None
      else Some (snd (LogTo (text @ [CHR 0x0A]) level m)))"

definition LOG_INFO :: "bytes \<Rightarrow> log_manager \<Rightarrow> log_manager option" where
  "LOG_INFO text m = log_macro LEVEL_INFO text m"

text \<open>The other macros put function, file and line in front.\<close>

definition log_prefix :: "bytes \<Rightarrow> bytes \<Rightarrow> nat \<Rightarrow> bytes" where
  "log_prefix func file line = ''['' @ func @ ''@'' @ file @ '','' @ show_nat line @ '']:''"

definition LOG_DEBUG :: "bytes \<Rightarrow> bytes \<Rightarrow> nat \<Rightarrow> bytes \<Rightarrow> log_manager \<Rightarrow> log_manager option" where
  "LOG_DEBUG func file line text m = log_macro LEVEL_DEBUG (log_prefix func file line @ text) m"

definition LOG_WARN :: "bytes \<Rightarrow> bytes \<Rightarrow> nat \<Rightarrow> bytes \<Rightarrow> log_manager \<Rightarrow> log_manager option" where
  "LOG_WARN func file line text m = log_macro LEVEL_WARN (log_prefix func file line @ text) m"

definition LOG_ERROR :: "bytes \<Rightarrow> bytes \<Rightarrow> nat \<Rightarrow> bytes \<Rightarrow> log_manager \<Rightarrow> log_manager option" where
  "LOG_ERROR func file line text m = log_macro LEVEL_ERROR (log_prefix func file line @ text) m"

definition LOG_FATAL :: "bytes \<Rightarrow> bytes \<Rightarrow> nat \<Rightarrow> bytes \<Rightarrow> log_manager \<Rightarrow> log_manager option" where
  "LOG_FATAL func file line text m = log_macro LEVEL_FATAL (log_prefix func file line @ text) m"

definition TRACE_IN :: "bytes \<Rightarrow> bytes \<Rightarrow> nat \<Rightarrow> log_manager \<Rightarrow> log_manager option" where
  "TRACE_IN func file line m = LOG_DEBUG func file line (''trace in '' @ func) m"

definition TRACE_OUT :: "bytes \<Rightarrow> bytes \<Rightarrow> nat \<Rightarrow> log_manager \<Rightarrow> log_manager option" where
  "TRACE_OUT func file line m = LOG_DEBUG func file line (''trace out '' @ func) m"

section \<open>\<open>EventBase\<close>\<close>

record 'd event_lib =
  event_base_new :: "'d \<Rightarrow> ptr \<times> 'd"
  event_base_set :: "ptr \<Rightarrow> ptr \<Rightarrow> 'd \<Rightarrow> 'd"
  event_add :: "ptr \<Rightarrow> 'd \<Rightarrow> int \<times> 'd"
  event_del :: "ptr \<Rightarrow> 'd \<Rightarrow> int \<times> 'd"
  event_base_dispatch :: "ptr \<Rightarrow> 'd \<Rightarrow> int \<times> 'd"
  event_base_free :: "ptr \<Rightarrow> 'd \<Rightarrow> 'd"

record event_loop =
  el_base :: ptr
  isRun :: bool

definition EventBase_new :: "'d event_lib \<Rightarrow> 'd \<Rightarrow> event_loop \<times> 'd" where
  "EventBase_new L d = (case event_base_new L d of (b, d') \<Rightarrow> (\<lparr>el_base = b, isRun = False\<rparr>, d'))"

definition EventBase_delete :: "'d event_lib \<Rightarrow> event_loop \<Rightarrow> 'd \<Rightarrow> 'd" where
  "EventBase_delete L e d = event_base_free L (el_base e) d"

definition addEvent :: "'d event_lib \<Rightarrow> ptr \<Rightarrow> event_loop \<Rightarrow> 'd \<Rightarrow> int \<times> 'd" where
  "addEvent L events e d = event_add L events (event_base_set L (el_base e) events d)"

definition delEvent :: "'d event_lib \<Rightarrow> ptr \<Rightarrow> 'd \<Rightarrow> int \<times> 'd" where
  "delEvent L events d = event_del L events d"

definition getStatus :: "event_loop \<Rightarrow> bool" where
  "getStatus e = isRun e"

definition setStatus :: "bool \<Rightarrow> event_loop \<Rightarrow> event_loop" where
  "setStatus run e = e\<lparr>isRun := run\<rparr>"

text \<open>The status is set when the loop has ended: it is dispatched once.\<close>

definition startRun :: "'d event_lib \<Rightarrow> event_loop \<Rightarrow> 'd \<Rightarrow> int \<times> event_loop \<times> 'd" where
  "startRun L e d =
     (let (ret, d') = (if \<not> getStatus e then event_base_dispatch L (el_base e) d else (0, d))
      in (ret, setStatus True e, d'))"

section \<open>\<open>CJob\<close> and \<open>tThread\<close>\<close>

record cjob =
  m_JobNo :: int
  m_JobName :: "bytes option"

definition CJob_new :: cjob where
  "CJob_new = \<lparr>m_JobNo = 0, m_JobName = None\<rparr>"

definition SetJobName :: "bytes \<Rightarrow> cjob \<Rightarrow> cjob" where
  "SetJobName jobname j = j\<lparr>m_JobName := Some (c_str jobname @ [NUL])\<rparr>"

text \<open>\<open>rc\<close> is the result of \<open>pthread_create\<close>.\<close>

definition tThread_start :: "int \<Rightarrow> int" where
  "tThread_start rc = (if rc < 0 then - 1 else 0)"

section \<open>\<open>CThread\<close>\<close>

text \<open>\<open>m_Thread\<close> is \<open>None\<close> when the \<open>std::thread\<close> stands for no thread, as after \<open>detach\<close> and \<open>join\<close>, which throw
  then; its \<open>get_id\<close> is the id of no thread, \<open>None\<close>.\<close>

record cthread =
  m_Thread :: "nat option"
  m_ThreadID :: "nat option"

datatype thread_error = Invalid_argument

text \<open>\<open>ThreadFunction\<close> calls the virtual \<open>Run\<close>. \<open>constructed\<close>: the derived part of the object exists, so that the
  call reaches the \<open>Run\<close> of the derived class, \<open>run\<close>; before, \<open>Run\<close> is pure virtual and the program ends. The
  constructor of a worker's base class starts the thread, so the schedule decides which it is.\<close>

definition ThreadFunction :: "bool \<Rightarrow> 'r \<Rightarrow> 'r option" where
  "ThreadFunction constructed run = (if constructed then Some run else None)"

definition Detach :: "cthread \<Rightarrow> thread_error + cthread" where
  "Detach t = (if m_Thread t = None then Inl Invalid_argument else Inr (t\<lparr>m_Thread := None\<rparr>))"

definition Join :: "cthread \<Rightarrow> thread_error + cthread" where
  "Join t = (if m_Thread t = None then Inl Invalid_argument else Inr (t\<lparr>m_Thread := None\<rparr>))"

definition Self :: "cthread \<Rightarrow> nat option" where
  "Self t = m_Thread t"

definition CThread_new :: "nat \<Rightarrow> cthread" where
  "CThread_new tid = \<lparr>m_Thread = None, m_ThreadID = Some tid\<rparr>"

text \<open>With \<open>detach\<close> false the constructor waits for the thread, inside which \<open>Run\<close> is called while the derived part
  does not exist.\<close>

definition CThread_new_detach :: "bool \<Rightarrow> nat \<Rightarrow> cthread option" where
  "CThread_new_detach detach tid =
     (if detach then Some (CThread_new tid) else map_option (\<lambda>_. CThread_new tid) (ThreadFunction False ()))"

section \<open>What they do\<close>

text \<open>No constructor leaves a thread that can be waited for, so \<open>Join\<close> and \<open>Detach\<close> throw, and \<open>Self\<close> is not the id that
  \<open>GetThreadID\<close> gives.\<close>

lemma constructed_thread_is_detached:
  assumes "CThread_new_detach detach tid = Some t"
  shows "detach \<and> t = CThread_new tid \<and> Join t = Inl Invalid_argument \<and> Detach t = Inl Invalid_argument \<and>
    Self t \<noteq> m_ThreadID t"
  using assms
  by (auto simp: CThread_new_detach_def ThreadFunction_def CThread_new_def Join_def Detach_def Self_def split: if_splits)

text \<open>A line that is too long for the array of the macro is written behind it.\<close>

lemma long_log_line_overflows: "LOG_INFO text m = None \<longleftrightarrow> 16382 < length text"
  by (auto simp: LOG_INFO_def log_macro_def LOG_MAX_LEN_def)

text \<open>Nothing is logged before \<open>Init\<close> and after \<open>DeInit\<close>.\<close>

lemma no_log_without_init:
  "\<not> log_initialized m \<Longrightarrow> log_macro level text m \<noteq> None \<Longrightarrow> log_macro level text m = Some m"
  "LogTo text level (log_DeInit m) = (- 1, log_DeInit m)"
  by (simp_all add: log_macro_def LogTo_def log_DeInit_def split: if_splits)

text \<open>A second start does not run the loop again.\<close>

lemma startRun_once:
  assumes "startRun L e d = (r, e', d')"
  shows "startRun L e' d'' = (0, e', d'')"
  using assms by (auto simp: startRun_def getStatus_def setStatus_def split: prod.splits if_splits)

text \<open>\<open>pthread_create\<close> reports errors as positive numbers, so a thread that could not be created is
  reported as started.\<close>

lemma start_hides_errors: "0 \<le> rc \<Longrightarrow> tThread_start rc = 0"
  by (simp add: tThread_start_def)

end
