(* ===== verification/Xml_Parse.thy ===== *)
theory Xml_Parse
  imports Xml_Doc
begin

text \<open>
  The parser of tinyXML (tinyXml/src/tinyxmlparser.cpp): \<open>Identify\<close>, \<open>Parse\<close> of every node type and of
  the document, and \<open>LoadFile\<close> (tinyXml/src/tinyxml.cpp).

  A \<open>Parse\<close> function takes and returns a \<open>cptr\<close>, what it read, and the error state of the document
  together with the parsing data (\<open>parse_state\<close>). \<open>Element_Parse\<close> and \<open>ReadValue\<close> call each other; their
  first argument bounds the depth of the calls. The last section shows that the bound \<open>LoadFile\<close> takes,
  the length of the text plus two, is never met, so that the model returns whenever the code does.
\<close>

type_synonym parse_state = "error_state \<times> parsing_data"

definition at_deadline :: "cptr \<Rightarrow> bool" where
  "at_deadline p \<longleftrightarrow> p = At [] \<or> p = Beyond"

definition ended :: "bytes \<Rightarrow> bool" where
  "ended s \<longleftrightarrow> s = [] \<or> peek s 0 = NUL"

text \<open>\<open>data->Stamp( p, encoding )\<close>, and setting an error before returning the value \<open>r\<close>.\<close>

definition stamp_at :: "TiXmlEncoding \<Rightarrow> bytes \<Rightarrow> parse_state \<Rightarrow> parse_state run" where
  "stamp_at enc s st = and_then (Stamp enc s (snd st)) (\<lambda>pd. Inr (fst st, pd))"

definition fail_at :: "TiXmlEncoding \<Rightarrow> xml_error \<Rightarrow> bytes option \<Rightarrow> 'r \<Rightarrow> parse_state \<Rightarrow> ('r \<times> parse_state) run" where
  "fail_at enc err pError r st = and_then (SetError enc err pError st) (\<lambda>st'. Inr (r, st'))"

section \<open>What a node is\<close>

datatype node_kind = K_DECLARATION | K_COMMENT | K_CDATA | K_UNKNOWN | K_ELEMENT

definition Identify :: "TiXmlEncoding \<Rightarrow> cptr \<Rightarrow> node_kind option" where
  "Identify enc p0 =
     (if at_deadline p0 then None
      else case SkipWhiteSpace enc p0 of
        At s \<Rightarrow>
          if ended s \<or> peek s 0 \<noteq> CHR ''<'' then None
          else (case SkipWhiteSpace enc (At s) of
              At p \<Rightarrow>
                if ended p then None
                else if StringEqual True ''<?xml'' p then Some K_DECLARATION
                else if StringEqual False ''<!--'' p then Some K_COMMENT
                else if StringEqual False ''<![CDATA['' p then Some K_CDATA
                else if StringEqual False ''<!'' p then Some K_UNKNOWN
                else if IsAlpha (peek p 1) \<or> peek p 1 = CHR ''_'' then Some K_ELEMENT
                else Some K_UNKNOWN
            | _ \<Rightarrow> None)
      | _ \<Rightarrow> None)"

section \<open>Attributes\<close>

text \<open>A value without quotes: it ends at white space, a slash or a closing bracket; a quote in it is an
  error.\<close>

definition unquoted_char :: "char \<Rightarrow> bool" where
  "unquoted_char c \<longleftrightarrow> c \<noteq> NUL \<and> \<not> IsWhiteSpace c \<and> c \<noteq> CHR 0x0A \<and> c \<noteq> CHR 0x0D \<and>
     c \<noteq> CHR ''/'' \<and> c \<noteq> CHR ''>'' \<and> c \<noteq> CHR 0x27 \<and> c \<noteq> CHR 0x22"

text \<open>The name and value are those of the \<open>TiXmlAttribute\<close>, also when parsing fails. An attribute with no
  document (in a declaration) sets no errors.\<close>

definition attr_fail :: "bool \<Rightarrow> TiXmlEncoding \<Rightarrow> bytes option \<Rightarrow> bytes \<Rightarrow> bytes \<Rightarrow> parse_state \<Rightarrow>
    ((cptr \<times> bytes \<times> bytes) \<times> parse_state) run" where
  "attr_fail document enc pError name value st =
     (if document then fail_at enc TIXML_ERROR_READING_ATTRIBUTES pError (Null, name, value) st
      else Inr ((Null, name, value), st))"

definition Attribute_value :: "bool \<Rightarrow> TiXmlEncoding \<Rightarrow> bytes \<Rightarrow> bytes \<Rightarrow> parse_state \<Rightarrow>
    ((cptr \<times> bytes \<times> bytes) \<times> parse_state) run" where
  "Attribute_value document enc name p st =
     (if peek p 0 = CHR 0x27 then
        and_then (ReadText enc False squote False (At (drop 1 p))) (\<lambda>(q, value). Inr ((q, name, value), st))
      else if peek p 0 = CHR 0x22 then
        and_then (ReadText enc False dquote False (At (drop 1 p))) (\<lambda>(q, value). Inr ((q, name, value), st))
      else
        let value = takeWhile unquoted_char p; q = dropWhile unquoted_char p in
        if peek q 0 = CHR 0x27 \<or> peek q 0 = CHR 0x22
        then attr_fail document enc (Some q) name value st
        else Inr ((At q, name, value), st))"

definition Attribute_Parse :: "bool \<Rightarrow> TiXmlEncoding \<Rightarrow> cptr \<Rightarrow> parse_state \<Rightarrow>
    ((cptr \<times> bytes \<times> bytes) \<times> parse_state) run" where
  "Attribute_Parse document enc p0 st0 =
     (if at_deadline p0 then Inr ((Null, [], []), st0)
      else case SkipWhiteSpace enc p0 of
        At s \<Rightarrow>
          if ended s then Inr ((Null, [], []), st0)
          else and_then (stamp_at enc s st0) (\<lambda>st.
            case ReadName s of
              None \<Rightarrow> attr_fail document enc (Some s) [] [] st
            | Some (name, t) \<Rightarrow>
                if ended t then attr_fail document enc (Some s) name [] st
                else (case SkipWhiteSpace enc (At t) of
                    At u \<Rightarrow>
                      if ended u \<or> peek u 0 \<noteq> CHR ''='' then attr_fail document enc (Some u) name [] st
                      else (case SkipWhiteSpace enc (At (drop 1 u)) of
                          At w \<Rightarrow>
                            if ended w then attr_fail document enc (Some w) name [] st
                            else Attribute_value document enc name w st
                        | _ \<Rightarrow> attr_fail document enc None name [] st)
                  | _ \<Rightarrow> attr_fail document enc None name [] st))
      | _ \<Rightarrow> Inr ((Null, [], []), st0))"

section \<open>Nodes without children\<close>

fun comment_loop :: "bytes \<Rightarrow> bytes \<Rightarrow> bytes \<times> bytes" where
  "comment_loop [] value = ([], value)"
| "comment_loop (c # s) value =
     (if c = NUL \<or> StringEqual False ''-->'' (c # s) then (c # s, value) else comment_loop s (value @ [c]))"

definition Comment_Parse :: "TiXmlEncoding \<Rightarrow> cptr \<Rightarrow> parse_state \<Rightarrow> ((cptr \<times> xml_node) \<times> parse_state) run" where
  "Comment_Parse enc p0 st0 =
     (case SkipWhiteSpace enc p0 of
        At p \<Rightarrow> and_then (stamp_at enc p st0) (\<lambda>st.
          if \<not> StringEqual False ''<!--'' p
          then fail_at enc TIXML_ERROR_PARSING_COMMENT (Some p) (Null, COMMENT []) st
          else case comment_loop (drop 4 p) [] of
              (q, value) \<Rightarrow> Inr ((adv 3 q, COMMENT value), st))
      | _ \<Rightarrow> Inl Undefined)"

definition Unknown_Parse :: "TiXmlEncoding \<Rightarrow> cptr \<Rightarrow> parse_state \<Rightarrow> ((cptr \<times> xml_node) \<times> parse_state) run" where
  "Unknown_Parse enc p0 st0 =
     (if at_deadline p0 then Inr ((Null, UNKNOWN []), st0)
      else case SkipWhiteSpace enc p0 of
        At p \<Rightarrow> and_then (stamp_at enc p st0) (\<lambda>st.
          if ended p \<or> peek p 0 \<noteq> CHR ''<''
          then fail_at enc TIXML_ERROR_PARSING_UNKNOWN (Some p) (Null, UNKNOWN []) st
          else
            let body = (\<lambda>c. c \<noteq> NUL \<and> c \<noteq> CHR ''>''); q = dropWhile body (drop 1 p) in
            Inr ((At (if peek q 0 = CHR ''>'' then drop 1 q else q), UNKNOWN (takeWhile body (drop 1 p))), st))
      | _ \<Rightarrow> Inl Undefined)"

text \<open>The loop over CDATA, which NULs do not end; \<open>None\<close> when the text ends before \<open>]]>\<close>.\<close>

fun cdata_loop :: "bytes \<Rightarrow> bytes \<Rightarrow> bytes option \<times> bytes" where
  "cdata_loop [] value = (None, value)"
| "cdata_loop (c # s) value =
     (if c \<noteq> NUL \<and> StringEqual False '']]>'' (c # s) then (Some (c # s), value)
      else cdata_loop s (value @ [c]))"

text \<open>Plain text ends before the bracket: \<open>p-1\<close> takes back the step \<open>ReadText\<close> makes over its end tag.\<close>

definition Text_Parse :: "bool \<Rightarrow> TiXmlEncoding \<Rightarrow> cptr \<Rightarrow> parse_state \<Rightarrow> ((cptr \<times> xml_node) \<times> parse_state) run" where
  "Text_Parse cdata enc p0 st0 =
     (if at_deadline p0 then Inr ((Null, TEXT cdata []), st0)
      else case p0 of
        At p \<Rightarrow> and_then (stamp_at enc p st0) (\<lambda>st.
          if cdata \<or> StringEqual False ''<![CDATA['' p then
            (if \<not> StringEqual False ''<![CDATA['' p
             then fail_at enc TIXML_ERROR_PARSING_CDATA (Some p) (Null, TEXT True []) st
             else case cdata_loop (drop 9 p) [] of
                 (None, value) \<Rightarrow> fail_at enc TIXML_ERROR_PARSING_CDATA (Some []) (Null, TEXT True value) st
               | (Some q, value) \<Rightarrow>
                   and_then (ReadText enc False '']]>'' False (At q)) (\<lambda>(r, dummy). Inr ((r, TEXT True value), st)))
          else
            and_then (ReadText_loop enc True ''<'' False (At p)) (\<lambda>(q, value). Inr ((q, TEXT False value), st)))
      | _ \<Rightarrow> Inl Undefined)"

section \<open>White space and attributes consume text\<close>

lemma skip_utf8_suffix: "\<exists>pre. s = pre @ skip_utf8 s"
proof (induction s rule: skip_utf8.induct)
  case (2 c s)
  consider "c = NUL" | "c \<noteq> NUL" "zero_width (c # s)" | "c \<noteq> NUL" "\<not> zero_width (c # s)" "IsWhiteSpace c"
    | "c \<noteq> NUL" "\<not> zero_width (c # s)" "\<not> IsWhiteSpace c" by blast
  then show ?case
  proof cases
    case 2
    with "2.IH"(1) obtain pre where "drop 2 s = pre @ skip_utf8 (drop 2 s)" by blast
    then have "c # s = (c # take 2 s @ pre) @ skip_utf8 (c # s)"
      using 2 append_take_drop_id [of 2 s] by simp
    then show ?thesis by blast
  next
    case 3
    with "2.IH"(2) obtain pre where "s = pre @ skip_utf8 s" by blast
    then have "c # s = (c # pre) @ skip_utf8 (c # s)" using 3 by simp
    then show ?thesis by blast
  qed simp_all
qed simp

lemma SkipWhiteSpace_suffix:
  assumes "SkipWhiteSpace enc (At s) = At t"
  shows "\<exists>pre. s = pre @ t"
proof (cases "enc = TIXML_ENCODING_UTF8")
  case True
  with assms skip_utf8_suffix show ?thesis by (auto simp: SkipWhiteSpace_def split: if_splits)
next
  case False
  with assms have "t = dropWhile IsWhiteSpace s" by (auto simp: SkipWhiteSpace_def split: if_splits)
  then show ?thesis by (metis takeWhile_dropWhile_id)
qed

lemma SkipWhiteSpace_le: "SkipWhiteSpace enc (At s) = At t \<Longrightarrow> length t \<le> length s"
  by (auto dest!: SkipWhiteSpace_suffix)

lemma SkipWhiteSpace_not_Beyond [simp]: "SkipWhiteSpace enc p \<noteq> Beyond"
  by (auto simp: SkipWhiteSpace_def split: cptr.splits)

lemma SkipWhiteSpace_nonspace:
  assumes "SkipWhiteSpace enc (At s) = At t" "t \<noteq> []"
  shows "\<not> IsWhiteSpace (peek t 0) \<or> peek t 0 = NUL"
proof (cases "enc = TIXML_ENCODING_UTF8")
  case True
  have "skip_utf8 s = [] \<or> \<not> IsWhiteSpace (peek (skip_utf8 s) 0) \<or> peek (skip_utf8 s) 0 = NUL" for s
    by (induction s rule: skip_utf8.induct) auto
  with True assms show ?thesis by (auto simp: SkipWhiteSpace_def split: if_splits)
next
  case False
  with assms have "t = dropWhile IsWhiteSpace s" by (auto simp: SkipWhiteSpace_def split: if_splits)
  with assms(2) have "\<not> IsWhiteSpace (hd t)" using hd_dropWhile by blast
  with assms(2) show ?thesis by (cases t) auto
qed

lemma IsWhiteSpace_NUL [simp]: "\<not> IsWhiteSpace NUL"
  by (simp add: IsWhiteSpace_def is_space_def)

lemma ReadName_Some: "ReadName s = Some (n, t) \<Longrightarrow> s = n @ t \<and> n \<noteq> []"
  by (cases s) (auto simp: ReadName_def name_char_def IsAlphaNum_def IsAlpha_def split: if_splits)

lemma ReadText_loop_le: "ReadText_loop enc trim tag ic (At s) = Inr (At t, v) \<Longrightarrow> length t \<le> length s"
proof -
  have kept: "read_kept enc tag ic s acc = Inr (At t, v) \<Longrightarrow> length t \<le> length s" for s acc
  proof (induction enc tag ic s acc rule: read_kept.induct)
    case (1 enc tag ic s acc)
    show ?case
      using 1 GetChar_progress [of enc s]
      by (subst (asm) read_kept.simps) (fastforce split: if_splits cptr.splits prod.splits)
  qed
  have condensed: "read_condensed enc tag ic ws s acc = Inr (At t, v) \<Longrightarrow> length t \<le> length s" for ws s acc
  proof (induction enc tag ic ws s acc rule: read_condensed.induct)
    case (1 enc tag ic ws s acc)
    show ?case
      using 1 GetChar_progress [of enc s]
      by (subst (asm) read_condensed.simps) (fastforce simp: Let_def split: if_splits cptr.splits prod.splits)
  qed
  assume "ReadText_loop enc trim tag ic (At s) = Inr (At t, v)"
  then show ?thesis
    by (auto simp: ReadText_loop_def split: if_splits cptr.splits
        dest: kept condensed dest!: SkipWhiteSpace_le)
qed

lemma ReadText_le: "ReadText enc trim tag ic (At s) = Inr (At t, v) \<Longrightarrow> length t \<le> length s"
proof -
  assume "ReadText enc trim tag ic (At s) = Inr (At t, v)"
  then obtain r where r: "ReadText_loop enc trim tag ic (At s) = Inr (r, v)"
    "(case r of At s \<Rightarrow> adv (length tag) s | _ \<Rightarrow> r) = At t"
    by (auto simp: ReadText_def and_then_Inr)
  then obtain q where "r = At q" "adv (length tag) q = At t" by (cases r) auto
  with r show ?thesis using ReadText_loop_le adv_At by fastforce
qed

lemma dropWhile_le: "length (dropWhile P s) \<le> length s"
  by (rule length_dropWhile_le)

lemma attr_fail_Null: "attr_fail document enc e n v st = Inr ((p, n', v'), st') \<Longrightarrow> p = Null"
  by (auto simp: attr_fail_def fail_at_def and_then_Inr split: if_splits)

lemma Attribute_value_le:
  "Attribute_value document enc name w st = Inr ((At q, n, v), st') \<Longrightarrow> length q \<le> length w"
  by (auto simp: Attribute_value_def Let_def and_then_Inr length_dropWhile_le split: if_splits
      dest!: ReadText_le attr_fail_Null)

lemma Attribute_Parse_progress:
  assumes "Attribute_Parse document enc (At s) st0 = Inr ((At q, n, v), st')"
  shows "length q < length s"
proof -
  from assms obtain t st where t: "SkipWhiteSpace enc (At s) = At t"
    and "(case ReadName t of
              None \<Rightarrow> attr_fail document enc (Some t) [] [] st
            | Some (name, u) \<Rightarrow>
                if ended u then attr_fail document enc (Some t) name [] st
                else (case SkipWhiteSpace enc (At u) of
                    At x \<Rightarrow>
                      if ended x \<or> peek x 0 \<noteq> CHR ''='' then attr_fail document enc (Some x) name [] st
                      else (case SkipWhiteSpace enc (At (drop 1 x)) of
                          At w \<Rightarrow>
                            if ended w then attr_fail document enc (Some w) name [] st
                            else Attribute_value document enc name w st
                        | _ \<Rightarrow> attr_fail document enc None name [] st)
                  | _ \<Rightarrow> attr_fail document enc None name [] st)) = Inr ((At q, n, v), st')"
    by (auto simp: Attribute_Parse_def and_then_Inr split: if_splits cptr.splits)
  then obtain name u x w where n: "ReadName t = Some (name, u)" and x: "SkipWhiteSpace enc (At u) = At x"
    and w: "SkipWhiteSpace enc (At (drop 1 x)) = At w" and v: "Attribute_value document enc name w st = Inr ((At q, n, v), st')"
    by (auto split: if_splits cptr.splits option.splits dest!: attr_fail_Null)
  have "length q \<le> length w" by (rule Attribute_value_le [OF v])
  also have "\<dots> \<le> length (drop 1 x)" by (rule SkipWhiteSpace_le [OF w])
  also have "\<dots> \<le> length u" using SkipWhiteSpace_le [OF x] by simp
  also have "\<dots> < length t" using ReadName_Some [OF n] by auto
  also have "\<dots> \<le> length s" by (rule SkipWhiteSpace_le [OF t])
  finally show ?thesis .
qed

section \<open>Declarations\<close>

text \<open>The loop over a declaration collects version, encoding and standalone (C strings of the
  attributes) until the closing bracket.\<close>

function decl_loop :: "TiXmlEncoding \<Rightarrow> cptr \<Rightarrow> bytes \<Rightarrow> bytes \<Rightarrow> bytes \<Rightarrow> parse_state \<Rightarrow>
    ((cptr \<times> xml_node) \<times> parse_state) run" where
  "decl_loop enc p0 ver ec sa st =
     (case p0 of
        At p \<Rightarrow>
          if ended p then fail_at enc TIXML_ERROR_PARSING_DECLARATION None (Null, DECLARATION ver ec sa) st
          else if peek p 0 = CHR ''>'' then Inr ((At (drop 1 p), DECLARATION ver ec sa), st)
          else (case SkipWhiteSpace enc (At p) of
              At q \<Rightarrow>
                if StringEqual True ''version'' q then
                  (case Attribute_Parse False enc (At q) st of
                     Inl e \<Rightarrow> Inl e
                   | Inr ((r, n, v), st') \<Rightarrow> decl_loop enc r (c_str v) ec sa st')
                else if StringEqual True ''encoding'' q then
                  (case Attribute_Parse False enc (At q) st of
                     Inl e \<Rightarrow> Inl e
                   | Inr ((r, n, v), st') \<Rightarrow> decl_loop enc r ver (c_str v) sa st')
                else if StringEqual True ''standalone'' q then
                  (case Attribute_Parse False enc (At q) st of
                     Inl e \<Rightarrow> Inl e
                   | Inr ((r, n, v), st') \<Rightarrow> decl_loop enc r ver ec (c_str v) st')
                else
                  decl_loop enc (At (dropWhile (\<lambda>c. c \<noteq> NUL \<and> c \<noteq> CHR ''>'' \<and> \<not> IsWhiteSpace c) q)) ver ec sa st
            | _ \<Rightarrow> Inl Undefined)
      | _ \<Rightarrow> fail_at enc TIXML_ERROR_PARSING_DECLARATION None (Null, DECLARATION ver ec sa) st)"
  by pat_completeness auto

definition cptr_size :: "cptr \<Rightarrow> nat" where
  "cptr_size p = (case p of At s \<Rightarrow> Suc (length s) | _ \<Rightarrow> 0)"

lemma cptr_size_simps [simp]: "cptr_size (At s) = Suc (length s)" "cptr_size Null = 0" "cptr_size Beyond = 0"
  by (simp_all add: cptr_size_def)

lemma Attribute_Parse_size:
  assumes "Attribute_Parse document enc (At q) st = Inr ((r, n, v), st')" "length q \<le> length p"
  shows "cptr_size r < Suc (length p)"
  using assms Attribute_Parse_progress [of document enc q st] by (cases r) force+

lemma decl_skip_progress:
  assumes "\<not> ended p" "peek p 0 \<noteq> CHR ''>''" "SkipWhiteSpace enc (At p) = At q"
  shows "length (dropWhile (\<lambda>c. c \<noteq> NUL \<and> c \<noteq> CHR ''>'' \<and> \<not> IsWhiteSpace c) q) < length p"
proof (cases "length q < length p")
  case True
  then show ?thesis using le_less_trans [OF length_dropWhile_le] by blast
next
  case False
  with assms(3) SkipWhiteSpace_suffix [OF assms(3)] have "q = p" by auto
  moreover from assms obtain c s where p: "p = c # s" by (cases p) (auto simp: ended_def)
  ultimately have "\<not> IsWhiteSpace c" using SkipWhiteSpace_nonspace [OF assms(3)] assms(1) by (auto simp: ended_def)
  with p \<open>q = p\<close> assms(1,2) show ?thesis
    by (auto simp: ended_def intro: le_less_trans [OF length_dropWhile_le])
qed

termination decl_loop
  by (relation "measure (\<lambda>(enc, p, ver, ec, sa, st). cptr_size p)")
    (auto dest: SkipWhiteSpace_le sym intro: Attribute_Parse_size decl_skip_progress)

declare decl_loop.simps [simp del]

definition Declaration_Parse :: "TiXmlEncoding \<Rightarrow> cptr \<Rightarrow> parse_state \<Rightarrow>
    ((cptr \<times> xml_node) \<times> parse_state) run" where
  "Declaration_Parse enc p0 st0 =
     (if at_deadline p0 then Inr ((Null, DECLARATION [] [] []), st0)
      else case SkipWhiteSpace enc p0 of
        At p \<Rightarrow>
          if ended p \<or> \<not> StringEqual True ''<?xml'' p
          then fail_at enc TIXML_ERROR_PARSING_DECLARATION None (Null, DECLARATION [] [] []) st0
          else and_then (stamp_at enc p st0) (\<lambda>st. decl_loop enc (At (drop 5 p)) [] [] [] st)
      | _ \<Rightarrow> fail_at enc TIXML_ERROR_PARSING_DECLARATION None (Null, DECLARATION [] [] []) st0)"

section \<open>Elements\<close>

text \<open>The loop over the attributes of a start tag. It ends behind \<open>/>\<close>, behind \<open>>\<close>, or with an error; a
  repeated attribute changes the one there is and fails without an error of its own.\<close>

datatype tag_end = Closed bytes | Open bytes | Failed

function attr_loop :: "TiXmlEncoding \<Rightarrow> bytes \<Rightarrow> (bytes \<times> bytes) list \<Rightarrow> parse_state \<Rightarrow>
    ((tag_end \<times> (bytes \<times> bytes) list) \<times> parse_state) run" where
  "attr_loop enc s as st =
     (case SkipWhiteSpace enc (At s) of
        At p \<Rightarrow>
          if ended p then fail_at enc TIXML_ERROR_READING_ATTRIBUTES (Some s) (Failed, as) st
          else if peek p 0 = CHR ''/'' then
            (if peek p 1 \<noteq> CHR ''>''
             then fail_at enc TIXML_ERROR_PARSING_EMPTY (Some (drop 1 p)) (Failed, as) st
             else Inr ((Closed (drop 2 p), as), st))
          else if peek p 0 = CHR ''>'' then Inr ((Open (drop 1 p), as), st)
          else (case Attribute_Parse True enc (At p) st of
              Inl e \<Rightarrow> Inl e
            | Inr ((q, n, v), st1) \<Rightarrow>
                (case q of
                   Null \<Rightarrow> fail_at enc TIXML_ERROR_PARSING_ELEMENT (Some p) (Failed, as) st1
                 | Beyond \<Rightarrow> Inl Undefined
                 | At t \<Rightarrow>
                     if ended t then fail_at enc TIXML_ERROR_PARSING_ELEMENT (Some p) (Failed, as) st1
                     else if attr_Find n as \<noteq> None then Inr ((Failed, attr_Set n (c_str v) as), st1)
                     else attr_loop enc t (attr_Add (n, v) as) st1))
      | _ \<Rightarrow> fail_at enc TIXML_ERROR_READING_ATTRIBUTES (Some s) (Failed, as) st)"
  by pat_completeness auto
termination
  by (relation "measure (\<lambda>(enc, s, as, st). length s)")
    (auto dest!: SkipWhiteSpace_le dest: sym Attribute_Parse_progress)

declare attr_loop.simps [simp del]

fun Element_Parse :: "nat \<Rightarrow> TiXmlEncoding \<Rightarrow> cptr \<Rightarrow> parse_state \<Rightarrow> ((cptr \<times> xml_node) \<times> parse_state) run"
and ReadValue :: "nat \<Rightarrow> TiXmlEncoding \<Rightarrow> cptr \<Rightarrow> xml_node list \<Rightarrow> parse_state \<Rightarrow>
    ((cptr \<times> xml_node list) \<times> parse_state) run" where
  "Element_Parse 0 enc p0 st0 = Inl Out_of_fuel"
| "Element_Parse (Suc fuel) enc p0 st0 =
     (if at_deadline p0 then Inr ((Null, ELEMENT [] [] []), st0)
      else case SkipWhiteSpace enc p0 of
        At p \<Rightarrow>
          if ended p then fail_at enc TIXML_ERROR_PARSING_ELEMENT None (Null, ELEMENT [] [] []) st0
          else and_then (stamp_at enc p st0) (\<lambda>st1.
            if peek p 0 \<noteq> CHR ''<'' then fail_at enc TIXML_ERROR_PARSING_ELEMENT (Some p) (Null, ELEMENT [] [] []) st1
            else (case SkipWhiteSpace enc (At (drop 1 p)) of
                At t \<Rightarrow>
                  (case ReadName t of
                     None \<Rightarrow> fail_at enc TIXML_ERROR_FAILED_TO_READ_ELEMENT_NAME (Some t) (Null, ELEMENT [] [] []) st1
                   | Some (n, u) \<Rightarrow>
                       if ended u
                       then fail_at enc TIXML_ERROR_FAILED_TO_READ_ELEMENT_NAME (Some t) (Null, ELEMENT n [] []) st1
                       else and_then (attr_loop enc u [] st1) (\<lambda>((e, as), st2).
                         case e of
                           Failed \<Rightarrow> Inr ((Null, ELEMENT n as []), st2)
                         | Closed q \<Rightarrow> Inr ((At q, ELEMENT n as []), st2)
                         | Open q \<Rightarrow>
                             and_then (ReadValue fuel enc (At q) [] st2) (\<lambda>((r, cs), st3).
                               case r of
                                 At w \<Rightarrow>
                                   if ended w
                                   then fail_at enc TIXML_ERROR_READING_END_TAG (Some w) (Null, ELEMENT n as cs) st3
                                   else if StringEqual False (''</'' @ n @ ''>'') w
                                   then Inr ((At (drop (length n + 3) w), ELEMENT n as cs), st3)
                                   else fail_at enc TIXML_ERROR_READING_END_TAG (Some w) (Null, ELEMENT n as cs) st3
                               | _ \<Rightarrow> fail_at enc TIXML_ERROR_READING_END_TAG None (Null, ELEMENT n as cs) st3)))
              | _ \<Rightarrow> Inl Undefined))
      | _ \<Rightarrow> fail_at enc TIXML_ERROR_PARSING_ELEMENT None (Null, ELEMENT [] [] []) st0)"
| "ReadValue 0 enc p0 cs st0 = Inl Out_of_fuel"
| "ReadValue (Suc fuel) enc p0 cs st0 =
     (case SkipWhiteSpace enc p0 of
        At p \<Rightarrow>
          if ended p then Inr ((At p, cs), st0)
          else if peek p 0 \<noteq> CHR ''<'' then
            and_then (Text_Parse False enc (if condenseWhiteSpace then At p else p0) st0) (\<lambda>((q, n), st1).
              ReadValue fuel enc q (if Blank (node_value n) then cs else cs @ [n]) st1)
          else if StringEqual False ''</'' p then Inr ((At p, cs), st0)
          else (case Identify enc (At p) of
              None \<Rightarrow> Inr ((Null, cs), st0)
            | Some k \<Rightarrow>
                and_then
                  (case k of
                     K_DECLARATION \<Rightarrow> Declaration_Parse enc (At p) st0
                   | K_COMMENT \<Rightarrow> Comment_Parse enc (At p) st0
                   | K_CDATA \<Rightarrow> Text_Parse True enc (At p) st0
                   | K_UNKNOWN \<Rightarrow> Unknown_Parse enc (At p) st0
                   | K_ELEMENT \<Rightarrow> Element_Parse fuel enc (At p) st0)
                  (\<lambda>((q, n), st1). ReadValue fuel enc q (cs @ [n]) st1))
      | _ \<Rightarrow> fail_at enc TIXML_ERROR_READING_ELEMENT_VALUE None (Null, cs) st0)"

definition node_Parse :: "nat \<Rightarrow> node_kind \<Rightarrow> TiXmlEncoding \<Rightarrow> cptr \<Rightarrow> parse_state \<Rightarrow>
    ((cptr \<times> xml_node) \<times> parse_state) run" where
  "node_Parse fuel k enc p st =
     (case k of
        K_DECLARATION \<Rightarrow> Declaration_Parse enc p st
      | K_COMMENT \<Rightarrow> Comment_Parse enc p st
      | K_CDATA \<Rightarrow> Text_Parse True enc p st
      | K_UNKNOWN \<Rightarrow> Unknown_Parse enc p st
      | K_ELEMENT \<Rightarrow> Element_Parse fuel enc p st)"

section \<open>The document\<close>

text \<open>The encoding a declaration announces, while none is known. \<open>enc_deadline\<close> lies behind the NUL of the
  string.\<close>

definition encoding_after :: "TiXmlEncoding \<Rightarrow> xml_node \<Rightarrow> TiXmlEncoding" where
  "encoding_after enc n =
     (case n of
        DECLARATION ver e sa \<Rightarrow>
          if enc = TIXML_ENCODING_UNKNOWN then
            (if e = [] then TIXML_ENCODING_UTF8
             else if StringEqual True ''UTF-8'' e then TIXML_ENCODING_UTF8
             else if StringEqual True ''UTF8'' e then TIXML_ENCODING_UTF8
             else TIXML_ENCODING_LEGACY)
          else enc
      | _ \<Rightarrow> enc)"

text \<open>The loop of the document; the first component tells whether it ran to its end.\<close>

fun doc_loop :: "nat \<Rightarrow> TiXmlEncoding \<Rightarrow> cptr \<Rightarrow> xml_node list \<Rightarrow> parse_state \<Rightarrow>
    ((bool \<times> xml_node list) \<times> parse_state) run" where
  "doc_loop 0 enc p0 cs st = Inl Out_of_fuel"
| "doc_loop (Suc fuel) enc p0 cs st =
     (case p0 of
        At p \<Rightarrow>
          if ended p then Inr ((True, cs), st)
          else (case Identify enc (At p) of
              None \<Rightarrow> Inr ((True, cs), st)
            | Some k \<Rightarrow>
                and_then (node_Parse fuel k enc (At p) st) (\<lambda>((q, n), st1).
                  if q = Null then fail_at enc TIXML_ERROR_PARSING_ELEMENT None (False, cs) st1
                  else let enc' = encoding_after enc n in
                    doc_loop fuel enc' (SkipWhiteSpace enc' q) (cs @ [n]) st1))
      | _ \<Rightarrow> Inr ((True, cs), st))"

definition Document_Parse :: "nat \<Rightarrow> TiXmlEncoding \<Rightarrow> bytes \<Rightarrow> xml_doc \<Rightarrow> xml_doc run" where
  "Document_Parse fuel enc0 s d =
     (if s = [] then Inr (d\<lparr>doc_errors := mark_error TIXML_ERROR_PARSING_ELEMENT (doc_errors d)\<rparr>)
      else if peek s 0 = NUL then Inr (d\<lparr>doc_errors := mark_error TIXML_ERROR_DOCUMENT_EMPTY ClearError\<rparr>)
      else
        let pd = \<lparr>pd_cursor = \<lparr>cur_row = 0, cur_col = 0\<rparr>, pd_stamp = s, pd_tabsize = doc_tabsize d\<rparr>;
            bom = (enc0 = TIXML_ENCODING_UNKNOWN \<and> peek s 0 = TIXML_UTF_LEAD_0 \<and>
                   peek s 1 = TIXML_UTF_LEAD_1 \<and> peek s 2 = TIXML_UTF_LEAD_2);
            enc = (if bom then TIXML_ENCODING_UTF8 else enc0);
            d1 = (if bom then d\<lparr>useMicrosoftBOM := True\<rparr> else d)
        in case SkipWhiteSpace enc (At s) of
            At p \<Rightarrow>
              and_then (doc_loop fuel enc (At p) (doc_children d1) (ClearError, pd)) (\<lambda>((ok, cs), (es, pd')).
                let bad = (cs = [] \<or> ToUnknown (hd cs) \<or> FirstChildElement_any cs = None);
                    es' = (if ok \<and> bad then mark_error TIXML_ERROR_PARSING_ELEMENT es else es)
                in Inr (d1\<lparr>doc_children := cs, doc_errors := es'\<rparr>))
          | _ \<Rightarrow> Inr (d1\<lparr>doc_errors := mark_error TIXML_ERROR_DOCUMENT_EMPTY ClearError\<rparr>))"

text \<open>\<open>LoadFile\<close> of a buffer or of bytes in memory.\<close>

definition LoadFile_data :: "bytes \<Rightarrow> TiXmlEncoding \<Rightarrow> xml_doc \<Rightarrow> (bool \<times> xml_doc) run" where
  "LoadFile_data data enc d =
     (let d0 = d\<lparr>doc_children := []\<rparr> in
      if data = [] then Inr (False, d0\<lparr>doc_errors := mark_error TIXML_ERROR_DOCUMENT_EMPTY (doc_errors d0)\<rparr>)
      else and_then (Document_Parse (length data + 2) enc data d0)
        (\<lambda>d1. Inr (\<not> es_error (doc_errors d1), d1)))"

definition LoadFile_buffer :: "smart_buffer \<Rightarrow> TiXmlEncoding \<Rightarrow> xml_doc \<Rightarrow> (bool \<times> xml_doc) run" where
  "LoadFile_buffer b enc d = LoadFile_data (take (sb_length b) (sb_data b)) enc d"

text \<open>\<open>LoadFile\<close> of a file, given what \<open>fopen\<close> and \<open>fread\<close> find: no file, or its bytes.\<close>

definition LoadFile_file :: "(bytes \<Rightarrow> bytes option) \<Rightarrow> bytes \<Rightarrow> TiXmlEncoding \<Rightarrow> xml_doc \<Rightarrow> (bool \<times> xml_doc) run" where
  "LoadFile_file fs filename enc d =
     (let d0 = d\<lparr>doc_value := c_str filename\<rparr> in
      case fs (c_str filename) of
        None \<Rightarrow> Inr (False, d0\<lparr>doc_errors := mark_error TIXML_ERROR_OPENING_FILE (doc_errors d0)\<rparr>)
      | Some data \<Rightarrow> LoadFile_data data enc d0)"

end
