(* ===== verification/Xml_Total.thy ===== *)
theory Xml_Total
  imports Xml_Parse
begin

text \<open>
  The XML loader always comes to an end: the bound on the recursion is never met, and the only loop
  that can run for ever, the one of \<open>Stamp\<close>, does so only at a byte EF.

  The proofs compute weakest preconditions: \<open>wp m E P\<close> says that \<open>m\<close> ends in a result with \<open>P\<close> or stops
  for a reason with \<open>E\<close>. The rules in \<open>wp_intro\<close> follow the structure of the parser.
\<close>

section \<open>Weakest preconditions of runs\<close>

named_theorems wp_intro "weakest preconditions of the steps of the parser"

definition wp :: "'a run \<Rightarrow> (stuck \<Rightarrow> bool) \<Rightarrow> ('a \<Rightarrow> bool) \<Rightarrow> bool" where
  "wp m E P \<longleftrightarrow> (case m of Inl e \<Rightarrow> E e | Inr x \<Rightarrow> P x)"

lemma wp_simps [simp]: "wp (Inl e) E P \<longleftrightarrow> E e" "wp (Inr x) E P \<longleftrightarrow> P x"
  by (simp_all add: wp_def)

lemma wp_and_then [simp]: "wp (and_then m f) E P \<longleftrightarrow> wp m E (\<lambda>x. wp (f x) E P)"
  by (cases m) auto

lemma wp_cons: "wp m E P \<Longrightarrow> (\<And>e. E e \<Longrightarrow> E' e) \<Longrightarrow> (\<And>x. P x \<Longrightarrow> P' x) \<Longrightarrow> wp m E' P'"
  by (cases m) auto

lemma wp_Inr: "wp m E P \<Longrightarrow> m = Inr x \<Longrightarrow> P x"
  by simp

lemma wp_Inl: "wp m E P \<Longrightarrow> m = Inl e \<Longrightarrow> E e"
  by simp

lemma wp_bind [wp_intro]: "wp m E (\<lambda>x. wp (f x) E P) \<Longrightarrow> wp (and_then m f) E P"
  by simp

lemma wp_if [wp_intro]:
  "(b \<Longrightarrow> wp m E P) \<Longrightarrow> (\<not> b \<Longrightarrow> wp n E P) \<Longrightarrow> wp (if b then m else n) E P"
  by simp

lemma wp_pair [wp_intro]: "(\<And>x y. z = (x, y) \<Longrightarrow> wp (g x y) E P) \<Longrightarrow> wp (case z of (x, y) \<Rightarrow> g x y) E P"
  by (cases z) auto

lemma wp_pair_app [wp_intro]:
  "(\<And>x y. z = (x, y) \<Longrightarrow> wp (g x y w) E P) \<Longrightarrow> wp ((case z of (x, y) \<Rightarrow> g x y) w) E P"
  by (cases z) auto

lemma wp_cptr [wp_intro]:
  "(p = Null \<Longrightarrow> wp m E P) \<Longrightarrow> (\<And>s. p = At s \<Longrightarrow> wp (h s) E P) \<Longrightarrow> (p = Beyond \<Longrightarrow> wp n E P) \<Longrightarrow>
     wp (case p of Null \<Rightarrow> m | At s \<Rightarrow> h s | Beyond \<Rightarrow> n) E P"
  by (cases p) auto

lemma wp_option [wp_intro]:
  "(q = None \<Longrightarrow> wp m E P) \<Longrightarrow> (\<And>x. q = Some x \<Longrightarrow> wp (k x) E P) \<Longrightarrow>
     wp (case q of None \<Rightarrow> m | Some x \<Rightarrow> k x) E P"
  by (cases q) auto

text \<open>The parsing data can make \<open>Stamp\<close> loop only when a byte EF is left in it; \<open>stops st e\<close> are the
  reasons for which a step started in \<open>st\<close> may stop, \<open>kept st st'\<close> is what it keeps.\<close>

definition lead_free :: "parse_state \<Rightarrow> bool" where
  "lead_free st \<longleftrightarrow> TIXML_UTF_LEAD_0 \<notin> set (pd_stamp (snd st))"

definition stops :: "parse_state \<Rightarrow> stuck \<Rightarrow> bool" where
  "stops st e \<longleftrightarrow> e = Undefined \<or> e = Hangs \<and> \<not> lead_free st"

definition kept :: "parse_state \<Rightarrow> parse_state \<Rightarrow> bool" where
  "kept st st' \<longleftrightarrow> (lead_free st \<longrightarrow> lead_free st')"

lemma kept_refl [simp]: "kept st st"
  by (simp add: kept_def)

lemma kept_trans: "kept st st1 \<Longrightarrow> kept st1 st2 \<Longrightarrow> kept st st2"
  by (auto simp: kept_def)

lemma stops_kept: "kept st st1 \<Longrightarrow> stops st1 e \<Longrightarrow> stops st e"
  by (auto simp: kept_def stops_def)

lemma stops_Undefined [simp]: "stops st Undefined"
  by (simp add: stops_def)

section \<open>Rows and columns\<close>

lemma stamp_run_lead_free:
  "TIXML_UTF_LEAD_0 \<notin> set p \<Longrightarrow> stamp_run enc ts now p r c \<noteq> None"
proof (induction enc ts now p r c rule: stamp_run.induct)
  case (1 enc ts now p r c)
  have drop: "TIXML_UTF_LEAD_0 \<notin> set (drop n p)" for n
    using "1.prems" by (auto dest: in_set_dropD)
  have "peek p 0 \<noteq> TIXML_UTF_LEAD_0" if "now < length p" using that "1.prems" by (cases p) auto
  with "1.IH" drop show ?case
    by (subst stamp_run.simps) (simp add: Let_def)
qed

lemma stamp_run_suffix:
  "stamp_run enc ts now p r c = Some (Some (q, r', c')) \<Longrightarrow> set q \<subseteq> set p"
proof (induction enc ts now p r c rule: stamp_run.induct)
  case (1 enc ts now p r c)
  have d: "x \<in> set (drop n p) \<Longrightarrow> x \<in> set p" for n x by (rule in_set_dropD)
  show ?case
    using "1.prems" "1.IH" by (subst (asm) stamp_run.simps) (auto simp: Let_def split: if_splits dest: d)
qed

lemma wp_Stamp: "wp (Stamp enc s (snd st)) (stops st) (\<lambda>pd. kept st (es, pd))"
proof (cases "Stamp_loop enc (pd_tabsize (snd st)) (length s) (pd_stamp (snd st))
    (cur_row (pd_cursor (snd st))) (cur_col (pd_cursor (snd st)))")
  case None
  then have "\<not> lead_free st"
    unfolding lead_free_def Stamp_loop_run using stamp_run_lead_free by blast
  with None show ?thesis by (simp add: Stamp_def stops_def kept_def lead_free_def)
next
  case (Some x)
  then show ?thesis
    by (cases x) (auto simp: Stamp_def kept_def lead_free_def Stamp_loop_run dest!: stamp_run_suffix)
qed

lemma wp_stamp_at [wp_intro]:
  assumes "kept st0 st" "\<And>st'. kept st0 st' \<Longrightarrow> P st'"
  shows "wp (stamp_at enc s st) (stops st0) P"
  unfolding stamp_at_def wp_and_then
  by (rule wp_cons [OF wp_Stamp [of enc s st "fst st"]])
    (use assms in \<open>auto intro: kept_trans stops_kept\<close>)

lemma kept_error: "kept st (es, pd) \<Longrightarrow> kept st (es', pd)"
  by (simp add: kept_def lead_free_def)

lemma wp_fail_at [wp_intro]:
  assumes "kept st0 st" "\<And>st'. kept st0 st' \<Longrightarrow> P (x, st')"
  shows "wp (fail_at enc err e x st) (stops st0) P"
proof -
  obtain es pd where st: "st = (es, pd)" by (cases st)
  have "wp (SetError enc err e st) (stops st0) (kept st0)"
  proof (cases e)
    case (Some p)
    have "wp (Stamp enc p pd) (stops st0) (\<lambda>pd'. kept st0 (es', pd'))" for es'
      by (rule wp_cons [OF wp_Stamp [of enc p st es', unfolded st snd_conv]])
        (use assms(1) st in \<open>auto intro: kept_trans stops_kept\<close>)
    then have "wp (Stamp enc p pd) (stops st0) (\<lambda>x. kept st0 ((mark_error err es)\<lparr>es_errorLocation := pd_cursor x\<rparr>, x))"
      by (rule wp_cons) (auto simp: kept_def lead_free_def)
    with Some assms(1) show ?thesis by (auto simp: SetError_def st)
  qed (use assms(1) in \<open>auto simp: SetError_def st intro: kept_error\<close>)
  then show ?thesis
    unfolding fail_at_def wp_and_then by (rule wp_cons) (use assms(2) in auto)
qed

lemma wp_attr_fail [wp_intro]:
  assumes "kept st0 st" "\<And>st'. kept st0 st' \<Longrightarrow> P ((Null, n, v), st')"
  shows "wp (attr_fail document enc e n v st) (stops st0) P"
  unfolding attr_fail_def using assms by (intro wp_intro) auto

section \<open>Text and attributes\<close>

lemma wp_read_condensed:
  "wp (read_condensed enc tag ic ws s acc) (\<lambda>e. e = Undefined) (\<lambda>(q, v). cptr_size q \<le> Suc (length s))"
proof (induction enc tag ic ws s acc rule: read_condensed.induct)
  case (1 enc tag ic ws s acc)
  define text' where "text' = (if ws then acc @ '' '' else acc)"
  have IH: "wp (read_condensed enc tag ic False t (text' @ v)) (\<lambda>e. e = Undefined) (\<lambda>(q, v). cptr_size q \<le> Suc (length s))"
    if "\<not> (s = [] \<or> peek s 0 = NUL \<or> StringEqual ic tag s)" "\<not> IsWhiteSpace (peek s 0)" "GetChar enc s = (At t, v)" for t v
    by (rule wp_cons [OF 1(2) [OF that(1,2) text'_def that(3) [symmetric] refl]])
      (use GetChar_progress [OF that(3)] that(1) in auto)
  have IH1: "wp (read_condensed enc tag ic True (drop 1 s) acc) (\<lambda>e. e = Undefined) (\<lambda>(q, v). cptr_size q \<le> Suc (length s))"
    if "\<not> (s = [] \<or> peek s 0 = NUL \<or> StringEqual ic tag s)" "IsWhiteSpace (peek s 0)"
    by (rule wp_cons [OF 1(1) [OF that]]) auto
  show ?case
    by (subst read_condensed.simps, unfold Let_def text'_def [symmetric], intro wp_intro) (auto intro: IH IH1 [simplified])
qed

lemma wp_ReadText_loop [wp_intro]:
  assumes "\<And>q v. cptr_size q \<le> Suc (length s) \<Longrightarrow> P (q, v)"
  shows "wp (ReadText_loop enc trim tag ic (At s)) (stops st0) P"
proof -
  have kept: "wp (read_kept enc tag ic s acc) (\<lambda>e. e = Undefined) (\<lambda>(q, v). cptr_size q \<le> Suc (length s))" for s acc
  proof (induction enc tag ic s acc rule: read_kept.induct)
    case (1 enc tag ic s acc)
    show ?case
      using GetChar_progress [of enc s] 1
      by (subst read_kept.simps) (auto split: cptr.split prod.split elim!: wp_cons)
  qed
  have "wp (ReadText_loop enc trim tag ic (At s)) (\<lambda>e. e = Undefined) (\<lambda>(q, v). cptr_size q \<le> Suc (length s))"
    unfolding ReadText_loop_def
    by (intro wp_intro) (auto intro: wp_cons [OF kept] wp_cons [OF wp_read_condensed] dest!: SkipWhiteSpace_le split: if_splits)
  then show ?thesis by (rule wp_cons) (use assms in auto)
qed

lemma wp_ReadText [wp_intro]:
  assumes "\<And>q v. cptr_size q \<le> Suc (length s) \<Longrightarrow> P (q, v)"
  shows "wp (ReadText enc trim tag ic (At s)) (stops st0) P"
  unfolding ReadText_def
  by (intro wp_intro) (auto intro!: assms split: cptr.splits simp: adv_def)

lemma wp_Attribute_value [wp_intro]:
  assumes "kept st0 st" "\<And>q v st'. cptr_size q \<le> Suc (length p) \<Longrightarrow> kept st0 st' \<Longrightarrow> P ((q, name, v), st')"
  shows "wp (Attribute_value document enc name p st) (stops st0) P"
  unfolding Attribute_value_def Let_def
  by (intro wp_intro) (use assms in \<open>auto intro!: assms(2) simp: length_dropWhile_le\<close>)

lemma wp_Attribute_Parse [wp_intro]:
  assumes "kept st0 st" "\<And>q n v st'. cptr_size q \<le> length p \<Longrightarrow> kept st0 st' \<Longrightarrow> P ((q, n, v), st')"
  shows "wp (Attribute_Parse document enc (At p) st) (stops st0) P"
proof -
  have size: "cptr_size q \<le> length p"
    if "SkipWhiteSpace enc (At p) = At s" "ReadName s = Some (n, t)" "SkipWhiteSpace enc (At t) = At u"
      "SkipWhiteSpace enc (At (drop 1 u)) = At w" "cptr_size q \<le> Suc (length w)" "\<not> ended u" for s n t u w q
    using that(5,6) SkipWhiteSpace_le [OF that(1)] SkipWhiteSpace_le [OF that(3)] SkipWhiteSpace_le [OF that(4)]
      ReadName_Some [OF that(2)] by (cases n) (auto simp: ended_def)
  show ?thesis
    unfolding Attribute_Parse_def at_deadline_def
    by (intro wp_intro) (auto intro: assms(2) size [simplified] simp: assms(1))
qed

section \<open>Nodes without children\<close>

lemma wp_decl_loop:
  "kept st0 st \<Longrightarrow> wp (decl_loop enc p ver ec sa st) (stops st0)
     (\<lambda>((q, x), st'). cptr_size q \<le> cptr_size p \<and> kept st0 st')"
proof (induction enc p ver ec sa st rule: decl_loop.induct)
  case (1 enc p0 ver ec sa st)
  show ?case
  proof (cases p0)
    case (At p)
    consider "ended p" | "\<not> ended p" "peek p 0 = CHR ''>''" | "SkipWhiteSpace enc (At p) \<in> {Null, Beyond}"
      | q0 where "\<not> ended p" "peek p 0 \<noteq> CHR ''>''" "SkipWhiteSpace enc (At p) = At q0"
      by (cases "SkipWhiteSpace enc (At p)") auto
    then show ?thesis
    proof cases
      case 4
      have attr: "wp (case Attribute_Parse False enc (At q0) st of Inl e \<Rightarrow> Inl e
          | Inr ((r, n, v), st') \<Rightarrow> decl_loop enc r (ver' v) (ec' v) (sa' v) st') (stops st0)
          (\<lambda>((q, x), st'). cptr_size q \<le> cptr_size p0 \<and> kept st0 st')"
        if IH: "\<And>r n v st'. Attribute_Parse False enc (At q0) st = Inr ((r, n, v), st') \<Longrightarrow> kept st0 st' \<Longrightarrow>
          wp (decl_loop enc r (ver' v) (ec' v) (sa' v) st') (stops st0)
            (\<lambda>((q, x), st'). cptr_size q \<le> cptr_size r \<and> kept st0 st')" for ver' ec' sa'
      proof -
        have "wp (Attribute_Parse False enc (At q0) st) (stops st0)
            (\<lambda>((q, n, v), st'). cptr_size q \<le> length q0 \<and> kept st0 st')"
          by (intro wp_intro) (use "1.prems" in auto)
        then show ?thesis
          using SkipWhiteSpace_le [OF 4(3)] At
          by (cases "Attribute_Parse False enc (At q0) st") (auto intro!: wp_cons [OF IH])
      qed
      have skip: "length (dropWhile (\<lambda>c. c \<noteq> NUL \<and> c \<noteq> CHR ''>'' \<and> \<not> IsWhiteSpace c) q0) < length p"
        by (rule decl_skip_progress [OF 4])
      note step = decl_loop.simps [of enc "At p" ver ec sa st]
      consider "StringEqual True ''version'' q0"
        | "\<not> StringEqual True ''version'' q0" "StringEqual True ''encoding'' q0"
        | "\<not> StringEqual True ''version'' q0" "\<not> StringEqual True ''encoding'' q0" "StringEqual True ''standalone'' q0"
        | "\<not> StringEqual True ''version'' q0" "\<not> StringEqual True ''encoding'' q0" "\<not> StringEqual True ''standalone'' q0"
        by blast
      then show ?thesis
      proof cases
        case 1
        show ?thesis using attr [of c_str "\<lambda>_. ec" "\<lambda>_. sa"] "1.IH"(1) [OF At 4 1] 1 4 At by (simp add: step split_def)
      next
        case 2
        show ?thesis using attr [of "\<lambda>_. ver" c_str "\<lambda>_. sa"] "1.IH"(2) [OF At 4 2] 2 4 At by (simp add: step split_def)
      next
        case 3
        show ?thesis using attr [of "\<lambda>_. ver" "\<lambda>_. ec" c_str] "1.IH"(3) [OF At 4 3] 3 4 At by (simp add: step split_def)
      next
        case none: 4
        show ?thesis
          using "1.IH"(4) [OF At 4 none "1.prems"] skip none 4 At by (auto simp: step elim!: wp_cons)
      qed
    qed (use "1.prems" At in \<open>auto simp: decl_loop.simps intro!: wp_intro\<close>)
  qed (use "1.prems" in \<open>auto simp: decl_loop.simps intro!: wp_intro\<close>)
qed

lemma comment_loop_le: "comment_loop s v = (q, w) \<Longrightarrow> length q \<le> length s"
  by (induction s v rule: comment_loop.induct) (auto split: if_splits)

lemma cdata_loop_le: "cdata_loop s v = (Some q, w) \<Longrightarrow> length q \<le> length s"
  by (induction s v rule: cdata_loop.induct) (auto split: if_splits)

lemma ended_pos: "\<not> ended s \<Longrightarrow> 0 < length s"
  by (auto simp: ended_def)

lemma StringEqual_pos: "StringEqual ic tag s \<Longrightarrow> 0 < length s"
  by (auto simp: StringEqual_def)

lemma adv_size: "cptr_size (adv n s) \<le> Suc (length s)"
  by (auto simp: adv_def)

text \<open>Parsing a node of any kind but an element: it goes on at a place with less text left.\<close>

abbreviation goes_on :: "parse_state \<Rightarrow> bytes \<Rightarrow> ((cptr \<times> xml_node) \<times> parse_state) \<Rightarrow> bool" where
  "goes_on st0 s \<equiv> (\<lambda>((q, x), st). cptr_size q \<le> length s \<and> kept st0 st)"

lemma wp_Declaration_Parse:
  assumes "kept st0 st" "s \<noteq> []"
  shows "wp (Declaration_Parse enc (At s) st) (stops st0) (goes_on st0 s)"
proof -
  have "wp (decl_loop enc (At (drop 5 p)) [] [] [] st') (stops st0) (goes_on st0 s)"
    if "SkipWhiteSpace enc (At s) = At p" "\<not> ended p" "kept st0 st'" for p st'
  proof (rule wp_cons [OF wp_decl_loop [OF that(3)]], goal_cases)
    case (2 r)
    then show ?case using SkipWhiteSpace_le [OF that(1)] ended_pos [OF that(2)]
      unfolding split_def cptr_size_simps length_drop by linarith
  qed
  then show ?thesis
    unfolding Declaration_Parse_def at_deadline_def
    by (intro wp_intro) (use assms in auto)
qed

lemma wp_Comment_Parse:
  assumes "kept st0 st" "s \<noteq> []"
  shows "wp (Comment_Parse enc (At s) st) (stops st0) (goes_on st0 s)"
proof -
  have "cptr_size (adv 3 q) \<le> length s"
    if "SkipWhiteSpace enc (At s) = At p" "StringEqual False ''<!--'' p" "comment_loop (drop 4 p) [] = (q, v)" for p q v
    using SkipWhiteSpace_le [OF that(1)] StringEqual_pos [OF that(2)] comment_loop_le [OF that(3)] adv_size [of 3 q]
    unfolding length_drop by linarith
  then show ?thesis
    unfolding Comment_Parse_def
    by (intro wp_intro) (use assms in auto)
qed

lemma wp_Unknown_Parse:
  assumes "kept st0 st" "s \<noteq> []"
  shows "wp (Unknown_Parse enc (At s) st) (stops st0) (goes_on st0 s)"
proof -
  have size: "Suc (length (dropWhile P (drop (Suc 0) p))) \<le> length s"
    "Suc (length (dropWhile P (drop (Suc 0) p)) - Suc 0) \<le> length s"
    if "SkipWhiteSpace enc (At s) = At p" "\<not> ended p" for p P
    using SkipWhiteSpace_le [OF that(1)] ended_pos [OF that(2)] length_dropWhile_le [of P "drop (Suc 0) p"]
    unfolding length_drop by linarith+
  show ?thesis
    unfolding Unknown_Parse_def at_deadline_def Let_def
    by (intro wp_intro) (use assms in \<open>auto intro: size\<close>)
qed

lemma wp_Text_Parse_cdata:
  assumes "kept st0 st" "s \<noteq> []"
  shows "wp (Text_Parse True enc (At s) st) (stops st0) (goes_on st0 s)"
proof -
  have "Suc (length q) \<le> length s"
    if "StringEqual False ''<![CDATA['' s" "cdata_loop (drop 9 s) [] = (Some q, v)" for q v
    using StringEqual_pos [OF that(1)] cdata_loop_le [OF that(2)] unfolding length_drop by linarith
  then show ?thesis
    unfolding Text_Parse_def at_deadline_def
    by (intro wp_intro) (use assms in \<open>fastforce+\<close>)
qed

text \<open>Plain text that starts with a character that is neither white space nor a bracket.\<close>

lemma SkipWhiteSpace_idem:
  assumes "SkipWhiteSpace enc p = At s" "\<not> ended s"
  shows "SkipWhiteSpace enc (At s) = At s"
proof -
  have "skip_utf8 (skip_utf8 t) = skip_utf8 t" for t
    by (induction t rule: skip_utf8.induct) auto
  with assms show ?thesis
    by (auto simp: SkipWhiteSpace_def ended_def split: cptr.splits if_splits)
qed

lemma wp_Text_Parse_plain:
  assumes "kept st0 st" "SkipWhiteSpace enc (At s) = At s" "\<not> ended s" "peek s 0 \<noteq> CHR ''<''"
  shows "wp (Text_Parse False enc (At s) st) (stops st0) (goes_on st0 s)"
proof -
  from assms(3) obtain c t where s: "s = c # t" "c \<noteq> NUL" by (cases s) (auto simp: ended_def)
  have ws: "\<not> IsWhiteSpace (peek s 0)" using SkipWhiteSpace_nonspace [OF assms(2)] s by auto
  have no: "\<not> StringEqual False ''<'' s" "\<not> StringEqual False ''<![CDATA['' s"
    using assms(4) s by (simp_all add: StringEqual_def)
  have "wp (read_condensed enc ''<'' False False s []) (\<lambda>e. e = Undefined) (\<lambda>(q, v). cptr_size q \<le> length s)"
  proof (cases "GetChar enc s")
    case (Pair q v)
    show ?thesis
    proof (cases q)
      case (At u)
      then have "length u < length s" using Pair GetChar_progress s by blast
      with At Pair s ws no show ?thesis
        by (subst read_condensed.simps) (auto intro: wp_cons [OF wp_read_condensed])
    qed (use Pair s ws no in \<open>subst read_condensed.simps, auto\<close>)+
  qed
  then have read: "wp (ReadText_loop enc True ''<'' False (At s)) (stops st0) (\<lambda>(q, v). cptr_size q \<le> length s)"
    by (auto simp: ReadText_loop_def assms(2) condenseWhiteSpace_def elim!: wp_cons)
  have stamp: "wp (stamp_at enc s st) (stops st0) (kept st0)"
    by (intro wp_intro) (auto simp: assms(1))
  have "\<not> at_deadline (At s)" by (simp add: at_deadline_def s(1))
  then show ?thesis
    by (auto simp: Text_Parse_def no intro!: wp_cons [OF stamp] wp_cons [OF read])
qed

section \<open>Elements\<close>

lemma wp_attr_loop:
  "kept st0 st \<Longrightarrow> wp (attr_loop enc s as st) (stops st0)
     (\<lambda>((e, as'), st'). kept st0 st' \<and> (case e of Closed q \<Rightarrow> length q \<le> length s | Open q \<Rightarrow> length q < length s | Failed \<Rightarrow> True))"
proof (induction enc s as st rule: attr_loop.induct)
  case (1 enc s as st)
  show ?case
  proof (cases "SkipWhiteSpace enc (At s)")
    case (At p)
    note le = SkipWhiteSpace_le [OF At]
    have attr: "wp (Attribute_Parse True enc (At p) st) (stops st0)
            (\<lambda>((q, n, v), st'). cptr_size q \<le> length p \<and> kept st0 st')"
      by (intro wp_intro) (use "1.prems" in auto)
    show ?thesis
    proof (cases "ended p \<or> peek p 0 = CHR ''/'' \<or> peek p 0 = CHR ''>''")
      case True
      with At le "1.prems" show ?thesis
        by (cases p) (subst attr_loop.simps, auto simp: ended_def intro!: wp_intro)+
    next
      case False
      then have go: "\<not> ended p" "peek p 0 \<noteq> CHR ''/''" "peek p 0 \<noteq> CHR ''>''" by auto
      show ?thesis
      proof (cases "Attribute_Parse True enc (At p) st")
        case (Inl e)
        with attr At go show ?thesis by (subst attr_loop.simps) auto
      next
        case (Inr r)
        obtain q n v st1 where r: "r = ((q, n, v), st1)" by (cases r) auto
        from attr Inr r have q: "cptr_size q \<le> length p" "kept st0 st1" by auto
        show ?thesis
        proof (cases "\<exists>t. q = At t \<and> \<not> ended t \<and> attr_Find n as = None")
          case True
          then obtain t where t: "q = At t" "\<not> ended t" "attr_Find n as = None" by blast
          note IH = "1.IH" [OF At go Inr [unfolded r] refl refl refl t(1,2) _ q(2)]
          have lt: "length t \<le> length s" using q(1) t(1) le by simp
          have "attr_loop enc s as st = attr_loop enc t (attr_Add (n, v) as) st1"
            using At go Inr r t by (subst attr_loop.simps) simp
          moreover have "wp (attr_loop enc t (attr_Add (n, v) as) st1) (stops st0)
              (\<lambda>((e, as'), st'). kept st0 st' \<and> (case e of Closed q \<Rightarrow> length q \<le> length s
                 | Open q \<Rightarrow> length q < length s | Failed \<Rightarrow> True))"
            by (rule wp_cons [OF IH]) (use lt t(3) in \<open>auto split: tag_end.splits\<close>)
          ultimately show ?thesis by simp
        next
          case False
          with At go Inr r q show ?thesis
            by (cases q) (subst attr_loop.simps, auto intro!: wp_intro)+
        qed
      qed
    qed
  qed (use "1.prems" in \<open>subst attr_loop.simps, auto intro!: wp_intro\<close>)+
qed

lemma wp_attr_loop' [wp_intro]:
  assumes "kept st0 st"
    "\<And>e as' st'. kept st0 st' \<Longrightarrow> (\<And>q. e = Closed q \<Longrightarrow> length q \<le> length s) \<Longrightarrow>
       (\<And>q. e = Open q \<Longrightarrow> length q < length s) \<Longrightarrow> P ((e, as'), st')"
  shows "wp (attr_loop enc s as st) (stops st0) P"
  by (rule wp_cons [OF wp_attr_loop [OF assms(1)]]) (auto intro!: assms(2) split: tag_end.splits)

lemma wp_tag_end [wp_intro]:
  "(\<And>q. e = Closed q \<Longrightarrow> wp (f q) E P) \<Longrightarrow> (\<And>q. e = Open q \<Longrightarrow> wp (g q) E P) \<Longrightarrow> (e = Failed \<Longrightarrow> wp m E P) \<Longrightarrow>
     wp (case e of Closed q \<Rightarrow> f q | Open q \<Rightarrow> g q | Failed \<Rightarrow> m) E P"
  by (cases e) auto

lemma wp_Element_step:
  assumes ReadValue: "\<And>q st. Suc (length q) < fuel \<Longrightarrow> kept st0 st \<Longrightarrow>
      wp (ReadValue fuel enc (At q) [] st) (stops st0) (\<lambda>((r, cs), st'). cptr_size r \<le> Suc (length q) \<and> kept st0 st')"
    and "kept st0 st" "s \<noteq> []" "length s \<le> fuel"
  shows "wp (Element_Parse (Suc fuel) enc (At s) st) (stops st0) (goes_on st0 s)"
proof -
  have less: "Suc (length u) < length s"
    if "SkipWhiteSpace enc (At s) = At p" "\<not> ended p" "SkipWhiteSpace enc (At (drop 1 p)) = At t"
      "ReadName t = Some (n, u)" for p t n u
  proof -
    have "length u < length t" using ReadName_Some [OF that(4)] by (cases n) auto
    with SkipWhiteSpace_le [OF that(1)] SkipWhiteSpace_le [OF that(3)] ended_pos [OF that(2)]
    show ?thesis unfolding length_drop by linarith
  qed
  have rv: "wp (ReadValue fuel enc (At q) [] st) (stops st0) P"
    if "Suc (length q) < fuel" "kept st0 st"
      "\<And>r cs st'. cptr_size r \<le> Suc (length q) \<Longrightarrow> kept st0 st' \<Longrightarrow> P ((r, cs), st')" for q st P
    by (rule wp_cons [OF ReadValue [OF that(1,2)]]) (use that(3) in auto)
  show ?thesis
    unfolding Element_Parse.simps(2) at_deadline_def
    by (intro wp_intro rv) (use assms in \<open>auto dest!: less [simplified]\<close>)
qed

text \<open>The bound: what is left of the text, plus one for \<open>Element_Parse\<close> and plus two for \<open>ReadValue\<close>.\<close>

lemma wp_ReadValue_step:
  assumes Element: "\<And>s st. s \<noteq> [] \<Longrightarrow> length s < fuel \<Longrightarrow> kept st0 st \<Longrightarrow>
      wp (Element_Parse fuel enc (At s) st) (stops st0) (goes_on st0 s)"
    and ReadValue: "\<And>q cs st. cptr_size q < fuel \<Longrightarrow> kept st0 st \<Longrightarrow>
      wp (ReadValue fuel enc q cs st) (stops st0) (\<lambda>((r, cs'), st'). cptr_size r \<le> cptr_size q \<and> kept st0 st')"
    and "kept st0 st" "cptr_size p0 \<le> fuel"
  shows "wp (ReadValue (Suc fuel) enc p0 cs st) (stops st0) (\<lambda>((r, cs'), st'). cptr_size r \<le> cptr_size p0 \<and> kept st0 st')"
proof (cases "SkipWhiteSpace enc p0")
  case (At p)
  then obtain s where p0: "p0 = At s" "length p \<le> length s"
    using At by (cases p0) (auto dest: SkipWhiteSpace_le simp: SkipWhiteSpace_def [of _ Null] SkipWhiteSpace_def [of _ Beyond])
  have rest: "wp (and_then m (\<lambda>((q, n), st1). ReadValue fuel enc q (f n) st1)) (stops st0)
      (\<lambda>((r, cs'), st'). cptr_size r \<le> Suc (length s) \<and> kept st0 st')"
    if "wp m (stops st0) (goes_on st0 p)" for m f
    using that p0 assms(4)
    by (auto elim!: wp_cons intro!: wp_cons [OF ReadValue])
  show ?thesis
  proof (cases "ended p")
    case False
    then have ne: "p \<noteq> []" by (auto simp: ended_def)
    have lt: "length p < fuel" using p0 assms(4) by simp
    note idem = SkipWhiteSpace_idem [OF At False]
    show ?thesis
    proof (cases "peek p 0 = CHR ''<''")
      case True
      show ?thesis
        using At False True p0 assms(3) ne lt
        by (auto split: option.split node_kind.split simp del: wp_and_then
            intro!: rest Element wp_Declaration_Parse wp_Comment_Parse wp_Text_Parse_cdata wp_Unknown_Parse)
    next
      case no: False
      show ?thesis
        using At False no p0(1)
        by (simp add: condenseWhiteSpace_def rest wp_Text_Parse_plain [OF assms(3) idem False no] del: wp_and_then)
    qed
  qed (use At p0 assms(3) in auto)
qed (use assms in \<open>auto intro!: wp_intro\<close>)

lemma wp_Element_ReadValue:
  "(\<forall>s st. s \<noteq> [] \<longrightarrow> length s < fuel \<longrightarrow> kept st0 st \<longrightarrow>
      wp (Element_Parse fuel enc (At s) st) (stops st0) (goes_on st0 s)) \<and>
   (\<forall>q cs st. cptr_size q < fuel \<longrightarrow> kept st0 st \<longrightarrow>
      wp (ReadValue fuel enc q cs st) (stops st0) (\<lambda>((r, cs'), st'). cptr_size r \<le> cptr_size q \<and> kept st0 st'))"
proof (induction fuel)
  case (Suc fuel)
  have E: "\<And>s st. s \<noteq> [] \<Longrightarrow> length s < fuel \<Longrightarrow> kept st0 st \<Longrightarrow>
      wp (Element_Parse fuel enc (At s) st) (stops st0) (goes_on st0 s)"
    and R: "\<And>q cs st. cptr_size q < fuel \<Longrightarrow> kept st0 st \<Longrightarrow>
      wp (ReadValue fuel enc q cs st) (stops st0) (\<lambda>((r, cs'), st'). cptr_size r \<le> cptr_size q \<and> kept st0 st')"
    using Suc.IH by blast+
  have "wp (Element_Parse (Suc fuel) enc (At s) st) (stops st0) (goes_on st0 s)"
    if "s \<noteq> []" "length s < Suc fuel" "kept st0 st" for s st
  proof (rule wp_Element_step)
    show "wp (ReadValue fuel enc (At q) [] st) (stops st0) (\<lambda>((r, cs), st'). cptr_size r \<le> Suc (length q) \<and> kept st0 st')"
      if "Suc (length q) < fuel" "kept st0 st" for q st
      using R [of "At q" st "[]"] that by simp
  qed (use that in auto)
  moreover have "wp (ReadValue (Suc fuel) enc q cs st) (stops st0)
      (\<lambda>((r, cs'), st'). cptr_size r \<le> cptr_size q \<and> kept st0 st')"
    if "cptr_size q < Suc fuel" "kept st0 st" for q cs st
    by (rule wp_ReadValue_step) (use that E R in auto)
  ultimately show ?case by blast
qed simp

lemma wp_node_Parse:
  assumes "kept st0 st" "s \<noteq> []" "length s < fuel"
  shows "wp (node_Parse fuel k enc (At s) st) (stops st0) (goes_on st0 s)"
  unfolding node_Parse_def
  using assms
  by (cases k) (auto intro: wp_Element_ReadValue [THEN conjunct1, rule_format]
      wp_Declaration_Parse wp_Comment_Parse wp_Text_Parse_cdata wp_Unknown_Parse)

section \<open>Documents\<close>

lemma SkipWhiteSpace_size: "cptr_size (SkipWhiteSpace enc q) \<le> cptr_size q"
proof (cases "SkipWhiteSpace enc q")
  case (At t)
  then show ?thesis
    by (cases q) (auto dest: SkipWhiteSpace_le simp: SkipWhiteSpace_def [of _ Null] SkipWhiteSpace_def [of _ Beyond])
qed simp_all

lemma wp_doc_loop:
  "kept st0 st \<Longrightarrow> cptr_size p0 < fuel \<Longrightarrow> wp (doc_loop fuel enc p0 cs st) (stops st0) (\<lambda>(r, st'). kept st0 st')"
proof (induction fuel arbitrary: enc p0 cs st)
  case (Suc fuel)
  show ?case
  proof (cases p0)
    case (At p)
    show ?thesis
    proof (cases "ended p \<or> Identify enc (At p) = None")
      case False
      then obtain k where k: "\<not> ended p" "Identify enc (At p) = Some k" by auto
      then have ne: "p \<noteq> []" by (auto simp: ended_def)
      have "wp (node_Parse fuel k enc (At p) st) (stops st0) (goes_on st0 p)"
        by (rule wp_node_Parse) (use Suc.prems ne At in auto)
      moreover have "cptr_size (SkipWhiteSpace enc' q) < fuel" if "cptr_size q \<le> length p" for enc' q
        using that SkipWhiteSpace_size [of enc' q] Suc.prems(2) At by simp
      ultimately show ?thesis
        using At k by (auto simp: Let_def elim!: wp_cons intro!: wp_intro Suc.IH)
    qed (use At Suc.prems in auto)
  qed (use Suc.prems in auto)
qed simp

definition new_data :: "bytes \<Rightarrow> xml_doc \<Rightarrow> parse_state" where
  "new_data s d = (ClearError, \<lparr>pd_cursor = \<lparr>cur_row = 0, cur_col = 0\<rparr>, pd_stamp = s, pd_tabsize = doc_tabsize d\<rparr>)"

lemma wp_Document_Parse:
  assumes "length s + 2 \<le> fuel"
  shows "wp (Document_Parse fuel enc s d) (stops (new_data s d)) (\<lambda>_. True)"
proof -
  have loop: "wp (doc_loop fuel e (At p) cs (new_data s d)) (stops (new_data s d)) P"
    if "SkipWhiteSpace e (At s) = At p" "\<And>r st'. P (r, st')" for e p cs P
    by (rule wp_cons [OF wp_doc_loop]) (use SkipWhiteSpace_le [OF that(1)] assms that(2) in auto)
  show ?thesis
    unfolding Document_Parse_def Let_def new_data_def [symmetric]
    by (intro wp_intro loop) auto
qed

section \<open>The bound does not matter\<close>

text \<open>\<open>refined m m'\<close>: the run \<open>m'\<close>, with more fuel, agrees with \<open>m\<close> unless \<open>m\<close> ran out of it.\<close>

named_theorems refined_intro "congruences of the order of runs with less and more fuel"

definition refined :: "'a run \<Rightarrow> 'a run \<Rightarrow> bool" where
  "refined m m' \<longleftrightarrow> m = Inl Out_of_fuel \<or> m' = m"

lemma refined_refl [simp, refined_intro]: "refined m m" "refined (Inl Out_of_fuel) m'"
  by (simp_all add: refined_def)

lemma refined_bind [refined_intro]:
  "refined m m' \<Longrightarrow> (\<And>x. refined (f x) (g x)) \<Longrightarrow> refined (and_then m f) (and_then m' g)"
  by (cases m) (auto simp: refined_def)

lemma refined_if [refined_intro]:
  "(b \<Longrightarrow> refined m m') \<Longrightarrow> (\<not> b \<Longrightarrow> refined n n') \<Longrightarrow> refined (if b then m else n) (if b then m' else n')"
  by simp

lemma refined_pair [refined_intro]:
  "(\<And>x y. refined (g x y) (h x y)) \<Longrightarrow> refined (case z of (x, y) \<Rightarrow> g x y) (case z of (x, y) \<Rightarrow> h x y)"
  by (cases z) auto

lemma refined_pair_app [refined_intro]:
  "(\<And>x y. refined (g x y w) (h x y w)) \<Longrightarrow> refined ((case z of (x, y) \<Rightarrow> g x y) w) ((case z of (x, y) \<Rightarrow> h x y) w)"
  by (cases z) auto

lemma refined_cptr [refined_intro]:
  "refined m m' \<Longrightarrow> (\<And>s. refined (h s) (h' s)) \<Longrightarrow> refined n n' \<Longrightarrow>
     refined (case p of Null \<Rightarrow> m | At s \<Rightarrow> h s | Beyond \<Rightarrow> n) (case p of Null \<Rightarrow> m' | At s \<Rightarrow> h' s | Beyond \<Rightarrow> n')"
  by (cases p) auto

lemma refined_option [refined_intro]:
  "refined m m' \<Longrightarrow> (\<And>x. refined (k x) (k' x)) \<Longrightarrow>
     refined (case q of None \<Rightarrow> m | Some x \<Rightarrow> k x) (case q of None \<Rightarrow> m' | Some x \<Rightarrow> k' x)"
  by (cases q) auto

lemma refined_tag_end [refined_intro]:
  "(\<And>q. refined (f q) (f' q)) \<Longrightarrow> (\<And>q. refined (g q) (g' q)) \<Longrightarrow> refined m m' \<Longrightarrow>
     refined (case e of Closed q \<Rightarrow> f q | Open q \<Rightarrow> g q | Failed \<Rightarrow> m)
       (case e of Closed q \<Rightarrow> f' q | Open q \<Rightarrow> g' q | Failed \<Rightarrow> m')"
  by (cases e) auto

lemma refined_kind [refined_intro]:
  "refined a a' \<Longrightarrow> refined b b' \<Longrightarrow> refined c c' \<Longrightarrow> refined d d' \<Longrightarrow> refined e e' \<Longrightarrow>
     refined (case k of K_DECLARATION \<Rightarrow> a | K_COMMENT \<Rightarrow> b | K_CDATA \<Rightarrow> c | K_UNKNOWN \<Rightarrow> d | K_ELEMENT \<Rightarrow> e)
       (case k of K_DECLARATION \<Rightarrow> a' | K_COMMENT \<Rightarrow> b' | K_CDATA \<Rightarrow> c' | K_UNKNOWN \<Rightarrow> d' | K_ELEMENT \<Rightarrow> e')"
  by (cases k) auto

lemma more_fuel_node:
  "(\<forall>enc p st. refined (Element_Parse n enc p st) (Element_Parse (Suc n) enc p st)) \<and>
   (\<forall>enc p cs st. refined (ReadValue n enc p cs st) (ReadValue (Suc n) enc p cs st))"
proof (induction n)
  case (Suc n)
  have IH: "refined (Element_Parse n enc p st) (Element_Parse m enc p st)"
    "refined (ReadValue n enc p cs st) (ReadValue m enc p cs st)" if "m = Suc n" for m enc p cs st
    unfolding that using Suc.IH by blast+
  have "refined (Element_Parse (Suc n) enc p st) (Element_Parse (Suc m) enc p st)" if "m = Suc n" for m enc p st
    unfolding Element_Parse.simps(2) by (intro refined_intro IH [OF that])
  moreover have "refined (ReadValue (Suc n) enc p cs st) (ReadValue (Suc m) enc p cs st)" if "m = Suc n" for m enc p cs st
    unfolding ReadValue.simps(2) by (intro refined_intro IH [OF that])
  ultimately show ?case by blast
qed simp

lemma more_fuel_doc: "refined (doc_loop n enc p cs st) (doc_loop (Suc n) enc p cs st)"
proof (induction n arbitrary: enc p cs st)
  case (Suc n)
  have node: "refined (node_Parse n k enc p st) (node_Parse (Suc n) k enc p st)" for k enc p st
    unfolding node_Parse_def by (intro refined_intro more_fuel_node [THEN conjunct1, rule_format])
  have IH: "refined (node_Parse n k enc p st) (node_Parse m k enc p st)"
    "refined (doc_loop n enc p cs st) (doc_loop m enc p cs st)" if "m = Suc n" for m k enc p cs st
    unfolding that using node Suc.IH by blast+
  have "refined (doc_loop (Suc n) enc p cs st) (doc_loop (Suc m) enc p cs st)" if "m = Suc n" for m
    unfolding doc_loop.simps(2) Let_def by (intro refined_intro IH [OF that])
  then show ?case by blast
qed simp

lemma Document_Parse_fuel:
  assumes "length s + 2 \<le> n"
  shows "Document_Parse n enc s d = Document_Parse (length s + 2) enc s d"
  using assms
proof (induction n rule: dec_induct)
  case (step n)
  have "refined (Document_Parse n enc s d) (Document_Parse (Suc n) enc s d)"
    unfolding Document_Parse_def Let_def by (intro refined_intro more_fuel_doc)
  moreover have "Document_Parse n enc s d \<noteq> Inl Out_of_fuel"
    using wp_Document_Parse [OF step.hyps(1), of enc d] by (auto simp: stops_def)
  ultimately show ?case using step.IH by (simp add: refined_def)
qed simp

section \<open>Loading\<close>

text \<open>What \<open>LoadFile\<close> does with any bytes: it returns, or it reads bytes behind the text, or it hangs; and it
  hangs only when there is a byte EF in them.\<close>

definition returns :: "'a run \<Rightarrow> bool" where
  "returns m \<longleftrightarrow> (\<exists>x. m = Inr x)"

lemma LoadFile_data_stops:
  assumes "LoadFile_data s enc d = Inl e"
  shows "e = Undefined \<or> e = Hangs \<and> TIXML_UTF_LEAD_0 \<in> set s"
proof -
  have "wp (Document_Parse (length s + 2) enc s (d\<lparr>doc_children := []\<rparr>)) (stops (new_data s d)) (\<lambda>_. True)"
    using wp_Document_Parse [of s "length s + 2" enc "d\<lparr>doc_children := []\<rparr>"] by (simp add: new_data_def)
  with assms have "stops (new_data s d) e"
    by (auto simp: LoadFile_data_def Let_def and_then_Inl split: if_splits)
  then show ?thesis by (simp add: stops_def lead_free_def new_data_def)
qed

text \<open>C16: Loading comes to an end: with any bytes, any encoding and any document to load into, \<open>LoadFile\<close> returns,
  or reads bytes behind the text, or runs for ever in \<open>Stamp\<close>, the latter only when the text has a byte EF. The
  bound on the recursion is never met, and a larger one would not change the result.\<close>

theorem loader_ends:
  "((\<exists>ok x. LoadFile_data s enc d = Inr (ok, x)) \<or> LoadFile_data s enc d = Inl Undefined \<or>
     LoadFile_data s enc d = Inl Hangs \<and> TIXML_UTF_LEAD_0 \<in> set s) \<and>
   Document_Parse (length s + 2 + extra) enc s d = Document_Parse (length s + 2) enc s d"
  using LoadFile_data_stops [of s enc d] Document_Parse_fuel [of s "length s + 2 + extra" enc d]
  by (cases "LoadFile_data s enc d") auto

end
