(* ===== verification/Xml_Canonical.thy ===== *)
theory Xml_Canonical
  imports Xml_Total
begin

text \<open>
  Documents in canonical form, and what the lexical steps of the parser do with their text. Canonical are
  the documents whose names are XML names, whose attribute values and texts are printable ASCII that the
  parser does not condense, and whose comments and CDATA sections do not contain their own end mark; CDATA
  may hold NULs. Theory Xml_Roundtrip shows that \<open>LoadFile\<close> reads them back from what \<open>SaveFile\<close> writes.
\<close>

section \<open>Canonical documents\<close>

definition plain :: "char \<Rightarrow> bool" where
  "plain c \<longleftrightarrow> 32 \<le> byte_val c \<and> byte_val c < 127"

text \<open>No hexadecimal reference, which \<open>EncodeString\<close> would leave as it is.\<close>

fun no_ref :: "bytes \<Rightarrow> bool" where
  "no_ref [] = True"
| "no_ref (c # s) \<longleftrightarrow> \<not> (c = CHR ''&'' \<and> 2 \<le> length s \<and> s ! 0 = CHR ''#'' \<and> s ! 1 = CHR ''x'') \<and> no_ref s"

fun free_of :: "bytes \<Rightarrow> bytes \<Rightarrow> bool" where
  "free_of pat [] = True"
| "free_of pat (c # s) \<longleftrightarrow> \<not> starts_with False pat (c # s) \<and> free_of pat s"

text \<open>No white space at the end and none doubled.\<close>

fun squeezed :: "bytes \<Rightarrow> bool" where
  "squeezed [] = True"
| "squeezed [c] \<longleftrightarrow> c \<noteq> CHR '' ''"
| "squeezed (c # d # s) \<longleftrightarrow> \<not> (c = CHR '' '' \<and> d = CHR '' '') \<and> squeezed (d # s)"

definition name_ok :: "bytes \<Rightarrow> bool" where
  "name_ok n \<longleftrightarrow> n \<noteq> [] \<and> (IsAlpha (hd n) \<or> hd n = CHR ''_'') \<and>
     list_all (\<lambda>c. name_char c \<and> c \<noteq> TIXML_UTF_LEAD_0) n"

definition value_ok :: "bytes \<Rightarrow> bool" where
  "value_ok v \<longleftrightarrow> list_all plain v \<and> no_ref v"

definition text_ok :: "bytes \<Rightarrow> bool" where
  "text_ok v \<longleftrightarrow> value_ok v \<and> v \<noteq> [] \<and> hd v \<noteq> CHR '' '' \<and> squeezed v"

definition attributes_ok :: "(bytes \<times> bytes) list \<Rightarrow> bool" where
  "attributes_ok as \<longleftrightarrow> distinct (map fst as) \<and> list_all (\<lambda>(n, v). name_ok n \<and> value_ok v) as"

definition decl_value_ok :: "bytes \<Rightarrow> bool" where
  "decl_value_ok v \<longleftrightarrow>
     list_all (\<lambda>c. plain c \<and> c \<notin> {CHR ''&'', CHR ''<'', CHR ''>'', CHR 0x22, CHR 0x27}) v"

definition raw_ok :: "bytes \<Rightarrow> bool" where
  "raw_ok v \<longleftrightarrow> NUL \<notin> set v \<and> TIXML_UTF_LEAD_0 \<notin> set v"

fun plain_text :: "xml_node \<Rightarrow> bool" where
  "plain_text (TEXT cd v) \<longleftrightarrow> \<not> cd"
| "plain_text _ \<longleftrightarrow> False"

fun no_adjacent :: "xml_node list \<Rightarrow> bool" where
  "no_adjacent (x # y # r) \<longleftrightarrow> \<not> (plain_text x \<and> plain_text y) \<and> no_adjacent (y # r)"
| "no_adjacent _ \<longleftrightarrow> True"

fun node_ok :: "xml_node \<Rightarrow> bool" where
  "node_ok (ELEMENT n as cs) \<longleftrightarrow> name_ok n \<and> attributes_ok as \<and> list_all node_ok cs \<and> no_adjacent cs"
| "node_ok (COMMENT v) \<longleftrightarrow> raw_ok v \<and> free_of ''-->'' v"
| "node_ok (UNKNOWN v) \<longleftrightarrow> raw_ok v \<and> v \<noteq> [] \<and> hd v = CHR ''!'' \<and> CHR ''>'' \<notin> set v \<and>
     \<not> starts_with False ''!--'' v \<and> \<not> starts_with False ''![CDATA['' v"
| "node_ok (TEXT cd v) \<longleftrightarrow> (if cd then TIXML_UTF_LEAD_0 \<notin> set v \<and> free_of '']]>'' v else text_ok v)"
| "node_ok (DECLARATION ver enc sa) \<longleftrightarrow> decl_value_ok ver \<and> decl_value_ok enc \<and> decl_value_ok sa"

definition doc_ok :: "xml_doc \<Rightarrow> bool" where
  "doc_ok d \<longleftrightarrow> list_all node_ok (doc_children d) \<and> list_all (\<lambda>n. \<not> plain_text n) (doc_children d) \<and>
     doc_children d \<noteq> [] \<and> \<not> ToUnknown (hd (doc_children d)) \<and> FirstChildElement_any (doc_children d) \<noteq> None"

section \<open>Characters\<close>

definition enc_char :: "char \<Rightarrow> bytes" where
  "enc_char c = EncodeString [c]"

definition enc_text :: "bytes \<Rightarrow> bytes" where
  "enc_text v = concat (map enc_char v)"

lemma enc_text_simps [simp]: "enc_text [] = []" "enc_text (c # v) = enc_char c @ enc_text v"
  by (simp_all add: enc_text_def)

lemma EncodeString_enc_text: "no_ref v \<Longrightarrow> EncodeString v = enc_text v"
  by (induction v) (auto simp: enc_char_def)

lemma plain_cases:
  assumes "plain c"
  obtains "c = CHR ''&''" | "c = CHR ''<''" | "c = CHR ''>''" | "c = CHR 0x22" | "c = CHR 0x27"
    | "c \<notin> {CHR ''&'', CHR ''<'', CHR ''>'', CHR 0x22, CHR 0x27}" "enc_char c = [c]"
  using assms by (fastforce simp: enc_char_def plain_def)

lemma plain_simps [simp]:
  assumes "plain c"
  shows "c \<noteq> NUL" "c \<noteq> TIXML_UTF_LEAD_0" "IsWhiteSpace c \<longleftrightarrow> c = CHR '' ''" "utf8ByteTable c = 1"
proof -
  have "byte_val NUL = 0" "byte_val TIXML_UTF_LEAD_0 = 239" by (simp_all add: TIXML_UTF_LEAD_0_def)
  with assms show "c \<noteq> NUL" "c \<noteq> TIXML_UTF_LEAD_0" by (auto simp: plain_def)
  have "byte_val c = 32 \<longleftrightarrow> c = CHR '' ''"
    using of_char_eq_iff [of c "CHR '' ''", where 'a = nat] by simp
  with assms show "IsWhiteSpace c \<longleftrightarrow> c = CHR '' ''"
    by (auto simp: IsWhiteSpace_def is_space_def plain_def)
  show "utf8ByteTable c = 1" using assms by (simp add: utf8ByteTable_def plain_def)
qed

lemma GetChar_enc_char:
  assumes "plain c"
  shows "GetChar enc (enc_char c @ rest) = (At rest, [c])"
proof (cases rule: plain_cases [OF assms])
  case 6
  with assms show ?thesis by (simp add: GetChar_def Let_def)
qed (simp_all add: enc_char_def GetChar_def GetEntity_def entities_def utf8ByteTable_def Let_def)

lemma enc_char_head:
  assumes "plain c"
  shows "enc_char c \<noteq> []" "peek (enc_char c @ r) 0 \<noteq> NUL" "peek (enc_char c @ r) 0 \<notin> {CHR ''<'', CHR 0x22, CHR 0x27}"
    "IsWhiteSpace (peek (enc_char c @ r) 0) \<longleftrightarrow> c = CHR '' ''" "peek (enc_char c @ r) 0 \<noteq> TIXML_UTF_LEAD_0"
proof -
  have "enc_char c \<noteq> [] \<and> peek (enc_char c @ r) 0 \<noteq> NUL \<and> peek (enc_char c @ r) 0 \<notin> {CHR ''<'', CHR 0x22, CHR 0x27} \<and>
    (IsWhiteSpace (peek (enc_char c @ r) 0) \<longleftrightarrow> c = CHR '' '') \<and> peek (enc_char c @ r) 0 \<noteq> TIXML_UTF_LEAD_0"
  proof (cases rule: plain_cases [OF assms])
    case 6
    with assms show ?thesis by simp
  qed (simp_all add: enc_char_def IsWhiteSpace_def is_space_def TIXML_UTF_LEAD_0_def)
  then show "enc_char c \<noteq> []" "peek (enc_char c @ r) 0 \<noteq> NUL"
    "peek (enc_char c @ r) 0 \<notin> {CHR ''<'', CHR 0x22, CHR 0x27}"
    "IsWhiteSpace (peek (enc_char c @ r) 0) \<longleftrightarrow> c = CHR '' ''" "peek (enc_char c @ r) 0 \<noteq> TIXML_UTF_LEAD_0"
    by blast+
qed

lemma enc_char_space: "enc_char (CHR '' '') = '' ''"
  by (simp add: enc_char_def)

lemma StringEqual_head: "StringEqual False (t # tag) s \<Longrightarrow> peek s 0 = t"
  by (cases s) (auto simp: StringEqual_def)

lemma read_kept_text:
  assumes "list_all plain v" "q \<in> {CHR 0x22, CHR 0x27}"
  shows "read_kept enc [q] False (enc_text v @ q # rest) acc = Inr (At (q # rest), acc @ v)"
  using assms(1)
proof (induction v arbitrary: acc)
  case Nil
  have "StringEqual False [q] (q # rest)" using assms(2) by (auto simp: StringEqual_def)
  then show ?case by (subst read_kept.simps) simp
next
  case (Cons c v)
  let ?s = "enc_char c @ enc_text v @ q # rest"
  have c: "plain c" using Cons.prems by simp
  have "\<not> StringEqual False [q] ?s" using enc_char_head(3) [OF c] assms(2) by (auto dest: StringEqual_head)
  with enc_char_head [OF c] GetChar_enc_char [OF c] Cons show ?case
    by (subst read_kept.simps) simp
qed

lemma IsWhiteSpace_head: "IsWhiteSpace c \<Longrightarrow> c \<noteq> CHR ''<'' \<and> c \<noteq> NUL \<and> c \<noteq> TIXML_UTF_LEAD_0"
  by (auto simp: IsWhiteSpace_def is_space_def TIXML_UTF_LEAD_0_def)

lemma read_condensed_end:
  assumes "list_all IsWhiteSpace w"
  shows "read_condensed enc ''<'' False ws (w @ CHR ''<'' # r) acc = Inr (At (CHR ''<'' # r), acc)"
  using assms
proof (induction w arbitrary: ws)
  case Nil
  have "StringEqual False ''<'' (CHR ''<'' # r)" by (simp add: StringEqual_def)
  then show ?case by (subst read_condensed.simps) simp
next
  case (Cons c w)
  then have c: "IsWhiteSpace c" "c \<noteq> CHR ''<''" "c \<noteq> NUL" using IsWhiteSpace_head by auto
  then have "\<not> StringEqual False ''<'' (c # w @ CHR ''<'' # r)" by (auto dest: StringEqual_head)
  with c Cons show ?case by (subst read_condensed.simps) simp
qed

lemma read_condensed_char:
  assumes "plain c" "c \<noteq> CHR '' ''"
  shows "read_condensed enc ''<'' False ws (enc_char c @ s) acc =
    read_condensed enc ''<'' False False s (acc @ (if ws then '' '' else []) @ [c])"
proof -
  have "\<not> StringEqual False ''<'' (enc_char c @ s)"
    using enc_char_head(3) [OF assms(1)] by (auto dest: StringEqual_head)
  with enc_char_head [OF assms(1)] GetChar_enc_char [OF assms(1)] assms(2) show ?thesis
    by (subst read_condensed.simps) simp
qed

lemma read_condensed_text:
  assumes "list_all plain v" "squeezed v" "list_all IsWhiteSpace w" "ws \<Longrightarrow> v \<noteq> [] \<Longrightarrow> hd v \<noteq> CHR '' ''"
  shows "read_condensed enc ''<'' False ws (enc_text v @ w @ CHR ''<'' # r) acc =
    Inr (At (CHR ''<'' # r), acc @ (if ws \<and> v \<noteq> [] then '' '' else []) @ v)"
  using assms(1,2,4)
proof (induction v arbitrary: ws acc rule: squeezed.induct)
  case 1
  then show ?case using read_condensed_end [OF assms(3)] by simp
next
  case (2 c)
  then show ?case using read_condensed_end [OF assms(3)] by (simp add: read_condensed_char)
next
  case (3 c d s)
  show ?case
  proof (cases "c = CHR '' ''")
    case True
    with 3 have d: "d \<noteq> CHR '' ''" "\<not> ws" by auto
    have "\<not> StringEqual False ''<'' (CHR '' '' # t)" for t by (simp add: StringEqual_def)
    moreover have "enc_text (c # d # s) @ w @ CHR ''<'' # r = CHR '' '' # (enc_text (d # s) @ w @ CHR ''<'' # r)"
      by (simp add: True enc_char_space)
    moreover have "IsWhiteSpace (CHR '' '')" by (simp add: IsWhiteSpace_def is_space_def)
    ultimately show ?thesis
      using d 3 True by (simp add: read_condensed.simps [of _ _ _ _ "CHR '' '' # _"] del: enc_text_simps(2))
  next
    case False
    with 3 show ?thesis by (simp add: read_condensed_char)
  qed
qed

section \<open>Steps that succeed\<close>

text \<open>\<open>yields st m x\<close>: the run \<open>m\<close> ends with \<open>x\<close>, has set no error since \<open>st\<close> and keeps the parsing data
  free of EF bytes.\<close>

named_theorems yields_intro "steps of the parser that succeed"

definition quiet :: "parse_state \<Rightarrow> parse_state \<Rightarrow> bool" where
  "quiet st st' \<longleftrightarrow> fst st' = fst st \<and> lead_free st'"

definition yields :: "parse_state \<Rightarrow> ('a \<times> parse_state) run \<Rightarrow> 'a \<Rightarrow> bool" where
  "yields st m x \<longleftrightarrow> (\<exists>st'. m = Inr (x, st') \<and> quiet st st')"

lemma quiet_trans: "quiet st st1 \<Longrightarrow> quiet st1 st2 \<Longrightarrow> quiet st st2"
  by (auto simp: quiet_def)

lemma quiet_lead_free: "quiet st st1 \<Longrightarrow> lead_free st1"
  by (simp add: quiet_def)

lemma yields_Inr [yields_intro]: "quiet st st' \<Longrightarrow> x' = x \<Longrightarrow> yields st (Inr (x', st')) x"
  by (auto simp: yields_def)

lemma yields_bind:
  assumes "yields st m x" "\<And>st'. quiet st st' \<Longrightarrow> yields st (f (x, st')) y"
  shows "yields st (and_then m f) y"
  using assms by (auto simp: yields_def)

lemma yields_from: "quiet st st1 \<Longrightarrow> yields st1 m x \<Longrightarrow> yields st m x"
  by (auto simp: yields_def intro: quiet_trans)

lemma Stamp_total:
  assumes "TIXML_UTF_LEAD_0 \<notin> set (pd_stamp pd)"
  shows "\<exists>pd'. Stamp enc s pd = Inr pd' \<and> TIXML_UTF_LEAD_0 \<notin> set (pd_stamp pd')"
proof -
  let ?run = "stamp_run enc (pd_tabsize pd) (length s) (pd_stamp pd) (cur_row (pd_cursor pd)) (cur_col (pd_cursor pd))"
  have "?run \<noteq> None" by (rule stamp_run_lead_free [OF assms])
  then obtain x where x: "?run = Some x" by blast
  show ?thesis
  proof (cases x)
    case (Some y)
    obtain p r c where "y = (p, r, c)" by (cases y)
    with x Some have "set p \<subseteq> set (pd_stamp pd)" by (auto dest: stamp_run_suffix)
    with x Some assms \<open>y = (p, r, c)\<close> show ?thesis by (auto simp: Stamp_def Stamp_loop_run)
  qed (use x assms in \<open>auto simp: Stamp_def Stamp_loop_run\<close>)
qed

lemma yields_stamp:
  assumes "lead_free st" "\<And>st'. quiet st st' \<Longrightarrow> yields st (f st') x"
  shows "yields st (and_then (stamp_at enc s st) f) x"
proof -
  obtain pd where "Stamp enc s (snd st) = Inr pd" "quiet st (fst st, pd)"
    using Stamp_total [of "snd st" enc s] assms(1) by (auto simp: lead_free_def quiet_def)
  with assms(2) show ?thesis by (simp add: stamp_at_def)
qed

lemma SkipWhiteSpace_dropWhile:
  assumes "\<not> ended s" "peek (dropWhile IsWhiteSpace s) 0 \<noteq> TIXML_UTF_LEAD_0"
  shows "SkipWhiteSpace enc (At s) = At (dropWhile IsWhiteSpace s)"
proof -
  have "skip_utf8 t = dropWhile IsWhiteSpace t" if "peek (dropWhile IsWhiteSpace t) 0 \<noteq> TIXML_UTF_LEAD_0" for t
    using that
  proof (induction t)
    case (Cons c t)
    then show ?case
      using IsWhiteSpace_head [of c] by (cases "IsWhiteSpace c") (auto simp: zero_width_def)
  qed simp
  with assms show ?thesis by (auto simp: SkipWhiteSpace_def ended_def)
qed

lemma SkipWhiteSpace_none:
  assumes "c \<noteq> NUL" "\<not> IsWhiteSpace c" "c \<noteq> TIXML_UTF_LEAD_0"
  shows "SkipWhiteSpace enc (At (c # s)) = At (c # s)"
  using assms by (subst SkipWhiteSpace_dropWhile) (auto simp: ended_def)

lemma SkipWhiteSpace_one:
  assumes "c \<noteq> NUL" "\<not> IsWhiteSpace c" "c \<noteq> TIXML_UTF_LEAD_0"
  shows "SkipWhiteSpace enc (At (CHR '' '' # c # s)) = At (c # s)"
  using assms by (subst SkipWhiteSpace_dropWhile) (auto simp: ended_def IsWhiteSpace_def is_space_def)

section \<open>Names and attributes\<close>

lemma name_char_simps:
  assumes "name_char c" "c \<noteq> TIXML_UTF_LEAD_0"
  shows "\<not> IsWhiteSpace c" "c \<noteq> NUL" "c \<notin> {CHR ''='', CHR ''>'', CHR ''/'', CHR ''<'', CHR ''&'', CHR 0x22, CHR 0x27}"
    "\<not> byte_val c < 32"
  using assms by (auto simp: name_char_def IsWhiteSpace_def is_space_def IsAlphaNum_def isalpha_def isdigit_def split: if_splits)

lemma EncodeString_name: "list_all (\<lambda>c. name_char c \<and> c \<noteq> TIXML_UTF_LEAD_0) n \<Longrightarrow> EncodeString n = n"
  by (induction n) (use name_char_simps in \<open>auto\<close>)

lemma name_ok_no_NUL: "name_ok n \<Longrightarrow> NUL \<notin> set n"
  by (auto simp: name_ok_def list_all_iff dest: name_char_simps)

lemma ReadName_name:
  assumes "name_ok n" "\<not> name_char (peek s 0)"
  shows "ReadName (n @ s) = Some (n, s)"
proof -
  from assms(1) obtain c m where n: "n = c # m" by (cases n) (auto simp: name_ok_def)
  have "takeWhile name_char (n @ s) = n \<and> dropWhile name_char (n @ s) = s"
    using assms by (cases s) (auto simp: name_ok_def list_all_iff takeWhile_append dropWhile_append peek_def)
  with n assms(1) show ?thesis
    by (auto simp: ReadName_def name_ok_def name_char_def)
qed

definition quote_of :: "bytes \<Rightarrow> char" where
  "quote_of v = (if CHR 0x22 \<notin> set v then CHR 0x22 else CHR 0x27)"

definition attr_text :: "bytes \<times> bytes \<Rightarrow> bytes" where
  "attr_text a = fst a @ ''='' @ [quote_of (snd a)] @ enc_text (snd a) @ [quote_of (snd a)]"

lemma plain_no_NUL: "list_all plain v \<Longrightarrow> NUL \<notin> set v"
  by (auto simp: list_all_iff plain_def)

lemma enc_text_no_NUL: "list_all plain v \<Longrightarrow> NUL \<notin> set (enc_text v) \<and> TIXML_UTF_LEAD_0 \<notin> set (enc_text v)"
proof (induction v)
  case (Cons c v)
  then have c: "plain c" by simp
  have "NUL \<notin> set (enc_char c) \<and> TIXML_UTF_LEAD_0 \<notin> set (enc_char c)"
  proof (cases rule: plain_cases [OF c])
    case 6
    have "NUL \<noteq> c" "TIXML_UTF_LEAD_0 \<noteq> c" using plain_simps(1,2) [OF c] by simp_all
    with 6 show ?thesis by simp
  qed (simp_all add: enc_char_def TIXML_UTF_LEAD_0_def)
  with Cons show ?case by auto
qed simp

lemma Attribute_Print_text:
  assumes "name_ok n" "value_ok v"
  shows "concat (Attribute_Print (n, v)) = attr_text (n, v)"
proof -
  have "EncodeString n = n" using assms(1) by (simp add: name_ok_def EncodeString_name)
  moreover have "EncodeString v = enc_text v" using assms(2) by (simp add: value_ok_def EncodeString_enc_text)
  ultimately show ?thesis
    using assms name_ok_no_NUL [OF assms(1)] enc_text_no_NUL [of v] plain_no_NUL [of v]
    by (simp add: Attribute_Print_def Let_def attr_text_def quote_of_def value_ok_def)
qed

lemma quote_of_simps: "quote_of v \<in> {CHR 0x22, CHR 0x27}" "\<not> IsWhiteSpace (quote_of v)"
  "quote_of v \<noteq> NUL" "quote_of v \<noteq> TIXML_UTF_LEAD_0"
  by (auto simp: quote_of_def IsWhiteSpace_def is_space_def TIXML_UTF_LEAD_0_def)

lemma ended_Cons [simp]: "ended (c # s) \<longleftrightarrow> c = NUL"
  by (simp add: ended_def)

lemma ReadText_quoted:
  assumes "list_all plain v"
  shows "ReadText enc False [quote_of v] False (At (enc_text v @ quote_of v # rest)) = Inr (At rest, v)"
  using read_kept_text [OF assms quote_of_simps(1), of enc v rest "[]"]
  by (simp add: ReadText_def ReadText_loop_def adv_def)

lemma name_head:
  assumes "name_ok n"
  obtains c m where "n = c # m" "\<not> IsWhiteSpace c" "c \<noteq> NUL" "c \<noteq> TIXML_UTF_LEAD_0"
    "c \<notin> {CHR ''='', CHR ''>'', CHR ''/'', CHR ''<'', CHR ''&'', CHR 0x22, CHR 0x27}"
    "IsAlpha c \<or> c = CHR ''_''"
  using assms name_char_simps by (cases n) (auto simp: name_ok_def)

lemma Attribute_value_text:
  assumes "list_all plain v" "quiet st st'"
  shows "yields st (Attribute_value document enc n (quote_of v # enc_text v @ quote_of v # rest) st') (At rest, n, v)"
  using ReadText_quoted [OF assms(1)] assms(2)
  by (auto simp: Attribute_value_def quote_of_def intro!: yields_Inr)

lemma Attribute_Parse_text:
  assumes "name_ok n" "list_all plain v" "lead_free st"
  shows "yields st (Attribute_Parse document enc (At (attr_text (n, v) @ rest)) st) (At rest, n, v)"
proof -
  obtain c m where n: "n = c # m" "\<not> IsWhiteSpace c" "c \<noteq> NUL" "c \<noteq> TIXML_UTF_LEAD_0"
    by (rule name_head [OF assms(1)]) (rule that, assumption+)
  let ?u = "CHR ''='' # quote_of v # enc_text v @ quote_of v # rest"
  have eqn: "attr_text (n, v) @ rest = n @ ?u" by (simp add: attr_text_def)
  have ws: "SkipWhiteSpace enc (At (n @ ?u)) = At (n @ ?u)" using n SkipWhiteSpace_none by simp
  have eq: "SkipWhiteSpace enc (At ?u) = At ?u"
    by (rule SkipWhiteSpace_none) (simp_all add: IsWhiteSpace_def is_space_def TIXML_UTF_LEAD_0_def)
  have q: "SkipWhiteSpace enc (At (drop 1 ?u)) = At (drop 1 ?u)"
    using SkipWhiteSpace_none quote_of_simps by simp
  have name: "ReadName (n @ ?u) = Some (n, ?u)"
    by (rule ReadName_name [OF assms(1)]) (simp add: name_char_def IsAlphaNum_def isalpha_def isdigit_def)
  have "yields st (and_then (stamp_at enc (n @ ?u) st) (\<lambda>st'.
      Attribute_value document enc n (drop 1 ?u) st')) (At rest, n, v)"
    by (rule yields_stamp [OF assms(3)]) (use Attribute_value_text [OF assms(2)] in simp)
  then show ?thesis
    unfolding eqn Attribute_Parse_def
    using ws eq q name n quote_of_simps by (simp add: at_deadline_def)
qed

text \<open>The attributes of a start tag.\<close>

definition attrs_text :: "(bytes \<times> bytes) list \<Rightarrow> bytes" where
  "attrs_text as = concat (map (\<lambda>a. '' '' @ attr_text a) as)"

lemma attr_loop_text:
  assumes "attributes_ok (acc @ as)" "lead_free st"
    and tail: "tail = '' />'' @ r \<and> e = Closed r \<or> tail = ''>'' @ r \<and> e = Open r"
  shows "yields st (attr_loop enc (attrs_text as @ tail) acc st) (e, acc @ as)"
  using assms(1,2)
proof (induction as arbitrary: acc st)
  case Nil
  then have q: "quiet st st" by (simp add: quiet_def)
  show ?case
  proof (cases "tail = '' />'' @ r \<and> e = Closed r")
    case True
    have "SkipWhiteSpace enc (At tail) = At (''/>'' @ r)"
      using True SkipWhiteSpace_one [of "CHR ''/''"] by (simp add: IsWhiteSpace_def is_space_def TIXML_UTF_LEAD_0_def)
    with True q show ?thesis
      by (subst attr_loop.simps) (simp add: attrs_text_def yields_Inr)
  next
    case False
    with tail have t: "tail = ''>'' @ r" "e = Open r" by auto
    have "SkipWhiteSpace enc (At tail) = At (''>'' @ r)"
      using t SkipWhiteSpace_none [of "CHR ''>''"] by (simp add: IsWhiteSpace_def is_space_def TIXML_UTF_LEAD_0_def)
    with t q show ?thesis
      by (subst attr_loop.simps) (simp add: attrs_text_def yields_Inr)
  qed
next
  case (Cons a as)
  obtain n v where a: "a = (n, v)" by (cases a)
  with Cons.prems have ok: "name_ok n" "value_ok v" "n \<notin> fst ` set acc" "list_all (\<lambda>(n, v). name_ok n \<and> value_ok v) acc"
    "attributes_ok ((acc @ [a]) @ as)"
    by (auto simp: attributes_ok_def)
  obtain c m where n: "n = c # m" "\<not> IsWhiteSpace c" "c \<noteq> NUL" "c \<noteq> TIXML_UTF_LEAD_0"
    "c \<notin> {CHR ''='', CHR ''>'', CHR ''/'', CHR ''<'', CHR ''&'', CHR 0x22, CHR 0x27}"
    by (rule name_head [OF ok(1)]) (rule that, assumption+)
  let ?rest = "attrs_text as @ tail"
  let ?p = "attr_text (n, v) @ ?rest"
  have eqn: "attrs_text (a # as) @ tail = '' '' @ ?p" by (simp add: attrs_text_def a)
  have p: "?p = c # drop 1 ?p" by (simp add: attr_text_def n)
  have ws: "SkipWhiteSpace enc (At (CHR '' '' # ?p)) = At ?p"
    using SkipWhiteSpace_one [OF n(3,2,4), of enc "drop 1 ?p"] p by simp
  have "\<not> ended ?rest"
    using tail by (cases as) (auto simp: attrs_text_def)
  moreover have "attr_Find n acc = None"
  proof -
    have "c_str (fst x) \<noteq> c_str n" if "x \<in> set acc" for x
      using that ok by (force simp: list_all_iff dest: name_ok_no_NUL)
    then show ?thesis by (auto simp: attr_Find_def find_None_iff)
  qed
  moreover obtain st1 where st1: "Attribute_Parse True enc (At ?p) st = Inr ((At ?rest, n, v), st1)" "quiet st st1"
    using Attribute_Parse_text [OF ok(1) _ Cons.prems(2), of v True enc ?rest] ok(2)
    by (auto simp: yields_def value_ok_def)
  moreover have "\<not> ended ?p" "peek ?p 0 \<noteq> CHR ''/''" "peek ?p 0 \<noteq> CHR ''>''"
    using n by (simp_all add: attr_text_def)
  ultimately have "attr_loop enc (attrs_text (a # as) @ tail) acc st = attr_loop enc ?rest (acc @ [a]) st1"
    unfolding eqn by (subst attr_loop.simps) (simp add: ws attr_Add_def a)
  moreover have "yields st1 (attr_loop enc ?rest (acc @ [a]) st1) (e, (acc @ [a]) @ as)"
    by (rule Cons.IH [OF ok(5) quiet_lead_free [OF st1(2)]])
  ultimately show ?case using yields_from [OF st1(2)] by simp
qed

end
