(* ===== verification/Xml_Roundtrip.thy ===== *)
theory Xml_Roundtrip
  imports Xml_Canonical
begin

text \<open>
  Printing and loading: what \<open>SaveFile\<close> writes of a document in canonical form (theory Xml_Canonical),
  \<open>LoadFile\<close> reads back as the same tree.
\<close>

section \<open>Nodes without children\<close>

lemma StringEqual_self: "t \<noteq> [] \<Longrightarrow> NUL \<notin> set t \<Longrightarrow> StringEqual False t (t @ r)"
proof -
  have "starts_with False t (t @ r)" if "NUL \<notin> set t" using that by (induction t) auto
  then show "t \<noteq> [] \<Longrightarrow> NUL \<notin> set t \<Longrightarrow> StringEqual False t (t @ r)"
    by (cases t) (auto simp: StringEqual_def)
qed

lemma starts_with_short:
  "starts_with ic pat (v @ c # r) \<Longrightarrow> c \<notin> set pat \<Longrightarrow> \<not> ic \<Longrightarrow> starts_with ic pat v"
proof (induction ic pat v rule: starts_with.induct)
  case (2 ic t tag)
  then show ?case by auto
qed auto

lemma free_of_end:
  assumes "t = ''-->'' \<or> t = '']]>''" "\<not> starts_with False t (c # s)"
  shows "\<not> starts_with False t (c # s @ t @ r)"
proof (cases s)
  case (Cons d s')
  with assms show ?thesis by (cases s') auto
qed (use assms in auto)

lemma comment_loop_text:
  "NUL \<notin> set v \<Longrightarrow> free_of ''-->'' v \<Longrightarrow> comment_loop (v @ ''-->'' @ r) acc = (''-->'' @ r, acc @ v)"
proof (induction v arbitrary: acc)
  case (Cons c v)
  then have "\<not> StringEqual False ''-->'' (c # v @ ''-->'' @ r)"
    using free_of_end [of "''-->''" c v r] by (auto simp: StringEqual_def)
  with Cons show ?case by auto
qed (simp add: StringEqual_def)

lemma cdata_loop_text:
  "free_of '']]>'' v \<Longrightarrow> cdata_loop (v @ '']]>'' @ r) acc = (Some ('']]>'' @ r), acc @ v)"
proof (induction v arbitrary: acc)
  case (Cons c v)
  then have "\<not> StringEqual False '']]>'' (c # v @ '']]>'' @ r)"
    using free_of_end [of "'']]>''" c v r] by (auto simp: StringEqual_def)
  with Cons show ?case by simp
qed (simp add: StringEqual_def)

lemma SkipWhiteSpace_open: "SkipWhiteSpace enc (At (CHR ''<'' # s)) = At (CHR ''<'' # s)"
  by (rule SkipWhiteSpace_none) (simp_all add: IsWhiteSpace_def is_space_def TIXML_UTF_LEAD_0_def)

lemma quiet_refl: "lead_free st \<Longrightarrow> quiet st st"
  by (simp add: quiet_def)

lemma Comment_Parse_text:
  assumes "NUL \<notin> set v" "free_of ''-->'' v" "lead_free st"
  shows "yields st (Comment_Parse enc (At (''<!--'' @ v @ ''-->'' @ r)) st) (At r, COMMENT v)"
proof -
  have "StringEqual False ''<!--'' (''<!--'' @ v @ ''-->'' @ r)" by (simp add: StringEqual_def)
  then show ?thesis
    using comment_loop_text [OF assms(1,2), of r "[]"]
    by (simp add: Comment_Parse_def SkipWhiteSpace_open adv_def)
      (rule yields_stamp [OF assms(3)], simp add: yields_Inr)
qed

lemma Unknown_Parse_text:
  assumes "NUL \<notin> set v" "CHR ''>'' \<notin> set v" "lead_free st"
  shows "yields st (Unknown_Parse enc (At (''<'' @ v @ ''>'' @ r)) st) (At r, UNKNOWN v)"
proof -
  define body where "body = (\<lambda>c. c \<noteq> NUL \<and> c \<noteq> CHR ''>'')"
  have "takeWhile body (v @ ''>'' @ r) = v" "dropWhile body (v @ ''>'' @ r) = ''>'' @ r"
    using assms(1,2) by (auto simp: body_def takeWhile_append dropWhile_append)
  then show ?thesis
    unfolding Unknown_Parse_def Let_def body_def [symmetric]
    by (simp add: at_deadline_def SkipWhiteSpace_open)
      (rule yields_stamp [OF assms(3)], simp add: yields_Inr)
qed

lemma Text_Parse_cdata_text:
  assumes "free_of '']]>'' v" "lead_free st"
  shows "yields st (Text_Parse True enc (At (''<![CDATA['' @ v @ '']]>'' @ r)) st) (At r, TEXT True v)"
proof -
  have "ReadText enc False '']]>'' False (At ('']]>'' @ r)) = Inr (At r, [])"
    by (simp add: ReadText_def ReadText_loop_def, subst read_kept.simps) (simp add: StringEqual_def adv_def)
  moreover have "StringEqual False ''<![CDATA['' (''<![CDATA['' @ v @ '']]>'' @ r)" by (simp add: StringEqual_def)
  ultimately show ?thesis
    using cdata_loop_text [OF assms(1), of r "[]"]
    by (simp add: Text_Parse_def at_deadline_def)
      (rule yields_stamp [OF assms(2)], simp add: yields_Inr)
qed

text \<open>A declaration: every value that is there is an attribute, the others stay empty.\<close>

definition decl_attr :: "bytes \<Rightarrow> bytes \<Rightarrow> bytes" where
  "decl_attr n v = (if v = [] then [] else attr_text (n, v) @ '' '')"

lemma decl_value_simps:
  assumes "decl_value_ok v"
  shows "list_all plain v" "enc_text v = v" "quote_of v = CHR 0x22" "NUL \<notin> set v"
proof -
  show *: "list_all plain v" using assms by (auto simp: decl_value_ok_def list_all_iff)
  show "NUL \<notin> set v" by (rule plain_no_NUL [OF *])
  show "quote_of v = CHR 0x22" using assms by (auto simp: quote_of_def decl_value_ok_def list_all_iff)
  have "enc_char c = [c]" if "c \<in> set v" for c
    using that assms by (auto simp: decl_value_ok_def list_all_iff elim: plain_cases)
  then show "enc_text v = v" by (induction v) auto
qed

lemma Declaration_Print_text:
  assumes "decl_value_ok ver" "decl_value_ok enc" "decl_value_ok sa"
  shows "concat (Declaration_Print ver enc sa) =
    ''<?xml '' @ decl_attr ''version'' ver @ decl_attr ''encoding'' enc @ decl_attr ''standalone'' sa @ ''?>''"
  using assms [THEN decl_value_simps(4)] assms [THEN decl_value_simps(2)] assms [THEN decl_value_simps(3)]
  by (simp add: Declaration_Print_def decl_attr_def attr_text_def)

text \<open>A step of the loop at white space before \<open>q\<close>, where a value is read.\<close>

lemma decl_attr_parse:
  assumes "decl_value_ok v" "lead_free st" "n \<in> {''version'', ''encoding'', ''standalone''}"
  shows "\<exists>st'. Attribute_Parse False enc (At (attr_text (n, v) @ r)) st = Inr ((At r, n, v), st') \<and> quiet st st'"
proof -
  have "name_ok n" using assms(3)
    by (auto simp: name_ok_def IsAlpha_def isalpha_def name_char_def IsAlphaNum_def TIXML_UTF_LEAD_0_def)
  from Attribute_Parse_text [OF this decl_value_simps(1) [OF assms(1)] assms(2), of False enc r]
  show ?thesis by (auto simp: yields_def)
qed

definition decl_tail :: "bytes \<Rightarrow> bool" where
  "decl_tail q \<longleftrightarrow> (\<exists>n v r. n \<in> {''version'', ''encoding'', ''standalone''} \<and> q = attr_text (n, v) @ r) \<or> (\<exists>r. q = ''?>'' @ r)"

lemma decl_tail_space: "decl_tail q \<Longrightarrow> SkipWhiteSpace enc (At ('' '' @ q)) = At q"
  by (auto simp: decl_tail_def attr_text_def IsWhiteSpace_def is_space_def TIXML_UTF_LEAD_0_def intro!: SkipWhiteSpace_one)

lemma decl_tail_attr:
  "decl_tail q \<Longrightarrow> n \<in> {''version'', ''encoding'', ''standalone''} \<Longrightarrow> decl_tail (decl_attr n v @ q)"
  by (auto simp: decl_attr_def decl_tail_def)

lemma decl_loop_space:
  assumes "decl_tail q"
  shows "decl_loop enc (At ('' '' @ q)) ver ec sa st =
    (if StringEqual True ''version'' q then
       and_then (Attribute_Parse False enc (At q) st) (\<lambda>((r, n, v), st'). decl_loop enc r (c_str v) ec sa st')
     else if StringEqual True ''encoding'' q then
       and_then (Attribute_Parse False enc (At q) st) (\<lambda>((r, n, v), st'). decl_loop enc r ver (c_str v) sa st')
     else if StringEqual True ''standalone'' q then
       and_then (Attribute_Parse False enc (At q) st) (\<lambda>((r, n, v), st'). decl_loop enc r ver ec (c_str v) st')
     else decl_loop enc (At (dropWhile (\<lambda>c. c \<noteq> NUL \<and> c \<noteq> CHR ''>'' \<and> \<not> IsWhiteSpace c) q)) ver ec sa st)"
  using decl_tail_space [OF assms, of enc]
  by (subst decl_loop.simps) (auto simp: and_then_def split: sum.splits)

lemma yields_decl_attr:
  assumes "decl_value_ok v" "lead_free st" "n \<in> {''version'', ''encoding'', ''standalone''}"
    and "\<And>st'. quiet st st' \<Longrightarrow> yields st' (f ((At r, n, v), st')) x"
  shows "yields st (and_then (Attribute_Parse False enc (At (attr_text (n, v) @ r)) st) f) x"
proof -
  obtain st' where "Attribute_Parse False enc (At (attr_text (n, v) @ r)) st = Inr ((At r, n, v), st')" "quiet st st'"
    using decl_attr_parse [OF assms(1-3)] by blast
  with yields_from [OF this(2) assms(4) [OF this(2)]] show ?thesis by simp
qed

lemma attr_text_equal:
  "StringEqual True ''version'' (attr_text (''version'', v) @ r)"
  "\<not> StringEqual True ''version'' (attr_text (''encoding'', v) @ r)"
  "StringEqual True ''encoding'' (attr_text (''encoding'', v) @ r)"
  "\<not> StringEqual True ''version'' (attr_text (''standalone'', v) @ r)"
  "\<not> StringEqual True ''encoding'' (attr_text (''standalone'', v) @ r)"
  "StringEqual True ''standalone'' (attr_text (''standalone'', v) @ r)"
  by (simp_all add: attr_text_def StringEqual_def ToLower_def)

lemma decl_tail_of: "decl_tail (''?>'' @ r)"
  "n \<in> {''version'', ''encoding'', ''standalone''} \<Longrightarrow> decl_tail (attr_text (n, v) @ r)"
  unfolding decl_tail_def by blast+

lemma yields_decl_version:
  assumes "decl_value_ok v" "decl_tail q" "lead_free st"
    and "\<And>st'. quiet st st' \<Longrightarrow> yields st' (decl_loop enc (At ('' '' @ q)) v ec sa st') x"
  shows "yields st (decl_loop enc (At ('' '' @ decl_attr ''version'' v @ q)) [] ec sa st) x"
proof (cases "v = []")
  case False
  let ?u = "attr_text (''version'', v) @ '' '' @ q"
  have "yields st (decl_loop enc (At ('' '' @ ?u)) [] ec sa st) x"
    by (simp only: decl_loop_space [OF decl_tail_of(2) [of "''version''", simplified]] attr_text_equal if_True if_False simp_thms)
      (rule yields_decl_attr [OF assms(1,3)], use assms(4) decl_value_simps(4) [OF assms(1)] in simp_all)
  with False show ?thesis by (simp add: decl_attr_def)
qed (use assms(4) [OF quiet_refl [OF assms(3)]] in \<open>simp add: decl_attr_def\<close>)

lemma yields_decl_encoding:
  assumes "decl_value_ok v" "decl_tail q" "lead_free st"
    and "\<And>st'. quiet st st' \<Longrightarrow> yields st' (decl_loop enc (At ('' '' @ q)) ver v sa st') x"
  shows "yields st (decl_loop enc (At ('' '' @ decl_attr ''encoding'' v @ q)) ver [] sa st) x"
proof (cases "v = []")
  case False
  let ?u = "attr_text (''encoding'', v) @ '' '' @ q"
  have "yields st (decl_loop enc (At ('' '' @ ?u)) ver [] sa st) x"
    by (simp only: decl_loop_space [OF decl_tail_of(2) [of "''encoding''", simplified]] attr_text_equal if_True if_False simp_thms)
      (rule yields_decl_attr [OF assms(1,3)], use assms(4) decl_value_simps(4) [OF assms(1)] in simp_all)
  with False show ?thesis by (simp add: decl_attr_def)
qed (use assms(4) [OF quiet_refl [OF assms(3)]] in \<open>simp add: decl_attr_def\<close>)

lemma yields_decl_standalone:
  assumes "decl_value_ok v" "decl_tail q" "lead_free st"
    and "\<And>st'. quiet st st' \<Longrightarrow> yields st' (decl_loop enc (At ('' '' @ q)) ver ec v st') x"
  shows "yields st (decl_loop enc (At ('' '' @ decl_attr ''standalone'' v @ q)) ver ec [] st) x"
proof (cases "v = []")
  case False
  let ?u = "attr_text (''standalone'', v) @ '' '' @ q"
  have "yields st (decl_loop enc (At ('' '' @ ?u)) ver ec [] st) x"
    by (simp only: decl_loop_space [OF decl_tail_of(2) [of "''standalone''", simplified]] attr_text_equal if_True if_False simp_thms)
      (rule yields_decl_attr [OF assms(1,3)], use assms(4) decl_value_simps(4) [OF assms(1)] in simp_all)
  with False show ?thesis by (simp add: decl_attr_def)
qed (use assms(4) [OF quiet_refl [OF assms(3)]] in \<open>simp add: decl_attr_def\<close>)

lemma Declaration_Parse_text:
  assumes "decl_value_ok ver" "decl_value_ok ec" "decl_value_ok sa" "lead_free st"
  shows "yields st (Declaration_Parse enc (At (concat (Declaration_Print ver ec sa) @ r)) st) (At r, DECLARATION ver ec sa)"
proof -
  let ?q = "''?>'' @ r"
  have last: "yields st' (decl_loop enc (At ('' '' @ ?q)) ver ec sa st') (At r, DECLARATION ver ec sa)"
    if "quiet st0 st'" for st0 st'
  proof -
    have "dropWhile (\<lambda>c. c \<noteq> NUL \<and> c \<noteq> CHR ''>'' \<and> \<not> IsWhiteSpace c) ?q = ''>'' @ r"
      by (simp add: IsWhiteSpace_def is_space_def)
    moreover have "\<not> StringEqual True ''version'' ?q" "\<not> StringEqual True ''encoding'' ?q"
      "\<not> StringEqual True ''standalone'' ?q"
      by (simp_all add: StringEqual_def ToLower_def)
    moreover have "decl_loop enc (At (''>'' @ r)) ver ec sa st' = Inr ((At r, DECLARATION ver ec sa), st')"
      by (subst decl_loop.simps) simp
    ultimately show ?thesis
      unfolding decl_loop_space [OF decl_tail_of(1)]
      using quiet_refl [OF quiet_lead_free [OF that]] by (simp add: yields_Inr)
  qed
  let ?sa = "decl_attr ''standalone'' sa @ ?q"
  let ?ec = "decl_attr ''encoding'' ec @ ?sa"
  have tails: "decl_tail ?q" "decl_tail ?sa" "decl_tail ?ec"
    using decl_tail_attr decl_tail_of(1) by simp_all
  have loop: "yields st' (decl_loop enc (At ('' '' @ decl_attr ''version'' ver @ ?ec)) [] [] [] st')
      (At r, DECLARATION ver ec sa)" if "quiet st st'" for st'
    by (intro yields_decl_version yields_decl_encoding yields_decl_standalone)
      (use assms(1-3) tails last quiet_lead_free that in blast)+
  have whole: "concat (Declaration_Print ver ec sa) @ r = ''<?xml'' @ '' '' @ decl_attr ''version'' ver @ ?ec"
    using Declaration_Print_text [OF assms(1-3)] by simp
  have "StringEqual True ''<?xml'' (''<?xml'' @ u)" for u by (simp add: StringEqual_def)
  then show ?thesis
    unfolding whole using loop
    by (simp add: Declaration_Parse_def at_deadline_def SkipWhiteSpace_open)
      (rule yields_stamp [OF assms(4)], rule yields_from, assumption, simp)
qed

section \<open>What is printed of a node\<close>

text \<open>White space before and behind a node, and the node itself.\<close>

definition indent :: "nat \<Rightarrow> bytes" where
  "indent d = concat (indentation d)"

definition kids :: "nat \<Rightarrow> xml_node list \<Rightarrow> bytes" where
  "kids d cs = concat (map (\<lambda>c. (if ToText c then [] else newline) @ concat (node_Print (Suc d) c)) cs)"

definition closing :: "nat \<Rightarrow> xml_node list \<Rightarrow> bytes" where
  "closing d cs = (if length cs = 1 \<and> ToText (hd cs) then [] else newline @ indent d)"

fun body :: "nat \<Rightarrow> xml_node \<Rightarrow> bytes" where
  "body d (ELEMENT n as cs) = ''<'' @ n @ attrs_text as @
     (if cs = [] then '' />'' else ''>'' @ kids d cs @ closing d cs @ ''</'' @ n @ ''>'')"
| "body d (COMMENT v) = ''<!--'' @ v @ ''-->''"
| "body d (UNKNOWN v) = ''<'' @ v @ ''>''"
| "body d (TEXT cd v) = (if cd then ''<![CDATA['' @ v @ '']]>'' else enc_text v)"
| "body d (DECLARATION ver enc sa) = concat (Declaration_Print ver enc sa)"

fun lead :: "nat \<Rightarrow> xml_node \<Rightarrow> bytes" where
  "lead d (TEXT cd v) = (if cd then newline @ indent d else [])"
| "lead d (DECLARATION ver enc sa) = []"
| "lead d x = indent d"

fun trail :: "xml_node \<Rightarrow> bytes" where
  "trail (TEXT cd v) = (if cd then newline else [])"
| "trail _ = []"

lemma attributes_text:
  assumes "attributes_ok as"
  shows "concat (concat (map (\<lambda>a. '' '' # Attribute_Print a) (attr_iterate as))) = attrs_text as"
proof -
  have all: "name_ok (fst a) \<and> value_ok (snd a)" if "a \<in> set as" for a
    using that assms by (auto simp: attributes_ok_def list_all_iff)
  then have "fst a \<noteq> []" if "a \<in> set as" for a
    using that by (auto simp: name_ok_def)
  then have "attr_iterate as = as"
    by (cases as) (force simp: takeWhile_eq_all_conv)+
  moreover have "concat (Attribute_Print a) = attr_text a" if "a \<in> set as" for a
    using Attribute_Print_text [of "fst a" "snd a"] all [OF that] by simp
  ultimately show ?thesis
    by (auto simp: attrs_text_def concat_concat_map o_def intro!: arg_cong [where f = concat])
qed

lemma node_Print_parts:
  assumes "node_ok x"
  shows "concat (node_Print d x) = lead d x @ body d x @ trail x"
proof (cases x)
  case (ELEMENT n as cs)
  with assms have n: "c_str n = n" "attributes_ok as" by (simp_all add: name_ok_no_NUL)
  show ?thesis
  proof (cases "length cs = 1 \<and> ToText (hd cs)")
    case True
    then obtain c where "cs = [c]" by (cases cs) auto
    with True n attributes_text [OF n(2)] show ?thesis
      by (simp add: ELEMENT start_tag_def end_tag_def indent_def kids_def closing_def)
  next
    case False
    with n attributes_text [OF n(2)] show ?thesis
      by (auto simp: ELEMENT start_tag_def end_tag_def indent_def kids_def closing_def concat_concat_map o_def
          intro!: arg_cong [where f = concat])
  qed
next
  case (TEXT cd v)
  with assms enc_text_no_NUL [of v] show ?thesis
    by (auto simp: indent_def text_ok_def value_ok_def EncodeString_enc_text)
qed (use assms in \<open>auto simp: indent_def raw_ok_def\<close>)

text \<open>What the printer adds is white space, and a printed node begins with a bracket.\<close>

lemma white [simp]: "IsWhiteSpace (CHR '' '')" "IsWhiteSpace (CHR 0x0A)" "\<not> IsWhiteSpace (CHR ''<'')"
  by (simp_all add: IsWhiteSpace_def is_space_def)

lemma indent_white: "list_all IsWhiteSpace (indent d)"
  by (auto simp: indent_def indentation_def list_all_iff)

lemma lead_trail_white: "list_all IsWhiteSpace (lead d x)" "list_all IsWhiteSpace (trail x)"
  "list_all IsWhiteSpace (closing d cs)"
  using indent_white by (cases x; auto simp: closing_def)+

lemma body_head:
  assumes "node_ok x" "\<not> plain_text x"
  shows "\<exists>c s. body d x = CHR ''<'' # c # s \<and> c \<noteq> CHR ''/''"
proof (cases x)
  case (ELEMENT n as cs)
  with assms(1) have "name_ok n" by simp
  then obtain c m where "n = c # m" "\<not> IsWhiteSpace c" "c \<noteq> NUL" "c \<noteq> TIXML_UTF_LEAD_0"
    "c \<notin> {CHR ''='', CHR ''>'', CHR ''/'', CHR ''<'', CHR ''&'', CHR 0x22, CHR 0x27}"
    by (rule name_head) (rule that, assumption+)
  with ELEMENT show ?thesis by simp
next
  case (UNKNOWN v)
  with assms(1) show ?thesis by (cases v) auto
qed (use assms in \<open>auto simp: Declaration_Print_def\<close>)

lemma dropWhile_white: "list_all IsWhiteSpace w \<Longrightarrow> dropWhile IsWhiteSpace (w @ s) = dropWhile IsWhiteSpace s"
  by (induction w) auto

section \<open>Parsing what is printed\<close>

definition parses :: "nat \<Rightarrow> xml_node \<Rightarrow> bool" where
  "parses d x \<longleftrightarrow> (\<forall>fuel enc st r. lead_free st \<longrightarrow> length (body d x @ r) < fuel \<longrightarrow>
     (\<exists>k. Identify enc (At (body d x @ r)) = Some k \<and>
        yields st (node_Parse fuel k enc (At (body d x @ r)) st) (At r, x)))"

lemma Identify_text:
  "Identify enc (At (CHR ''<'' # s)) =
     (if StringEqual True ''<?xml'' (CHR ''<'' # s) then Some K_DECLARATION
      else if StringEqual False ''<!--'' (CHR ''<'' # s) then Some K_COMMENT
      else if StringEqual False ''<![CDATA['' (CHR ''<'' # s) then Some K_CDATA
      else if StringEqual False ''<!'' (CHR ''<'' # s) then Some K_UNKNOWN
      else if IsAlpha (peek s 0) \<or> peek s 0 = CHR ''_'' then Some K_ELEMENT
      else Some K_UNKNOWN)"
  by (simp add: Identify_def at_deadline_def SkipWhiteSpace_open)

lemma ToLower_question: "ToLower c = ToLower (CHR ''?'') \<Longrightarrow> c = CHR ''?''"
proof -
  assume "ToLower c = ToLower (CHR ''?'')"
  then have *: "ToLower c = CHR ''?''" by (simp add: ToLower_def)
  have "ToLower c = c" if "byte_val c < 65 \<or> 90 < byte_val c" using that by (auto simp: ToLower_def)
  moreover have False if "65 \<le> byte_val c" "byte_val c \<le> 90"
  proof -
    from * that have "byte_val (char_of (byte_val c + 32)) = byte_val (CHR ''?'')" by (simp add: ToLower_def)
    then have "(byte_val c + 32) mod 256 = 63" by (simp only: of_char_of) simp
    with that show False by simp
  qed
  ultimately show ?thesis using * by force
qed

lemma parses_comment: "node_ok (COMMENT v) \<Longrightarrow> parses d (COMMENT v)"
  using Comment_Parse_text
  by (auto simp: parses_def Identify_text StringEqual_def ToLower_def node_Parse_def raw_ok_def)

lemma parses_cdata: "node_ok (TEXT True v) \<Longrightarrow> parses d (TEXT True v)"
  using Text_Parse_cdata_text
  by (auto simp: parses_def Identify_text StringEqual_def ToLower_def node_Parse_def)

lemma parses_declaration:
  assumes "node_ok (DECLARATION ver ec sa)"
  shows "parses d (DECLARATION ver ec sa)"
proof -
  have "Identify enc (At (concat (Declaration_Print ver ec sa) @ r)) = Some K_DECLARATION" for enc r
    by (simp add: Declaration_Print_def Identify_text StringEqual_def)
  with assms Declaration_Parse_text show ?thesis by (auto simp: parses_def node_Parse_def)
qed

lemma parses_unknown:
  assumes "node_ok (UNKNOWN v)"
  shows "parses d (UNKNOWN v)"
proof -
  from assms obtain w where v: "v = CHR ''!'' # w" by (cases v) auto
  have "\<not> starts_with False ''!--'' (v @ ''>'' @ r)" "\<not> starts_with False ''![CDATA['' (v @ ''>'' @ r)" for r
    using assms starts_with_short [of False _ v "CHR ''>''" r] by auto
  then have "Identify enc (At (''<'' @ v @ ''>'' @ r)) = Some K_UNKNOWN" for enc r
    by (simp add: v Identify_text StringEqual_def ToLower_def)
  with assms Unknown_Parse_text [of v] show ?thesis by (auto simp: parses_def node_Parse_def raw_ok_def)
qed

text \<open>Text ends at the white space before the next bracket.\<close>

lemma Text_Parse_plain:
  assumes "text_ok v" "lead_free st" "dropWhile IsWhiteSpace u = CHR ''<'' # r"
  shows "yields st (Text_Parse False enc (At (enc_text v @ u)) st) (At (CHR ''<'' # r), TEXT False v)"
proof -
  obtain c w where v: "v = c # w" "plain c" "c \<noteq> CHR '' ''"
    using assms(1) by (cases v) (auto simp: text_ok_def value_ok_def)
  have u: "u = takeWhile IsWhiteSpace u @ CHR ''<'' # r"
    using takeWhile_dropWhile_id [of IsWhiteSpace u] assms(3) by simp
  have "list_all IsWhiteSpace (takeWhile IsWhiteSpace u)" by (auto simp: list_all_iff dest: set_takeWhileD)
  then have "read_condensed enc ''<'' False False (enc_text v @ u) [] = Inr (At (CHR ''<'' # r), v)"
    using read_condensed_text [of v "takeWhile IsWhiteSpace u" False enc r "[]"] assms(1) u
    by (simp add: text_ok_def value_ok_def)
  moreover have "SkipWhiteSpace enc (At (enc_text v @ u)) = At (enc_text v @ u)"
    using v enc_char_head(2-) [OF v(2), of "enc_text w @ u"] enc_char_head(1) [OF v(2)] SkipWhiteSpace_none [of "peek (enc_char c @ enc_text w @ u) 0"]
    by (cases "enc_char c") auto
  ultimately have "ReadText_loop enc True ''<'' False (At (enc_text v @ u)) = Inr (At (CHR ''<'' # r), v)"
    by (simp add: ReadText_loop_def condenseWhiteSpace_def)
  moreover have "\<not> StringEqual False ''<![CDATA['' (enc_text v @ u)" "enc_text v \<noteq> []"
    using v enc_char_head(2-) [OF v(2), of "enc_text w @ u"] enc_char_head(1) [OF v(2)] by (auto dest: StringEqual_head)
  ultimately show ?thesis
    by (simp add: Text_Parse_def at_deadline_def)
      (rule yields_stamp [OF assms(2)], simp add: yields_Inr)
qed

lemma text_head:
  assumes "text_ok v"
  shows "dropWhile IsWhiteSpace (enc_text v @ u) = enc_text v @ u" "\<not> ended (enc_text v @ u)"
    "peek (enc_text v @ u) 0 \<noteq> CHR ''<''" "peek (enc_text v @ u) 0 \<noteq> TIXML_UTF_LEAD_0"
proof -
  obtain c w where v: "v = c # w" "plain c" "c \<noteq> CHR '' ''"
    using assms by (cases v) (auto simp: text_ok_def value_ok_def)
  then obtain b t where "enc_char c = b # t" using enc_char_head(1) by (cases "enc_char c") auto
  with v enc_char_head(2-) [OF v(2), of "enc_text w @ u"] enc_char_head(1) [OF v(2)]
  show "dropWhile IsWhiteSpace (enc_text v @ u) = enc_text v @ u" "\<not> ended (enc_text v @ u)"
    "peek (enc_text v @ u) 0 \<noteq> CHR ''<''" "peek (enc_text v @ u) 0 \<noteq> TIXML_UTF_LEAD_0"
    by auto
qed

lemma not_ended_dropWhile: "\<not> ended (dropWhile IsWhiteSpace s) \<Longrightarrow> \<not> ended s"
  by (cases s) (auto simp: ended_def)

definition after_kids :: "bytes \<Rightarrow> bool" where
  "after_kids e \<longleftrightarrow> (\<exists>r. dropWhile IsWhiteSpace e = ''</'' @ r)"

lemma kids_head:
  assumes "cs \<noteq> [] \<Longrightarrow> \<not> plain_text (hd cs)" "list_all node_ok cs" "after_kids e"
  shows "\<exists>r. dropWhile IsWhiteSpace (kids d cs @ e) = CHR ''<'' # r"
proof (cases cs)
  case Nil
  with assms(3) show ?thesis by (auto simp: kids_def after_kids_def)
next
  case (Cons c cs')
  with assms body_head [of c "Suc d"] obtain s where "body (Suc d) c = CHR ''<'' # s" by fastforce
  moreover have "list_all IsWhiteSpace ((if ToText c then [] else newline) @ lead (Suc d) c)"
    using lead_trail_white(1) by simp
  ultimately show ?thesis
    using Cons assms(2) dropWhile_white
    by (simp add: kids_def node_Print_parts del: append_assoc) (simp add: append_assoc)
qed

lemma kids_Cons:
  "node_ok c \<Longrightarrow> kids d (c # cs) = ((if ToText c then [] else newline) @ lead (Suc d) c) @ body (Suc d) c @ trail c @ kids d cs"
  by (simp add: kids_def node_Print_parts)

lemma ReadValue_text:
  assumes "list_all node_ok cs" "no_adjacent cs" "\<And>c. c \<in> set cs \<Longrightarrow> \<not> plain_text c \<Longrightarrow> parses (Suc d) c"
    and "dropWhile IsWhiteSpace e = ''</'' @ r" "lead_free st"
    and "dropWhile IsWhiteSpace s = dropWhile IsWhiteSpace (kids d cs @ e)" "Suc (length s) < fuel"
  shows "yields st (ReadValue fuel enc (At s) acc st) (At (''</'' @ r), acc @ cs)"
  using assms(1-3,5-)
proof (induction cs arbitrary: s acc st fuel)
  case Nil
  then have D: "dropWhile IsWhiteSpace s = ''</'' @ r" using assms(4) by (simp add: kids_def)
  then have "\<not> ended s" using not_ended_dropWhile [of s] by simp
  with D SkipWhiteSpace_dropWhile [of s enc] have "SkipWhiteSpace enc (At s) = At (''</'' @ r)"
    by (simp add: TIXML_UTF_LEAD_0_def)
  with Nil.prems(4,6) show ?case
    by (cases fuel) (auto simp: StringEqual_def intro!: yields_Inr quiet_refl)
next
  case (Cons c cs)
  from Cons.prems(6) obtain f where f: "fuel = Suc f" "Suc (length s) \<le> f" by (cases fuel) auto
  have ok: "node_ok c" "list_all node_ok cs" "no_adjacent cs"
    using Cons.prems(1,2) by (cases cs; auto)+
  have e: "after_kids e" using assms(4) by (auto simp: after_kids_def)
  let ?rest = "kids d cs @ e"
  have D: "dropWhile IsWhiteSpace s = dropWhile IsWhiteSpace (body (Suc d) c @ trail c @ ?rest)"
    unfolding Cons.prems(5) kids_Cons [OF ok(1)] append_assoc
    using lead_trail_white(1) [of "Suc d" c] by (simp add: dropWhile_white [of "_ # _", simplified] dropWhile_white)
  show ?case
  proof (cases "plain_text c")
    case True
    then obtain v where c: "c = TEXT False v" by (cases c) auto
    have v: "text_ok v" using ok(1) c by simp
    note head = text_head [OF v, of ?rest]
    have D': "dropWhile IsWhiteSpace s = enc_text v @ ?rest" using D head(1) by (simp add: c)
    have skip: "SkipWhiteSpace enc (At s) = At (enc_text v @ ?rest)"
      using SkipWhiteSpace_dropWhile [of s enc] not_ended_dropWhile [of s] head D' by simp
    have "cs \<noteq> [] \<Longrightarrow> \<not> plain_text (hd cs)"
      using Cons.prems(2) True by (cases cs) auto
    from kids_head [OF this ok(2) e, of d] obtain t where t: "dropWhile IsWhiteSpace ?rest = CHR ''<'' # t" by auto
    have le: "length (CHR ''<'' # t) \<le> length ?rest"
      using length_dropWhile_le [of IsWhiteSpace ?rest] t by simp
    have "enc_text v \<noteq> []" using v enc_char_head(1) by (cases v) (auto simp: text_ok_def value_ok_def)
    then have "length ?rest < length (enc_text v @ ?rest)" by (cases "enc_text v") auto
    also have "\<dots> \<le> length s" using D' length_dropWhile_le [of IsWhiteSpace s] by simp
    finally have small: "Suc (length (CHR ''<'' # t)) < f" using le f(2) by linarith
    have nb: "\<not> Blank v"
      using v by (cases v) (auto simp: Blank_def text_ok_def value_ok_def)
    have go: "yields st' (ReadValue f enc (At (CHR ''<'' # t)) (acc @ [c]) st') (At (''</'' @ r), (acc @ [c]) @ cs)"
      if "quiet st st'" for st'
      by (rule Cons.IH [OF ok(2,3) _ quiet_lead_free [OF that] _ small])
        (use Cons.prems(3) t in \<open>auto simp: c\<close>)
    have "yields st (and_then (Text_Parse False enc (At (enc_text v @ ?rest)) st) (\<lambda>((q, n), st1).
        ReadValue f enc q (if Blank (node_value n) then acc else acc @ [n]) st1)) (At (''</'' @ r), acc @ c # cs)"
      by (rule yields_bind [OF Text_Parse_plain [OF v Cons.prems(4) t]])
        (use go nb in \<open>auto simp: c intro: yields_from\<close>)
    with skip head show ?thesis by (simp add: f condenseWhiteSpace_def)
  next
    case False
    then obtain b0 b' where b0: "body (Suc d) c = CHR ''<'' # b0 # b'" "b0 \<noteq> CHR ''/''"
      using body_head [OF ok(1)] by blast
    define b where "b = b0 # b'"
    have b: "body (Suc d) c = CHR ''<'' # b" "peek b 0 \<noteq> CHR ''/''" using b0 by (simp_all add: b_def)
    let ?p = "body (Suc d) c @ trail c @ ?rest"
    have D': "dropWhile IsWhiteSpace s = ?p" using D by (simp add: b)
    have skip: "SkipWhiteSpace enc (At s) = At ?p"
      using SkipWhiteSpace_dropWhile [of s enc] not_ended_dropWhile [of s] D' by (simp add: b TIXML_UTF_LEAD_0_def)
    have le: "length ?p \<le> length s" using D' length_dropWhile_le [of IsWhiteSpace s] by simp
    obtain k where k: "Identify enc (At ?p) = Some k"
      "yields st (node_Parse f k enc (At ?p) st) (At (trail c @ ?rest), c)"
      using Cons.prems(3) [of c] False Cons.prems(4) le f(2) unfolding parses_def by (meson list.set_intros(1) order.strict_trans1 Suc_le_lessD)
    have "\<not> StringEqual False ''</'' ?p" using b0 by (simp add: StringEqual_def)
    have small: "Suc (length (trail c @ ?rest)) < f" using le f(2) by (simp add: b)
    have go: "yields st' (ReadValue f enc (At (trail c @ ?rest)) (acc @ [c]) st') (At (''</'' @ r), (acc @ [c]) @ cs)"
      if "quiet st st'" for st'
      by (rule Cons.IH [OF ok(2,3) _ quiet_lead_free [OF that] _ small])
        (use Cons.prems(3) dropWhile_white [OF lead_trail_white(2)] in auto)
    have "yields st (and_then (node_Parse f k enc (At ?p) st) (\<lambda>((q, n), st1). ReadValue f enc q (acc @ [n]) st1))
        (At (''</'' @ r), acc @ c # cs)"
      by (rule yields_bind [OF k(2)]) (use go in \<open>auto intro: yields_from\<close>)
    with skip k(1) \<open>\<not> StringEqual False ''</'' ?p\<close> b show ?thesis
      by (simp add: f node_Parse_def)
  qed
qed

section \<open>Elements and documents\<close>

lemma attrs_text_tail_head:
  "tail = CHR '' '' # u \<or> tail = CHR ''>'' # u \<Longrightarrow> \<not> name_char (peek (attrs_text as @ tail) 0)"
  "tail = CHR '' '' # u \<or> tail = CHR ''>'' # u \<Longrightarrow> \<not> ended (attrs_text as @ tail)"
  by (cases as; auto simp: attrs_text_def name_char_def IsAlphaNum_def isalpha_def isdigit_def)+

lemma Identify_element:
  assumes "name_ok n"
  shows "Identify enc (At (CHR ''<'' # n @ u)) = Some K_ELEMENT"
proof -
  obtain c m where n: "n = c # m" "\<not> IsWhiteSpace c" "c \<noteq> NUL" "c \<noteq> TIXML_UTF_LEAD_0"
    "c \<notin> {CHR ''='', CHR ''>'', CHR ''/'', CHR ''<'', CHR ''&'', CHR 0x22, CHR 0x27}"
    "IsAlpha c \<or> c = CHR ''_''"
    by (rule name_head [OF assms]) (rule that, assumption+)
  have "c \<noteq> CHR ''?''" "c \<noteq> CHR ''!''" using n(6) by (auto simp: IsAlpha_def isalpha_def)
  then have "\<not> StringEqual True ''<?xml'' (CHR ''<'' # n @ u)" "\<not> StringEqual False ''<!--'' (CHR ''<'' # n @ u)"
    "\<not> StringEqual False ''<![CDATA['' (CHR ''<'' # n @ u)" "\<not> StringEqual False ''<!'' (CHR ''<'' # n @ u)"
    unfolding n(1) using ToLower_question [of c] by (auto simp: StringEqual_def)
  moreover have "IsAlpha (peek (n @ u) 0) \<or> peek (n @ u) 0 = CHR ''_''" using n(1,6) by simp
  ultimately show ?thesis by (simp add: Identify_text)
qed

lemma parses_element:
  assumes "node_ok (ELEMENT n as cs)" "\<And>c. c \<in> set cs \<Longrightarrow> \<not> plain_text c \<Longrightarrow> parses (Suc d) c"
  shows "parses d (ELEMENT n as cs)"
  unfolding parses_def
proof (intro allI impI exI conjI)
  fix fuel enc st r
  let ?p = "body d (ELEMENT n as cs) @ r"
  assume st: "lead_free st" and fuel: "length ?p < fuel"
  then obtain f where f: "fuel = Suc f" by (cases fuel) auto
  have n: "name_ok n" and as: "attributes_ok ([] @ as)" using assms(1) by simp_all
  define inner where "inner = kids d cs @ closing d cs @ ''</'' @ n @ ''>'' @ r"
  define tail where "tail = (if cs = [] then '' />'' @ r else ''>'' @ inner)"
  have p: "?p = CHR ''<'' # n @ attrs_text as @ tail" by (simp add: tail_def inner_def)
  have tail: "\<exists>u. tail = CHR '' '' # u \<or> tail = CHR ''>'' # u" by (auto simp: tail_def)
  then obtain u where u: "tail = CHR '' '' # u \<or> tail = CHR ''>'' # u" by blast
  note head = attrs_text_tail_head [OF u, of as]
  obtain c m where c: "n = c # m" "\<not> IsWhiteSpace c" "c \<noteq> NUL" "c \<noteq> TIXML_UTF_LEAD_0"
    by (rule name_head [OF n]) (rule that, assumption+)
  have skip: "SkipWhiteSpace enc (At (n @ attrs_text as @ tail)) = At (n @ attrs_text as @ tail)"
    using c SkipWhiteSpace_none by simp
  have name: "ReadName (n @ attrs_text as @ tail) = Some (n, attrs_text as @ tail)"
    by (rule ReadName_name [OF n head(1)])
  show "Identify enc (At ?p) = Some K_ELEMENT" unfolding p by (rule Identify_element [OF n])
  define e where "e = (if cs = [] then Closed r else Open inner)"
  have attrs: "yields st' (attr_loop enc (attrs_text as @ tail) [] st') (e, as)" if "quiet st st'" for st'
    using attr_loop_text [OF as quiet_lead_free [OF that], of tail "if cs = [] then r else inner" e enc]
    by (simp add: tail_def e_def)
  have kids: "yields st' (ReadValue f enc (At inner) [] st') (At (''</'' @ n @ ''>'' @ r), cs)"
    if "quiet st st'" "cs \<noteq> []" for st'
  proof -
    have "yields st' (ReadValue f enc (At inner) [] st') (At (''</'' @ (n @ ''>'' @ r)), [] @ cs)"
    proof (rule ReadValue_text [where d = d and e = "closing d cs @ ''</'' @ n @ ''>'' @ r"])
      show "Suc (length inner) < f"
        using fuel that(2) unfolding p f tail_def by (simp add: c)
    qed (use assms that quiet_lead_free [OF that(1)] dropWhile_white [OF lead_trail_white(3)] in \<open>auto simp: inner_def\<close>)
    then show ?thesis by simp
  qed
  have endtag: "StringEqual False (''</'' @ n @ ''>'') (''</'' @ n @ ''>'' @ r)"
    using StringEqual_self [of "''</'' @ n @ ''>''" r] name_ok_no_NUL [OF n] by simp
  have behind: "drop (length n + 3) (CHR ''<'' # CHR ''/'' # n @ CHR ''>'' # r) = r"
    by (simp add: eval_nat_numeral)
  have "yields st (and_then (attr_loop enc (attrs_text as @ tail) [] st1) (\<lambda>((e, as), st2).
        case e of
          Failed \<Rightarrow> Inr ((Null, ELEMENT n as []), st2)
        | Closed q \<Rightarrow> Inr ((At q, ELEMENT n as []), st2)
        | Open q \<Rightarrow>
            and_then (ReadValue f enc (At q) [] st2) (\<lambda>((r, cs), st3).
              case r of
                At w \<Rightarrow>
                  if ended w
                  then fail_at enc TIXML_ERROR_READING_END_TAG (Some w) (Null, ELEMENT n as cs) st3
                  else if StringEqual False (''</'' @ n @ ''>'') w
                  then Inr ((At (drop (length n + 3) w), ELEMENT n as cs), st3)
                  else fail_at enc TIXML_ERROR_READING_END_TAG (Some w) (Null, ELEMENT n as cs) st3
              | _ \<Rightarrow> fail_at enc TIXML_ERROR_READING_END_TAG None (Null, ELEMENT n as cs) st3)))
      (At r, ELEMENT n as cs)" if st1: "quiet st st1" for st1
  proof (rule yields_from [OF st1], rule yields_bind [OF attrs [OF st1]], unfold prod.case, goal_cases)
    case (1 st2)
    have st2: "quiet st st2" by (rule quiet_trans [OF st1 1])
    show ?case
    proof (cases "cs = []")
      case True
      with 1 show ?thesis by (simp add: e_def yields_Inr)
    next
      case False
      have "yields st2 (and_then (ReadValue f enc (At inner) [] st2) (\<lambda>((r, cs), st3).
              case r of
                At w \<Rightarrow>
                  if ended w
                  then fail_at enc TIXML_ERROR_READING_END_TAG (Some w) (Null, ELEMENT n as cs) st3
                  else if StringEqual False (''</'' @ n @ ''>'') w
                  then Inr ((At (drop (length n + 3) w), ELEMENT n as cs), st3)
                  else fail_at enc TIXML_ERROR_READING_END_TAG (Some w) (Null, ELEMENT n as cs) st3
              | _ \<Rightarrow> fail_at enc TIXML_ERROR_READING_END_TAG None (Null, ELEMENT n as cs) st3))
          (At r, ELEMENT n as cs)"
        by (rule yields_bind [OF kids [OF st2 False]]) (use endtag behind in \<open>simp add: yields_Inr\<close>)
      with False yields_from [OF 1] show ?thesis by (simp add: e_def)
    qed
  qed
  then have "yields st (Element_Parse fuel enc (At ?p) st) (At r, ELEMENT n as cs)"
    unfolding f p Element_Parse.simps(2)
    using skip name head(2)
    by (simp add: at_deadline_def SkipWhiteSpace_open) (rule yields_stamp [OF st])
  then show "yields st (node_Parse fuel K_ELEMENT enc (At ?p) st) (At r, ELEMENT n as cs)"
    by (simp add: node_Parse_def)
qed

lemma node_parses: "node_ok x \<Longrightarrow> \<not> plain_text x \<Longrightarrow> parses d x"
proof (induction x arbitrary: d)
  case (ELEMENT n as cs)
  then show ?case by (intro parses_element) (auto simp: list_all_iff)
next
  case (TEXT cd v)
  then show ?case using parses_cdata by (cases cd) auto
qed (use parses_comment parses_unknown parses_declaration in blast)+

text \<open>The loop of the document: white space and nodes, up to the end of the text.\<close>

definition doc_body :: "xml_node list \<Rightarrow> bytes" where
  "doc_body cs = concat (map (\<lambda>n. concat (node_Print 0 n) @ newline) cs)"

lemma doc_text_body: "doc_text d = doc_body (doc_children d)"
  by (simp add: doc_text_def doc_Print_def doc_body_def concat_concat_map o_def)

lemma SkipWhiteSpace_all:
  assumes "list_all IsWhiteSpace s"
  shows "SkipWhiteSpace enc (At s) \<in> {Null, At []}"
proof -
  have white: "dropWhile IsWhiteSpace s = []" using assms by (auto simp: list_all_iff)
  have "SkipWhiteSpace enc (At s) = At []" if "\<not> ended s"
    by (subst SkipWhiteSpace_dropWhile [OF that]) (simp_all add: white TIXML_UTF_LEAD_0_def)
  moreover have "SkipWhiteSpace enc (At s) = Null" if "ended s"
    using that by (simp add: SkipWhiteSpace_def ended_def)
  ultimately show ?thesis by blast
qed

lemma doc_body_Cons:
  "node_ok c \<Longrightarrow> doc_body (c # cs) = lead 0 c @ body 0 c @ trail c @ newline @ doc_body cs"
  by (simp add: doc_body_def node_Print_parts)

lemma doc_loop_text:
  assumes "list_all node_ok cs" "list_all (\<lambda>n. \<not> plain_text n) cs" "lead_free st"
    and "dropWhile IsWhiteSpace s = dropWhile IsWhiteSpace (doc_body cs)" "Suc (length s) < fuel"
    and "cs = [] \<Longrightarrow> list_all IsWhiteSpace s"
  shows "yields st (doc_loop fuel enc (SkipWhiteSpace enc (At s)) acc st) (True, acc @ cs)"
  using assms
proof (induction cs arbitrary: s acc st fuel enc)
  case Nil
  then obtain f where "fuel = Suc f" by (cases fuel) auto
  with SkipWhiteSpace_all [of s enc] Nil.prems show ?case by (auto intro!: yields_Inr quiet_refl simp: ended_def)
next
  case (Cons c cs)
  then obtain f where f: "fuel = Suc f" "length s < f" by (cases fuel) auto
  have ok: "node_ok c" "\<not> plain_text c" using Cons.prems(1,2) by simp_all
  obtain b0 b' where b: "body 0 c = CHR ''<'' # b0 # b'" using body_head [OF ok] by blast
  let ?t = "trail c @ newline @ doc_body cs"
  let ?p = "body 0 c @ ?t"
  have D: "dropWhile IsWhiteSpace s = ?p"
    unfolding Cons.prems(4) doc_body_Cons [OF ok(1)] dropWhile_white [OF lead_trail_white(1)] by (simp add: b)
  have skip: "SkipWhiteSpace enc (At s) = At ?p"
    using SkipWhiteSpace_dropWhile [of s enc] not_ended_dropWhile [of s] D by (simp add: b TIXML_UTF_LEAD_0_def)
  have le: "length ?p \<le> length s" using D length_dropWhile_le [of IsWhiteSpace s] by simp
  then have small: "length ?p < f" using f(2) by linarith
  obtain k where k: "Identify enc (At ?p) = Some k" "yields st (node_Parse f k enc (At ?p) st) (At ?t, c)"
    using node_parses [OF ok, of 0] Cons.prems(3) small unfolding parses_def by meson
  have go: "yields st' (doc_loop f enc' (SkipWhiteSpace enc' (At ?t)) (acc @ [c]) st') (True, (acc @ [c]) @ cs)"
    if "quiet st st'" for st' enc'
  proof (rule Cons.IH)
    show "dropWhile IsWhiteSpace ?t = dropWhile IsWhiteSpace (doc_body cs)"
      using dropWhile_white [OF lead_trail_white(2), of c] by simp
    show "Suc (length ?t) < f" using small by (simp add: b)
    show "list_all IsWhiteSpace ?t" if "cs = []" using lead_trail_white(2) that by (simp add: doc_body_def)
  qed (use Cons.prems(1,2) quiet_lead_free [OF that] in auto)
  have "yields st (and_then (node_Parse f k enc (At ?p) st) (\<lambda>((q, n), st1).
      if q = Null then fail_at enc TIXML_ERROR_PARSING_ELEMENT None (False, acc) st1
      else let enc' = encoding_after enc n in doc_loop f enc' (SkipWhiteSpace enc' q) (acc @ [n]) st1))
      (True, acc @ c # cs)"
    by (rule yields_bind [OF k(2)]) (use go in \<open>auto simp: Let_def intro: yields_from\<close>)
  with skip k(1) b show ?case by (simp add: f)
qed

text \<open>Canonical documents are printed without the byte EF.\<close>

lemma attrs_text_no_lead: "attributes_ok as \<Longrightarrow> TIXML_UTF_LEAD_0 \<notin> set (attrs_text as)"
proof -
  assume ok: "attributes_ok as"
  have "TIXML_UTF_LEAD_0 \<notin> set (attr_text a)" if "a \<in> set as" for a
  proof -
    obtain n v where a: "a = (n, v)" by (cases a)
    with ok that have "name_ok n" "list_all plain v" by (auto simp: attributes_ok_def list_all_iff value_ok_def)
    with enc_text_no_NUL [of v] quote_of_simps [of v] show ?thesis
      by (auto simp: a attr_text_def name_ok_def list_all_iff TIXML_UTF_LEAD_0_def)
  qed
  then show ?thesis by (auto simp: attrs_text_def TIXML_UTF_LEAD_0_def)
qed

lemma white_no_lead: "list_all IsWhiteSpace w \<Longrightarrow> TIXML_UTF_LEAD_0 \<notin> set w"
  by (auto simp: list_all_iff dest: IsWhiteSpace_head)

lemma body_no_lead: "node_ok x \<Longrightarrow> TIXML_UTF_LEAD_0 \<notin> set (concat (node_Print d x))"
proof (induction x arbitrary: d)
  case (ELEMENT n as cs)
  have "TIXML_UTF_LEAD_0 \<notin> set (kids d cs)"
    using ELEMENT by (auto simp: kids_def list_all_iff TIXML_UTF_LEAD_0_def split: if_splits)
  moreover have "TIXML_UTF_LEAD_0 \<notin> set n" using ELEMENT.prems by (auto simp: name_ok_def list_all_iff)
  ultimately show ?case
    using ELEMENT.prems attrs_text_no_lead [of as] white_no_lead [OF indent_white, of d]
      white_no_lead [OF lead_trail_white(3), of d cs]
    unfolding node_Print_parts [OF ELEMENT.prems] by (simp add: TIXML_UTF_LEAD_0_def)
next
  case (DECLARATION ver ec sa)
  have "TIXML_UTF_LEAD_0 \<notin> set (attr_text (n, v))" if "decl_value_ok v" "TIXML_UTF_LEAD_0 \<notin> set n" for n v
    using that enc_text_no_NUL [OF decl_value_simps(1) [OF that(1)]] decl_value_simps(3) [OF that(1)]
    by (simp add: attr_text_def TIXML_UTF_LEAD_0_def)
  with DECLARATION Declaration_Print_text [of ver ec sa] show ?case
    by (auto simp: decl_attr_def TIXML_UTF_LEAD_0_def)
next
  case (TEXT cd v)
  then show ?case
    using white_no_lead [OF lead_trail_white(1), of d "TEXT cd v"] enc_text_no_NUL [of v]
    unfolding node_Print_parts [OF TEXT] by (auto simp: text_ok_def value_ok_def TIXML_UTF_LEAD_0_def)
next
  case (COMMENT v)
  then show ?case using white_no_lead [OF indent_white, of d]
    unfolding node_Print_parts [OF COMMENT] by (auto simp: raw_ok_def TIXML_UTF_LEAD_0_def)
next
  case (UNKNOWN v)
  then show ?case using white_no_lead [OF indent_white, of d]
    unfolding node_Print_parts [OF UNKNOWN] by (auto simp: raw_ok_def TIXML_UTF_LEAD_0_def)
qed

lemma doc_body_no_lead: "list_all node_ok cs \<Longrightarrow> TIXML_UTF_LEAD_0 \<notin> set (doc_body cs)"
  using body_no_lead by (auto simp: doc_body_def list_all_iff TIXML_UTF_LEAD_0_def)

text \<open>Whatever the encoding asked for and whatever the document that is loaded into held before.\<close>

lemma LoadFile_printed:
  assumes "doc_ok d"
  shows "LoadFile_data (doc_text d) enc d0 =
    Inr (True, d0\<lparr>doc_children := doc_children d, doc_errors := ClearError\<rparr>)"
proof -
  let ?s = "doc_text d"
  let ?d0 = "d0\<lparr>doc_children := []\<rparr>"
  define cs where "cs = doc_children d"
  have s: "?s = doc_body cs" by (simp add: doc_text_body cs_def)
  have ok: "list_all node_ok cs" "list_all (\<lambda>n. \<not> plain_text n) cs" "cs \<noteq> []"
    using assms by (simp_all add: doc_ok_def cs_def)
  have nolead: "TIXML_UTF_LEAD_0 \<notin> set ?s" unfolding s by (rule doc_body_no_lead [OF ok(1)])
  obtain c cs' where cs: "cs = c # cs'" "node_ok c" "\<not> plain_text c" using ok by (cases cs) auto
  obtain b0 b' where b: "body 0 c = CHR ''<'' # b0 # b'" using body_head [OF cs(2,3)] by blast
  have D: "dropWhile IsWhiteSpace ?s = CHR ''<'' # b0 # b' @ trail c @ newline @ doc_body cs'"
    unfolding s cs(1) doc_body_Cons [OF cs(2)] dropWhile_white [OF lead_trail_white(1)] by (simp add: b)
  have ne: "\<not> ended ?s" using not_ended_dropWhile [of ?s] D by simp
  then have first: "?s \<noteq> []" "peek ?s 0 \<noteq> NUL" "peek ?s 0 \<noteq> TIXML_UTF_LEAD_0"
    using nolead by (cases ?s; auto simp: ended_def)+
  have skip: "SkipWhiteSpace enc (At ?s) = At (dropWhile IsWhiteSpace ?s)"
    by (rule SkipWhiteSpace_dropWhile [OF ne]) (simp add: D TIXML_UTF_LEAD_0_def)
  let ?st = "new_data ?s ?d0"
  define fuel where "fuel = length ?s + 2"
  have "yields ?st (doc_loop fuel enc (SkipWhiteSpace enc (At ?s)) [] ?st) (True, [] @ cs)"
    by (rule doc_loop_text) (use ok nolead in \<open>simp_all add: s lead_free_def new_data_def fuel_def\<close>)
  then obtain pd where "doc_loop fuel enc (SkipWhiteSpace enc (At ?s)) [] ?st = Inr ((True, cs), ClearError, pd)"
    by (auto simp: yields_def quiet_def new_data_def)
  moreover have "\<not> ToUnknown (hd cs)" using assms by (simp add: doc_ok_def cs_def)
  moreover obtain y where "FirstChildElement_any cs = Some y" using assms by (auto simp: doc_ok_def cs_def)
  ultimately have "Document_Parse fuel enc ?s ?d0 =
      Inr (?d0\<lparr>doc_children := cs, doc_errors := ClearError\<rparr>)"
    using first ok(3) skip unfolding Document_Parse_def Let_def new_data_def by simp
  with first(1) show ?thesis
    unfolding LoadFile_data_def Let_def fuel_def [symmetric] by (simp add: cs_def ClearError_def)
qed

section \<open>Properties\<close>

text \<open>C15: What is saved is what is loaded: a document in canonical form that \<open>SaveFile\<close> wrote to a file is read back
  from it with the same tree, whatever encoding is asked for and whatever document it is loaded into.
  CDATA sections may hold any bytes but EF and their end mark, NULs included; entities are encoded and decoded.\<close>

theorem xml_file_roundtrip:
  assumes "doc_ok d" "\<not> useMicrosoftBOM d" "fs (c_str filename) = Some (SaveFile_FILE d)"
  shows "LoadFile_file fs filename enc d0 =
    Inr (True, d0\<lparr>doc_value := c_str filename, doc_children := doc_children d, doc_errors := ClearError\<rparr>)"
  using assms(2,3) LoadFile_printed [OF assms(1)]
  by (simp add: LoadFile_file_def Let_def SaveFile_FILE_def doc_fprint_text)

definition sample_tree :: xml_doc where
  "sample_tree = (TiXmlDocument_new ''a.xml'')\<lparr>doc_children := [DECLARATION ''1.0'' [] ''yes'', COMMENT '' a-b '',
     ELEMENT ''r'' [(''k'', ''x < 1 & \"y\"''), (''l'', [])] [TEXT False ''it is 5 > 4'', ELEMENT ''e'' [] [],
       TEXT True [CHR ''<'', NUL, CHR '']''], UNKNOWN ''!x'', ELEMENT ''f.g'' [] [TEXT False ''t'']]]\<rparr>"

theorem xml_file_roundtrip_witness:
  "LoadFile_file (\<lambda>_. Some (SaveFile_FILE sample_tree)) ''a.xml'' TIXML_ENCODING_UNKNOWN (TiXmlDocument_new []) =
    Inr (True, sample_tree)"
proof -
  have "doc_ok sample_tree" by code_simp
  from xml_file_roundtrip [OF this, of "\<lambda>_. Some (SaveFile_FILE sample_tree)" "''a.xml''" TIXML_ENCODING_UNKNOWN
      "TiXmlDocument_new []"]
  show ?thesis by (simp add: sample_tree_def TiXmlDocument_new_def)
qed

text \<open>C40: Both ways of printing agree: what the functions for a \<open>FILE\<close> write for a document is what the functions
  for a \<open>CSmartBuffer\<close> append to the buffer.\<close>

theorem printers_agree: "doc_fprint 0 d = concat (doc_Print 0 d)"
  using doc_fprint_text by (simp add: doc_text_def)

end
