(* ===== verification/Unite_Module.thy ===== *)
theory Unite_Module
  imports Outbound App Runtime Xml_Roundtrip
begin

text \<open>
  \<open>CUniteDataModule\<close> (MAIN/src/UniteDataModule.cpp): the start of the modules from the configuration
  file, and the copies of the configuration it hands out.
\<close>

section \<open>\<open>CUniteDataModule\<close>: starting and stopping\<close>

text \<open>The file system and the result of \<open>pthread_create\<close> for the timer thread.\<close>

record platform =
  pf_getcwd :: "bytes option"
  pf_exists :: "bytes \<Rightarrow> bool"
  pf_read :: "bytes \<Rightarrow> bytes option"
  pf_pthread_create :: int

record unite =
  m_bStarted :: bool
  m_ConfigXmlFile :: xml_doc
  unite_log :: log_manager

definition CUniteDataModule_new :: unite where
  "CUniteDataModule_new = \<lparr>m_bStarted = False, m_ConfigXmlFile = TiXmlDocument_new [],
     unite_log = \<lparr>log_initialized = False, log_logger = None, log_lines = []\<rparr>\<rparr>"

text \<open>\<open>GetConfigXml\<close> fills a new document by printing the loaded one into a buffer and parsing that. The
  result is \<open>None\<close> where printing or parsing leaves defined behaviour or does not return.\<close>

definition of_run :: "'a run \<Rightarrow> 'a option" where
  "of_run m = (case m of Inl e \<Rightarrow> None | Inr x \<Rightarrow> Some x)"

definition GetConfigXml :: "unite \<Rightarrow> xml_doc option" where
  "GetConfigXml u = do {
     buffer \<leftarrow> SaveFile_buffer (m_ConfigXmlFile u) (sb_new_step 1024);
     (ok, xmldocument) \<leftarrow> of_run (LoadFile_buffer buffer TIXML_ENCODING_UNKNOWN (TiXmlDocument_new []));
     Some xmldocument
   }"

definition LoadConfigFile :: "platform \<Rightarrow> unite \<Rightarrow> (bool \<times> unite) option" where
  "LoadConfigFile P u =
     (case pf_getcwd P of
        None \<Rightarrow> Some (False, u)
      | Some cPath \<Rightarrow>
          let strPath = cPath @ ''/config/config.xml'' in
          if \<not> pf_exists P strPath then Some (False, u)
          else do {
            (ok, doc) \<leftarrow> of_run (LoadFile_file (pf_read P) strPath TIXML_ENCODING_UNKNOWN (m_ConfigXmlFile u));
            Some (ok, u\<lparr>m_ConfigXmlFile := doc\<rparr>)
          })"

definition StartTimerModule :: "platform \<Rightarrow> bool" where
  "StartTimerModule P \<longleftrightarrow> 0 = tThread_start (pf_pthread_create P)"

definition LogModuleInit :: "unite \<Rightarrow> (bool \<times> unite) option" where
  "LogModuleInit u = do {
     DBconfigXml \<leftarrow> GetConfigXml u;
     case config_section ''LogConfig'' DBconfigXml of
       None \<Rightarrow> Some (False, u)
     | Some e \<Rightarrow>
         let configfile = Attribute ''configfile'' e;
             logger = Attribute ''logger'' e
         in Some (True, u\<lparr>unite_log := snd (log_Init (c_str configfile) (c_str logger) (unite_log u))\<rparr>)
   }"

definition DatabaseModuleInit :: "'d mysql \<Rightarrow> unite \<Rightarrow> 'd database \<Rightarrow> (bool \<times> 'd database) option" where
  "DatabaseModuleInit my u db = do {
     DBconfigXml \<leftarrow> GetConfigXml u;
     case config_section ''DBAccess'' DBconfigXml of
       None \<Rightarrow> Some (False, db)
     | Some e \<Rightarrow> do {
          let dbHostName = Attribute ''HostName'' e;
          let dbName = Attribute ''dbName'' e;
          let username = Attribute ''username'' e;
          let pwd = Attribute ''pwd'' e;
          (r, db1) \<leftarrow> DbaModule_Initialize my (Some dbHostName) (Some dbName) (Some username) (Some pwd) db;
          Some (- 1 \<noteq> r, db1)
        }
   }"

definition StartModule :: "platform \<Rightarrow> 'd mysql \<Rightarrow> unite \<Rightarrow> 'd database \<Rightarrow> (bool \<times> unite \<times> 'd database) option" where
  "StartModule P my u db =
     (if m_bStarted u then Some (True, u, db)
      else do {
        (loaded, u1) \<leftarrow> LoadConfigFile P u;
        let timed = StartTimerModule P;
        (logged, u2) \<leftarrow> LogModuleInit u1;
        (connected, db1) \<leftarrow> DatabaseModuleInit my u2 db;
        Some (loaded \<and> timed \<and> logged \<and> connected, u2\<lparr>m_bStarted := True\<rparr>, db1)
      })"

definition StopModule :: "unite \<Rightarrow> bool \<times> unite" where
  "StopModule u = (True, u\<lparr>unite_log := log_DeInit (unite_log u)\<rparr>)"

definition unite_StartTcpServer :: "bytes \<Rightarrow> int \<Rightarrow> ptr \<Rightarrow> int \<Rightarrow> 'd app \<Rightarrow> (bool \<times> 'd app) option" where
  "unite_StartTcpServer junk junk_port this nPort w = StartTcpServer junk junk_port this nPort w"

text \<open>A second call of \<open>StartModule\<close> reports success, whatever the first one reported.\<close>

lemma restart_hides_failure:
  "StartModule P my u db = Some (ok, u1, db1) \<Longrightarrow> StartModule P' my u1 db2 = Some (True, u1, db2)"
  by (auto simp: StartModule_def Let_def split: if_splits bind_splits prod.splits)

section \<open>The configuration\<close>

lemma append_all_contents:
  assumes "sb_wf b" "step_size b + data_size b + length (concat xs) < 2 ^ 31"
  shows "\<exists>b'. append_all b xs = Some b' \<and> sb_wf b' \<and> sb_contents b' = sb_contents b @ concat xs"
  using assms
proof (induction xs arbitrary: b)
  case (Cons x xs)
  have "sb_fits b (length x)" using Cons.prems(2) by (simp add: sb_fits_def)
  then obtain b1 where b1: "sb_append b x = Some b1" "sb_wf b1" "sb_contents b1 = sb_contents b @ x"
    using sb.append_ex [OF Cons.prems(1)] by blast
  moreover have "step_size b1 = step_size b" using sb_append_wf_contents [OF Cons.prems(1) b1(1)] by simp
  moreover have "data_size b1 = data_size b + length x"
    using length_sb_contents [OF b1(2)] length_sb_contents [OF Cons.prems(1)] b1(3) by simp
  ultimately show ?case using Cons.IH [of b1] Cons.prems(2) by auto
qed simp

lemma GetConfigXml_printed:
  assumes "doc_ok (m_ConfigXmlFile u)" "length (doc_text (m_ConfigXmlFile u)) + 1024 < 2 ^ 31"
  shows "GetConfigXml u = Some ((TiXmlDocument_new [])\<lparr>doc_children := doc_children (m_ConfigXmlFile u)\<rparr>)"
proof -
  let ?d = "m_ConfigXmlFile u"
  have "sb_wf (sb_new_step 1024)" "sb_contents (sb_new_step 1024) = []"
    by (simp_all add: sb_new_step_def sb_wf_def sb_contents_def)
  then obtain b where b: "SaveFile_buffer ?d (sb_new_step 1024) = Some b" "sb_wf b" "sb_contents b = doc_text ?d"
    using append_all_contents [of "sb_new_step 1024" "doc_Print 0 ?d"] assms(2)
    by (auto simp: SaveFile_buffer_def doc_text_def sb_new_step_def)
  then have "take (sb_length b) (sb_data b) = doc_text ?d"
    by (simp add: sb_length_def sb_data_def sb_contents_def)
  with b(1) LoadFile_printed [OF assms(1)] show ?thesis
    by (simp add: GetConfigXml_def LoadFile_buffer_def of_run_def TiXmlDocument_new_def)
qed

lemma config_section_cong: "doc_children d = doc_children d' \<Longrightarrow> config_section n d = config_section n d'"
  by (simp add: config_section_def RootElement_def)

text \<open>C17: What a module sees of the configuration is what was loaded: when the loaded document is in canonical
  form and its text fits a buffer, the copy that \<open>GetConfigXml\<close> makes by printing and parsing it has the same
  tree, so every section and every attribute reads the same.\<close>

theorem config_copy_is_equal:
  assumes "doc_ok (m_ConfigXmlFile u)" "length (doc_text (m_ConfigXmlFile u)) + 1024 < 2 ^ 31"
  shows "\<exists>x. GetConfigXml u = Some x \<and> doc_children x = doc_children (m_ConfigXmlFile u) \<and>
    doc_errors x = ClearError \<and> (\<forall>n. config_section n x = config_section n (m_ConfigXmlFile u))"
  by (intro exI conjI allI, rule GetConfigXml_printed [OF assms])
    (auto simp: TiXmlDocument_new_def intro: config_section_cong)

definition sample_unite :: unite where
  "sample_unite = CUniteDataModule_new\<lparr>m_ConfigXmlFile := (TiXmlDocument_new ''config.xml'')
     \<lparr>doc_children := [DECLARATION ''1.0'' ''UTF-8'' [],
       ELEMENT ''config'' [] [COMMENT '' keys - and <passwords> '',
         ELEMENT ''JPush'' [(''appKey'', ''a<b&c''), (''masterSecret'', [CHR 0x22, CHR ''s''])] [],
         ELEMENT ''note'' [] [TEXT False ''5 > 4'', TEXT True [NUL, CHR '']'', CHR ''>'']]]]\<rparr>\<rparr>"

theorem config_copy_is_equal_witness:
  "\<exists>x. GetConfigXml sample_unite = Some x \<and> doc_children x = doc_children (m_ConfigXmlFile sample_unite)"
proof -
  have "doc_ok (m_ConfigXmlFile sample_unite)" by code_simp
  moreover have "length (doc_text (m_ConfigXmlFile sample_unite)) < 1000" by code_simp
  then have "length (doc_text (m_ConfigXmlFile sample_unite)) + 1024 < 2 ^ 31" by simp
  ultimately show ?thesis using config_copy_is_equal by blast
qed

definition sample_config :: bytes where
  "sample_config = ''<config><LogConfig configfile=\"log.conf\" logger=\"wis\"/>'' @
     ''<DBAccess HostName=\"localhost\" dbName=\"wis\" username=\"wis\" pwd=\"wis\"/></config>''"

definition sample_platform :: platform where
  "sample_platform = \<lparr>pf_getcwd = Some ''/srv'', pf_exists = (\<lambda>_. True), pf_read = (\<lambda>_. Some sample_config),
     pf_pthread_create = 0\<rparr>"

definition sample_doc :: xml_doc where
  "sample_doc = (TiXmlDocument_new ''/srv/config/config.xml'')\<lparr>doc_children := [ELEMENT ''config'' []
     [ELEMENT ''LogConfig'' [(''configfile'', ''log.conf''), (''logger'', ''wis'')] [],
      ELEMENT ''DBAccess'' [(''HostName'', ''localhost''), (''dbName'', ''wis''), (''username'', ''wis''), (''pwd'', ''wis'')] []]]\<rparr>"

lemma sample_loads:
  "LoadConfigFile sample_platform CUniteDataModule_new = Some (True, CUniteDataModule_new\<lparr>m_ConfigXmlFile := sample_doc\<rparr>)"
proof -
  have "LoadFile_file (pf_read sample_platform) ''/srv/config/config.xml'' TIXML_ENCODING_UNKNOWN (TiXmlDocument_new []) =
      Inr (True, sample_doc)"
    by code_simp
  then show ?thesis
    by (simp add: LoadConfigFile_def sample_platform_def CUniteDataModule_new_def of_run_def)
qed

lemma sample_copy:
  assumes "m_ConfigXmlFile u = sample_doc"
  shows "\<exists>x. GetConfigXml u = Some x \<and> (\<forall>n. config_section n x = config_section n sample_doc)"
proof -
  have "doc_ok sample_doc" by code_simp
  moreover have "length (doc_text sample_doc) < 1000" by code_simp
  ultimately have "GetConfigXml u = Some ((TiXmlDocument_new [])\<lparr>doc_children := doc_children sample_doc\<rparr>)"
    using GetConfigXml_printed [of u] by (simp add: assms)
  then show ?thesis by (auto intro: config_section_cong)
qed

text \<open>With the sample configuration the modules start as soon as the database can be reached.\<close>

lemma sample_StartModule:
  assumes "DbaModule_Initialize my (Some ''localhost'') (Some ''wis'') (Some ''wis'') (Some ''wis'') db = Some (r, db1)"
  shows "\<exists>u x. StartModule sample_platform my CUniteDataModule_new db = Some (r \<noteq> - 1, u, db1) \<and> GetConfigXml u = Some x"
proof -
  have 1: "config_section ''LogConfig'' sample_doc = Some (ELEMENT ''LogConfig'' [(''configfile'', ''log.conf''), (''logger'', ''wis'')] [])"
    "config_section ''DBAccess'' sample_doc =
      Some (ELEMENT ''DBAccess'' [(''HostName'', ''localhost''), (''dbName'', ''wis''), (''username'', ''wis''), (''pwd'', ''wis'')] [])"
    by code_simp+
  let ?u1 = "CUniteDataModule_new\<lparr>m_ConfigXmlFile := sample_doc\<rparr>"
  define u2 where "u2 = ?u1\<lparr>unite_log := snd (log_Init ''log.conf'' ''wis'' (unite_log ?u1))\<rparr>"
  have u: "m_ConfigXmlFile ?u1 = sample_doc" "m_ConfigXmlFile u2 = sample_doc" by (simp_all add: u2_def)
  obtain x1 where "GetConfigXml ?u1 = Some x1" "\<forall>n. config_section n x1 = config_section n sample_doc"
    using sample_copy [OF u(1)] by blast
  then have log: "LogModuleInit ?u1 = Some (True, u2)" by (simp add: LogModuleInit_def 1 attr_Find_def u2_def)
  obtain x2 where x2: "GetConfigXml u2 = Some x2" "\<forall>n. config_section n x2 = config_section n sample_doc"
    using sample_copy [OF u(2)] by blast
  then have "DatabaseModuleInit my u2 db = Some (r \<noteq> - 1, db1)"
    using assms by (auto simp: DatabaseModuleInit_def 1 attr_Find_def)
  moreover have "GetConfigXml (u2\<lparr>m_bStarted := True\<rparr>) = Some x2" using x2(1) by (simp add: GetConfigXml_def)
  moreover have "StartTimerModule sample_platform" by (simp add: StartTimerModule_def tThread_start_def sample_platform_def)
  ultimately show ?thesis
    using log sample_loads by (simp add: StartModule_def Let_def CUniteDataModule_new_def)
qed

end
