(* ===== verification/Server.thy ===== *)
theory Server
  imports Handlers Badge_Timer Unite_Module
begin

text \<open>
  The whole server (MAIN): the report object of main.cpp that hands the messages of devices to the
  handlers, \<open>main\<close>, and the system they form
  with the network layer: callbacks of libevent that queue jobs, and workers that run them. The states
  it can reach, and what a frame or a lost connection does from end to end.

  A job runs as one step. In the code, workers run at the same time and each table has a mutex of
  its own; what several jobs do in between each other is not modelled.
\<close>

section \<open>The report object\<close>

definition Reporter_ShowClientConnect :: "('d, 'j) services \<Rightarrow> ptr \<Rightarrow> 'd app \<Rightarrow> 'd app option" where
  "Reporter_ShowClientConnect E addr w = Some w"

definition Reporter_ShowClientDisConnect :: "('d, 'j) services \<Rightarrow> ptr \<Rightarrow> bytes \<Rightarrow> int \<Rightarrow> 'd app \<Rightarrow> 'd app option" where
  "Reporter_ShowClientDisConnect E addr uuid loginType w =
     (if loginType = TYPE_DEVICE then handleDeviceLogout E addr uuid w
      else if loginType = TYPE_USER then handleUserLogout E addr uuid w
      else Some w)"

definition Reporter_ShowClientReceiveData ::
  "('d, 'j) services \<Rightarrow> device_info \<Rightarrow> u32 \<Rightarrow> u32 \<Rightarrow> int \<Rightarrow> bytes \<Rightarrow> 'd app \<Rightarrow> 'd app option" where
  "Reporter_ShowClientReceiveData E info nDataType nResultCode nDataLen pData w =
     (let addr = di_bus_address info; uuid = di_uuid info in
      if nDataType = WIS_CMD_LOGIN then handleDeviceLogin E addr nDataLen pData w
      else if nDataType = WIS_CMD_USER_AUTO_LOGIN then handleUserLogin E addr nDataLen pData w
      else if nDataType = WIS_CMD_USER_REGIST then map_option snd (handleUserRegist E addr pData w)
      else if nDataType = WIS_CMD_USER_QUIT then map_option snd (handleUserQuit E addr pData w)
      else if nDataType = WIS_CMD_USER_MODIFY_PASSWORD then handleUserModifyPassword E uuid addr pData w
      else if nDataType = WIS_CMD_USER_RESET_PASSWORD then handleUserResetPassword E addr pData w
      else if nDataType = WIS_CMD_USER_BIND then
        Option.bind (getUuidFromBuffer pData) (\<lambda>dev. map_option snd (addBind E addr uuid dev w))
      else if nDataType = WIS_CMD_USER_UNBIND then
        Option.bind (getUuidFromBuffer pData) (\<lambda>dev. map_option snd (delBind E addr uuid dev w))
      else if nDataType = WIS_CMD_HEART_BEAT then handleDeviceHeartBeat E addr w
      else if nDataType = WIS_CMD_TO_USER then handleToUser E addr (uuid @ [NUL]) nDataLen pData w
      else if nDataType = WIS_CMD_USER_GET_DEVICES then map_option snd (userGetDevice E addr (uuid @ [NUL]) w)
      else if nDataType = WIS_CMD_USER_PRIVATE then handleUserPrivate E addr (uuid @ [NUL]) nDataLen pData w
      else Some w)"

definition Reporter :: "('d, 'j) services \<Rightarrow> 'd app report_interface" where
  "Reporter E = \<lparr>ui_ShowClientConnect = Reporter_ShowClientConnect E,
     ui_ShowClientDisConnect = Reporter_ShowClientDisConnect E,
     ui_ShowClientReceiveData = Reporter_ShowClientReceiveData E\<rparr>"

section \<open>\<open>main\<close>\<close>

text \<open>The state before \<open>main\<close>: static objects, a database pool that may open \<open>room\<close> connections, the
  outside world \<open>d\<close>.\<close>

definition app_before :: "nat \<Rightarrow> 'd \<Rightarrow> net \<Rightarrow> 'd app" where
  "app_before room d n =
     \<lparr>tcp = \<lparr>tcp_net = n, m_mapHostAddress = [], m_mapTcpLink = [], services = [], heap_next = 1\<rparr>,
      m_mapDevice = [], ui_registered = False,
      app_db = \<lparr>db_server = d, accesses = [], db_next = 1, db_room = room, m_mapConnection = [],
        m_strHost = [], m_strDbname = [], m_strUsername = [], m_strPwd = []\<rparr>,
      app_mail = \<lparr>isQuickMail_inited = False, mail_from = [], mail_user = [], mail_password = [], mail_subject = [],
        mail_smtpServer = [], mail_port = 25\<rparr>,
      mUser = [], mDevice = []\<rparr>"

text \<open>\<open>main\<close> up to its endless loop: whether it gets there, and the state. \<open>E\<close> are the services but for
  the configuration, which is the copy \<open>GetConfigXml\<close> makes of what was loaded; every handler makes its own
  copy, and they are all the same, as the loaded document does not change any more.\<close>

definition main_start :: "platform \<Rightarrow> ('d, 'j) services \<Rightarrow> bytes \<Rightarrow> int \<Rightarrow> ptr \<Rightarrow> nat \<Rightarrow> 'd \<Rightarrow>
    (bool \<times> ('d, 'j) services \<times> 'd app) option" where
  "main_start P E junk junk_port this room d = do {
     n \<leftarrow> CommonTCPManager_new;
     let w = app_before room d n;
     (started, u, db) \<leftarrow> StartModule P (sv_mysql E) CUniteDataModule_new (app_db w);
     config \<leftarrow> GetConfigXml u;
     let E1 = E\<lparr>sv_config := config\<rparr>;
     let w1 = w\<lparr>app_db := db\<rparr>;
     if \<not> started then Some (False, E1, w1)
     else do {
       let (registered, w2) = RegistInterfacRecObject False w1;
       (listening, w3) \<leftarrow> unite_StartTcpServer junk junk_port this 7788 w2;
       Some (True, E1, w3)
     }
   }"

section \<open>The running system\<close>

definition put_net :: "net \<Rightarrow> 'd app \<Rightarrow> 'd app" where
  "put_net n w = w\<lparr>tcp := (tcp w)\<lparr>tcp_net := n\<rparr>\<rparr>"

text \<open>\<open>accept_conn_cb\<close> makes a new \<open>BUS_ADDRESS\<close>: no device is at this address.\<close>

definition fresh_address :: "ptr \<Rightarrow> 'd app \<Rightarrow> bool" where
  "fresh_address a w \<longleftrightarrow> a \<notin> (m_DeviceAddress \<circ> snd) ` set (m_mapDevice w)"

definition live_connection :: "connect_param \<Rightarrow> 'd app \<Rightarrow> bool" where
  "live_connection c w \<longleftrightarrow> cp_sock c < length (ServrSocketList (tcp_net (tcp w))) \<and>
     om_find (cp_bev c) (bufMap (servr (tcp_net (tcp w)) (cp_sock c))) \<noteq> None"

text \<open>One step: libevent accepts a connection, delivers bytes or an event of a connection, or fires its
  timer; or worker \<open>k\<close> takes its next job and runs it.\<close>

inductive server_step :: "('d, 'j) services \<Rightarrow> 'd app \<Rightarrow> 'd app \<Rightarrow> bool" for E where
  accepts: "i < length (ServrSocketList (tcp_net (tcp w))) \<Longrightarrow> fresh_address addr w \<Longrightarrow>
    server_step E w (put_net (snd (accept_conn_cb i fd ip port addr bev timeout (tcp_net (tcp w)))) w)"
| reads_bytes: "live_connection c w \<Longrightarrow> server_step E w (put_net (read_cb c input (tcp_net (tcp w))) w)"
| has_event: "live_connection c w \<Longrightarrow> server_step E w (put_net (event_cb c events (tcp_net (tcp w))) w)"
| ticks_down: "live_connection c w \<Longrightarrow>
    server_step E w (put_net (timer_cb (sv_write E) (sv_time E (world w)) c (tcp_net (tcp w))) w)"
| works: "worker_turn k (tPool (tcp_net (tcp w))) = Some (job, pool) \<Longrightarrow>
    run_job (MessageCallback (Reporter E)) job (put_net ((tcp_net (tcp w))\<lparr>tPool := pool\<rparr>) w) = Some w' \<Longrightarrow>
    server_step E w w'"

inductive_cases server_stepE: "server_step E w w'"

inductive server_run :: "('d, 'j) services \<Rightarrow> 'd app \<Rightarrow> 'd app \<Rightarrow> bool" for E where
  run_refl: "server_run E w w"
| run_step: "server_run E w w' \<Longrightarrow> server_step E w' w'' \<Longrightarrow> server_run E w w''"

text \<open>A state is reachable when it comes after a start of \<open>main\<close> that gets to its loop.\<close>

definition reachable :: "('d, 'j) services \<Rightarrow> 'd app \<Rightarrow> bool" where
  "reachable E w \<longleftrightarrow> (\<exists>P E0 junk junk_port this room d w0.
     main_start P E0 junk junk_port this room d = Some (True, E, w0) \<and> server_run E w0 w)"

section \<open>The report object is a good client\<close>

lemma Reporter_simps [simp]:
  "ui_ShowClientConnect (Reporter E) = Reporter_ShowClientConnect E"
  "ui_ShowClientDisConnect (Reporter E) = Reporter_ShowClientDisConnect E"
  "ui_ShowClientReceiveData (Reporter E) = Reporter_ShowClientReceiveData E"
  by (simp_all add: Reporter_def)

lemma Reporter_steps [step_rules]:
  "app_step v w \<Longrightarrow> step0 v (Reporter_ShowClientConnect E a w)"
  "app_step v w \<Longrightarrow> step0 v (Reporter_ShowClientDisConnect E a u t w)"
  "app_step v w \<Longrightarrow> step0 v (Reporter_ShowClientReceiveData E i c r n p w)"
  unfolding Reporter_ShowClientConnect_def Reporter_ShowClientDisConnect_def Reporter_ShowClientReceiveData_def
  by (assumption | rule step0_flow(1,4,7,8) step_rules step0_pure)+

interpretation reporter: interface_client "Reporter E" for E
proof
  show "keeps_dev w w'" if "ui_ShowClientConnect (Reporter E) a w = Some w'" for a w w'
    using that by (simp add: Reporter_ShowClientConnect_def)
  show "keeps_dev w w'" if "ui_ShowClientDisConnect (Reporter E) a u l w = Some w'" for a u l w w'
    using that step0D [OF Reporter_steps(2) [OF app_step_refl]] app_step_keeps by simp blast
  show "keeps_dev w w'" if "ui_ShowClientReceiveData (Reporter E) i c r len p w = Some w'" for i c r len p w w'
    using that step0D [OF Reporter_steps(3) [OF app_step_refl]] app_step_keeps by simp blast
qed

section \<open>What a job leaves intact\<close>

lemma parse_loop_invariant:
  assumes "\<And>w c r n m w'. cb w c r n m = Some w' \<Longrightarrow> P w \<Longrightarrow> P w'"
  shows "parse_loop cb b w = Some (b', w') \<Longrightarrow> P w \<Longrightarrow> P w'"
  using assms
proof (induction cb b w arbitrary: b' w' rule: parse_loop.induct)
  case (1 cb b w)
  show ?case
  proof (cases "w' = w")
    case True
    with "1.prems" show ?thesis by simp
  next
    case False
    let ?n = "sint (dec32 (drop 8 (sb_data b)))"
    have c: "12 \<le> sb_length b" "size_of_int ?n \<le> sb_length b - 12"
      "CheckCheckSum (Some (sb_data b)) (of_int ?n + 12) = Some True"
      using "1.prems"(1) False
      by (subst (asm) parse_loop.simps, auto simp: Let_def split: if_splits option.splits bool.splits)+
    then obtain w1 where w1: "cb w (dec32 (drop 4 (sb_data b))) 0 ?n (drop 12 (sb_data b)) = Some w1"
      and rec: "parse_loop cb (sb_truncate b (size_of_int ?n + 12)) w1 = Some (b', w')"
      using "1.prems"(1) by (subst (asm) parse_loop.simps) (auto simp: Let_def split: option.splits)
    have "P w1" using "1.prems"(3) [OF w1] "1.prems"(2) by blast
    then show ?thesis using 1(1) [OF _ refl c(2) c(3) _ w1 rec] c(1) "1.prems"(3) by auto
  qed
qed

text \<open>A property that the message callback keeps and that does not look at the maps of the link layer
  is kept by every job.\<close>

lemma run_job_invariant:
  assumes cb: "\<And>ow msg sz data w w'. cb ow msg sz data w = Some w' \<Longrightarrow> P w \<Longrightarrow> P w'"
    and maps: "\<And>w t. P w \<Longrightarrow> tcp_net t = tcp_net (tcp w) \<Longrightarrow> P (w\<lparr>tcp := t\<rparr>)"
    and job: "run_job cb job w = Some w'" "P w"
  shows "P w'"
proof -
  have call: "P v'" if "call_back cb svc msg sz data v = Some v'" "P v" for svc msg sz data v v'
    using that cb by (auto simp: call_back_def split: option.splits if_splits)
  have save: "P v'" if sv: "SaveLinkAndCallBack cb addr svc h v = Some v'" and pv: "P v" for addr svc h v v'
  proof -
    let ?r = "SetHostAddress (ba_host (bus_at v addr)) h (tcp v)"
    have "tcp_net (snd ?r) = tcp_net (tcp v)"
      by (auto simp: SetHostAddress_def Let_def RemoveHostAddress_def split: option.splits)
    then have r: "P (v\<lparr>tcp := snd ?r\<rparr>)" using maps pv by blast
    show ?thesis
    proof (cases "fst ?r")
      case True
      then obtain w1 where "call_back cb svc MESSAGE_Connect 84 (Msg_address addr) (v\<lparr>tcp := snd ?r\<rparr>) = Some w1"
        "v' = w1\<lparr>tcp := (tcp w1)\<lparr>m_mapTcpLink := om_insert (tcpGetAddressKey (bus_at w1 addr)) svc (m_mapTcpLink (tcp w1))\<rparr>\<rparr>"
        using sv by (auto simp: SaveLink_eq Let_def split: option.splits)
      then show ?thesis using call r maps by simp
    qed (use sv r in \<open>auto simp: SaveLink_eq Let_def\<close>)
  qed
  show ?thesis
  proof (cases job)
    case (jobAccept bev addr owner)
    then obtain svc where s: "NotifyMessageConnect cb (heap_next (tcp w)) bev addr
        (w\<lparr>tcp := snd (new_service svc (tcp w))\<rparr>) = Some w'"
      using job(1) by (auto simp: run_job_def OnAccept_def new_service_def Let_def split: bind_splits)
    have "P (w\<lparr>tcp := snd (new_service svc (tcp w))\<rparr>)"
      by (rule maps [OF job(2)]) (simp add: new_service_def)
    then show ?thesis using s save by (auto simp: NotifyMessageConnect_def split: if_splits)
  next
    case (jobRead bev addr owner d)
    then show ?thesis
      using job call by (auto simp: run_job_def OnCmdCome_def NotifyMessageReceiveData_def split: option.splits if_splits)
  next
    case (jobClose addr owner)
    show ?thesis
    proof (cases "owner = 0")
      case True
      with jobClose job show ?thesis by (simp add: run_job_def OnClose_def NotifyMessageDisconnect_def)
    next
      case False
      then obtain w1 K H where "call_back cb owner MESSAGE_Disconnect 84 (Msg_address addr) w = Some w1"
        "w' = w1\<lparr>tcp := drop_link K (RemoveHostAddress H False (tcp w1))\<rparr>"
        using job(1) jobClose by (auto simp: run_job_def OnClose_def NotifyMessageDisconnect_def
          DeleteLinkAndCallBack_def Let_def on_tcp_def split: bind_splits)
      then show ?thesis using call [OF _ job(2)] maps by (auto simp: frame_simps)
    qed
  qed
qed

text \<open>The application's own state through the device layer.\<close>

lemma app_ok_part: "app_part w' = app_part w \<Longrightarrow> app_ok w' = app_ok w"
  using app_part_eq [of w' w] by (simp add: app_ok_def)

lemma app_part_device_map [simp]: "app_part (w\<lparr>m_mapDevice := m\<rparr>) = app_part w"
  by (simp add: app_part_def)

lemma step0_app_ok: "step0 w m \<Longrightarrow> m = Some w' \<Longrightarrow> app_ok w \<Longrightarrow> app_ok w'"
  by (auto simp: step0_def app_step_def)

lemmas reporter_app_ok = Reporter_steps [OF app_step_refl, THEN step0_app_ok]

lemma reports_app_ok:
  "ShowClientConnect (Reporter E) a w = Some w' \<Longrightarrow> app_ok w \<Longrightarrow> app_ok w'"
  "ShowClientDisConnect (Reporter E) a u l w = Some w' \<Longrightarrow> app_ok w \<Longrightarrow> app_ok w'"
  "ShowNetDataToInterface (Reporter E) i c r n p w = Some w' \<Longrightarrow> app_ok w \<Longrightarrow> app_ok w'"
  by (auto simp: ShowClientConnect_def ShowClientDisConnect_def ShowNetDataToInterface_def
      split: if_splits intro: reporter_app_ok)

lemma ParserCallback_app_ok:
  "ParserCallback (Reporter E) key v c r n m = Some v' \<Longrightarrow> app_ok v \<Longrightarrow> app_ok v'"
  by (auto simp: ParserCallback_def split: option.splits if_splits intro: reports_app_ok(3))

lemma Receive_app_ok:
  assumes "CDevice_Receive (Reporter E) key data w = Some w'" "app_ok w"
  shows "app_ok w'"
proof -
  consider "w' = w" | p w1 where "w' = upd_device key (\<lambda>d. d\<lparr>m_pProtocolPaser := p\<rparr>) w1"
      "w1 = w \<or> (\<exists>b b'. parse_loop (ParserCallback (Reporter E) key) b w = Some (b', w1))"
    using assms(1) by (auto simp: CDevice_Receive_def module_ParseSocketProtocol_def ParseSocketProtocol_def
      split: option.splits if_splits bind_splits)
  then show ?thesis
  proof cases
    case 2
    have "app_ok v'" if "parse_loop (ParserCallback (Reporter E) key) b w = Some (b', v')" for b b' v'
      by (rule parse_loop_invariant [where P = app_ok, OF _ that assms(2)]) (rule ParserCallback_app_ok)
    then have "app_ok w1" using 2(2) assms(2) by blast
    then show ?thesis using app_ok_part [OF app_part_upd_device] 2(1) by blast
  qed (use assms in simp)
qed

lemma device_map_app_ok: "app_ok (InsertDeviceClient a d v) = app_ok v" "app_ok (DeleteDeviceClient a v) = app_ok v"
  by (rule app_ok_part; simp add: InsertDeviceClient_def DeleteDeviceClient_def Let_def)+

lemma MessageCallback_app_ok:
  assumes "MessageCallback (Reporter E) ow msg sz data w = Some w'" "app_ok w"
  shows "app_ok w'"
proof -
  consider "w' = w" | a where "OnConnect (Reporter E) a w = Some w'" | a where "OnDisconnect (Reporter E) a w = Some w'"
    | a bs where "OnReceive (Reporter E) a bs w = Some w'"
    using assms(1) unfolding MessageCallback_def by (cases "ow = 0"; cases msg; cases data) simp_all
  then show ?thesis
  proof cases
    case 1
    with assms(2) show ?thesis by simp
  next
    case 2
    then show ?thesis using assms(2) by (auto simp: OnConnect_def Let_def device_map_app_ok intro: reports_app_ok(1))
  next
    case 3
    have "app_ok v" if "ShowClientDisConnect (Reporter E) a u t w = Some v" for u t v
      using reports_app_ok(2) [OF that assms(2)] .
    with 3 assms(2) show ?thesis
      by (auto simp: OnDisconnect_def Let_def device_map_app_ok split: option.splits if_splits bind_splits)
  next
    case 4
    then show ?thesis using assms(2) by (auto simp: OnReceive_def split: option.splits intro: Receive_app_ok)
  qed
qed

section \<open>The invariant of the running server\<close>

definition server_inv :: "'d app \<Rightarrow> bool" where
  "server_inv w \<longleftrightarrow> net_inv (tcp_net (tcp w)) \<and> link_inv (tcp w) \<and> dev_inv w \<and> app_ok w"

lemma net_inv_cong: "tPool n' = tPool n \<Longrightarrow> ServrSocketList n' = ServrSocketList n \<Longrightarrow> net_inv n' = net_inv n"
  by (simp add: net_inv_def servr_def)

lemma job_net_inv:
  assumes "run_job (MessageCallback (Reporter E)) job w = Some w'" "net_inv (tcp_net (tcp w))"
  shows "net_inv (tcp_net (tcp w'))"
proof (rule run_job_invariant [where P = "\<lambda>w. net_inv (tcp_net (tcp w))", OF _ _ assms])
  fix ow msg sz data w w'
  assume m: "MessageCallback (Reporter E) ow msg sz data w = Some w'" and i: "net_inv (tcp_net (tcp w))"
  have "link_part (tcp w') = link_part (tcp w)" using reporter.MessageCallback_keeps(1) m .
  then have "tPool (tcp_net (tcp w')) = tPool (tcp_net (tcp w))"
    "ServrSocketList (tcp_net (tcp w')) = ServrSocketList (tcp_net (tcp w))"
    by (simp_all add: link_part_def)
  from net_inv_cong [OF this] i show "net_inv (tcp_net (tcp w'))" by simp
qed simp

lemma dev_inv_maps: "tcp_net t = tcp_net (tcp w) \<Longrightarrow> dev_inv (w\<lparr>tcp := t\<rparr>) = dev_inv w"
  by (simp add: dev_inv_def bus_at_def)

lemma job_inv:
  assumes "run_job (MessageCallback (Reporter E)) job w = Some w'" "server_inv w"
  shows "server_inv w'"
proof -
  have i: "net_inv (tcp_net (tcp w))" "link_inv (tcp w)" "dev_inv w" "app_ok w"
    using assms(2) by (simp_all add: server_inv_def)
  have "dev_inv w'"
    by (rule run_job_invariant [where P = dev_inv, OF _ _ assms(1) i(3)])
      (use reporter.MessageCallback_keeps(2) in blast, simp add: dev_inv_maps)
  moreover have "app_ok w'"
    by (rule run_job_invariant [where P = app_ok, OF _ _ assms(1) i(4)])
      (rule MessageCallback_app_ok, assumption+, simp only: app_ok_part [OF app_part_tcp])
  ultimately show ?thesis
    using job_net_inv [OF assms(1) i(1)] reporter.link.run_job_inv [OF i(2) assms(1)] by (simp add: server_inv_def)
qed

text \<open>A callback of libevent changes the network part only, and addresses only when it accepts.\<close>

lemma callback_frame [frame_simps]:
  "bus_mem (read_cb c input n) = bus_mem n" "srv_owner (read_cb c input n) = srv_owner n"
  "bus_mem (snd (bufMapDeleteBuf c n)) = bus_mem n" "srv_owner (snd (bufMapDeleteBuf c n)) = srv_owner n"
  "bus_mem (event_cb c events n) = bus_mem n" "srv_owner (event_cb c events n) = srv_owner n"
  "bus_mem (timer_cb wr t c n) = bus_mem n" "srv_owner (timer_cb wr t c n) = srv_owner n"
  "bus_mem (snd (accept_conn_cb i fd ip port addr bev timeout n)) = (bus_mem n)(addr := server_address ip port)"
  "srv_owner (snd (accept_conn_cb i fd ip port addr bev timeout n)) = srv_owner n"
proof -
  show d: "bus_mem (snd (bufMapDeleteBuf c n)) = bus_mem n" "srv_owner (snd (bufMapDeleteBuf c n)) = srv_owner n" for n
    by (auto simp: bufMapDeleteBuf_def Let_def split: option.splits)
  show "bus_mem (event_cb c events n) = bus_mem n" "srv_owner (event_cb c events n) = srv_owner n"
    by (simp_all add: event_cb_def d)
  show "bus_mem (timer_cb wr t c n) = bus_mem n" "srv_owner (timer_cb wr t c n) = srv_owner n"
    by (auto simp: timer_cb_def Let_def d split: option.splits)
  show "bus_mem (read_cb c input n) = bus_mem n" "srv_owner (read_cb c input n) = srv_owner n"
    by (simp_all add: read_cb_def Let_def)
  show "bus_mem (snd (accept_conn_cb i fd ip port addr bev timeout n)) = (bus_mem n)(addr := server_address ip port)"
    "srv_owner (snd (accept_conn_cb i fd ip port addr bev timeout n)) = srv_owner n"
    by (simp_all add: accept_conn_cb_def Let_def)
qed

lemma put_net_inv:
  assumes "server_inv w" "net_inv n" "srv_owner n = srv_owner (tcp_net (tcp w))"
    and "\<And>a. \<not> fresh_address a w \<Longrightarrow> bus_mem n a = bus_mem (tcp_net (tcp w)) a"
  shows "server_inv (put_net n w)"
proof -
  have i: "link_inv (tcp w)" "dev_inv w" "app_ok w" using assms(1) by (simp_all add: server_inv_def)
  have "bus_mem n (m_DeviceAddress d) = bus_mem (tcp_net (tcp w)) (m_DeviceAddress d)"
    if "om_find k (m_mapDevice w) = Some d" for k d
    using assms(4) om_find_in [OF that] by (force simp: fresh_address_def)
  then have "dev_inv (put_net n w)" using i(2) by (auto simp: dev_inv_def put_net_def bus_at_def)
  moreover have "link_inv (tcp (put_net n w))" using i(1) assms(3) by (simp add: link_inv_def put_net_def)
  moreover have "app_ok (put_net n w)" using i(3) app_ok_part [of "put_net n w" w] by (simp add: put_net_def)
  ultimately show ?thesis using assms(2) by (simp add: server_inv_def put_net_def)
qed

lemma server_step_inv: "server_step E w w' \<Longrightarrow> server_inv w \<Longrightarrow> server_inv w'"
proof (induction rule: server_step.induct)
  case (accepts i w addr fd ip port bev timeout)
  then show ?case
    by (intro put_net_inv net_inv_accept) (auto simp: server_inv_def frame_simps)
next
  case (reads_bytes c w input)
  then show ?case
    by (intro put_net_inv net_inv_read) (auto simp: server_inv_def live_connection_def frame_simps)
next
  case (has_event c w events)
  then have "net_inv (event_cb c events (tcp_net (tcp w)))"
    by (auto simp: event_cb_def server_inv_def live_connection_def intro: net_inv_close)
  with has_event show ?case by (intro put_net_inv) (auto simp: frame_simps)
next
  case (ticks_down c w)
  then show ?case
    by (intro put_net_inv net_inv_timer) (auto simp: server_inv_def live_connection_def frame_simps)
next
  case (works k w job pool w')
  have "pool \<noteq> []" using works.hyps(1) by (auto simp: worker_turn_def split: if_splits option.splits)
  then have "server_inv (put_net ((tcp_net (tcp w))\<lparr>tPool := pool\<rparr>) w)"
    using works.prems by (intro put_net_inv) (auto simp: server_inv_def net_inv_def servr_def)
  then show ?case using job_inv works.hyps(2) by blast
qed

lemma server_run_inv: "server_run E w w' \<Longrightarrow> server_inv w \<Longrightarrow> server_inv w'"
  by (induction rule: server_run.induct) (auto intro: server_step_inv)

text \<open>The start of the program establishes it.\<close>

lemma SetDNS_inv: "SetDNS h n u p db = Some (r, db') \<Longrightarrow> db_inv db \<Longrightarrow> db_inv db'"
proof -
  assume s: "SetDNS h n u p db = Some (r, db')" and i: "db_inv db"
  have "\<exists>a b c e. db' = db\<lparr>m_strHost := a, m_strDbname := b, m_strUsername := c, m_strPwd := e\<rparr>"
  proof (cases "r = 0")
    case True
    then show ?thesis using s by (auto simp: SetDNS_def split: option.splits)
  next
    case False
    then have "db' = db\<lparr>m_strHost := m_strHost db, m_strDbname := m_strDbname db, m_strUsername := m_strUsername db,
        m_strPwd := m_strPwd db\<rparr>"
      using s by (auto simp: SetDNS_def split: option.splits)
    then show ?thesis by blast
  qed
  then have "m_mapConnection db' = m_mapConnection db" "db_next db' = db_next db" "usable k db' = usable k db" for k
    by (auto simp: usable_def the_access_def)
  with i show "db_inv db'" by (simp add: db_inv_def)
qed

lemma DbaModule_Initialize_inv:
  assumes "DbaModule_Initialize my h n u p db = Some (r, db')" "db_inv db"
  shows "db_inv db'"
proof -
  obtain q db1 where s: "SetDNS h n u p db = Some (q, db1)"
    using assms(1) by (auto simp: DbaModule_Initialize_def split: bind_splits)
  have i: "db_inv db1" using SetDNS_inv [OF s assms(2)] .
  obtain a db2 where g: "GetNVDataAccess my db1 = (a, db2)" by fastforce
  show ?thesis
  proof (cases "q \<noteq> 0 \<or> a = 0")
    case True
    then have "db' = db1 \<or> db' = db2 \<and> a = 0"
      using assms(1) s g by (auto simp: DbaModule_Initialize_def DbaModule_GetNVDataAccess_def split: if_splits)
    then show ?thesis using i Get_none [of db1 my db2] g by auto
  next
    case False
    show ?thesis
    proof (rule Get_cases [OF i g])
      assume a: "a \<noteq> 0" "pool.at (insert a (held db1)) db2" "a \<notin> held db1" "usable a db2"
      have rel: "db_inv db3" if "DbaModule_ReleaseNVDataAccess a (db2\<lparr>db_server := d\<rparr>) = Some db3" for d db3
        using give_back [of a db1 "db2\<lparr>db_server := d\<rparr>"] a that by (auto simp: settled_def)
      have u: "usable a (db2\<lparr>db_server := d\<rparr>)" for d using a(4) by simp
      show ?thesis
        using assms(1) s g False a(4)
        by (auto simp: DbaModule_Initialize_def DbaModule_GetNVDataAccess_def exec_usable [OF u] exec_usable [OF a(4)]
          split: if_splits bind_splits dest: rel)
    qed (use False in simp)
  qed
qed

lemma StartTcpServer_inv:
  assumes "unite_StartTcpServer junk junk_port this 7788 w = Some (ok, w')"
    and "net_inv (tcp_net (tcp w))" "tcp w = \<lparr>tcp_net = n, m_mapHostAddress = [], m_mapTcpLink = [], services = [], heap_next = 1\<rparr>"
    and "m_mapDevice w = []" "app_ok w"
  shows "server_inv w'"
proof -
  obtain a where w': "w' = w\<lparr>tcp := \<lparr>tcp_net = snd (BeginServer a 1 n), m_mapHostAddress = [], m_mapTcpLink = [],
      services = [(1, InitServer this 7788 True)], heap_next = Suc 1\<rparr>\<rparr>"
    using assms(1,3) by (auto simp: unite_StartTcpServer_def StartTcpServer_def StartTCPServer_def StartServer_def
      new_service_def BeginServer_def Let_def split: bind_splits)
  have "net_inv (tcp_net (tcp w'))"
    using assms(2,3) by (auto simp: w' BeginServer_def net_inv_def servr_def nth_append servr_inv_def om.keys_def)
  moreover have "link_inv (tcp w')" by (simp add: w' link_inv_def BeginServer_def om_wf_def)
  moreover have "dev_inv w'" using assms(4) by (simp add: w' dev_inv_def)
  moreover have "app_ok w'" using assms(5) app_ok_part [of w' w] by (simp add: w')
  ultimately show ?thesis by (simp add: server_inv_def)
qed

lemma StartModule_inv:
  assumes "StartModule P my u db = Some (ok, u', db')" "db_inv db"
  shows "db_inv db'"
  using assms DbaModule_Initialize_inv [OF _ assms(2)]
  by (auto simp: StartModule_def DatabaseModuleInit_def Let_def split: if_splits bind_splits option.splits prod.splits)

lemma main_start_inv:
  assumes "main_start P E0 junk junk_port this room d = Some (True, E, w)"
  shows "server_inv w"
proof -
  obtain n u db ok where n: "CommonTCPManager_new = Some n"
    and s: "StartModule P (sv_mysql E0) CUniteDataModule_new (app_db (app_before room d n)) = Some (True, u, db)"
    and t: "unite_StartTcpServer junk junk_port this 7788 (app_before room d n\<lparr>app_db := db, ui_registered := True\<rparr>) =
      Some (ok, w)"
    using assms by (auto simp: main_start_def RegistInterfacRecObject_def Let_def split: bind_splits if_splits)
  let ?w = "app_before room d n\<lparr>app_db := db, ui_registered := True\<rparr>"
  have "net_inv n" using n
    by (auto simp: CommonTCPManager_new_def CThreadPool_new_def net_inv_def)
  moreover have "db_inv db"
    by (rule StartModule_inv [OF s]) (simp add: app_before_def db_inv_def)
  then have "app_ok ?w" by (simp add: app_ok_def app_before_def)
  moreover have "tcp ?w = \<lparr>tcp_net = n, m_mapHostAddress = [], m_mapTcpLink = [], services = [], heap_next = 1\<rparr>"
    "m_mapDevice ?w = []"
    by (simp_all add: app_before_def)
  ultimately show ?thesis using StartTcpServer_inv [OF t] by simp
qed

lemma reachable_inv: "reachable E w \<Longrightarrow> server_inv w"
  unfolding reachable_def by (elim exE conjE) (rule server_run_inv [OF _ main_start_inv])

section \<open>Jobs from end to end\<close>

text \<open>A service that takes messages, as the listening service does after \<open>StartTcpServer\<close>.\<close>

definition serves :: "ptr \<Rightarrow> 'd app \<Rightarrow> bool" where
  "serves owner w \<longleftrightarrow> owner \<noteq> 0 \<and> (case om_find owner (services (tcp w)) of
     None \<Rightarrow> False | Some s \<Rightarrow> m_bValid s \<and> has_callback s \<and> ts_owner s \<noteq> 0)"

lemma run_read:
  "serves owner w \<Longrightarrow> run_job (MessageCallback ui) (jobRead bev addr owner data) w = OnReceive ui addr data w"
  by (auto simp: serves_def run_job_def OnCmdCome_def NotifyMessageReceiveData_def call_back_def MessageCallback_def
      split: option.splits)

text \<open>A read of exactly one frame, on a device with nothing buffered, is one report.\<close>

lemma one_frame_read:
  assumes "GetDeviceClient a w = Some (key, d)" "m_pProtocolPaser d = Some b" "sb_contents b = []"
    and "buffer_room b (length x + 12)" "login_free c \<or> m_isLogined d" "c \<noteq> WIS_CMD_HEART_BEAT" "ui_registered w"
  obtains slack b' where "\<And>ui. OnReceive ui a (mk_frame c x) w =
    map_option (upd_device key (\<lambda>d. d\<lparr>m_pProtocolPaser := Some b'\<rparr>))
      (ui_ShowClientReceiveData ui (device_info_of d) c 0 (int (length x)) (x @ slack) w)"
proof -
  have d: "om_find key (m_mapDevice w) = Some d"
    using assms(1) by (auto simp: GetDeviceClient_def Let_def)
  have room: "buffer_room b (length (mk_frame c x))" using assms(4) by simp
  obtain b1 where b1: "sb_append b (mk_frame c x) = Some b1" "sb_wf b1" "sb_contents b1 = mk_frame c x"
    "data_size b1 = data_size b + length (mk_frame c x)"
    using Parse_append [OF room] assms(3) by auto
  have sz: "data_size b1 < 2 ^ 63" using b1(4) room by (simp add: buffer_room_def)
  have len: "length x < 2 ^ 31" using assms(4) by (simp add: buffer_room_def)
  obtain slack where sl: "sb_data b1 = mk_frame c x @ slack" using sb_data_contents [OF b1(2)] b1(3) by metis
  let ?b = "sb_truncate b1 (length x + 12)"
  have f: "frame_len (mk_frame c x) = length x" "\<not> frame_waits (mk_frame c x)" "frame_good (mk_frame c x)"
    using frame_in_front [OF len, of c "[]"] by simp_all
  have t: "sb_wf ?b" "sb_contents ?b = []" using sb.truncate_contents [OF b1(2)] b1(3) by simp_all
  have sz': "data_size ?b < 2 ^ 63" using sz by (simp add: sb_truncate_def Let_def less_imp_diff_less)
  have stop: "parse_loop cb ?b v = Some (?b, v)" for cb and v :: "'a dev_base_scheme"
    using parse_loop_cases(1) [OF t(1) sz'] t(2) by simp
  have "parse_loop (ParserCallback ui key) b1 w =
    map_option (\<lambda>v. (?b, v)) (ui_ShowClientReceiveData ui (device_info_of d) c 0 (int (length x)) (x @ slack) w)" for ui
    using parse_loop_cases(3) [OF b1(2) sz, of "ParserCallback ui key" w] f b1(3) frame_parts(2) [of c x "[]"]
      frame_parts(4) [of c x slack] assms(5-7) d sl stop
    by (auto simp: ParserCallback_def ShowNetDataToInterface_def split: option.splits)
  then have "OnReceive ui a (mk_frame c x) w =
    map_option (upd_device key (\<lambda>d. d\<lparr>m_pProtocolPaser := Some ?b\<rparr>))
      (ui_ShowClientReceiveData ui (device_info_of d) c 0 (int (length x)) (x @ slack) w)" for ui
    using assms(1,2) d b1(1) length_mk_frame [of c x]
    by (auto simp: OnReceive_def CDevice_Receive_def module_ParseSocketProtocol_def ParseSocketProtocol_def
        option.map_comp comp_def split: option.splits simp del: length_mk_frame)
  then show thesis by (rule that)
qed
lemma pad_to_again:
  assumes "NUL \<notin> set s" "length s \<le> n"
  shows "pad_to n (pad_to n s @ xs) = pad_to n s"
proof -
  have "take n (c_str (pad_to n s @ xs)) = take n (c_str s)"
    using c_str_pad_to [OF assms(1), of n xs] assms by simp
  then show ?thesis by (simp only: pad_to_def)
qed

text \<open>A user login frame: id, password and token in fields of 32, 24 and 72 bytes.\<close>

definition user_login_data :: "bytes \<Rightarrow> bytes \<Rightarrow> bytes \<Rightarrow> bytes" where
  "user_login_data u pw t = pad_to 32 u @ pad_to 24 pw @ pad_to 72 t"

lemma length_user_login_data [simp]: "length (user_login_data u pw t) = 128"
  by (simp add: user_login_data_def)

lemma user_login_fields:
  assumes "NUL \<notin> set u" "length u \<le> 32" "NUL \<notin> set pw" "length pw \<le> 24"
  shows "getUuidFromBuffer (user_login_data u pw t @ slack) = Some u"
    "getPasswordFromBuffer (drop 32 (user_login_data u pw t @ slack)) = Some pw"
    "\<exists>t'. getTokenFromBuffer (drop 56 (user_login_data u pw t @ slack)) = Some t'"
    "strncpy UUID_LEN (user_login_data u pw t @ slack) = Some (pad_to 32 u)"
  using assms by (simp_all add: user_login_data_def getUuidFromBuffer_def getPasswordFromBuffer_def getTokenFromBuffer_def
      len_defs buf_string_pad_to strncpy_def pad_to_again) (simp add: buf_string_def)

text \<open>The device that gets the reply is marked as logged in.\<close>

lemma login_reply_marks:
  assumes "GetDeviceClient a w = Some (key, d)" "dev_inv w" "keeps_dev w v"
    and "NUL \<notin> set u" "length u \<le> 32" "strncpy UUID_LEN p = Some (pad_to 32 u)"
    and "sendLoginResponse E a p 0 TYPE_USER v = Some w'"
  shows "\<exists>d'. om_find key (m_mapDevice w') = Some d' \<and> m_isLogined d' \<and> m_loginType d' = TYPE_USER \<and> m_uuid d' = u"
proof -
  have key: "key = GetAddressKey (bus_at v a)" and d: "om_find key (m_mapDevice w) = Some d"
    using assms(1) keeps_dev_bus [OF assms(3)] by (auto simp: GetDeviceClient_def Let_def split: option.splits)
  obtain d1 where d1: "om_find key (m_mapDevice v) = Some d1"
    using keeps_dev_find [OF assms(3), of key] d by auto
  have "m_pProtocolPaser d1 \<noteq> None"
    using dev_inv_keeps [OF assms(3,2)] d1 by (auto simp: dev_inv_def)
  from dm_SendData_login [OF d1 [unfolded key] this assms(4,5), of WIS_CMD_USER_AUTO_LOGIN 0 TYPE_USER "sv_write E"]
  show ?thesis
    using assms(6,7) d1
    by (auto simp: sendLoginResponse_def Let_def send_def unite_SendData_def key find_upd_device
        TYPE_USER_def TYPE_DEVICE_def split: prod.splits)
qed

text \<open>C2: Login over the wire. A read of one user login frame, on a connection whose device has nothing
  buffered, always ends its job, in a consistent state. When the database accepts name and password the
  user is entered for that connection, every other connection of the user leaves the table, and the device
  is marked as logged in under that name; when it does not, the table of users stays as it is.\<close>

theorem login_over_the_wire:
  assumes "server_inv w" "ui_registered w" "serves owner w"
    and "GetDeviceClient a w = Some (key, d)" "m_pProtocolPaser d = Some b" "sb_contents b = []" "buffer_room b 140"
    and "address_ip (m_DeviceAddress d) w = Some ip"
    and "NUL \<notin> set u" "length u \<le> 32" "NUL \<notin> set pw" "length pw \<le> 24"
    and "login_on_server (sv_mysql E) u pw (app_db w) = (ok, dw)"
  shows "\<exists>w'. run_job (MessageCallback (Reporter E))
      (jobRead bev a owner (mk_frame WIS_CMD_USER_AUTO_LOGIN (user_login_data u pw t))) w = Some w' \<and> server_inv w' \<and>
    (\<forall>x. om_find x (mUser w') =
      (if \<not> ok then om_find x (mUser w)
       else if x = m_DeviceAddress d then Some u
       else if om_find x (mUser w) = Some u then None else om_find x (mUser w))) \<and>
    (ok \<longrightarrow> (\<exists>d'. om_find key (m_mapDevice w') = Some d' \<and> m_isLogined d' \<and> m_loginType d' = TYPE_USER \<and> m_uuid d' = u))"
proof -
  let ?x = "user_login_data u pw t" and ?c = WIS_CMD_USER_AUTO_LOGIN and ?a = "m_DeviceAddress d"
  have inv: "app_ok w" "dev_inv w" using assms(1) by (simp_all add: server_inv_def)
  have d: "om_find key (m_mapDevice w) = Some d" using assms(4) by (auto simp: GetDeviceClient_def Let_def)
  with inv(2) have a: "GetDeviceClient ?a w = Some (key, d)"
    by (auto simp: dev_inv_def GetDeviceClient_def Let_def)
  have lf: "login_free ?c \<or> m_isLogined d" "?c \<noteq> WIS_CMD_HEART_BEAT"
    by (simp_all add: login_free_def wis_cmd_defs)
  have room: "buffer_room b (length ?x + 12)" using assms(7) by simp
  obtain slack b' where r: "\<And>ui. OnReceive ui a (mk_frame ?c ?x) w =
    map_option (upd_device key (\<lambda>d. d\<lparr>m_pProtocolPaser := Some b'\<rparr>))
      (ui_ShowClientReceiveData ui (device_info_of d) ?c 0 (int (length ?x)) (?x @ slack) w)"
    by (rule one_frame_read [OF assms(4-6) room lf assms(2)]) (rule that)
  note f = user_login_fields [OF assms(9-12), of t slack]
  obtain t' where t': "getTokenFromBuffer (drop 56 (?x @ slack)) = Some t'" using f(3) by blast
  obtain w1 where w1: "handleUserLogin E ?a 128 (?x @ slack) w = Some w1"
      "ok \<longrightarrow> (\<exists>v. keeps_dev w v \<and> sendLoginResponse E ?a (?x @ slack) 0 TYPE_USER v = Some w1)"
      "\<forall>x. om_find x (mUser w1) =
        (if \<not> ok then om_find x (mUser w)
         else if x = ?a then Some u
         else if om_find x (mUser w) = Some u then None else om_find x (mUser w))"
    using login_effect [OF inv(1) dev_inv_parsers [OF inv(2)] assms(8) f(1,2) t' assms(13), of 128] by (cases ok) auto
  let ?w' = "upd_device key (\<lambda>d. d\<lparr>m_pProtocolPaser := Some b'\<rparr>) w1"
  have "Reporter_ShowClientReceiveData E (device_info_of d) ?c 0 128 (?x @ slack) w = Some w1"
    using w1(1) by (simp add: Reporter_ShowClientReceiveData_def Let_def device_info_of_def wis_cmd_defs)
  then have run: "run_job (MessageCallback (Reporter E)) (jobRead bev a owner (mk_frame ?c ?x)) w = Some ?w'"
    by (simp add: run_read [OF assms(3)] r)
  have dev: "ok \<longrightarrow> (\<exists>d'. om_find key (m_mapDevice ?w') = Some d' \<and> m_isLogined d' \<and> m_loginType d' = TYPE_USER \<and> m_uuid d' = u)"
  proof
    assume k: ok
    obtain v where v: "keeps_dev w v" "sendLoginResponse E ?a (?x @ slack) 0 TYPE_USER v = Some w1"
      using w1(2) k by blast
    obtain d' where "om_find key (m_mapDevice w1) = Some d'" "m_isLogined d'" "m_loginType d' = TYPE_USER" "m_uuid d' = u"
      using login_reply_marks [OF a inv(2) v(1) assms(9,10) f(4) v(2)] by blast
    then show "\<exists>d'. om_find key (m_mapDevice ?w') = Some d' \<and> m_isLogined d' \<and> m_loginType d' = TYPE_USER \<and> m_uuid d' = u"
      by (intro exI [of _ "d'\<lparr>m_pProtocolPaser := Some b'\<rparr>"]) (simp add: find_upd_device)
  qed
  have "mUser ?w' = mUser w1" by (rule app_part_eq(2) [OF app_part_upd_device])
  then show ?thesis
    using w1(3) by (intro exI [of _ ?w'] conjI run job_inv [OF run assms(1)] dev) simp
qed

lemma sample_app_inv: "table_ok us \<Longrightarrow> table_ok ds \<Longrightarrow> server_inv (sample_app us ds)"
proof -
  assume t: "table_ok us" "table_ok ds"
  have n: "tcp_net (tcp sample_world) = snd (accept_conn_cb 0 5 sample_ip 5000 7 9 11 one_server)"
    by (simp add: sample_world_def)
  have "net_inv (tcp_net (tcp sample_world))"
    unfolding n by (rule net_inv_accept) simp_all
  moreover have "link_inv (tcp sample_world)"
    by (simp add: link_inv_def sample_world_def om_wf_def CHostAddress_new_def CHostAddress_IsValid_def frame_simps
        CHostAddress_GetKey_def server_address_def sample_keys one_server_def BeginServer_def Let_def)
  moreover have "dev_inv (sample_app us ds)"
  proof -
    have "m_mapDevice sample_world = [(''10.0.0.1-5000'', CDevice_new 7)]" by (simp add: sample_world_def)
    then show ?thesis
      using sample_bus sample_keys(1) CDevice_new_parser by (simp add: dev_inv_def om_wf_def)
  qed
  moreover have "app_ok (sample_app us ds)" using t by (simp add: app_ok_def)
  ultimately show ?thesis by (simp add: server_inv_def)
qed

lemma sample_app_serves: "serves 1 (sample_app us ds)"
  by (simp add: serves_def) (simp add: sample_world_def InitServer_def)

lemma sample_app_device: "GetDeviceClient 7 (sample_app us ds) = Some (''10.0.0.1-5000'', CDevice_new 7)"
  using sample_device(2) by (simp add: GetDeviceClient_def)

theorem login_over_the_wire_witness:
  "\<exists>w'. run_job (MessageCallback (Reporter (sample_services [] [])))
      (jobRead 9 7 1 (mk_frame WIS_CMD_USER_AUTO_LOGIN (user_login_data ''bob'' ''secret'' ''token'')))
      (sample_app [(3, ''bob''), (5, ''eve'')] []) = Some w' \<and>
    om_find 3 (mUser w') = None \<and> om_find 5 (mUser w') = Some ''eve'' \<and> om_find 7 (mUser w') = Some ''bob''"
proof -
  let ?w = "sample_app [(3, ''bob''), (5, ''eve'')] []"
  let ?E = "sample_services [] []"
  have inv: "server_inv ?w" by (rule sample_app_inv) (simp_all add: table_ok_def om_wf_def)
  obtain d where d: "login_on_server (sv_mysql ?E) ''bob'' ''secret'' (app_db ?w) = (True, d)"
    using quiet_login by (metis prod.collapse sample_app_simps(3) sample_services_simps(1))
  have ip: "address_ip (m_DeviceAddress (CDevice_new 7)) ?w = Some ''10.0.0.1''"
    using sample_ip_of by (simp add: CDevice_new_def)
  have x: "ui_registered ?w" "buffer_room CProtocolParser_new 140" by (simp_all add: CProtocolParser_new_room)
  have f: "NUL \<notin> set ''bob''" "length ''bob'' \<le> 32" "NUL \<notin> set ''secret''" "length ''secret'' \<le> 24" by simp_all
  from login_over_the_wire [OF inv x(1) sample_app_serves sample_app_device CDevice_new_parser(1)
      CProtocolParser_new_contents x(2) ip f d, of 9 "''token''"]
  show ?thesis by (auto simp: CDevice_new_def)
qed

text \<open>Links and devices come and go with the connections.\<close>

lemma run_close:
  "serves owner w \<Longrightarrow> run_job (MessageCallback ui) (jobClose a owner) w =
    Option.bind (OnDisconnect ui a w) (\<lambda>w1. let b = bus_at w1 a in
      Some (on_tcp (drop_link (tcpGetAddressKey b) \<circ>
        RemoveHostAddress (GetKey (ha_ip (ba_host b)) (ha_port (ba_host b))) False) w1))"
  by (auto simp: serves_def run_job_def OnClose_def NotifyMessageDisconnect_def DeleteLinkAndCallBack_def call_back_def
      MessageCallback_def split: option.splits)

lemma handleUserLogout_effect:
  assumes "db_inv (app_db w)" "one_update (sv_mysql E) (snprintf 200 (sql_user_logout u)) (app_db w) = (ok, dw)"
  shows "\<exists>w'. handleUserLogout E a u w = Some w' \<and>
    mUser w' = (if ok then filter (\<lambda>(x, v). v \<noteq> u) (mUser w) else mUser w) \<and> mDevice w' = mDevice w"
proof -
  obtain x where x: "with_db (user_logout (sv_mysql E) u defaultPassword) w = Some (ok, w\<lparr>app_db := x\<rparr>)" "db_inv x"
    using with_db_settled [of "user_logout (sv_mysql E) u defaultPassword" w ok dw]
      update_daos(1) [OF assms(1), of "sv_mysql E" u defaultPassword] assms(2) by auto
  obtain y where "saveUserLogoutLog (sv_mysql E) u 0 [] x = Some y"
    using log_settles [OF x(2)] unfolding saveUserLogoutLog_def saveUserLog_def by blast
  then show ?thesis using x(1) by (simp add: handleUserLogout_def with_db_unit_def mapDeleteSameUser_def)
qed

lemma handleUserLogout_keeps: "handleUserLogout E a u w = Some w1 \<Longrightarrow> keeps_dev w w1"
  by (rule app_step_keeps [OF step0D [OF handleUserLogout_step [OF app_step_refl]]])

lemma om_find_filter_value:
  "om_wf m \<Longrightarrow> om_find x (filter (\<lambda>(k, v). v \<noteq> u) m) = (if om_find x m = Some u then None else om_find x m)"
  by (auto simp: om_find_filter split: option.splits)

lemma find_dropped: "om_find k (m_mapTcpLink (drop_link key t)) = (if k = key then None else om_find k (m_mapTcpLink t))"
  by (auto simp: drop_link_def om_lookup split: option.splits)

text \<open>What the report object does about a lost connection, by the kind of its login.\<close>

lemma disconnect_report:
  assumes "db_inv (app_db w)" "parsers_ok w" "om_wf (mUser w)"
    and "l = TYPE_DEVICE \<Longrightarrow> length u \<le> 32 \<and> readable_users (sv_mysql E) u"
    and "one_update (sv_mysql E) (snprintf 200 (if l = TYPE_DEVICE then sql_device_logout u else sql_user_logout u)) (app_db w) = (ok, dw)"
  shows "\<exists>w1. Reporter_ShowClientDisConnect E a u l w = Some w1 \<and> keeps_dev w w1 \<and>
    (\<forall>x. om_find x (mUser w1) = (if l = TYPE_USER \<and> ok \<and> om_find x (mUser w) = Some u then None else om_find x (mUser w))) \<and>
    (\<forall>x. om_find x (mDevice w1) = (if l = TYPE_DEVICE \<and> ok \<and> x = a then None else om_find x (mDevice w)))"
proof -
  consider "l = TYPE_DEVICE" | "l = TYPE_USER" "l \<noteq> TYPE_DEVICE" | "l \<noteq> TYPE_DEVICE" "l \<noteq> TYPE_USER" by blast
  then show ?thesis
  proof cases
    case 1
    have u: "length u \<le> 32" "readable_users (sv_mysql E) u" using assms(4) [OF 1] by simp_all
    have "one_update (sv_mysql E) (snprintf 200 (sql_device_logout u)) (app_db w) = (ok, dw)" using assms(5) 1 by simp
    from handleDeviceLogout_effect [OF assms(1,2) u this, of a]
    obtain w1 where w1: "handleDeviceLogout E a u w = Some w1" "mUser w1 = mUser w"
      "mDevice w1 = (if ok then om_erase a (mDevice w) else mDevice w)" by blast
    have "l \<noteq> TYPE_USER" using 1 by (simp add: TYPE_DEVICE_def TYPE_USER_def)
    then show ?thesis using 1 w1 app_step_keeps [OF step0D [OF handleDeviceLogout_step [OF app_step_refl] w1(1)]]
      by (simp add: Reporter_ShowClientDisConnect_def om_lookup)
  next
    case 2
    then have "one_update (sv_mysql E) (snprintf 200 (sql_user_logout u)) (app_db w) = (ok, dw)" using assms(5) by simp
    from handleUserLogout_effect [OF assms(1) this, of a]
    obtain w1 where w1: "handleUserLogout E a u w = Some w1"
      "mUser w1 = (if ok then filter (\<lambda>(x, v). v \<noteq> u) (mUser w) else mUser w)" "mDevice w1 = mDevice w"
      by blast
    then show ?thesis using 2 handleUserLogout_keeps [OF w1(1)] om_find_filter_value [OF assms(3)]
      by (simp add: Reporter_ShowClientDisConnect_def)
  next
    case 3
    then show ?thesis by (simp add: Reporter_ShowClientDisConnect_def)
  qed
qed

lemma OnDisconnect_effect:
  assumes "db_inv (app_db w)" "om_wf (mUser w)" "dev_inv w" "ui_registered w"
    and "GetDeviceClient a w = Some (key, d)"
    and "m_isLogined d \<Longrightarrow> m_loginType d = TYPE_DEVICE \<Longrightarrow> length (m_uuid d) \<le> 32 \<and> readable_users (sv_mysql E) (m_uuid d)"
    and "one_update (sv_mysql E) (snprintf 200 (if m_loginType d = TYPE_DEVICE then sql_device_logout (m_uuid d)
      else sql_user_logout (m_uuid d))) (app_db w) = (ok, dw)"
  shows "\<exists>w1. OnDisconnect (Reporter E) a w = Some (DeleteDeviceClient a w1) \<and> keeps_dev w w1 \<and>
    (\<forall>x. om_find x (mUser w1) =
      (if m_isLogined d \<and> CountByUuid (m_uuid d) w < 2 \<and> m_loginType d = TYPE_USER \<and> ok \<and>
          om_find x (mUser w) = Some (m_uuid d) then None
       else om_find x (mUser w))) \<and>
    (\<forall>x. om_find x (mDevice w1) =
      (if m_isLogined d \<and> CountByUuid (m_uuid d) w < 2 \<and> m_loginType d = TYPE_DEVICE \<and> ok \<and> x = a then None
       else om_find x (mDevice w)))"
proof (cases "m_isLogined d \<and> CountByUuid (m_uuid d) w < 2")
  case True
  then obtain w1 where "Reporter_ShowClientDisConnect E a (m_uuid d) (m_loginType d) w = Some w1" "keeps_dev w w1"
    "\<forall>x. om_find x (mUser w1) = (if m_loginType d = TYPE_USER \<and> ok \<and> om_find x (mUser w) = Some (m_uuid d) then None
      else om_find x (mUser w))"
    "\<forall>x. om_find x (mDevice w1) = (if m_loginType d = TYPE_DEVICE \<and> ok \<and> x = a then None else om_find x (mDevice w))"
    using disconnect_report [OF assms(1) dev_inv_parsers [OF assms(3)] assms(2) _ assms(7), of a] assms(6) by blast
  with True assms(4,5) show ?thesis
    by (intro exI [of _ w1]) (simp add: OnDisconnect_def Let_def ShowClientDisConnect_def)
next
  case False
  then show ?thesis using assms(5) by (intro exI [of _ w]) (auto simp: OnDisconnect_def Let_def)
qed

text \<open>C7: A lost connection is forgotten. When the connection of a device is closed, the job ends, in a consistent
  state, if the device is not logged in or logged in as a user, and also for one logged in as a device whose id has
  at most 32 bytes and whose bound users the server can tell in a readable way. After it the device is gone and all
  others are still there, its address leads to no connection and its link is gone, while other addresses and links
  do as before. If it was logged in, no other device has the same id and the server records the logout, then no entry
  of the user is left in the table of users, and for a device its connection's entry in the table of devices is gone;
  nothing else in the tables changes.\<close>

theorem lost_connection_is_forgotten:
  assumes "server_inv w" "ui_registered w" "serves owner w"
    and "GetDeviceClient a w = Some (key, d)"
    and "m_isLogined d \<Longrightarrow> m_loginType d = TYPE_DEVICE \<Longrightarrow> length (m_uuid d) \<le> 32 \<and> readable_users (sv_mysql E) (m_uuid d)"
    and "one_update (sv_mysql E) (snprintf 200 (if m_loginType d = TYPE_DEVICE then sql_device_logout (m_uuid d)
      else sql_user_logout (m_uuid d))) (app_db w) = (ok, dw)"
  shows "\<exists>w'. run_job (MessageCallback (Reporter E)) (jobClose a owner) w = Some w' \<and> server_inv w' \<and>
    (\<forall>k. om_find k (m_mapDevice w') = None \<longleftrightarrow> k = key \<or> om_find k (m_mapDevice w) = None) \<and>
    (\<forall>k. GetHostAddress k (tcp w') = (if k = GetKey_of_host (ba_host (bus_at w a)) then 0 else GetHostAddress k (tcp w))) \<and>
    (\<forall>k. om_find k (m_mapTcpLink (tcp w')) =
      (if k = tcpGetAddressKey (bus_at w a) then None else om_find k (m_mapTcpLink (tcp w)))) \<and>
    (\<forall>x. om_find x (mUser w') =
      (if m_isLogined d \<and> CountByUuid (m_uuid d) w < 2 \<and> m_loginType d = TYPE_USER \<and> ok \<and>
          om_find x (mUser w) = Some (m_uuid d) then None
       else om_find x (mUser w))) \<and>
    (\<forall>x. om_find x (mDevice w') =
      (if m_isLogined d \<and> CountByUuid (m_uuid d) w < 2 \<and> m_loginType d = TYPE_DEVICE \<and> ok \<and> x = a then None
       else om_find x (mDevice w)))"
proof -
  have inv: "db_inv (app_db w)" "om_wf (mUser w)" "dev_inv w"
    using assms(1) by (simp_all add: server_inv_def app_ok_def table_ok_def)
  have key: "key = GetAddressKey (bus_at w a)" using assms(4) by (auto simp: GetDeviceClient_def Let_def split: option.splits)
  obtain w1 where w1: "OnDisconnect (Reporter E) a w = Some (DeleteDeviceClient a w1)" and k: "keeps_dev w w1"
    and tables: "\<forall>x. om_find x (mUser w1) =
        (if m_isLogined d \<and> CountByUuid (m_uuid d) w < 2 \<and> m_loginType d = TYPE_USER \<and> ok \<and>
            om_find x (mUser w) = Some (m_uuid d) then None
         else om_find x (mUser w))"
      "\<forall>x. om_find x (mDevice w1) =
        (if m_isLogined d \<and> CountByUuid (m_uuid d) w < 2 \<and> m_loginType d = TYPE_DEVICE \<and> ok \<and> x = a then None
         else om_find x (mDevice w))"
    using OnDisconnect_effect [OF inv assms(2,4,5,6)] by blast
  let ?w2 = "DeleteDeviceClient a w1"
  from w1 obtain w' where run: "run_job (MessageCallback (Reporter E)) (jobClose a owner) w = Some w'"
    and w': "m_mapDevice w' = m_mapDevice ?w2" "mUser w' = mUser ?w2" "mDevice w' = mDevice ?w2"
      "tcp w' = drop_link (tcpGetAddressKey (bus_at ?w2 a))
        (RemoveHostAddress (GetKey (ha_ip (ba_host (bus_at ?w2 a))) (ha_port (ba_host (bus_at ?w2 a)))) False (tcp ?w2))"
    by (simp add: run_close [OF assms(3)] Let_def on_tcp_def)
  have bus: "bus_at ?w2 a = bus_at w a" "m_mapTcpLink (tcp ?w2) = m_mapTcpLink (tcp w)"
    using keeps_dev_bus [OF k] keeps_dev_link [OF k] by (simp_all add: DeleteDeviceClient_def Let_def bus_at_def link_part_def)
  have "om_find k (m_mapTcpLink (tcp w')) = (if k = tcpGetAddressKey (bus_at w a) then None else om_find k (m_mapTcpLink (tcp w)))" for k
    by (simp add: w'(4) find_dropped bus frame_simps)
  moreover have "om_find k (m_mapDevice w') = None \<longleftrightarrow> k = key \<or> om_find k (m_mapDevice w) = None" for k
    using keeps_dev_find [OF k, of k]
    by (cases "om_find k (m_mapDevice w)") (auto simp: w'(1) DeleteDeviceClient_def Let_def key om_lookup keeps_dev_bus [OF k])
  moreover have "mUser w' = mUser w1" "mDevice w' = mDevice w1" by (simp_all add: w'(2,3) DeleteDeviceClient_def Let_def)
  moreover have "owner \<noteq> 0" using assms(3) by (auto simp: serves_def)
  ultimately show ?thesis
    using tables reporter.link.closed_is_unreachable [OF run \<open>owner \<noteq> 0\<close>] job_inv [OF run assms(1)]
    by (intro exI [of _ w'] conjI run) simp_all
qed

definition bob_online :: "bytes list app" where
  "bob_online = upd_device ''10.0.0.1-5000'' (\<lambda>d. d\<lparr>m_isLogined := True, m_loginType := TYPE_USER, m_uuid := ''bob''\<rparr>)
     (sample_app [(5, ''eve''), (7, ''bob'')] [])"

lemma bob_online_inv: "server_inv bob_online"
proof -
  let ?w = "sample_app [(5, ''eve''), (7, ''bob'')] []"
  have i: "server_inv ?w" by (rule sample_app_inv) (simp_all add: table_ok_def om_wf_def)
  then have "dev_inv bob_online" unfolding bob_online_def
    by (intro dev_inv_upd_device) (auto simp: server_inv_def dev_inv_def)
  moreover have "app_ok bob_online" unfolding bob_online_def
    using i by (simp add: server_inv_def app_ok_part [OF app_part_upd_device])
  ultimately show ?thesis using i by (simp add: server_inv_def bob_online_def)
qed

definition lamp_online :: "bytes list app" where
  "lamp_online = upd_device ''10.0.0.1-5000'' (\<lambda>d. d\<lparr>m_isLogined := True, m_loginType := TYPE_DEVICE, m_uuid := ''lamp''\<rparr>)
     (sample_app [(5, ''eve'')] [(7, ''lamp'')])"

lemma online_parts:
  fixes us ds :: "(ptr \<times> bytes) list" and t :: int and u :: bytes
  defines "v \<equiv> upd_device ''10.0.0.1-5000'' (\<lambda>d. d\<lparr>m_isLogined := True, m_loginType := t, m_uuid := u\<rparr>) (sample_app us ds)"
  shows "GetDeviceClient 7 v = Some (''10.0.0.1-5000'', (CDevice_new 7)\<lparr>m_isLogined := True, m_loginType := t, m_uuid := u\<rparr>)"
    "CountByUuid u v = 1" "ui_registered v" "serves 1 v" "app_db v = empty_db []" "mUser v = us" "mDevice v = ds"
    and "table_ok us \<Longrightarrow> table_ok ds \<Longrightarrow> server_inv v"
proof -
  show "GetDeviceClient 7 v = Some (''10.0.0.1-5000'', (CDevice_new 7)\<lparr>m_isLogined := True, m_loginType := t, m_uuid := u\<rparr>)"
    using sample_device(1) sample_app_device [of us ds]
    by (simp add: v_def GetDeviceClient_def Let_def find_upd_device split: option.splits)
  show "ui_registered v" "serves 1 v" "app_db v = empty_db []" "mUser v = us" "mDevice v = ds"
    using sample_app_serves [of us ds] by (simp_all add: v_def upd_device_def serves_def)
  show "CountByUuid u v = 1" by (simp add: v_def upd_device_def CountByUuid_def) (simp add: sample_world_def)
  assume "table_ok us" "table_ok ds"
  then have i: "server_inv (sample_app us ds)" by (rule sample_app_inv)
  then have "dev_inv v" unfolding v_def by (intro dev_inv_upd_device) (auto simp: server_inv_def dev_inv_def)
  moreover have "app_ok v" using i by (simp add: v_def server_inv_def app_ok_part [OF app_part_upd_device])
  ultimately show "server_inv v" using i by (simp add: server_inv_def v_def)
qed

theorem lost_connection_is_forgotten_witness:
  "(\<exists>w'. run_job (MessageCallback (Reporter (sample_services [] []))) (jobClose 7 1) bob_online = Some w' \<and>
      om_find ''10.0.0.1-5000'' (m_mapDevice w') = None \<and> om_find 5 (mUser w') = Some ''eve'' \<and> om_find 7 (mUser w') = None) \<and>
   (\<exists>w'. run_job (MessageCallback (Reporter (sample_services [''name'', ''bind_time'', ''status''] [Some ''eve'', Some ''now'', Some ''1''])))
        (jobClose 7 1) lamp_online = Some w' \<and>
      om_find ''10.0.0.1-5000'' (m_mapDevice w') = None \<and> om_find 5 (mUser w') = Some ''eve'' \<and> om_find 7 (mDevice w') = None)"
proof
  have access: "\<exists>dw. one_update (quiet_mysql cols row) q (empty_db []) = (True, dw)" for cols row q
    using Get_empty_db [of "quiet_mysql cols row" "[]"] by (auto simp: one_update_def quiet_server split: prod.splits)
  note p = online_parts [where t = TYPE_USER and u = "''bob''" and us = "[(5, ''eve''), (7, ''bob'')]" and ds = "[]", folded bob_online_def]
  note q = online_parts [where t = TYPE_DEVICE and u = "''lamp''" and us = "[(5, ''eve'')]" and ds = "[(7, ''lamp'')]", folded lamp_online_def]
  have t: "TYPE_USER \<noteq> TYPE_DEVICE" by (simp add: TYPE_USER_def TYPE_DEVICE_def)
  obtain dw where dw: "one_update (quiet_mysql [] []) (snprintf 200 (sql_user_logout ''bob'')) (empty_db []) = (True, dw)"
    using access by blast
  show "\<exists>w'. run_job (MessageCallback (Reporter (sample_services [] []))) (jobClose 7 1) bob_online = Some w' \<and>
      om_find ''10.0.0.1-5000'' (m_mapDevice w') = None \<and> om_find 5 (mUser w') = Some ''eve'' \<and> om_find 7 (mUser w') = None"
    using lost_connection_is_forgotten [OF bob_online_inv p(3,4,1), of "sample_services [] []" True dw] dw t by (auto simp: p)
  let ?my = "quiet_mysql [''name'', ''bind_time'', ''status''] [Some ''eve'', Some ''now'', Some ''1'']"
  obtain dv where dv: "one_update ?my (snprintf 200 (sql_device_logout ''lamp'')) (empty_db []) = (True, dv)"
    using access by blast
  have r: "readable_users ?my ''lamp''"
  proof -
    have "user_of_row [''name'', ''bind_time'', ''status''] [Some ''eve'', Some ''now'', Some ''1''] \<noteq> None" by code_simp
    then show ?thesis by (auto simp: readable_users_def srv_rows_def quiet_mysql_def)
  qed
  have "server_inv lamp_online" by (rule q(8)) (simp_all add: table_ok_def om_wf_def)
  from lost_connection_is_forgotten [OF this q(3,4,1), of "sample_services [''name'', ''bind_time'', ''status'']
      [Some ''eve'', Some ''now'', Some ''1'']" True dv] dv r t
  show "\<exists>w'. run_job (MessageCallback (Reporter (sample_services [''name'', ''bind_time'', ''status''] [Some ''eve'', Some ''now'', Some ''1''])))
        (jobClose 7 1) lamp_online = Some w' \<and>
      om_find ''10.0.0.1-5000'' (m_mapDevice w') = None \<and> om_find 5 (mUser w') = Some ''eve'' \<and> om_find 7 (mDevice w') = None"
    by (auto simp: q)
qed


lemma CountByUuid_two:
  assumes "om_find k (m_mapDevice w) = Some d" "om_find k' (m_mapDevice w) = Some d'" "k \<noteq> k'" "m_uuid d' = m_uuid d"
  shows "2 \<le> CountByUuid (m_uuid d) w"
proof -
  let ?l = "filter (\<lambda>(k, x). m_uuid x = m_uuid d) (m_mapDevice w)"
  have "(k, d) \<in> set ?l" "(k', d') \<in> set ?l" using om_find_in assms by fastforce+
  then have "card {(k, d), (k', d')} \<le> card (set ?l)" by (intro card_mono) auto
  also have "\<dots> \<le> length ?l" by (rule card_length)
  finally show ?thesis using assms(3) by (simp add: CountByUuid_def)
qed

text \<open>C9: A kicked-out connection blocks the logout. When the connection of a user's device is closed while
  another connection has a device of the same id, even one that was kicked out and is no longer logged
  in, the device is removed but nobody is logged out: the table of users keeps its entry for the address
  of the closed connection, and the database hears nothing.\<close>

theorem kicked_connection_blocks_logout:
  assumes "server_inv w" "serves owner w" "GetDeviceClient a w = Some (key, d)"
    and "om_find key' (m_mapDevice w) = Some d'" "key' \<noteq> key" "m_uuid d' = m_uuid d"
  shows "\<exists>w'. run_job (MessageCallback (Reporter E)) (jobClose a owner) w = Some w' \<and> server_inv w' \<and>
    om_find key (m_mapDevice w') = None \<and> mUser w' = mUser w \<and> mDevice w' = mDevice w \<and> app_db w' = app_db w"
proof -
  have d: "om_find key (m_mapDevice w) = Some d" and key: "key = GetAddressKey (bus_at w a)"
    using assms(3) by (auto simp: GetDeviceClient_def Let_def split: option.splits)
  have "\<not> CountByUuid (m_uuid d) w < 2" using CountByUuid_two [OF d assms(4)] assms(5,6) by auto
  then have "OnDisconnect (Reporter E) a w = Some (DeleteDeviceClient a w)"
    using assms(3) by (simp add: OnDisconnect_def Let_def)
  then obtain w' where run: "run_job (MessageCallback (Reporter E)) (jobClose a owner) w = Some w'"
    and w': "m_mapDevice w' = m_mapDevice (DeleteDeviceClient a w)" "app_part w' = app_part (DeleteDeviceClient a w)"
    by (auto simp: run_close [OF assms(2)] Let_def on_tcp_def)
  have "om_find key (m_mapDevice w') = None"
    using assms(1) d by (simp add: w'(1) DeleteDeviceClient_def Let_def key om_lookup server_inv_def dev_inv_def)
  moreover have "app_part w' = app_part w" by (simp add: w'(2) DeleteDeviceClient_def Let_def)
  ultimately show ?thesis
    by (intro exI [of _ w'] conjI run job_inv [OF run assms(1)] app_part_eq)
qed

text \<open>Bob at two connections: he logged in at the first one, then at the second one, which kicked the
  first one out.\<close>

definition bob_moved :: "bytes list app" where
  "bob_moved = InsertDeviceClient 8 ((CDevice_new 8)\<lparr>m_uuid := ''bob''\<rparr>)
     (put_net ((tcp_net (tcp bob_online))\<lparr>bus_mem := (bus_mem (tcp_net (tcp bob_online)))(8 := server_address sample_ip 4000)\<rparr>)
       bob_online)"

lemma key_4000: "GetAddressKey (server_address sample_ip 4000) = ''10.0.0.1-4000''"
  by (simp add: GetAddressKey_def server_address_def c_str_sample_ip show_nat.simps digit_def char_of_def bit_Suc_0_iff)

lemma bob_moved_inv: "server_inv bob_moved"
proof -
  let ?n = "(tcp_net (tcp bob_online))\<lparr>bus_mem := (bus_mem (tcp_net (tcp bob_online)))(8 := server_address sample_ip 4000)\<rparr>"
  let ?w = "put_net ?n bob_online"
  have "fresh_address 8 bob_online"
    by (auto simp: fresh_address_def bob_online_def upd_device_def sample_world_def CDevice_new_def)
  then have "server_inv ?w"
    by (intro put_net_inv [OF bob_online_inv])
      (use bob_online_inv net_inv_cong [of ?n "tcp_net (tcp bob_online)"] in \<open>auto simp: server_inv_def\<close>)
  then show ?thesis
    unfolding bob_moved_def server_inv_def device_map_app_ok
    using reporter.dev_inv_Insert [of ?w "(CDevice_new 8)\<lparr>m_uuid := ''bob''\<rparr>" 8 CProtocolParser_new]
    by (simp add: InsertDeviceClient_def CDevice_new_parser)
qed

theorem kicked_connection_blocks_logout_witness:
  "\<exists>w'. run_job (MessageCallback (Reporter (sample_services [] []))) (jobClose 7 1) bob_moved = Some w' \<and>
     om_find ''10.0.0.1-5000'' (m_mapDevice w') = None \<and> om_find 7 (mUser w') = Some ''bob''"
proof -
  let ?d = "(CDevice_new 7)\<lparr>m_isLogined := True, m_loginType := TYPE_USER, m_uuid := ''bob''\<rparr>"
  have "bus_at bob_moved 7 = server_address sample_ip 5000" "bus_at bob_moved 8 = server_address sample_ip 4000"
    using sample_bus by (simp_all add: bob_moved_def InsertDeviceClient_def put_net_def bus_at_def bob_online_def)
  then have k: "GetAddressKey (bus_at bob_moved 7) = ''10.0.0.1-5000''" "GetAddressKey (bus_at bob_moved 8) = ''10.0.0.1-4000''"
    using sample_keys(1) key_4000 by simp_all
  have "om_find ''10.0.0.1-5000'' (m_mapDevice bob_online) = Some ?d"
    using sample_device(1) by (simp add: bob_online_def find_upd_device)
  moreover have "m_mapDevice bob_moved = om_set (GetAddressKey (bus_at bob_moved 8)) ((CDevice_new 8)\<lparr>m_uuid := ''bob''\<rparr>)
      (m_mapDevice bob_online)"
    by (simp add: bob_moved_def InsertDeviceClient_def put_net_def bus_at_def)
  ultimately have f: "om_find ''10.0.0.1-5000'' (m_mapDevice bob_moved) = Some ?d"
    "om_find ''10.0.0.1-4000'' (m_mapDevice bob_moved) = Some ((CDevice_new 8)\<lparr>m_uuid := ''bob''\<rparr>)"
    by (simp_all add: k om_find_set)
  then have d: "GetDeviceClient 7 bob_moved = Some (''10.0.0.1-5000'', ?d)"
    by (simp add: GetDeviceClient_def k)
  have "serves 1 bob_moved" "om_find 7 (mUser bob_moved) = Some ''bob''"
    using sample_app_serves [of "[(5, ''eve''), (7, ''bob'')]" "[]"]
    by (simp_all add: bob_moved_def InsertDeviceClient_def put_net_def serves_def bob_online_def upd_device_def)
  with kicked_connection_blocks_logout [OF bob_moved_inv _ d f(2), of 1 "sample_services [] []"] show ?thesis
    by fastforce
qed

lemma run_accept:
  assumes "serves owner w" "0 < heap_next (tcp w)" "bev \<noteq> 0" "ha_port (ba_host (bus_at w a)) \<noteq> 0"
    and "\<And>v. tcp_net (tcp v) = tcp_net (tcp w) \<Longrightarrow> OnConnect ui a v \<noteq> None"
  shows "\<exists>t t'. tcp_net t = tcp_net (tcp w) \<and>
    run_job (MessageCallback ui) (jobAccept bev a owner) w = map_option (\<lambda>v. v\<lparr>tcp := t'\<rparr>) (OnConnect ui a (w\<lparr>tcp := t\<rparr>))"
proof -
  obtain s where s: "om_find owner (services (tcp w)) = Some s" "has_callback s" "ts_owner s \<noteq> 0"
    using assms(1) by (auto simp: serves_def split: option.splits)
  let ?svc = "(InitServer (ts_owner s) (m_port s) (has_callback s))
     \<lparr>m_TcpServiceMode := sint (model_type (bus_at w a)), m_strIp := c_str (ha_ip (ba_host (bus_at w a)))\<rparr>"
  let ?t1 = "snd (new_service ?svc (tcp w))"
  define t where "t = snd (SetHostAddress (ba_host (bus_at w a)) bev ?t1)"
  have t: "tcp_net t = tcp_net (tcp w)" by (simp add: t_def frame_simps new_service_def)
  have svc: "om_find (heap_next (tcp w)) (services t) = Some ?svc" "has_callback ?svc" "ts_owner ?svc = ts_owner s"
    using s by (simp_all add: t_def frame_simps new_service_def om_find_set InitServer_def)
  have "OnConnect ui a (w\<lparr>tcp := t\<rparr>) \<noteq> None" using assms(5) [of "w\<lparr>tcp := t\<rparr>"] t by simp
  then obtain v where v: "OnConnect ui a (w\<lparr>tcp := t\<rparr>) = Some v" by blast
  have cb: "call_back (MessageCallback ui) (heap_next (tcp w)) MESSAGE_Connect 84 (Msg_address a) (w\<lparr>tcp := t\<rparr>) = Some v"
    using svc s(3) v by (simp add: call_back_def MessageCallback_def)
  have "bus_at (w\<lparr>tcp := ?t1\<rparr>) a = bus_at w a" by (simp add: bus_at_def new_service_def)
  moreover have "fst (SetHostAddress (ba_host (bus_at w a)) bev ?t1)" using assms(3,4) by (simp add: SetHostAddress_cases)
  ultimately have "\<exists>t'. SaveLinkAndCallBack (MessageCallback ui) a (heap_next (tcp w)) bev (w\<lparr>tcp := ?t1\<rparr>) = Some (v\<lparr>tcp := t'\<rparr>)"
    using cb by (simp add: SaveLink_eq Let_def t_def) blast
  then obtain t' where "run_job (MessageCallback ui) (jobAccept bev a owner) w = Some (v\<lparr>tcp := t'\<rparr>)"
    using s(1) assms(2) by (simp add: run_job_def OnAccept_def NotifyMessageConnect_def new_service_def Let_def) blast
  then show ?thesis using t v by (intro exI [of _ t] exI [of _ t'] conjI) simp_all
qed

lemma CDevice_new_login: "\<not> m_isLogined (CDevice_new a)"
  by (simp add: CDevice_new_def RegisteCallBack_def)

text \<open>C8: An accepted connection is served. The job of an accepted connection always ends, in a consistent
  state: the address of the connection leads to it, other addresses lead where they did before, and there
  is a device for it. If there was none under its address and port, it is a new one with an empty parse buffer
  that is not logged in; if there was one, which happens when the close of an earlier connection from there has not
  run yet, it is that one, with its login. No other device and no table of users changes.\<close>

theorem accepted_connection_is_served:
  assumes "server_inv w" "serves owner w" "bev \<noteq> 0" "ha_port (ba_host (bus_at w a)) \<noteq> 0"
  shows "\<exists>w'. run_job (MessageCallback (Reporter E)) (jobAccept bev a owner) w = Some w' \<and> server_inv w' \<and>
    (\<forall>k. GetHostAddress k (tcp w') =
      (if k = GetKey_of_host (ba_host (bus_at w a)) then bev else GetHostAddress k (tcp w))) \<and>
    (\<forall>k. om_find k (m_mapDevice w') =
      (if k = GetAddressKey (bus_at w a)
       then Some (case om_find k (m_mapDevice w) of None \<Rightarrow> CDevice_new a | Some d \<Rightarrow> d)
       else om_find k (m_mapDevice w))) \<and>
    (om_find (GetAddressKey (bus_at w a)) (m_mapDevice w) = None \<longrightarrow>
      (\<exists>d. om_find (GetAddressKey (bus_at w a)) (m_mapDevice w') = Some d \<and> \<not> m_isLogined d \<and> m_DeviceAddress d = a \<and>
        m_pProtocolPaser d = Some CProtocolParser_new)) \<and>
    mUser w' = mUser w"
proof -
  have c: "OnConnect (Reporter E) a v = Some (InsertDeviceClient a (case om_find (GetAddressKey (bus_at v a)) (m_mapDevice v) of
      None \<Rightarrow> CDevice_new a | Some d \<Rightarrow> d) v)" for v
    by (simp add: OnConnect_def ShowClientConnect_def Reporter_ShowClientConnect_def GetDeviceClient_def Let_def split: option.split)
  have link: "link_inv (tcp w)" using assms(1) by (simp add: server_inv_def)
  have "\<exists>t t'. tcp_net t = tcp_net (tcp w) \<and> run_job (MessageCallback (Reporter E)) (jobAccept bev a owner) w =
      map_option (\<lambda>v. v\<lparr>tcp := t'\<rparr>) (OnConnect (Reporter E) a (w\<lparr>tcp := t\<rparr>))"
    by (rule run_accept [OF assms(2) _ assms(3,4)]) (use link in \<open>auto simp: link_inv_def c InsertDeviceClient_def\<close>)
  then obtain t t' where t: "tcp_net t = tcp_net (tcp w)"
    and run: "run_job (MessageCallback (Reporter E)) (jobAccept bev a owner) w =
      Some (InsertDeviceClient a (case om_find (GetAddressKey (bus_at w a)) (m_mapDevice w) of
        None \<Rightarrow> CDevice_new a | Some d \<Rightarrow> d) (w\<lparr>tcp := t\<rparr>)\<lparr>tcp := t'\<rparr>)"
    by (auto simp: c bus_at_def)
  show ?thesis
  proof (intro exI conjI allI, rule run, rule job_inv [OF run assms(1)],
      rule reporter.link.accepted_is_reachable [OF link run assms(3,4)])
  qed (use t in \<open>auto simp: InsertDeviceClient_def om_find_set bus_at_def CDevice_new_parser CDevice_new_login split: option.splits\<close>)
qed

definition caller_at_4000 :: "bytes list app" where
  "caller_at_4000 = put_net ((tcp_net (tcp sample_world))\<lparr>bus_mem := (bus_mem (tcp_net (tcp sample_world)))(8 := server_address sample_ip 4000)\<rparr>)
     (sample_app [(5, ''eve'')] [])"

lemma caller_at_4000_inv: "server_inv caller_at_4000"
proof -
  let ?n = "(tcp_net (tcp sample_world))\<lparr>bus_mem := (bus_mem (tcp_net (tcp sample_world)))(8 := server_address sample_ip 4000)\<rparr>"
  have i: "server_inv (sample_app [(5, ''eve'')] [])" by (rule sample_app_inv) (simp_all add: table_ok_def om_wf_def)
  have "fresh_address 8 (sample_app [(5, ''eve'')] [])"
    by (auto simp: fresh_address_def sample_world_def CDevice_new_def)
  then show ?thesis
    unfolding caller_at_4000_def
    by (intro put_net_inv [OF i]) (use i net_inv_cong [of ?n "tcp_net (tcp sample_world)"] in \<open>auto simp: server_inv_def\<close>)
qed

theorem accepted_connection_is_served_witness:
  "\<exists>w' d. run_job (MessageCallback (Reporter (sample_services [] []))) (jobAccept 13 8 1) caller_at_4000 = Some w' \<and>
     GetHostAddress ''10.0.0.1:4000'' (tcp w') = 13 \<and> mUser w' = [(5, ''eve'')] \<and>
     om_find ''10.0.0.1-4000'' (m_mapDevice caller_at_4000) = None \<and>
     om_find ''10.0.0.1-4000'' (m_mapDevice w') = Some d \<and> \<not> m_isLogined d \<and> m_DeviceAddress d = 8"
proof -
  have b: "bus_at caller_at_4000 8 = server_address sample_ip 4000"
    by (simp add: caller_at_4000_def put_net_def bus_at_def)
  have s: "serves 1 caller_at_4000" using sample_app_serves [of "[(5, ''eve'')]" "[]"]
    by (simp add: caller_at_4000_def put_net_def serves_def)
  have m: "m_mapDevice caller_at_4000 = m_mapDevice sample_world" "mUser caller_at_4000 = [(5, ''eve'')]"
    by (simp_all add: caller_at_4000_def put_net_def)
  have n: "om_find ''10.0.0.1-4000'' (m_mapDevice sample_world) = None" by (simp add: sample_world_def)
  have k: "GetKey sample_ip 4000 = ''10.0.0.1:4000''"
    by (simp add: GetKey_def RemoveComma_def c_str_sample_ip show_nat.simps digit_def char_of_def bit_Suc_0_iff)
  have "(13::ptr) \<noteq> 0" "ha_port (ba_host (bus_at caller_at_4000 8)) \<noteq> 0" by (simp_all add: b server_address_def)
  from accepted_connection_is_served [OF caller_at_4000_inv s this, of "sample_services [] []"]
  show ?thesis using k n by (simp add: b m key_4000) (auto simp: server_address_def GetKey_of_host_def)
qed


text \<open>C3: Consistent in every state. Whatever a server that came up has gone through, connections, bytes,
  events, timer ticks and jobs in any order: every connection and every user has at most one entry in the
  table of users, likewise devices; every device in the device map stands under the key of its address
  and has a working parse buffer; an address leads to a connection only under its own key; heartbeat
  counters stay between 0 and 4 and belong to open connections; the listening service exists; the
  connections of the database pool are usable.\<close>

theorem server_states_are_consistent:
  assumes "reachable E w"
  shows "distinct (map fst (mUser w)) \<and> distinct (map snd (mUser w)) \<and>
    distinct (map fst (mDevice w)) \<and> distinct (map snd (mDevice w)) \<and>
    (\<forall>k d. om_find k (m_mapDevice w) = Some d \<longrightarrow>
      k = GetAddressKey (bus_at w (m_DeviceAddress d)) \<and> (\<exists>b. m_pProtocolPaser d = Some b \<and> sb_wf b)) \<and>
    (\<forall>k h. om_find k (m_mapHostAddress (tcp w)) = Some h \<longrightarrow> CHostAddress_IsValid h \<and> CHostAddress_GetKey h = k) \<and>
    (\<forall>i bev c. i < length (ServrSocketList (tcp_net (tcp w))) \<longrightarrow>
      om_find bev (mCounter (servr (tcp_net (tcp w)) i)) = Some c \<longrightarrow>
      0 \<le> c \<and> c \<le> 4 \<and> om_find bev (bufMap (servr (tcp_net (tcp w)) i)) \<noteq> None) \<and>
    om_find (srv_owner (tcp_net (tcp w))) (services (tcp w)) \<noteq> None \<and>
    (\<forall>k c. om_find k (m_mapConnection (app_db w)) = Some c \<longrightarrow> 0 < k \<and> usable k (app_db w))"
proof -
  have i: "net_inv (tcp_net (tcp w))" "link_inv (tcp w)" "dev_inv w" "app_ok w"
    using reachable_inv [OF assms] by (simp_all add: server_inv_def)
  have "om_find bev (bufMap (servr (tcp_net (tcp w)) j)) \<noteq> None \<and> 0 \<le> c \<and> c \<le> 4"
    if "j < length (ServrSocketList (tcp_net (tcp w)))" "om_find bev (mCounter (servr (tcp_net (tcp w)) j)) = Some c" for j bev c
    using net_inv_servr [OF i(1) that(1)] that(2) om.in_keys [of bev "mCounter (servr (tcp_net (tcp w)) j)"]
      om.in_keys [of bev "bufMap (servr (tcp_net (tcp w)) j)"] by (auto simp: servr_inv_def)
  then show ?thesis
    using i by (auto simp: app_ok_def table_ok_def om_wf_distinct link_inv_def dev_inv_def db_inv_def)
qed

definition sample_boot :: "bytes list app \<Rightarrow> (bool \<times> bytes list app) option" where
  "sample_boot w = do {
     (r, db) \<leftarrow> DbaModule_Initialize (quiet_mysql [] []) (Some ''localhost'') (Some ''wis'') (Some ''wis'') (Some ''wis'') (app_db w);
     if r = - 1 then None
     else unite_StartTcpServer (replicate 50 NUL) 0 1 7788 (snd (RegistInterfacRecObject False (w\<lparr>app_db := db\<rparr>)))
   }"

lemma comes_up: "map_option fst (main_start sample_platform (sample_services [] []) (replicate 50 NUL) 0 1 8 []) = Some True"
proof -
  obtain n where n: "CommonTCPManager_new = Some n" by (simp add: CommonTCPManager_new_def CThreadPool_new_def)
  have "Option.bind CommonTCPManager_new (\<lambda>n. sample_boot (app_before 8 [] n)) \<noteq> None" by code_simp
  then obtain r db x where
    db: "DbaModule_Initialize (quiet_mysql [] []) (Some ''localhost'') (Some ''wis'') (Some ''wis'') (Some ''wis'')
      (app_db (app_before 8 [] n)) = Some (r, db)" "r \<noteq> - 1"
    "unite_StartTcpServer (replicate 50 NUL) 0 1 7788 (snd (RegistInterfacRecObject False ((app_before 8 [] n)\<lparr>app_db := db\<rparr>))) = Some x"
    by (auto simp: n sample_boot_def split: bind_splits if_splits)
  obtain u c where s: "StartModule sample_platform (quiet_mysql [] []) CUniteDataModule_new (app_db (app_before 8 [] n)) =
      Some (True, u, db)" "GetConfigXml u = Some c"
    using sample_StartModule [OF db(1)] db(2) by auto
  show ?thesis
    unfolding main_start_def Let_def case_prod_beta by (simp add: n s db(3) [simplified])
qed

theorem server_states_are_consistent_witness:
  "\<exists>E (w :: bytes list app). reachable (E :: (bytes list, bytes) services) w \<and> distinct (map snd (mUser w)) \<and>
     om_find (srv_owner (tcp_net (tcp w))) (services (tcp w)) \<noteq> None"
proof -
  obtain E w where "main_start sample_platform (sample_services [] []) (replicate 50 NUL) 0 1 8 [] = Some (True, E, w)"
    using comes_up by auto
  then have r: "reachable E w" unfolding reachable_def using run_refl by blast
  show ?thesis using server_states_are_consistent [OF r] r by blast
qed

end
