(* ===== verification/Des3.thy ===== *)
theory Des3
  imports Smart_Buffer
begin

text \<open>
  Triple DES of the program (encrypt). The cipher is a parameter: the key schedule of eight bytes, one
  block in ECB mode, one block in CBC mode with the vector for the next one. A buffer is the memory from
  its pointer on; \<open>None\<close> is an access outside of it. Nothing in the program calls these functions.
\<close>

section \<open>State and library\<close>

record 'k des_lib =
  DES_set_key :: "bytes \<Rightarrow> 'k"
  DES_ecb3 :: "'k \<times> 'k \<times> 'k \<Rightarrow> bool \<Rightarrow> bytes \<Rightarrow> bytes"
  DES_ede3_cbc :: "'k \<times> 'k \<times> 'k \<Rightarrow> bool \<Rightarrow> bytes \<Rightarrow> bytes \<Rightarrow> bytes \<times> bytes"

text \<open>The static members of \<open>DES3\<close>; \<open>des_key\<close> and \<open>des_iv\<close> mean something once \<open>isInit\<close> is set.\<close>

record 'k des3 =
  des_keys :: "'k \<times> 'k \<times> 'k"
  des_iv :: bytes
  isInit :: bool

definition default_key :: bytes where "default_key = ''00000000''"
definition ivsetup :: bytes where "ivsetup = replicate 8 NUL"

definition default_keys :: "'k des_lib \<Rightarrow> 'k \<times> 'k \<times> 'k" where
  "default_keys L = (DES_set_key L default_key, DES_set_key L default_key, DES_set_key L default_key)"

definition DES3_SetKey :: "'k des_lib \<Rightarrow> bytes \<Rightarrow> bytes \<Rightarrow> bytes \<Rightarrow> bytes \<Rightarrow> 'k des3 \<Rightarrow> 'k des3 option" where
  "DES3_SetKey L k1 k2 k3 iv s = do {
     b1 \<leftarrow> rd_bytes k1 0 8;
     b2 \<leftarrow> rd_bytes k2 0 8;
     b3 \<leftarrow> rd_bytes k3 0 8;
     v \<leftarrow> rd_bytes iv 0 8;
     Some (s\<lparr>des_keys := (DES_set_key L b1, DES_set_key L b2, DES_set_key L b3), des_iv := v, isInit := True\<rparr>)
   }"

section \<open>Blocks\<close>

text \<open>One block: before \<open>SetKey\<close>, the default keys and, in CBC mode, a fresh vector each time.\<close>

definition ecb_block :: "'k des_lib \<Rightarrow> bool \<Rightarrow> bytes \<Rightarrow> 'k des3 \<Rightarrow> bytes \<times> 'k des3" where
  "ecb_block L enc b s = (DES_ecb3 L (if isInit s then des_keys s else default_keys L) enc b, s)"

definition cbc_block :: "'k des_lib \<Rightarrow> bool \<Rightarrow> bytes \<Rightarrow> 'k des3 \<Rightarrow> bytes \<times> 'k des3" where
  "cbc_block L enc b s =
     (if isInit s then (case DES_ede3_cbc L (des_keys s) enc (des_iv s) b of (x, iv) \<Rightarrow> (x, s\<lparr>des_iv := iv\<rparr>))
      else (fst (DES_ede3_cbc L (default_keys L) enc ivsetup b), s))"

fun crypt_blocks :: "(bytes \<Rightarrow> 's \<Rightarrow> bytes \<times> 's) \<Rightarrow> nat list \<Rightarrow> bytes \<Rightarrow> bytes \<Rightarrow> 's \<Rightarrow> (bytes \<times> 's) option" where
  "crypt_blocks f [] src out s = Some (out, s)"
| "crypt_blocks f (i # is) src out s = do {
     b \<leftarrow> rd_bytes src i 8;
     let (x, s') = f b s;
     out' \<leftarrow> blit out i x;
     crypt_blocks f is src out' s'
   }"

definition block_starts :: "int \<Rightarrow> nat list" where
  "block_starts len = map (\<lambda>i. 8 * i) [0..<(nat len + 7) div 8]"

section \<open>Encoding and decoding\<close>

text \<open>The result is the output buffer and the length put into \<open>*outLen\<close>. \<open>tmp\<close> comes from
  \<open>new char(len)\<close>: one byte, with the value \<open>len\<close>.\<close>

definition padded_len :: "int \<Rightarrow> int" where
  "padded_len inLen = (inLen div 8 + (if inLen mod 8 \<noteq> 0 then 1 else 0)) * 8"

definition padded_copy :: "bytes \<Rightarrow> int \<Rightarrow> bytes option" where
  "padded_copy inp inLen =
     (if inLen < 0 then None
      else do {
        let len = padded_len inLen;
        let tmp = [char_of (nat (len mod 256))];
        x \<leftarrow> rd_bytes inp 0 (nat inLen);
        tmp1 \<leftarrow> blit tmp 0 x;
        blit tmp1 (nat inLen) (replicate (nat (len - inLen)) (char_of (nat (8 - inLen mod 8))))
      })"

definition DES3_Encode ::
  "(bytes \<Rightarrow> 'k des3 \<Rightarrow> bytes \<times> 'k des3) \<Rightarrow> bytes \<Rightarrow> int \<Rightarrow> bytes \<Rightarrow> 'k des3 \<Rightarrow> (bytes \<times> int \<times> 'k des3) option" where
  "DES3_Encode f inp inLen out s = do {
     tmp \<leftarrow> padded_copy inp inLen;
     (out', s') \<leftarrow> crypt_blocks f (block_starts (padded_len inLen)) tmp out s;
     Some (out', padded_len inLen, s')
   }"

definition DES3_EncodeCBC :: "'k des_lib \<Rightarrow> bytes \<Rightarrow> int \<Rightarrow> bytes \<Rightarrow> 'k des3 \<Rightarrow> (bytes \<times> int \<times> 'k des3) option" where
  "DES3_EncodeCBC L = DES3_Encode (cbc_block L True)"

definition DES3_EncodeEBC :: "'k des_lib \<Rightarrow> bytes \<Rightarrow> int \<Rightarrow> bytes \<Rightarrow> 'k des3 \<Rightarrow> (bytes \<times> int \<times> 'k des3) option" where
  "DES3_EncodeEBC L = DES3_Encode (ecb_block L True)"

text \<open>Decoding: \<open>Inl ()\<close> is the result \<open>false\<close>, when the length is not a multiple of eight.\<close>

definition DES3_Decode ::
  "(bytes \<Rightarrow> 'k des3 \<Rightarrow> bytes \<times> 'k des3) \<Rightarrow> bytes \<Rightarrow> int \<Rightarrow> bytes \<Rightarrow> 'k des3 \<Rightarrow> (unit + bytes \<times> int \<times> 'k des3) option" where
  "DES3_Decode f inp inLen out s =
     (if inLen mod 8 \<noteq> 0 then Some (Inl ())
      else do {
        (out', s') \<leftarrow> crypt_blocks f (block_starts inLen) inp out s;
        Some (Inr (out', inLen, s'))
      })"

definition DES3_DecodeEBC :: "'k des_lib \<Rightarrow> bytes \<Rightarrow> int \<Rightarrow> bytes \<Rightarrow> 'k des3 \<Rightarrow> (unit + bytes \<times> int \<times> 'k des3) option" where
  "DES3_DecodeEBC L = DES3_Decode (ecb_block L False)"

definition DES3_DecodeCBC :: "'k des_lib \<Rightarrow> bytes \<Rightarrow> int \<Rightarrow> bytes \<Rightarrow> 'k des3 \<Rightarrow> (unit + bytes \<times> int \<times> 'k des3) option" where
  "DES3_DecodeCBC L = DES3_Decode (cbc_block L False)"

section \<open>What they do\<close>

text \<open>Encoding anything but the empty message writes behind the one byte of \<open>tmp\<close>.\<close>

lemma padded_copy_overruns: "inLen \<noteq> 0 \<Longrightarrow> padded_copy inp inLen = None"
proof -
  assume n: "inLen \<noteq> 0"
  have p: "0 \<le> inLen \<Longrightarrow> 1 < padded_len inLen \<and> inLen \<le> padded_len inLen"
    using n by (auto simp: padded_len_def)
  show ?thesis
  proof (cases "0 \<le> inLen")
    case True
    with p have "\<not> nat inLen + nat (padded_len inLen - inLen) \<le> 1" by linarith
    then show ?thesis by (auto simp: padded_copy_def blit_def rd_bytes_def Let_def split: if_splits)
  qed (simp add: padded_copy_def)
qed

lemma encode_needs_empty:
  "DES3_EncodeCBC L inp inLen out s \<noteq> None \<longleftrightarrow> inLen = 0"
  "DES3_EncodeEBC L inp inLen out s \<noteq> None \<longleftrightarrow> inLen = 0"
proof -
  have "DES3_Encode f inp inLen out s \<noteq> None \<longleftrightarrow> inLen = 0" for f
  proof (cases "inLen = 0")
    case True
    then show ?thesis
      by (simp add: DES3_Encode_def padded_copy_def padded_len_def block_starts_def rd_bytes_def blit_def Let_def)
  qed (simp add: DES3_Encode_def padded_copy_overruns)
  then show "DES3_EncodeCBC L inp inLen out s \<noteq> None \<longleftrightarrow> inLen = 0"
    "DES3_EncodeEBC L inp inLen out s \<noteq> None \<longleftrightarrow> inLen = 0"
    by (simp_all add: DES3_EncodeCBC_def DES3_EncodeEBC_def)
qed

text \<open>Before \<open>SetKey\<close>, CBC mode decodes each block for itself: no block depends on the one before.\<close>

lemma cbc_without_chaining:
  "\<not> isInit s \<Longrightarrow> cbc_block L enc b s = (fst (cbc_block L enc b s), s)"
  by (simp add: cbc_block_def)

text \<open>A length that is not a multiple of the block size is refused, with no output.\<close>

lemma decode_refuses: "inLen mod 8 \<noteq> 0 \<Longrightarrow> DES3_DecodeCBC L inp inLen out s = Some (Inl ())"
  "inLen mod 8 \<noteq> 0 \<Longrightarrow> DES3_DecodeEBC L inp inLen out s = Some (Inl ())"
  by (simp_all add: DES3_DecodeCBC_def DES3_DecodeEBC_def DES3_Decode_def)

end
