(* ===== verification/Xml_Errors.thy ===== *)
theory Xml_Errors
  imports Xml_Roundtrip
begin

text \<open>
  Texts on which the loader leaves defined behaviour or does not return.
\<close>

lemma stamp_ok:
  assumes "lead_free st"
  shows "\<exists>st'. stamp_at enc s st = Inr st' \<and> quiet st st'"
  using Stamp_total [of "snd st" enc s] assms by (auto simp: stamp_at_def quiet_def lead_free_def)

lemma read_kept_open:
  assumes "list_all plain v" "q \<in> {CHR 0x22, CHR 0x27}"
  shows "read_kept enc [q] False (enc_text v) acc = Inr (At [], acc @ v)"
  using assms(1)
proof (induction v arbitrary: acc)
  case (Cons c v)
  have c: "plain c" using Cons.prems by simp
  have "\<not> StringEqual False [q] (enc_char c @ enc_text v)"
    using enc_char_head(3) [OF c] assms(2) by (auto dest: StringEqual_head)
  with enc_char_head [OF c] GetChar_enc_char [OF c] Cons show ?case
    by (subst read_kept.simps) simp
qed (subst read_kept.simps, simp)

lemma Attribute_Parse_open:
  assumes "name_ok n" "list_all plain v" "lead_free st"
  shows "\<exists>st'. Attribute_Parse document enc (At (n @ ''='' @ CHR 0x22 # enc_text v)) st = Inr ((Beyond, n, v), st')"
proof -
  obtain c m where n: "n = c # m" "\<not> IsWhiteSpace c" "c \<noteq> NUL" "c \<noteq> TIXML_UTF_LEAD_0"
    by (rule name_head [OF assms(1)]) (rule that, assumption+)
  let ?u = "CHR ''='' # CHR 0x22 # enc_text v"
  have ws: "SkipWhiteSpace enc (At (n @ ?u)) = At (n @ ?u)" using n SkipWhiteSpace_none by simp
  have eq: "SkipWhiteSpace enc (At ?u) = At ?u" "SkipWhiteSpace enc (At (drop 1 ?u)) = At (drop 1 ?u)"
    by (simp_all add: SkipWhiteSpace_none IsWhiteSpace_def is_space_def TIXML_UTF_LEAD_0_def)
  have name: "ReadName (n @ ?u) = Some (n, ?u)"
    by (rule ReadName_name [OF assms(1)]) (simp add: name_char_def IsAlphaNum_def isalpha_def isdigit_def)
  obtain st' where st: "stamp_at enc (n @ ?u) st = Inr st'" using stamp_ok [OF assms(3)] by blast
  have "ReadText enc False [CHR 0x22] False (At (enc_text v)) = Inr (Beyond, v)"
    using read_kept_open [OF assms(2), of "CHR 0x22" enc "[]"] by (simp add: ReadText_def ReadText_loop_def adv_def)
  then show ?thesis
    using ws eq name n st by (simp add: Attribute_Parse_def Attribute_value_def at_deadline_def)
qed

text \<open>C39: An attribute value without its closing quote at the end of the text makes the parser read a byte behind the
  text, which nothing has written: what such a file does is undefined.\<close>

theorem unterminated_value_overreads:
  assumes "name_ok n" "name_ok a" "list_all plain v"
  shows "LoadFile_data (''<'' @ n @ '' '' @ a @ ''='' @ [CHR 0x22] @ enc_text v) TIXML_ENCODING_UNKNOWN d = Inl Undefined"
proof -
  let ?q = "a @ ''='' @ CHR 0x22 # enc_text v"
  let ?u = "CHR '' '' # ?q"
  define s where "s = CHR ''<'' # n @ ?u"
  define st where "st = new_data s (d\<lparr>doc_children := []\<rparr>)"
  define fuel where "fuel = length s"
  let ?enc = TIXML_ENCODING_UNKNOWN
  obtain c m where n: "n = c # m" "\<not> IsWhiteSpace c" "c \<noteq> NUL" "c \<noteq> TIXML_UTF_LEAD_0"
    by (rule name_head [OF assms(1)]) (rule that, assumption+)
  obtain c' m' where a: "a = c' # m'" "\<not> IsWhiteSpace c'" "c' \<noteq> NUL" "c' \<noteq> TIXML_UTF_LEAD_0"
    "c' \<notin> {CHR ''='', CHR ''>'', CHR ''/'', CHR ''<'', CHR ''&'', CHR 0x22, CHR 0x27}"
    by (rule name_head [OF assms(2)]) (rule that, assumption+)
  have "TIXML_UTF_LEAD_0 \<notin> set n" "TIXML_UTF_LEAD_0 \<notin> set a"
    using assms(1,2) by (auto simp: name_ok_def list_all_iff)
  then have free: "lead_free st"
    using enc_text_no_NUL [OF assms(3)] by (simp add: st_def s_def new_data_def lead_free_def TIXML_UTF_LEAD_0_def)
  obtain st1 where st1: "stamp_at ?enc s st = Inr st1" "quiet st st1" using stamp_ok [OF free] by blast
  obtain st2 where st2: "Attribute_Parse True ?enc (At ?q) st1 = Inr ((Beyond, a, v), st2)"
    using Attribute_Parse_open [OF assms(2,3) quiet_lead_free [OF st1(2)]] by blast
  have "SkipWhiteSpace ?enc (At ?u) = At ?q" using a SkipWhiteSpace_one by simp
  then have attrs: "attr_loop ?enc ?u [] st1 = Inl Undefined"
    using a st2 by (subst attr_loop.simps) simp
  have skip: "SkipWhiteSpace ?enc (At s) = At s" "SkipWhiteSpace ?enc (At (n @ ?u)) = At (n @ ?u)"
    using n SkipWhiteSpace_none by (simp_all add: s_def SkipWhiteSpace_open)
  have name: "ReadName (n @ ?u) = Some (n, ?u)"
    by (rule ReadName_name [OF assms(1)]) (simp add: name_char_def IsAlphaNum_def isalpha_def isdigit_def)
  have "Element_Parse (Suc fuel) ?enc (At s) st = Inl Undefined"
    using skip st1(1) name attrs by (simp add: s_def at_deadline_def)
  moreover have "Identify ?enc (At s) = Some K_ELEMENT"
    unfolding s_def by (rule Identify_element [OF assms(1)])
  ultimately have "doc_loop (Suc (Suc fuel)) ?enc (At s) [] st = Inl Undefined"
    by (simp add: s_def node_Parse_def)
  moreover have "peek s 0 = CHR ''<''" "s \<noteq> []" by (simp_all add: s_def)
  ultimately have "Document_Parse (Suc (Suc fuel)) ?enc s (d\<lparr>doc_children := []\<rparr>) = Inl Undefined"
    using skip(1) unfolding Document_Parse_def Let_def st_def new_data_def by (simp add: TIXML_UTF_LEAD_0_def)
  moreover have "Suc (Suc fuel) = length s + 2" by (simp add: fuel_def)
  ultimately have "LoadFile_data s ?enc d = Inl Undefined"
    using \<open>s \<noteq> []\<close> unfolding LoadFile_data_def Let_def by simp
  then show ?thesis by (simp add: s_def)
qed

theorem unterminated_value_overreads_witness:
  "LoadFile_data ''<a b=\"c d'' TIXML_ENCODING_UNKNOWN (TiXmlDocument_new []) = Inl Undefined"
proof -
  have "name_ok ''a''" "name_ok ''b''" "list_all plain ''c d''" by code_simp+
  moreover have "enc_text ''c d'' = ''c d''" by code_simp
  ultimately show ?thesis
    using unterminated_value_overreads [of "''a''" "''b''" "''c d''" "TiXmlDocument_new []"] by simp
qed

text \<open>A CDATA section that is cut off behind a byte EF, in a document without an encoding: looking for the position
  of the error, \<open>Stamp\<close> never gets past the EF.\<close>

lemma truncated_cdata_hangs:
  "LoadFile_data (''<?xml version=\"1.0\"?><a><![CDATA[x'' @ [TIXML_UTF_LEAD_0]) TIXML_ENCODING_UNKNOWN (TiXmlDocument_new []) =
    Inl Hangs"
  by code_simp

end
