(* ===== verification/Xml_Links.thy ===== *)
theory Xml_Links
  imports Xml_Doc
begin

text \<open>
  The pointers behind the lists of children (tinyXml/src/tinyxml.cpp, \<open>TiXmlNode\<close>): a node has a parent, a
  first and a last child, and a previous and a next sibling. The heap maps an address to its node; a
  deleted node is no longer in it. Operations are \<open>None\<close> where the code follows a null or dangling
  pointer, an \<open>assert\<close> fails or a loop does not end.

  The attributes of elements and the fields of the other node types do not take part in linking and are left
  out here; the error fields of documents, which failing insertions set, are kept by address.
\<close>

section \<open>The heap\<close>

datatype node_type = DOCUMENT_NODE | ELEMENT_NODE | COMMENT_NODE | UNKNOWN_NODE | TEXT_NODE | DECLARATION_NODE

record link_node =
  ln_type :: node_type
  ln_value :: bytes
  ln_parent :: ptr
  ln_firstChild :: ptr
  ln_lastChild :: ptr
  ln_prev :: ptr
  ln_next :: ptr

text \<open>Addresses from \<open>heap_top\<close> on have not been given out yet.\<close>

record node_heap =
  nodes :: "ptr \<rightharpoonup> link_node"
  heap_top :: ptr
  heap_errors :: "ptr \<Rightarrow> error_state"

definition put_node :: "ptr \<Rightarrow> link_node \<Rightarrow> node_heap \<Rightarrow> node_heap" where
  "put_node p n h = h\<lparr>nodes := (nodes h)(p \<mapsto> n)\<rparr>"

definition update_node :: "ptr \<Rightarrow> (link_node \<Rightarrow> link_node) \<Rightarrow> node_heap \<Rightarrow> node_heap option" where
  "update_node p f h = map_option (\<lambda>n. put_node p (f n) h) (nodes h p)"

definition free_node :: "ptr \<Rightarrow> node_heap \<Rightarrow> node_heap" where
  "free_node p h = h\<lparr>nodes := (nodes h)(p := None)\<rparr>"

definition TiXmlNode_new :: "node_type \<Rightarrow> bytes \<Rightarrow> node_heap \<Rightarrow> ptr \<times> node_heap" where
  "TiXmlNode_new ty v h =
     (heap_top h, (put_node (heap_top h) \<lparr>ln_type = ty, ln_value = v, ln_parent = 0, ln_firstChild = 0,
        ln_lastChild = 0, ln_prev = 0, ln_next = 0\<rparr> h)\<lparr>heap_top := heap_top h + 1\<rparr>)"

partial_function (option) GetDocument :: "node_heap \<Rightarrow> ptr \<Rightarrow> ptr option" where
  "GetDocument h p =
     (if p = 0 then Some 0
      else Option.bind (nodes h p) (\<lambda>n.
        if ln_type n = DOCUMENT_NODE then Some p else GetDocument h (ln_parent n)))"

text \<open>\<open>GetDocument()->SetError( TIXML_ERROR_DOCUMENT_TOP_ONLY, ... )\<close> if there is a document.\<close>

definition top_only_error :: "ptr \<Rightarrow> node_heap \<Rightarrow> node_heap option" where
  "top_only_error this h = do {
     d \<leftarrow> GetDocument h this;
     Some (if d = 0 then h
       else h\<lparr>heap_errors := (heap_errors h)(d := mark_error TIXML_ERROR_DOCUMENT_TOP_ONLY (heap_errors h d))\<rparr>)
   }"

text \<open>The loop of the destructor over the children, each of which is deleted with its own.\<close>

partial_function (option) delete_chain :: "ptr \<Rightarrow> node_heap \<Rightarrow> node_heap option" where
  "delete_chain p h =
     (if p = 0 then Some h
      else Option.bind (nodes h p) (\<lambda>n.
        Option.bind (delete_chain (ln_firstChild n) h) (\<lambda>h1. delete_chain (ln_next n) (free_node p h1))))"

definition delete_node :: "ptr \<Rightarrow> node_heap \<Rightarrow> node_heap option" where
  "delete_node p h = do {
     n \<leftarrow> nodes h p;
     h1 \<leftarrow> delete_chain (ln_firstChild n) h;
     Some (free_node p h1)
   }"

definition node_Clear :: "ptr \<Rightarrow> node_heap \<Rightarrow> node_heap option" where
  "node_Clear this h = do {
     t \<leftarrow> nodes h this;
     h1 \<leftarrow> delete_chain (ln_firstChild t) h;
     update_node this (\<lambda>t. t\<lparr>ln_firstChild := 0, ln_lastChild := 0\<rparr>) h1
   }"

section \<open>Linking\<close>

definition link_last :: "ptr \<Rightarrow> ptr \<Rightarrow> node_heap \<Rightarrow> node_heap option" where
  "link_last this node h = do {
     t \<leftarrow> nodes h this;
     h1 \<leftarrow> update_node node (\<lambda>n. n\<lparr>ln_parent := this, ln_prev := ln_lastChild t, ln_next := 0\<rparr>) h;
     h2 \<leftarrow> (if ln_lastChild t \<noteq> 0 then update_node (ln_lastChild t) (\<lambda>n. n\<lparr>ln_next := node\<rparr>) h1
            else update_node this (\<lambda>n. n\<lparr>ln_firstChild := node\<rparr>) h1);
     update_node this (\<lambda>n. n\<lparr>ln_lastChild := node\<rparr>) h2
   }"

definition LinkEndChild :: "ptr \<Rightarrow> ptr \<Rightarrow> node_heap \<Rightarrow> (ptr \<times> node_heap) option" where
  "LinkEndChild this node h = do {
     n \<leftarrow> nodes h node;
     if ln_parent n \<noteq> 0 \<and> ln_parent n \<noteq> this then None
     else do {
       d \<leftarrow> GetDocument h node;
       same \<leftarrow> (if d = 0 then Some True else map_option (\<lambda>d'. d = d') (GetDocument h this));
       if \<not> same then None
       else if ln_type n = DOCUMENT_NODE then do {
         h1 \<leftarrow> delete_node node h;
         h2 \<leftarrow> top_only_error this h1;
         Some (0, h2)
       }
       else map_option (\<lambda>h'. (node, h')) (link_last this node h)
     }
   }"

text \<open>\<open>Clone\<close>: a new node with the value, and for elements and documents with copies of the children.\<close>

definition copies_children :: "node_type \<Rightarrow> bool" where
  "copies_children ty \<longleftrightarrow> ty = ELEMENT_NODE \<or> ty = DOCUMENT_NODE"

partial_function (option) clone_chain :: "ptr \<Rightarrow> ptr \<Rightarrow> node_heap \<Rightarrow> node_heap option" where
  "clone_chain p target h =
     (if p = 0 then Some h
      else Option.bind (nodes h p) (\<lambda>n.
        let (c, h1) = TiXmlNode_new (ln_type n) (ln_value n) h in
        Option.bind (if copies_children (ln_type n) then clone_chain (ln_firstChild n) c h1 else Some h1) (\<lambda>h2.
          Option.bind (LinkEndChild target c h2) (\<lambda>(x, h3). clone_chain (ln_next n) target h3))))"

definition node_Clone :: "ptr \<Rightarrow> node_heap \<Rightarrow> (ptr \<times> node_heap) option" where
  "node_Clone p h = do {
     n \<leftarrow> nodes h p;
     let (c, h1) = TiXmlNode_new (ln_type n) (ln_value n) h;
     h2 \<leftarrow> (if copies_children (ln_type n) then clone_chain (ln_firstChild n) c h1 else Some h1);
     Some (c, h2)
   }"

definition InsertEndChild :: "ptr \<Rightarrow> ptr \<Rightarrow> node_heap \<Rightarrow> (ptr \<times> node_heap) option" where
  "InsertEndChild this addThis h = do {
     a \<leftarrow> nodes h addThis;
     if ln_type a = DOCUMENT_NODE then map_option (\<lambda>h'. (0, h')) (top_only_error this h)
     else do {
       (node, h1) \<leftarrow> node_Clone addThis h;
       LinkEndChild this node h1
     }
   }"

definition link_before :: "ptr \<Rightarrow> ptr \<Rightarrow> ptr \<Rightarrow> node_heap \<Rightarrow> node_heap option" where
  "link_before this beforeThis node h = do {
     b \<leftarrow> nodes h beforeThis;
     h1 \<leftarrow> update_node node (\<lambda>n. n\<lparr>ln_parent := this, ln_next := beforeThis, ln_prev := ln_prev b\<rparr>) h;
     h2 \<leftarrow> (if ln_prev b \<noteq> 0 then update_node (ln_prev b) (\<lambda>n. n\<lparr>ln_next := node\<rparr>) h1
            else do {
              t \<leftarrow> nodes h1 this;
              if ln_firstChild t \<noteq> beforeThis then None
              else update_node this (\<lambda>t. t\<lparr>ln_firstChild := node\<rparr>) h1
            });
     update_node beforeThis (\<lambda>b. b\<lparr>ln_prev := node\<rparr>) h2
   }"

definition link_after :: "ptr \<Rightarrow> ptr \<Rightarrow> ptr \<Rightarrow> node_heap \<Rightarrow> node_heap option" where
  "link_after this afterThis node h = do {
     a \<leftarrow> nodes h afterThis;
     h1 \<leftarrow> update_node node (\<lambda>n. n\<lparr>ln_parent := this, ln_prev := afterThis, ln_next := ln_next a\<rparr>) h;
     h2 \<leftarrow> (if ln_next a \<noteq> 0 then update_node (ln_next a) (\<lambda>n. n\<lparr>ln_prev := node\<rparr>) h1
            else do {
              t \<leftarrow> nodes h1 this;
              if ln_lastChild t \<noteq> afterThis then None
              else update_node this (\<lambda>t. t\<lparr>ln_lastChild := node\<rparr>) h1
            });
     update_node afterThis (\<lambda>a. a\<lparr>ln_next := node\<rparr>) h2
   }"

text \<open>What \<open>InsertBeforeChild\<close> and \<open>InsertAfterChild\<close> share: the tests and the copy.\<close>

definition insert_at :: "(ptr \<Rightarrow> ptr \<Rightarrow> ptr \<Rightarrow> node_heap \<Rightarrow> node_heap option) \<Rightarrow>
    ptr \<Rightarrow> ptr \<Rightarrow> ptr \<Rightarrow> node_heap \<Rightarrow> (ptr \<times> node_heap) option" where
  "insert_at link this place addThis h =
     (if place = 0 then Some (0, h)
      else do {
        b \<leftarrow> nodes h place;
        if ln_parent b \<noteq> this then Some (0, h)
        else do {
          a \<leftarrow> nodes h addThis;
          if ln_type a = DOCUMENT_NODE then map_option (\<lambda>h'. (0, h')) (top_only_error this h)
          else do {
            (node, h1) \<leftarrow> node_Clone addThis h;
            h2 \<leftarrow> link this place node h1;
            Some (node, h2)
          }
        }
      })"

definition InsertBeforeChild :: "ptr \<Rightarrow> ptr \<Rightarrow> ptr \<Rightarrow> node_heap \<Rightarrow> (ptr \<times> node_heap) option" where
  "InsertBeforeChild = insert_at link_before"

definition InsertAfterChild :: "ptr \<Rightarrow> ptr \<Rightarrow> ptr \<Rightarrow> node_heap \<Rightarrow> (ptr \<times> node_heap) option" where
  "InsertAfterChild = insert_at link_after"

text \<open>The neighbours of \<open>x\<close> are linked past it, or to \<open>before\<close> and \<open>after\<close> in its place.\<close>

definition bridge :: "ptr \<Rightarrow> ptr \<Rightarrow> ptr \<Rightarrow> ptr \<Rightarrow> node_heap \<Rightarrow> node_heap option" where
  "bridge this x to_next to_prev h = do {
     n \<leftarrow> nodes h x;
     h1 \<leftarrow> (if ln_next n \<noteq> 0 then update_node (ln_next n) (\<lambda>m. m\<lparr>ln_prev := to_prev\<rparr>) h
            else update_node this (\<lambda>t. t\<lparr>ln_lastChild := to_prev\<rparr>) h);
     if ln_prev n \<noteq> 0 then update_node (ln_prev n) (\<lambda>m. m\<lparr>ln_next := to_next\<rparr>) h1
     else update_node this (\<lambda>t. t\<lparr>ln_firstChild := to_next\<rparr>) h1
   }"

definition RemoveChild :: "ptr \<Rightarrow> ptr \<Rightarrow> node_heap \<Rightarrow> (bool \<times> node_heap) option" where
  "RemoveChild this removeThis h = do {
     r \<leftarrow> nodes h removeThis;
     if ln_parent r \<noteq> this then None
     else do {
       h1 \<leftarrow> bridge this removeThis (ln_next r) (ln_prev r) h;
       h2 \<leftarrow> delete_node removeThis h1;
       Some (True, h2)
     }
   }"

definition ReplaceChild :: "ptr \<Rightarrow> ptr \<Rightarrow> ptr \<Rightarrow> node_heap \<Rightarrow> (ptr \<times> node_heap) option" where
  "ReplaceChild this replaceThis withThis h = do {
     r \<leftarrow> nodes h replaceThis;
     if ln_parent r \<noteq> this then Some (0, h)
     else do {
       (node, h1) \<leftarrow> node_Clone withThis h;
       h2 \<leftarrow> update_node node (\<lambda>n. n\<lparr>ln_next := ln_next r, ln_prev := ln_prev r\<rparr>) h1;
       h3 \<leftarrow> bridge this replaceThis node node h2;
       h4 \<leftarrow> delete_node replaceThis h3;
       h5 \<leftarrow> update_node node (\<lambda>n. n\<lparr>ln_parent := this\<rparr>) h4;
       Some (node, h5)
     }
   }"

section \<open>Walking\<close>

text \<open>From a sibling on, the first one with the value; \<open>step\<close> is \<open>ln_next\<close> or \<open>ln_prev\<close>.\<close>

partial_function (option) find_sibling :: "(link_node \<Rightarrow> ptr) \<Rightarrow> bytes \<Rightarrow> node_heap \<Rightarrow> ptr \<Rightarrow> ptr option" where
  "find_sibling step v h p =
     (if p = 0 then Some 0
      else Option.bind (nodes h p) (\<lambda>n. if c_str (ln_value n) = c_str v then Some p else find_sibling step v h (step n)))"

definition node_FirstChild :: "bytes \<Rightarrow> ptr \<Rightarrow> node_heap \<Rightarrow> ptr option" where
  "node_FirstChild v this h =
     (if c_str v = [] then Some 0 else Option.bind (nodes h this) (\<lambda>t. find_sibling ln_next v h (ln_firstChild t)))"

definition node_LastChild :: "bytes \<Rightarrow> ptr \<Rightarrow> node_heap \<Rightarrow> ptr option" where
  "node_LastChild v this h =
     (if c_str v = [] then Some 0 else Option.bind (nodes h this) (\<lambda>t. find_sibling ln_prev v h (ln_lastChild t)))"

definition NextSibling :: "bytes \<Rightarrow> ptr \<Rightarrow> node_heap \<Rightarrow> ptr option" where
  "NextSibling v this h =
     (if c_str v = [] then Some 0 else Option.bind (nodes h this) (\<lambda>t. find_sibling ln_next v h (ln_next t)))"

definition PreviousSibling :: "bytes \<Rightarrow> ptr \<Rightarrow> node_heap \<Rightarrow> ptr option" where
  "PreviousSibling v this h =
     (if c_str v = [] then Some 0 else Option.bind (nodes h this) (\<lambda>t. find_sibling ln_prev v h (ln_prev t)))"

definition IterateChildren :: "ptr \<Rightarrow> ptr \<Rightarrow> node_heap \<Rightarrow> ptr option" where
  "IterateChildren this previous h =
     (if previous = 0 then map_option ln_firstChild (nodes h this)
      else Option.bind (nodes h previous) (\<lambda>p. if ln_parent p \<noteq> this then None else Some (ln_next p)))"

definition IterateChildren_value :: "bytes \<Rightarrow> ptr \<Rightarrow> ptr \<Rightarrow> node_heap \<Rightarrow> ptr option" where
  "IterateChildren_value v this previous h =
     (if previous = 0 then node_FirstChild v this h
      else Option.bind (nodes h previous) (\<lambda>p. if ln_parent p \<noteq> this then None else NextSibling v previous h))"

section \<open>Trees in the heap\<close>

datatype ltree = Node (addr: ptr) (lt_type: node_type) (lt_value: bytes) (lt_kids: "ltree list")

fun ptrs :: "ltree \<Rightarrow> ptr list" where
  "ptrs (Node p ty v ts) = p # concat (map ptrs ts)"

definition all_ptrs :: "ltree list \<Rightarrow> ptr list" where
  "all_ptrs ts = concat (map ptrs ts)"

definition head_or :: "ltree list \<Rightarrow> ptr \<Rightarrow> ptr" where
  "head_or ts d = (case ts of [] \<Rightarrow> d | t # _ \<Rightarrow> addr t)"

definition last_or :: "ltree list \<Rightarrow> ptr \<Rightarrow> ptr" where
  "last_or ts d = (if ts = [] then d else addr (last ts))"

text \<open>\<open>rep h par prv nxt t\<close>: the tree \<open>t\<close> is in the heap, its root with these three pointers. \<open>chain\<close>: the trees
  are siblings under \<open>par\<close>, between \<open>prv\<close> and \<open>nxt\<close>.\<close>

fun rep :: "node_heap \<Rightarrow> ptr \<Rightarrow> ptr \<Rightarrow> ptr \<Rightarrow> ltree \<Rightarrow> bool"
and chain :: "node_heap \<Rightarrow> ptr \<Rightarrow> ptr \<Rightarrow> ltree list \<Rightarrow> ptr \<Rightarrow> bool" where
  "rep h par prv nxt (Node p ty v ts) \<longleftrightarrow> p \<noteq> 0 \<and>
     nodes h p = Some \<lparr>ln_type = ty, ln_value = v, ln_parent = par, ln_firstChild = head_or ts 0,
       ln_lastChild = last_or ts 0, ln_prev = prv, ln_next = nxt\<rparr> \<and> chain h p 0 ts 0"
| "chain h par prv [] nxt \<longleftrightarrow> True"
| "chain h par prv (t # ts) nxt \<longleftrightarrow> rep h par prv (head_or ts nxt) t \<and> chain h par (addr t) ts nxt"

lemma ptrs_simps [simp]: "all_ptrs [] = []" "all_ptrs (t # ts) = ptrs t @ all_ptrs ts"
    "all_ptrs (ts @ us) = all_ptrs ts @ all_ptrs us" "concat (map ptrs ts) = all_ptrs ts"
  by (simp_all add: all_ptrs_def)

lemma head_or_simps [simp]: "head_or [] d = d" "head_or (t # ts) d = addr t"
    "head_or (ts @ us) d = head_or ts (head_or us d)"
  by (cases ts; simp add: head_or_def)+

lemma last_or_simps [simp]: "last_or [] d = d" "last_or (t # ts) d = last_or ts (addr t)"
    "last_or (ts @ us) d = last_or us (last_or ts d)"
  by (auto simp: last_or_def)

lemma addr_in [simp]: "addr t \<in> set (ptrs t)"
  by (cases t) simp

lemma last_or_in: "ts \<noteq> [] \<Longrightarrow> last_or ts d \<in> set (all_ptrs ts)"
proof (induction ts arbitrary: d)
  case (Cons t ts)
  then show ?case by (cases "ts = []") auto
qed simp

lemma head_or_in: "ts \<noteq> [] \<Longrightarrow> head_or ts d \<in> set (all_ptrs ts)"
  by (cases ts) auto

lemma chain_append:
  "chain h par prv (ts @ us) nxt \<longleftrightarrow> chain h par prv ts (head_or us nxt) \<and> chain h par (last_or ts prv) us nxt"
  by (induction ts arbitrary: prv) auto

lemma rep_cong:
  "rep h par prv nxt t \<Longrightarrow> (\<And>q. q \<in> set (ptrs t) \<Longrightarrow> nodes h' q = nodes h q) \<Longrightarrow> rep h' par prv nxt t"
  "chain h par prv ts nxt \<Longrightarrow> (\<And>q. q \<in> set (all_ptrs ts) \<Longrightarrow> nodes h' q = nodes h q) \<Longrightarrow> chain h' par prv ts nxt"
  by (induction h par prv nxt t and h par prv ts nxt rule: rep_chain.induct) auto

lemma rep_nonzero:
  "rep h par prv nxt t \<Longrightarrow> 0 \<notin> set (ptrs t)"
  "chain h par prv ts nxt \<Longrightarrow> 0 \<notin> set (all_ptrs ts)"
  by (induction h par prv nxt t and h par prv ts nxt rule: rep_chain.induct) auto

lemma rep_root:
  assumes "rep h par prv nxt t"
  obtains n where "nodes h (addr t) = Some n" "ln_type n = lt_type t" "ln_value n = lt_value t" "ln_parent n = par"
    "ln_firstChild n = head_or (lt_kids t) 0" "ln_prev n = prv" "ln_next n = nxt" "chain h (addr t) 0 (lt_kids t) 0"
  using assms by (cases t) auto

text \<open>Changing the links of the root, of the last or of the first of several siblings.\<close>

lemma rep_relink:
  assumes "rep h par prv nxt t" "distinct (ptrs t)"
    "nodes h' (addr t) = map_option (\<lambda>n. n\<lparr>ln_parent := par', ln_prev := prv', ln_next := nxt'\<rparr>) (nodes h (addr t))"
    "\<And>q. q \<in> set (ptrs t) \<Longrightarrow> q \<noteq> addr t \<Longrightarrow> nodes h' q = nodes h q"
  shows "rep h' par' prv' nxt' t"
proof (cases t)
  case (Node p ty v ts)
  have "chain h' p 0 ts 0"
    by (rule rep_cong(2) [of h]) (use assms Node in auto)
  with assms Node show ?thesis by simp
qed

lemma chain_relast:
  assumes "chain h par prv ts nxt" "distinct (all_ptrs ts)"
    "\<And>q. q \<in> set (all_ptrs ts) \<Longrightarrow>
      nodes h' q = (if q = last_or ts 0 then map_option (\<lambda>n. n\<lparr>ln_next := nxt'\<rparr>) (nodes h q) else nodes h q)"
  shows "chain h' par prv ts nxt'"
  using assms
proof (induction ts arbitrary: prv)
  case (Cons t ts)
  show ?case
  proof (cases "ts = []")
    case True
    have "rep h' par prv nxt' t"
    proof (rule rep_relink)
      show "rep h par prv nxt t" "distinct (ptrs t)" using Cons.prems True by simp_all
      have "nodes h (addr t) = Some n \<Longrightarrow> n\<lparr>ln_parent := par, ln_prev := prv, ln_next := nxt'\<rparr> = n\<lparr>ln_next := nxt'\<rparr>" for n
        using Cons.prems(1) by (cases t) auto
      then show "nodes h' (addr t) = map_option (\<lambda>n. n\<lparr>ln_parent := par, ln_prev := prv, ln_next := nxt'\<rparr>) (nodes h (addr t))"
        using Cons.prems(3) [of "addr t"] True by (cases "nodes h (addr t)") auto
    qed (use Cons.prems(3) True in auto)
    with True show ?thesis by simp
  next
    case False
    have last: "last_or ts (addr t) = last_or ts 0" "last_or ts 0 \<in> set (all_ptrs ts)"
      using False last_or_in by (simp_all add: last_or_def)
    have "rep h' par prv (head_or ts nxt) t"
      by (rule rep_cong(1) [of h]) (use Cons.prems last in auto)
    moreover have "chain h' par (addr t) ts nxt'"
      by (rule Cons.IH) (use Cons.prems last in auto)
    moreover have "head_or ts nxt' = head_or ts nxt" using False by (cases ts) auto
    ultimately show ?thesis by simp
  qed
qed simp

lemma chain_refirst:
  assumes "chain h par prv ts nxt" "distinct (all_ptrs ts)"
    "\<And>q. q \<in> set (all_ptrs ts) \<Longrightarrow>
      nodes h' q = (if q = head_or ts 0 then map_option (\<lambda>n. n\<lparr>ln_prev := prv'\<rparr>) (nodes h q) else nodes h q)"
  shows "chain h' par prv' ts nxt"
proof (cases ts)
  case (Cons t us)
  have "set (ptrs t) \<inter> set (all_ptrs us) = {}" using assms(2) Cons by simp
  then have notin: "addr t \<notin> set (all_ptrs us)" using addr_in [of t] by blast
  have "rep h' par prv' (head_or us nxt) t"
  proof (rule rep_relink)
    show "rep h par prv (head_or us nxt) t" "distinct (ptrs t)" using assms Cons by simp_all
    have "nodes h (addr t) = Some n \<Longrightarrow>
        n\<lparr>ln_parent := par, ln_prev := prv', ln_next := head_or us nxt\<rparr> = n\<lparr>ln_prev := prv'\<rparr>" for n
      using assms(1) Cons by (cases t) auto
    then show "nodes h' (addr t) =
        map_option (\<lambda>n. n\<lparr>ln_parent := par, ln_prev := prv', ln_next := head_or us nxt\<rparr>) (nodes h (addr t))"
      using assms(3) [of "addr t"] Cons by (cases "nodes h (addr t)") auto
  qed (use assms(3) Cons in auto)
  moreover have "chain h' par (addr t) us nxt"
    by (rule rep_cong(2) [of h]) (use assms Cons notin in auto)
  ultimately show ?thesis using Cons by simp
qed simp

section \<open>Linking a node into a list of children\<close>

lemma put_node_simps [simp]: "nodes (put_node p n h) = (nodes h)(p \<mapsto> n)" "heap_top (put_node p n h) = heap_top h"
    "heap_errors (put_node p n h) = heap_errors h"
  by (simp_all add: put_node_def)

lemma free_node_simps [simp]: "nodes (free_node p h) = (nodes h)(p := None)" "heap_top (free_node p h) = heap_top h"
    "heap_errors (free_node p h) = heap_errors h"
  by (simp_all add: free_node_def)

lemma update_node_Some: "nodes h p = Some n \<Longrightarrow> update_node p f h = Some (put_node p (f n) h)"
  by (simp add: update_node_def)

text \<open>\<open>keeps S h h'\<close>: \<open>h'\<close> differs from \<open>h\<close> only in the nodes at the addresses \<open>S\<close>.\<close>

definition keeps :: "ptr set \<Rightarrow> node_heap \<Rightarrow> node_heap \<Rightarrow> bool" where
  "keeps S h h' \<longleftrightarrow> (\<forall>q. q \<notin> S \<longrightarrow> nodes h' q = nodes h q) \<and> heap_top h' = heap_top h \<and> heap_errors h' = heap_errors h"

lemma chain_update_last:
  assumes "chain h par prv ts nxt" "ts \<noteq> []" "distinct (all_ptrs ts)"
  shows "\<exists>n. nodes h (last_or ts d) = Some n \<and> ln_parent n = par \<and> ln_next n = nxt \<and> last_or ts d \<noteq> 0"
  using assms
proof (induction ts arbitrary: prv d)
  case (Cons t ts)
  show ?case
  proof (cases "ts = []")
    case True
    with Cons.prems show ?thesis by (cases t) auto
  next
    case False
    with Cons.IH [of "addr t" "addr t"] Cons.prems show ?thesis by auto
  qed
qed simp

lemma chain_update_first:
  assumes "chain h par prv ts nxt" "ts \<noteq> []"
  shows "\<exists>n. nodes h (head_or ts d) = Some n \<and> ln_parent n = par \<and> ln_prev n = prv \<and> head_or ts d \<noteq> 0"
proof (cases ts)
  case (Cons t us)
  with assms show ?thesis by (cases t) auto
qed (use assms in simp)

lemma link_last_rep:
  assumes "rep h par prv nxt (Node p ty v ts)" "rep h par' prv' nxt' t" "distinct (p # all_ptrs ts @ ptrs t)"
  shows "\<exists>h'. link_last p (addr t) h = Some h' \<and> rep h' par prv nxt (Node p ty v (ts @ [t])) \<and>
    keeps (insert p (set (all_ptrs ts) \<union> set (ptrs t))) h h'"
proof -
  obtain n where n: "nodes h (addr t) = Some n" by (rule rep_root [OF assms(2)])
  let ?n = "n\<lparr>ln_parent := p, ln_prev := last_or ts 0, ln_next := 0\<rparr>"
  define pn where "pn = \<lparr>ln_type = ty, ln_value = v, ln_parent = par, ln_firstChild = head_or ts 0,
       ln_lastChild = last_or ts 0, ln_prev = prv, ln_next = nxt\<rparr>"
  have p: "p \<noteq> 0" "nodes h p = Some pn" "chain h p 0 ts 0" using assms(1) by (simp_all add: pn_def)
  have neq: "addr t \<noteq> p" "p \<notin> set (all_ptrs ts)" "p \<notin> set (ptrs t)" "addr t \<notin> set (all_ptrs ts)"
    using assms(3) addr_in [of t] by auto
  let ?h1 = "put_node (addr t) ?n h"
  show ?thesis
  proof (cases "ts = []")
    case True
    define h' where "h' = put_node p (pn\<lparr>ln_firstChild := addr t, ln_lastChild := addr t\<rparr>) ?h1"
    have "link_last p (addr t) h = Some h'"
      using p n neq True by (simp add: link_last_def update_node_Some h'_def pn_def put_node_def)
    moreover have "rep h' p 0 0 t"
      by (rule rep_relink [OF assms(2)]) (use assms(3) neq n True in \<open>auto simp: h'_def\<close>)
    ultimately show ?thesis
      using True p neq by (auto simp: keeps_def h'_def pn_def)
  next
    case False
    obtain l where l: "nodes h (last_or ts 0) = Some l" "last_or ts 0 \<noteq> 0"
      using chain_update_last [OF p(3) False, of 0] assms(3) by auto
    have lin: "last_or ts 0 \<in> set (all_ptrs ts)" using last_or_in [OF False] by simp
    then have ln: "last_or ts 0 \<noteq> addr t" "last_or ts 0 \<noteq> p" using neq by auto
    define h' where "h' = put_node p (pn\<lparr>ln_lastChild := addr t\<rparr>) (put_node (last_or ts 0) (l\<lparr>ln_next := addr t\<rparr>) ?h1)"
    have "link_last p (addr t) h = Some h'"
      using p n neq l ln by (simp add: link_last_def update_node_Some h'_def pn_def)
    moreover have "rep h' p (last_or ts 0) 0 t"
      by (rule rep_relink [OF assms(2)]) (use assms(3) neq n ln lin in \<open>auto simp: h'_def\<close>)
    moreover have "chain h' p 0 ts (addr t)"
      by (rule chain_relast [OF p(3)]) (use assms(3) neq l in \<open>auto simp: h'_def\<close>)
    moreover have "head_or (ts @ [t]) 0 = head_or ts 0" using False by (cases ts) auto
    ultimately show ?thesis
      using False p neq lin by (auto simp: keeps_def h'_def pn_def chain_append)
  qed
qed

text \<open>Inserting between the children \<open>ts\<close> and \<open>us\<close>: the pointers written by \<open>link_before\<close> at the first of \<open>us\<close>, and by
  \<open>link_after\<close> at the last of \<open>ts\<close>.\<close>

lemma insert_between:
  assumes "rep h par prv nxt (Node p ty v (ts @ us))" "rep h par' prv' nxt' t" "distinct (p # all_ptrs ts @ all_ptrs us @ ptrs t)"
    and h': "\<And>q. nodes h' q =
      (if q = p then map_option (\<lambda>n. n\<lparr>ln_firstChild := head_or ts (addr t), ln_lastChild := last_or us (addr t)\<rparr>) (nodes h q)
       else if q = addr t then map_option (\<lambda>n. n\<lparr>ln_parent := p, ln_prev := last_or ts 0, ln_next := head_or us 0\<rparr>) (nodes h q)
       else if ts \<noteq> [] \<and> q = last_or ts 0 then map_option (\<lambda>n. n\<lparr>ln_next := addr t\<rparr>) (nodes h q)
       else if us \<noteq> [] \<and> q = head_or us 0 then map_option (\<lambda>n. n\<lparr>ln_prev := addr t\<rparr>) (nodes h q)
       else nodes h q)"
  shows "rep h' par prv nxt (Node p ty v (ts @ t # us))"
proof -
  have kids: "chain h p 0 ts (head_or us 0)" "chain h p (last_or ts 0) us 0"
    using assms(1) by (simp_all add: chain_append)
  have neq: "p \<notin> set (all_ptrs ts)" "p \<notin> set (all_ptrs us)" "p \<notin> set (ptrs t)" "addr t \<notin> set (all_ptrs ts)"
    "addr t \<notin> set (all_ptrs us)" "set (all_ptrs ts) \<inter> set (all_ptrs us) = {}" "p \<noteq> addr t"
    "set (all_ptrs us) \<inter> set (ptrs t) = {}" "set (all_ptrs ts) \<inter> set (ptrs t) = {}"
    using assms(3) addr_in [of t] by auto
  have ends: "ts \<noteq> [] \<Longrightarrow> last_or ts 0 \<in> set (all_ptrs ts)" "us \<noteq> [] \<Longrightarrow> head_or us 0 \<in> set (all_ptrs us)"
    using last_or_in head_or_in by auto
  have "chain h' p 0 ts (addr t)"
    by (rule chain_relast [OF kids(1)]) (use assms(3) neq ends in \<open>auto simp: h'\<close>)
  moreover have "chain h' p (addr t) us 0"
    by (rule chain_refirst [OF kids(2)]) (use assms(3) neq ends in \<open>auto simp: h'\<close>)
  moreover have "rep h' p (last_or ts 0) (head_or us 0) t"
    by (rule rep_relink [OF assms(2)]) (use assms(3) neq ends in \<open>auto simp: h'\<close>)
  moreover have "nodes h' p = map_option (\<lambda>n. n\<lparr>ln_firstChild := head_or ts (addr t), ln_lastChild := last_or us (addr t)\<rparr>) (nodes h p)"
    by (simp add: h')
  ultimately show ?thesis using assms(1) by (simp add: chain_append)
qed

section \<open>Unlinking and deleting\<close>

text \<open>Past \<open>bridge\<close>, the children before and behind the bridged one are two chains with new ends.\<close>

lemma bridge_rep:
  assumes "rep h par prv nxt (Node p ty v (ts @ t # us))" "distinct (p # all_ptrs (ts @ t # us))"
  shows "\<exists>h1. bridge p (addr t) X Y h = Some h1 \<and> chain h1 p 0 ts X \<and> chain h1 p Y us 0 \<and>
    nodes h1 p = Some \<lparr>ln_type = ty, ln_value = v, ln_parent = par, ln_firstChild = head_or ts X,
       ln_lastChild = last_or us Y, ln_prev = prv, ln_next = nxt\<rparr> \<and>
    keeps (insert p (set (all_ptrs ts) \<union> set (all_ptrs us))) h h1"
proof -
  define pn where "pn = \<lparr>ln_type = ty, ln_value = v, ln_parent = par, ln_firstChild = head_or ts (addr t),
       ln_lastChild = last_or us (addr t), ln_prev = prv, ln_next = nxt\<rparr>"
  have p: "p \<noteq> 0" "nodes h p = Some pn" using assms(1) by (simp_all add: pn_def)
  have kids: "chain h p 0 ts (addr t)" "rep h p (last_or ts 0) (head_or us 0) t" "chain h p (addr t) us 0"
    using assms(1) by (simp_all add: chain_append)
  obtain n where n: "nodes h (addr t) = Some n" "ln_prev n = last_or ts 0" "ln_next n = head_or us 0"
    by (rule rep_root [OF kids(2)]) blast
  have neq: "p \<notin> set (all_ptrs ts)" "p \<notin> set (all_ptrs us)" "set (all_ptrs ts) \<inter> set (all_ptrs us) = {}"
    using assms(2) by auto
  define f where "f = (if us \<noteq> [] then update_node (head_or us 0) (\<lambda>m. m\<lparr>ln_prev := Y\<rparr>)
    else update_node p (\<lambda>t. t\<lparr>ln_lastChild := Y\<rparr>))"
  define g where "g = (if ts \<noteq> [] then update_node (last_or ts 0) (\<lambda>m. m\<lparr>ln_next := X\<rparr>)
    else update_node p (\<lambda>t. t\<lparr>ln_firstChild := X\<rparr>))"
  have zero: "us \<noteq> [] \<Longrightarrow> head_or us 0 \<noteq> 0" "ts \<noteq> [] \<Longrightarrow> last_or ts 0 \<noteq> 0"
    using rep_nonzero(2) [OF kids(3)] rep_nonzero(2) [OF kids(1)] head_or_in [of us 0] last_or_in [of ts 0] by metis+
  have ends: "us \<noteq> [] \<Longrightarrow> head_or us 0 \<in> set (all_ptrs us)" "ts \<noteq> [] \<Longrightarrow> last_or ts 0 \<in> set (all_ptrs ts)"
    using last_or_in head_or_in by auto
  have hd: "us \<noteq> [] \<Longrightarrow> \<exists>m. nodes h (head_or us 0) = Some m" and la: "ts \<noteq> [] \<Longrightarrow> \<exists>m. nodes h (last_or ts 0) = Some m"
    using chain_update_first [OF kids(3), of 0] chain_update_last [OF kids(1), of 0] assms(2) by auto
  have eq: "bridge p (addr t) X Y h = Option.bind (f h) g"
    using n zero by (cases "us = []"; cases "ts = []") (simp_all add: bridge_def f_def g_def)
  define hf where "hf = the (f h)"
  have hf: "f h = Some hf" "nodes hf = (\<lambda>q. if us \<noteq> [] \<and> q = head_or us 0 then map_option (\<lambda>m. m\<lparr>ln_prev := Y\<rparr>) (nodes h q)
      else if us = [] \<and> q = p then Some (pn\<lparr>ln_lastChild := Y\<rparr>) else nodes h q)" "heap_top hf = heap_top h" "heap_errors hf = heap_errors h"
    using hd p by (cases "us = []"; auto simp: hf_def f_def update_node_def fun_eq_iff)+
  have la': "ts \<noteq> [] \<Longrightarrow> nodes hf (last_or ts 0) = nodes h (last_or ts 0)"
    using ends neq by (auto simp: hf(2))
  have pf: "nodes hf p = Some (if us = [] then pn\<lparr>ln_lastChild := Y\<rparr> else pn)"
    using ends neq p by (auto simp: hf(2))
  define h1 where "h1 = the (g hf)"
  have h1: "g hf = Some h1" "nodes h1 = (\<lambda>q. if ts \<noteq> [] \<and> q = last_or ts 0 then map_option (\<lambda>m. m\<lparr>ln_next := X\<rparr>) (nodes hf q)
      else if ts = [] \<and> q = p then map_option (\<lambda>m. m\<lparr>ln_firstChild := X\<rparr>) (nodes hf q) else nodes hf q)"
    "heap_top h1 = heap_top h" "heap_errors h1 = heap_errors h"
    using la la' pf hf(3,4) by (cases "ts = []"; auto simp: h1_def g_def update_node_def fun_eq_iff)+
  have "chain h1 p 0 ts X"
    by (rule chain_relast [OF kids(1)]) (use assms(2) ends neq in \<open>auto simp: h1(2) hf(2)\<close>)
  moreover have "chain h1 p Y us 0"
    by (rule chain_refirst [OF kids(3)]) (use assms(2) ends neq in \<open>auto simp: h1(2) hf(2)\<close>)
  moreover have "nodes h1 p = Some \<lparr>ln_type = ty, ln_value = v, ln_parent = par, ln_firstChild = head_or ts X,
       ln_lastChild = last_or us Y, ln_prev = prv, ln_next = nxt\<rparr>"
    using pf ends neq by (cases ts; cases us) (auto simp: h1(2) pn_def last_or_def)
  moreover have "keeps (insert p (set (all_ptrs ts) \<union> set (all_ptrs us))) h h1"
    using ends h1(3,4) by (auto simp: keeps_def h1(2) hf(2))
  ultimately show ?thesis using eq hf(1) h1(1) by auto
qed

definition drop_nodes :: "ptr set \<Rightarrow> node_heap \<Rightarrow> node_heap" where
  "drop_nodes S h = h\<lparr>nodes := nodes h |` (- S)\<rparr>"

lemma drop_nodes_simps [simp]: "nodes (drop_nodes S h) q = (if q \<in> S then None else nodes h q)"
    "heap_top (drop_nodes S h) = heap_top h" "heap_errors (drop_nodes S h) = heap_errors h"
  by (simp_all add: drop_nodes_def restrict_map_def)

lemma drop_drop: "drop_nodes S (free_node p (drop_nodes T h)) = drop_nodes (insert p (S \<union> T)) h"
  by (simp add: drop_nodes_def free_node_def restrict_map_def fun_eq_iff)

lemma delete_chain_rep:
  assumes "chain h par prv ts 0" "distinct (all_ptrs ts)"
  shows "delete_chain (head_or ts 0) h = Some (drop_nodes (set (all_ptrs ts)) h)"
  using assms
proof (induction "length (all_ptrs ts)" arbitrary: h par prv ts rule: less_induct)
  case less
  show ?case
  proof (cases ts)
    case Nil
    then show ?thesis by (subst delete_chain.simps) (simp add: drop_nodes_def restrict_map_def)
  next
    case (Cons t us)
    obtain p ty v ks where t: "t = Node p ty v ks" by (cases t)
    have p: "p \<noteq> 0" "nodes h p = Some \<lparr>ln_type = ty, ln_value = v, ln_parent = par, ln_firstChild = head_or ks 0,
        ln_lastChild = last_or ks 0, ln_prev = prv, ln_next = head_or us 0\<rparr>" "chain h p 0 ks 0" "chain h par p us 0"
      using less.prems(1) by (simp_all add: Cons t)
    have "delete_chain (head_or ks 0) h = Some (drop_nodes (set (all_ptrs ks)) h)"
      by (rule less.hyps [OF _ p(3)]) (use less.prems(2) in \<open>simp_all add: Cons t\<close>)
    moreover have "delete_chain (head_or us 0) (free_node p (drop_nodes (set (all_ptrs ks)) h)) =
        Some (drop_nodes (set (all_ptrs us)) (free_node p (drop_nodes (set (all_ptrs ks)) h)))"
    proof (rule less.hyps)
      show "chain (free_node p (drop_nodes (set (all_ptrs ks)) h)) par p us 0"
        by (rule rep_cong(2) [OF p(4)]) (use less.prems(2) in \<open>auto simp: Cons t\<close>)
    qed (use less.prems(2) in \<open>simp_all add: Cons t\<close>)
    ultimately show ?thesis
      using p(1,2) by (subst delete_chain.simps) (simp add: Cons t drop_drop Un_commute)
  qed
qed

lemma delete_node_rep:
  assumes "rep h par prv nxt t" "distinct (ptrs t)"
  shows "delete_node (addr t) h = Some (drop_nodes (set (ptrs t)) h)"
proof (cases t)
  case (Node p ty v ks)
  with assms have "delete_chain (head_or ks 0) h = Some (drop_nodes (set (all_ptrs ks)) h)"
    by (intro delete_chain_rep) auto
  moreover have "drop_nodes (insert p (set (all_ptrs ks))) h = free_node p (drop_nodes (set (all_ptrs ks)) h)"
    by (simp add: drop_nodes_def free_node_def restrict_map_def fun_eq_iff)
  ultimately show ?thesis using assms(1) Node by (simp add: delete_node_def)
qed

lemma node_Clear_rep:
  assumes "rep h par prv nxt (Node p ty v ts)" "distinct (p # all_ptrs ts)"
  shows "\<exists>h'. node_Clear p h = Some h' \<and> rep h' par prv nxt (Node p ty v []) \<and> (\<forall>q \<in> set (all_ptrs ts). nodes h' q = None)"
proof -
  have "delete_chain (head_or ts 0) h = Some (drop_nodes (set (all_ptrs ts)) h)"
    by (rule delete_chain_rep) (use assms in auto)
  with assms show ?thesis by (auto simp: node_Clear_def update_node_def)
qed

lemma RemoveChild_rep:
  assumes "rep h par prv nxt (Node p ty v (ts @ t # us))" "distinct (p # all_ptrs (ts @ t # us))"
  shows "\<exists>h'. RemoveChild p (addr t) h = Some (True, h') \<and> rep h' par prv nxt (Node p ty v (ts @ us)) \<and>
    (\<forall>q \<in> set (ptrs t). nodes h' q = None) \<and> keeps (set (p # all_ptrs (ts @ t # us))) h h'"
proof -
  have t: "rep h p (last_or ts 0) (head_or us 0) t" using assms(1) by (simp add: chain_append)
  obtain n where n: "nodes h (addr t) = Some n" "ln_parent n = p" "ln_prev n = last_or ts 0" "ln_next n = head_or us 0"
    by (rule rep_root [OF t]) blast
  obtain h1 where h1: "bridge p (addr t) (head_or us 0) (last_or ts 0) h = Some h1"
    "chain h1 p 0 ts (head_or us 0)" "chain h1 p (last_or ts 0) us 0"
    "nodes h1 p = Some \<lparr>ln_type = ty, ln_value = v, ln_parent = par, ln_firstChild = head_or ts (head_or us 0),
       ln_lastChild = last_or us (last_or ts 0), ln_prev = prv, ln_next = nxt\<rparr>"
    "keeps (insert p (set (all_ptrs ts) \<union> set (all_ptrs us))) h h1"
    using bridge_rep [OF assms, of "head_or us 0" "last_or ts 0"] by blast
  have "rep h1 p (last_or ts 0) (head_or us 0) t"
    by (rule rep_cong(1) [OF t]) (use h1(5) assms(2) in \<open>auto simp: keeps_def\<close>)
  then have del: "delete_node (addr t) h1 = Some (drop_nodes (set (ptrs t)) h1)"
    using delete_node_rep assms(2) by simp
  define h' where "h' = drop_nodes (set (ptrs t)) h1"
  have "RemoveChild p (addr t) h = Some (True, h')"
    using n h1(1) del by (simp add: RemoveChild_def h'_def)
  moreover have "chain h' p 0 (ts @ us) 0"
    unfolding chain_append
    by (intro conjI; rule rep_cong(2)) (use h1(2,3) assms(2) in \<open>auto simp: h'_def\<close>)
  moreover have "nodes h' p = nodes h1 p" using assms(2) by (auto simp: h'_def)
  ultimately show ?thesis
    using h1(4,5) assms(1) by (auto simp: keeps_def h'_def)
qed

section \<open>Copying\<close>

definition heap_ok :: "node_heap \<Rightarrow> bool" where
  "heap_ok h \<longleftrightarrow> 0 < heap_top h \<and> (\<forall>q. heap_top h \<le> q \<longrightarrow> nodes h q = None)"

text \<open>Trees as the parser builds them: only elements and documents have children, which are no documents.\<close>

fun tree_ok :: "ltree \<Rightarrow> bool" where
  "tree_ok (Node p ty v ts) \<longleftrightarrow> (ts \<noteq> [] \<longrightarrow> copies_children ty) \<and>
     list_all (\<lambda>t. tree_ok t \<and> lt_type t \<noteq> DOCUMENT_NODE) ts"

fun shape :: "ltree \<Rightarrow> ltree" where
  "shape (Node p ty v ts) = Node 0 ty v (map shape ts)"

lemma rep_nodes:
  "rep h par prv nxt t \<Longrightarrow> q \<in> set (ptrs t) \<Longrightarrow> nodes h q \<noteq> None"
  "chain h par prv ts nxt \<Longrightarrow> q \<in> set (all_ptrs ts) \<Longrightarrow> nodes h q \<noteq> None"
  by (induction h par prv nxt t and h par prv ts nxt rule: rep_chain.induct) auto

lemma rep_below_top:
  assumes "heap_ok h"
  shows "rep h par prv nxt t \<Longrightarrow> q \<in> set (ptrs t) \<Longrightarrow> q < heap_top h"
    "chain h par prv ts nxt \<Longrightarrow> q \<in> set (all_ptrs ts) \<Longrightarrow> q < heap_top h"
  using assms rep_nodes [of h] unfolding heap_ok_def by (meson not_le)+

text \<open>\<open>extends S h h'\<close>: nodes were added, and of the old ones only those in \<open>S\<close> may have changed.\<close>

definition extends :: "ptr set \<Rightarrow> node_heap \<Rightarrow> node_heap \<Rightarrow> bool" where
  "extends S h h' \<longleftrightarrow> (\<forall>q < heap_top h. q \<notin> S \<longrightarrow> nodes h' q = nodes h q) \<and> heap_top h \<le> heap_top h' \<and>
     heap_errors h' = heap_errors h \<and> heap_ok h'"

lemma extends_trans: "extends S h h1 \<Longrightarrow> extends T h1 h2 \<Longrightarrow> extends (S \<union> T) h h2"
  by (auto simp: extends_def)

lemma extends_mono: "extends S h h' \<Longrightarrow> (\<And>q. q \<in> S \<Longrightarrow> q < heap_top h \<Longrightarrow> q \<in> T) \<Longrightarrow> extends T h h'"
  by (auto simp: extends_def)

lemma keeps_extends:
  assumes "keeps S h h'" "heap_ok h" "\<And>q. q \<in> S \<Longrightarrow> q < heap_top h"
  shows "extends S h h'"
  unfolding extends_def heap_ok_def
proof (intro conjI allI impI)
  show "nodes h' q = None" if "heap_top h' \<le> q" for q
  proof -
    have "q \<notin> S" using that assms(1,3) by (auto simp: keeps_def dest!: assms(3))
    with that assms(1,2) show ?thesis by (auto simp: keeps_def heap_ok_def)
  qed
qed (use assms in \<open>auto simp: keeps_def heap_ok_def\<close>)

lemma rep_extends:
  assumes "heap_ok h" "extends S h h'"
  shows "rep h par prv nxt t \<Longrightarrow> S \<inter> set (ptrs t) = {} \<Longrightarrow> rep h' par prv nxt t"
    "chain h par prv ts nxt \<Longrightarrow> S \<inter> set (all_ptrs ts) = {} \<Longrightarrow> chain h' par prv ts nxt"
proof -
  show "rep h' par prv nxt t" if "rep h par prv nxt t" "S \<inter> set (ptrs t) = {}"
    by (rule rep_cong(1) [OF that(1)])
      (use rep_below_top(1) [OF assms(1) that(1)] that(2) assms(2) in \<open>auto simp: extends_def disjoint_iff\<close>)
  show "chain h' par prv ts nxt" if "chain h par prv ts nxt" "S \<inter> set (all_ptrs ts) = {}"
    by (rule rep_cong(2) [OF that(1)])
      (use rep_below_top(2) [OF assms(1) that(1)] that(2) assms(2) in \<open>auto simp: extends_def disjoint_iff\<close>)
qed

lemma TiXmlNode_new_rep:
  assumes "heap_ok h" "TiXmlNode_new ty v h = (c, h1)"
  shows "c = heap_top h" "rep h1 0 0 0 (Node c ty v [])" "extends {} h h1" "heap_top h1 = Suc (heap_top h)"
  using assms by (auto simp: TiXmlNode_new_def heap_ok_def extends_def)

lemma GetDocument_free:
  assumes "rep h 0 prv nxt t" "lt_type t \<noteq> DOCUMENT_NODE"
  shows "GetDocument h (addr t) = Some 0"
proof (cases t)
  case (Node p ty v ts)
  have "GetDocument h 0 = Some 0" by (subst GetDocument.simps) simp
  with assms Node show ?thesis by (subst GetDocument.simps) simp
qed

lemma LinkEndChild_rep:
  assumes "rep h par prv nxt (Node p ty v ts)" "rep h 0 prv' nxt' t" "distinct (p # all_ptrs ts @ ptrs t)"
    "lt_type t \<noteq> DOCUMENT_NODE"
  shows "\<exists>h'. LinkEndChild p (addr t) h = Some (addr t, h') \<and> rep h' par prv nxt (Node p ty v (ts @ [t])) \<and>
    keeps (insert p (set (all_ptrs ts) \<union> set (ptrs t))) h h'"
proof -
  obtain n where "nodes h (addr t) = Some n" "ln_type n = lt_type t" "ln_parent n = 0" by (rule rep_root [OF assms(2)])
  moreover obtain h' where "link_last p (addr t) h = Some h'" "rep h' par prv nxt (Node p ty v (ts @ [t]))"
    "keeps (insert p (set (all_ptrs ts) \<union> set (ptrs t))) h h'"
    using link_last_rep [OF assms(1-3)] by blast
  ultimately show ?thesis
    using GetDocument_free [OF assms(2,4)] assms(4) by (auto simp: LinkEndChild_def)
qed

definition is_copy :: "node_heap \<Rightarrow> node_heap \<Rightarrow> ltree list \<Rightarrow> ltree list \<Rightarrow> bool" where
  "is_copy h h' ts us \<longleftrightarrow> map shape us = map shape ts \<and> distinct (all_ptrs us) \<and>
     (\<forall>q \<in> set (all_ptrs us). heap_top h \<le> q \<and> q < heap_top h')"

lemma clone_chain_rep:
  assumes "heap_ok h" "chain h par prv ts 0" "list_all (\<lambda>t. tree_ok t \<and> lt_type t \<noteq> DOCUMENT_NODE) ts"
    and "rep h tpar tprv tnxt (Node c ty v us)" "distinct (c # all_ptrs us)"
    and "set (all_ptrs ts) \<inter> set (c # all_ptrs us) = {}"
  shows "\<exists>h' us'. clone_chain (head_or ts 0) c h = Some h' \<and> rep h' tpar tprv tnxt (Node c ty v (us @ us')) \<and>
    is_copy h h' ts us' \<and> extends (set (c # all_ptrs us)) h h'"
  using assms
proof (induction "length (all_ptrs ts)" arbitrary: h par prv ts tpar tprv tnxt c ty v us rule: less_induct)
  case less
  show ?case
  proof (cases ts)
    case Nil
    have "extends (set (c # all_ptrs us)) h h" using less.prems(1) by (simp add: extends_def)
    moreover have "clone_chain 0 c h = Some h" by (subst clone_chain.simps) simp
    ultimately show ?thesis using less.prems(4) Nil by (intro exI [of _ h] exI [of _ "[]"]) (simp add: is_copy_def)
  next
    case (Cons t ts')
    obtain p ty1 v1 ks where t: "t = Node p ty1 v1 ks" by (cases t)
    have src: "p \<noteq> 0" "nodes h p = Some \<lparr>ln_type = ty1, ln_value = v1, ln_parent = par, ln_firstChild = head_or ks 0,
        ln_lastChild = last_or ks 0, ln_prev = prv, ln_next = head_or ts' 0\<rparr>" "chain h p 0 ks 0" "chain h par p ts' 0"
      using less.prems(2) by (simp_all add: Cons t)
    have ok: "tree_ok t" "ty1 \<noteq> DOCUMENT_NODE" "list_all (\<lambda>t. tree_ok t \<and> lt_type t \<noteq> DOCUMENT_NODE) ks"
      "list_all (\<lambda>t. tree_ok t \<and> lt_type t \<noteq> DOCUMENT_NODE) ts'" "ks \<noteq> [] \<Longrightarrow> copies_children ty1"
      using less.prems(3) by (simp_all add: Cons t)
    obtain n1 h1 where new: "TiXmlNode_new ty1 v1 h = (n1, h1)" by (cases "TiXmlNode_new ty1 v1 h")
    note n1 = TiXmlNode_new_rep [OF less.prems(1) new]
    have ok1: "heap_ok h1" using n1(3) by (simp add: extends_def)
    have below: "q < n1" if "q \<in> set (all_ptrs ts) \<union> set (c # all_ptrs us)" for q
      using that rep_below_top(2) [OF less.prems(1,2)] rep_below_top(1) [OF less.prems(1,4)] n1(1) by auto
    have disj: "set (all_ptrs ks) \<inter> set (n1 # all_ptrs []) = {}" using below by (force simp: Cons t)
    have ks1: "chain h1 p 0 ks 0" by (rule rep_extends(2) [OF less.prems(1) n1(3) src(3)]) simp
    have "\<exists>h2 ks'. (if copies_children ty1 then clone_chain (head_or ks 0) n1 h1 else Some h1) = Some h2 \<and>
        rep h2 0 0 0 (Node n1 ty1 v1 ks') \<and> is_copy h1 h2 ks ks' \<and> extends {n1} h1 h2"
    proof (cases "copies_children ty1")
      case True
      have "\<exists>h2 ks'. clone_chain (head_or ks 0) n1 h1 = Some h2 \<and> rep h2 0 0 0 (Node n1 ty1 v1 ([] @ ks')) \<and>
          is_copy h1 h2 ks ks' \<and> extends (set (n1 # all_ptrs [])) h1 h2"
        by (rule less.hyps [OF _ ok1 ks1 ok(3) n1(2) _ disj]) (simp_all add: Cons t)
      with True show ?thesis by simp
    next
      case False
      then have "ks = []" using ok(5) by blast
      with False n1(2) ok1 show ?thesis
        by (intro exI [of _ h1] exI [of _ "[]"]) (simp add: is_copy_def extends_def)
    qed
    then obtain h2 ks' where h2: "(if copies_children ty1 then clone_chain (head_or ks 0) n1 h1 else Some h1) = Some h2"
      "rep h2 0 0 0 (Node n1 ty1 v1 ks')" "is_copy h1 h2 ks ks'" "extends {n1} h1 h2"
      by blast
    let ?t' = "Node n1 ty1 v1 ks'"
    have ext2: "extends {} h h2"
      by (rule extends_mono [OF extends_trans [OF n1(3) h2(4)]]) (simp add: n1(1))
    have ok2: "heap_ok h2" using h2(4) by (simp add: extends_def)
    have target2: "rep h2 tpar tprv tnxt (Node c ty v us)" by (rule rep_extends(1) [OF less.prems(1) ext2 less.prems(4)]) simp
    have t': "\<forall>q \<in> set (ptrs ?t'). heap_top h \<le> q \<and> q < heap_top h2" "distinct (ptrs ?t')"
      using h2(3,4) n1(1,4) by (force simp: is_copy_def extends_def)+
    have "distinct (c # all_ptrs us @ ptrs ?t')" using less.prems(5) t' below n1(1) by force
    then obtain h3 where h3: "LinkEndChild c n1 h2 = Some (n1, h3)" "rep h3 tpar tprv tnxt (Node c ty v (us @ [?t']))"
      "keeps (insert c (set (all_ptrs us) \<union> set (ptrs ?t'))) h2 h3"
      using LinkEndChild_rep [OF target2 h2(2)] ok(2) by auto
    have below2: "q < heap_top h2" if "q \<in> insert c (set (all_ptrs us) \<union> set (ptrs ?t'))" for q
      using that t'(1) below [of q] ext2 n1(1) by (force simp: extends_def)
    have ext3: "extends (insert c (set (all_ptrs us) \<union> set (ptrs ?t'))) h2 h3"
      by (rule keeps_extends [OF h3(3) ok2 below2])
    have ext: "extends (set (c # all_ptrs us)) h h3"
      by (rule extends_mono [OF extends_trans [OF ext2 ext3]]) (use t'(1) in auto)
    have rest: "chain h3 par p ts' 0"
      by (rule rep_extends(2) [OF less.prems(1) ext src(4)]) (use less.prems(6) in \<open>auto simp: Cons\<close>)
    have "\<exists>h' us'. clone_chain (head_or ts' 0) c h3 = Some h' \<and> rep h' tpar tprv tnxt (Node c ty v ((us @ [?t']) @ us')) \<and>
      is_copy h3 h' ts' us' \<and> extends (set (c # all_ptrs (us @ [?t']))) h3 h'"
    proof (rule less.hyps [OF _ _ rest ok(4) h3(2)])
      show "set (all_ptrs ts') \<inter> set (c # all_ptrs (us @ [?t'])) = {}"
        using less.prems(6) t'(1) below n1(1) by (force simp: Cons)
      show "distinct (c # all_ptrs (us @ [?t']))" using \<open>distinct (c # all_ptrs us @ ptrs ?t')\<close> by simp
    qed (use ext in \<open>simp_all add: Cons t extends_def\<close>)
    then obtain h' us' where h': "clone_chain (head_or ts' 0) c h3 = Some h'"
      "rep h' tpar tprv tnxt (Node c ty v ((us @ [?t']) @ us'))" "is_copy h3 h' ts' us'"
      "extends (set (c # all_ptrs (us @ [?t']))) h3 h'"
      by blast
    have "clone_chain (head_or ts 0) c h = Some h'"
      using src(1,2) new h2(1) h3(1) h'(1)
      by (subst clone_chain.simps, cases "copies_children ty1") (simp_all add: Cons t Let_def)
    moreover have "is_copy h h' ts (?t' # us')"
      using h2(3) h'(3,4) t' ext3 ext2 unfolding is_copy_def by (force simp: Cons t extends_def)
    moreover have "extends (set (c # all_ptrs us)) h h'"
      by (rule extends_mono [OF extends_trans [OF ext h'(4)]]) (use t'(1) in auto)
    ultimately show ?thesis using h'(2) by (intro exI [of _ h'] exI [of _ "?t' # us'"]) simp
  qed
qed

lemma node_Clone_rep:
  assumes "heap_ok h" "rep h par prv nxt t" "tree_ok t"
  shows "\<exists>h' t'. node_Clone (addr t) h = Some (addr t', h') \<and> rep h' 0 0 0 t' \<and> is_copy h h' [t] [t'] \<and> extends {} h h'"
proof -
  obtain p ty v ks where t: "t = Node p ty v ks" by (cases t)
  obtain c h1 where new: "TiXmlNode_new ty v h = (c, h1)" by (cases "TiXmlNode_new ty v h")
  note n1 = TiXmlNode_new_rep [OF assms(1) new]
  have ok1: "heap_ok h1" using n1(3) by (simp add: extends_def)
  have kids: "chain h p 0 ks 0" "nodes h p = Some \<lparr>ln_type = ty, ln_value = v, ln_parent = par, ln_firstChild = head_or ks 0,
        ln_lastChild = last_or ks 0, ln_prev = prv, ln_next = nxt\<rparr>"
    using assms(2) by (simp_all add: t)
  have ks1: "chain h1 p 0 ks 0" by (rule rep_extends(2) [OF assms(1) n1(3) kids(1)]) simp
  have disj: "set (all_ptrs ks) \<inter> set (c # all_ptrs []) = {}"
    using rep_below_top(2) [OF assms(1) kids(1)] n1(1) by force
  have "\<exists>h2 ks'. (if copies_children ty then clone_chain (head_or ks 0) c h1 else Some h1) = Some h2 \<and>
      rep h2 0 0 0 (Node c ty v ([] @ ks')) \<and> is_copy h1 h2 ks ks' \<and> extends (set (c # all_ptrs [])) h1 h2"
  proof (cases "copies_children ty")
    case True
    with clone_chain_rep [OF ok1 ks1 _ n1(2) _ disj] assms(3) show ?thesis by (simp add: t)
  next
    case False
    with assms(3) n1(2) ok1 show ?thesis
      by (intro exI [of _ h1] exI [of _ "[]"]) (auto simp: t is_copy_def extends_def)
  qed
  then obtain h2 ks' where h2: "(if copies_children ty then clone_chain (head_or ks 0) c h1 else Some h1) = Some h2"
    "rep h2 0 0 0 (Node c ty v ks')" "is_copy h1 h2 ks ks'" "extends {c} h1 h2"
    by auto
  have "node_Clone (addr t) h = Some (c, h2)" using kids(2) new h2(1) by (cases "copies_children ty") (simp_all add: t node_Clone_def)
  moreover have "extends {} h h2" by (rule extends_mono [OF extends_trans [OF n1(3) h2(4)]]) (simp add: n1(1))
  moreover have "is_copy h h2 [t] [Node c ty v ks']"
    using h2(3,4) n1(1,4) by (force simp: t is_copy_def extends_def)
  ultimately show ?thesis using h2(2) by (intro exI [of _ h2] exI [of _ "Node c ty v ks'"]) simp
qed

section \<open>The operations on trees\<close>

abbreviation subtree :: "node_heap \<Rightarrow> ltree \<Rightarrow> bool" where
  "subtree h t \<equiv> \<exists>par prv nxt. rep h par prv nxt t"

lemma copied_apart:
  assumes "heap_ok h" "rep h par prv nxt (Node p ty v ts)" "is_copy h h1 [a] [t]"
  shows "set (p # all_ptrs ts) \<inter> set (ptrs t) = {}"
proof -
  have "q < heap_top h" if "q \<in> set (p # all_ptrs ts)" for q
    using rep_below_top(1) [OF assms(1,2), of q] that by simp
  moreover have "heap_top h \<le> q" if "q \<in> set (ptrs t)" for q
    using assms(3) that by (simp add: is_copy_def)
  ultimately show ?thesis by (force simp: disjoint_iff)
qed

text \<open>When a copy is linked, what was there before changes only in the tree that it is linked into.\<close>

lemma copy_linked:
  assumes "rep h1 0 0 0 t" "is_copy h h1 [a] [t]" "extends {} h h1" "rep h1 par prv nxt (Node p ty v ts)"
    and "keeps (insert p (set (all_ptrs ts) \<union> set (ptrs t))) h1 h2"
  shows "is_copy h h2 [a] [t]" "extends (set (p # all_ptrs ts)) h h2"
proof -
  show "is_copy h h2 [a] [t]" using assms(2,5) by (simp add: is_copy_def keeps_def)
  have ok1: "heap_ok h1" using assms(3) by (simp add: extends_def)
  have "extends (insert p (set (all_ptrs ts) \<union> set (ptrs t))) h1 h2"
    by (rule keeps_extends [OF assms(5) ok1])
      (use rep_below_top(1) [OF ok1 assms(4)] rep_below_top(1) [OF ok1 assms(1)] in auto)
  then show "extends (set (p # all_ptrs ts)) h h2"
    by (rule extends_mono [OF extends_trans [OF assms(3)]]) (use assms(2) in \<open>auto simp: is_copy_def\<close>)
qed

lemma InsertEndChild_rep:
  assumes "heap_ok h" "rep h par prv nxt (Node p ty v ts)" "distinct (p # all_ptrs ts)"
    and "subtree h a" "tree_ok a" "lt_type a \<noteq> DOCUMENT_NODE"
  shows "\<exists>h' t'. InsertEndChild p (addr a) h = Some (addr t', h') \<and> rep h' par prv nxt (Node p ty v (ts @ [t'])) \<and>
    is_copy h h' [a] [t'] \<and> extends (set (p # all_ptrs ts)) h h'"
proof -
  from assms(4) obtain apar aprv anxt where a: "rep h apar aprv anxt a" by blast
  obtain n where n: "nodes h (addr a) = Some n" "ln_type n = lt_type a" by (rule rep_root [OF a])
  obtain h1 t' where h1: "node_Clone (addr a) h = Some (addr t', h1)" "rep h1 0 0 0 t'" "is_copy h h1 [a] [t']" "extends {} h h1"
    using node_Clone_rep [OF assms(1) a assms(5)] by blast
  have r: "rep h1 par prv nxt (Node p ty v ts)" by (rule rep_extends(1) [OF assms(1) h1(4) assms(2)]) simp
  have d: "distinct (p # all_ptrs ts @ ptrs t')"
    using copied_apart [OF assms(1,2) h1(3)] h1(3) assms(3) by (auto simp: is_copy_def)
  have ty: "lt_type t' \<noteq> DOCUMENT_NODE" using h1(3) assms(6) by (cases a; cases t') (simp add: is_copy_def)
  obtain h2 where h2: "LinkEndChild p (addr t') h1 = Some (addr t', h2)" "rep h2 par prv nxt (Node p ty v (ts @ [t']))"
    "keeps (insert p (set (all_ptrs ts) \<union> set (ptrs t'))) h1 h2"
    using LinkEndChild_rep [OF r h1(2) d ty] by blast
  have "is_copy h h2 [a] [t']" "extends (set (p # all_ptrs ts)) h h2"
    by (rule copy_linked [OF h1(2-4) r h2(3)])+
  then show ?thesis
    using n h1(1) h2(1,2) assms(6) by (auto simp: InsertEndChild_def)
qed

lemma apart:
  assumes "distinct (p # all_ptrs (ts @ u # us) @ ptrs t)"
  shows "p \<noteq> addr u" "p \<noteq> addr t" "addr u \<noteq> addr t" "addr t \<notin> set (all_ptrs ts)" "addr u \<notin> set (all_ptrs ts)"
    "p \<notin> set (all_ptrs ts)" "addr t \<notin> set (all_ptrs us)" "addr u \<notin> set (all_ptrs us)" "p \<notin> set (all_ptrs us)"
proof -
  have "p \<notin> set (ptrs u)" "p \<notin> set (ptrs t)" "x \<in> set (ptrs u) \<Longrightarrow> x \<notin> set (ptrs t) \<and> x \<notin> set (all_ptrs ts) \<and> x \<notin> set (all_ptrs us)"
    "x \<in> set (ptrs t) \<Longrightarrow> x \<notin> set (all_ptrs ts) \<and> x \<notin> set (all_ptrs us)" for x
    using assms by auto
  note facts = this(1,2) this(3) [OF addr_in] this(4) [OF addr_in]
  show "p \<noteq> addr u" "p \<noteq> addr t" using facts(1,2) by auto
  show "addr u \<noteq> addr t" using facts(3) addr_in [of t] by metis
  show "addr t \<notin> set (all_ptrs ts)" "addr t \<notin> set (all_ptrs us)" "addr u \<notin> set (all_ptrs ts)" "addr u \<notin> set (all_ptrs us)"
    using facts(3,4) by blast+
qed (use assms in auto)

lemma link_before_rep:
  assumes "rep h par prv nxt (Node p ty v (ts @ u # us))" "rep h 0 0 0 t" "distinct (p # all_ptrs (ts @ u # us) @ ptrs t)"
  shows "\<exists>h'. link_before p (addr u) (addr t) h = Some h' \<and> rep h' par prv nxt (Node p ty v (ts @ t # u # us)) \<and>
    keeps (insert p (set (all_ptrs (ts @ u # us)) \<union> set (ptrs t))) h h'"
proof -
  define pn where "pn = \<lparr>ln_type = ty, ln_value = v, ln_parent = par, ln_firstChild = head_or ts (addr u),
       ln_lastChild = last_or us (addr u), ln_prev = prv, ln_next = nxt\<rparr>"
  have p: "nodes h p = Some pn" using assms(1) by (simp add: pn_def)
  have kids: "chain h p 0 ts (addr u)" "rep h p (last_or ts 0) (head_or us 0) u"
    using assms(1) by (simp_all add: chain_append)
  obtain b where b: "nodes h (addr u) = Some b" "ln_prev b = last_or ts 0" by (rule rep_root [OF kids(2)])
  obtain n where n: "nodes h (addr t) = Some n" by (rule rep_root [OF assms(2)])
  have neq: "p \<noteq> addr u" "p \<noteq> addr t" "addr u \<noteq> addr t" "addr t \<notin> set (all_ptrs ts)" "addr u \<notin> set (all_ptrs ts)"
    "p \<notin> set (all_ptrs ts)"
    by (rule apart [OF assms(3)])+
  let ?n = "n\<lparr>ln_parent := p, ln_next := addr u, ln_prev := last_or ts 0\<rparr>"
  have lin: "ts \<noteq> [] \<Longrightarrow> last_or ts 0 \<in> set (all_ptrs ts)" using last_or_in by blast
  have l: "ts \<noteq> [] \<Longrightarrow> \<exists>l. nodes h (last_or ts 0) = Some l \<and> last_or ts 0 \<noteq> 0"
    using chain_update_last [OF kids(1), of 0] assms(3) by auto
  define h' where "h' = the (link_before p (addr u) (addr t) h)"
  have h': "link_before p (addr u) (addr t) h = Some h'"
    "\<And>q. nodes h' q =
      (if q = p then map_option (\<lambda>n. n\<lparr>ln_firstChild := head_or ts (addr t), ln_lastChild := last_or (u # us) (addr t)\<rparr>) (nodes h q)
       else if q = addr t then map_option (\<lambda>n. n\<lparr>ln_parent := p, ln_prev := last_or ts 0, ln_next := head_or (u # us) 0\<rparr>) (nodes h q)
       else if ts \<noteq> [] \<and> q = last_or ts 0 then map_option (\<lambda>n. n\<lparr>ln_next := addr t\<rparr>) (nodes h q)
       else if u # us \<noteq> [] \<and> q = head_or (u # us) 0 then map_option (\<lambda>n. n\<lparr>ln_prev := addr t\<rparr>) (nodes h q)
       else nodes h q)"
    "heap_top h' = heap_top h" "heap_errors h' = heap_errors h"
    using p b n neq l lin
    by (cases ts; auto simp: h'_def link_before_def update_node_def pn_def)+
  have "rep h' par prv nxt (Node p ty v (ts @ t # u # us))"
    by (rule insert_between [OF assms(1,2) _ h'(2)]) (use assms(3) in simp)
  moreover have "keeps (insert p (set (all_ptrs (ts @ u # us)) \<union> set (ptrs t))) h h'"
    using h'(2-4) lin by (auto simp: keeps_def)
  ultimately show ?thesis using h'(1) by blast
qed

lemma link_after_rep:
  assumes "rep h par prv nxt (Node p ty v (ts @ u # us))" "rep h 0 0 0 t" "distinct (p # all_ptrs (ts @ u # us) @ ptrs t)"
  shows "\<exists>h'. link_after p (addr u) (addr t) h = Some h' \<and> rep h' par prv nxt (Node p ty v (ts @ u # t # us)) \<and>
    keeps (insert p (set (all_ptrs (ts @ u # us)) \<union> set (ptrs t))) h h'"
proof -
  define pn where "pn = \<lparr>ln_type = ty, ln_value = v, ln_parent = par, ln_firstChild = head_or ts (addr u),
       ln_lastChild = last_or us (addr u), ln_prev = prv, ln_next = nxt\<rparr>"
  have p: "nodes h p = Some pn" using assms(1) by (simp add: pn_def)
  have kids: "chain h p (addr u) us 0" "rep h p (last_or ts 0) (head_or us 0) u"
    using assms(1) by (simp_all add: chain_append)
  obtain b where b: "nodes h (addr u) = Some b" "ln_next b = head_or us 0" by (rule rep_root [OF kids(2)])
  obtain n where n: "nodes h (addr t) = Some n" by (rule rep_root [OF assms(2)])
  note neq = apart [OF assms(3)]
  have hin: "us \<noteq> [] \<Longrightarrow> head_or us 0 \<in> set (all_ptrs us)" using head_or_in by blast
  have l: "us \<noteq> [] \<Longrightarrow> \<exists>l. nodes h (head_or us 0) = Some l \<and> head_or us 0 \<noteq> 0"
    using chain_update_first [OF kids(1), of 0] by auto
  have hneq: "us \<noteq> [] \<Longrightarrow> head_or us 0 \<noteq> addr t \<and> head_or us 0 \<noteq> p \<and> head_or us 0 \<noteq> addr u \<and> last_or us (addr t) = last_or us (addr u)"
    using hin neq by (auto simp: last_or_def)
  define h' where "h' = the (link_after p (addr u) (addr t) h)"
  have h': "link_after p (addr u) (addr t) h = Some h'"
    "\<And>q. nodes h' q =
      (if q = p then map_option (\<lambda>n. n\<lparr>ln_firstChild := head_or (ts @ [u]) (addr t), ln_lastChild := last_or us (addr t)\<rparr>) (nodes h q)
       else if q = addr t then map_option (\<lambda>n. n\<lparr>ln_parent := p, ln_prev := last_or (ts @ [u]) 0, ln_next := head_or us 0\<rparr>) (nodes h q)
       else if ts @ [u] \<noteq> [] \<and> q = last_or (ts @ [u]) 0 then map_option (\<lambda>n. n\<lparr>ln_next := addr t\<rparr>) (nodes h q)
       else if us \<noteq> [] \<and> q = head_or us 0 then map_option (\<lambda>n. n\<lparr>ln_prev := addr t\<rparr>) (nodes h q)
       else nodes h q)"
    "heap_top h' = heap_top h" "heap_errors h' = heap_errors h"
    using p b n neq(1-3) l hneq
    by (cases "us = []"; auto simp: h'_def link_after_def update_node_def pn_def)+
  have "rep h' par prv nxt (Node p ty v ((ts @ [u]) @ t # us))"
    by (rule insert_between [OF _ assms(2) _ h'(2)]) (use assms(1,3) in simp_all)
  moreover have "keeps (insert p (set (all_ptrs (ts @ u # us)) \<union> set (ptrs t))) h h'"
    using h'(2-4) hin by (auto simp: keeps_def)
  ultimately show ?thesis using h'(1) by auto
qed

text \<open>What the two insertions next to a child have in common, by the list that linking makes of the children
  \<open>ts @ u # us\<close>.\<close>

locale linking =
  fixes link :: "ptr \<Rightarrow> ptr \<Rightarrow> ptr \<Rightarrow> node_heap \<Rightarrow> node_heap option"
    and placed :: "ltree list \<Rightarrow> ltree \<Rightarrow> ltree list \<Rightarrow> ltree \<Rightarrow> ltree list"
  assumes link_rep: "rep h par prv nxt (Node p ty v (ts @ u # us)) \<Longrightarrow> rep h 0 0 0 t \<Longrightarrow>
      distinct (p # all_ptrs (ts @ u # us) @ ptrs t) \<Longrightarrow>
      \<exists>h'. link p (addr u) (addr t) h = Some h' \<and> rep h' par prv nxt (Node p ty v (placed ts u us t)) \<and>
        keeps (insert p (set (all_ptrs (ts @ u # us)) \<union> set (ptrs t))) h h'"
begin

lemma insert_rep:
  assumes "heap_ok h" "rep h par prv nxt (Node p ty v (ts @ u # us))" "distinct (p # all_ptrs (ts @ u # us))"
    and "subtree h a" "tree_ok a" "lt_type a \<noteq> DOCUMENT_NODE"
  shows "\<exists>h' t'. insert_at link p (addr u) (addr a) h = Some (addr t', h') \<and>
    rep h' par prv nxt (Node p ty v (placed ts u us t')) \<and>
    is_copy h h' [a] [t'] \<and> extends (set (p # all_ptrs (ts @ u # us))) h h'"
proof -
  from assms(4) obtain apar aprv anxt where a: "rep h apar aprv anxt a" by blast
  obtain n where n: "nodes h (addr a) = Some n" "ln_type n = lt_type a" by (rule rep_root [OF a])
  have "rep h p (last_or ts 0) (head_or us 0) u" using assms(2) by (simp add: chain_append)
  then obtain b where b: "nodes h (addr u) = Some b" "ln_parent b = p" and "0 \<notin> set (ptrs u)"
    using rep_nonzero(1) by (auto elim!: rep_root)
  then have u: "addr u \<noteq> 0" by (metis addr_in)
  obtain h1 t' where h1: "node_Clone (addr a) h = Some (addr t', h1)" "rep h1 0 0 0 t'" "is_copy h h1 [a] [t']" "extends {} h h1"
    using node_Clone_rep [OF assms(1) a assms(5)] by blast
  have r: "rep h1 par prv nxt (Node p ty v (ts @ u # us))" by (rule rep_extends(1) [OF assms(1) h1(4) assms(2)]) simp
  have d: "distinct (p # all_ptrs (ts @ u # us) @ ptrs t')"
    using copied_apart [OF assms(1,2) h1(3)] h1(3) assms(3) by (auto simp: is_copy_def)
  obtain h2 where h2: "link p (addr u) (addr t') h1 = Some h2" "rep h2 par prv nxt (Node p ty v (placed ts u us t'))"
    "keeps (insert p (set (all_ptrs (ts @ u # us)) \<union> set (ptrs t'))) h1 h2"
    using link_rep [OF r h1(2) d] by blast
  have "is_copy h h2 [a] [t']" "extends (set (p # all_ptrs (ts @ u # us))) h h2"
    by (rule copy_linked [OF h1(2-4) r h2(3)])+
  then show ?thesis
    using n b u h1(1) h2(1,2) assms(6) by (auto simp: insert_at_def)
qed

end

interpretation before: linking link_before "\<lambda>ts u us t. ts @ t # u # us"
  by unfold_locales (rule link_before_rep)

interpretation after: linking link_after "\<lambda>ts u us t. ts @ u # t # us"
  by unfold_locales (rule link_after_rep)

lemma ReplaceChild_rep:
  assumes "heap_ok h" "rep h par prv nxt (Node p ty v (ts @ u # us))" "distinct (p # all_ptrs (ts @ u # us))"
    and "subtree h a" "tree_ok a"
  shows "\<exists>h' t'. ReplaceChild p (addr u) (addr a) h = Some (addr t', h') \<and>
    rep h' par prv nxt (Node p ty v (ts @ t' # us)) \<and> (\<forall>q \<in> set (ptrs u). nodes h' q = None) \<and>
    is_copy h h' [a] [t'] \<and> extends (set (p # all_ptrs (ts @ u # us))) h h'"
proof -
  from assms(4) obtain apar aprv anxt where a: "rep h apar aprv anxt a" by blast
  have u: "rep h p (last_or ts 0) (head_or us 0) u" using assms(2) by (simp add: chain_append)
  obtain b where b: "nodes h (addr u) = Some b" "ln_parent b = p" "ln_prev b = last_or ts 0" "ln_next b = head_or us 0"
    by (rule rep_root [OF u]) blast
  obtain h1 t' where h1: "node_Clone (addr a) h = Some (addr t', h1)" "rep h1 0 0 0 t'" "is_copy h h1 [a] [t']" "extends {} h h1"
    using node_Clone_rep [OF assms(1) a assms(5)] by blast
  have r1: "rep h1 par prv nxt (Node p ty v (ts @ u # us))" by (rule rep_extends(1) [OF assms(1) h1(4) assms(2)]) simp
  have d: "distinct (p # all_ptrs (ts @ u # us) @ ptrs t')"
    using copied_apart [OF assms(1,2) h1(3)] h1(3) assms(3) by (auto simp: is_copy_def)
  note neq = apart [OF d]
  obtain n where n: "nodes h1 (addr t') = Some n" "ln_parent n = 0" by (rule rep_root [OF h1(2)]) blast
  define h2 where "h2 = put_node (addr t') (n\<lparr>ln_next := head_or us 0, ln_prev := last_or ts 0\<rparr>) h1"
  have upd: "update_node (addr t') (\<lambda>n. n\<lparr>ln_next := ln_next b, ln_prev := ln_prev b\<rparr>) h1 = Some h2"
    using n b by (simp add: update_node_Some h2_def)
  have t2: "rep h2 0 (last_or ts 0) (head_or us 0) t'"
    by (rule rep_relink [OF h1(2)]) (use d n in \<open>auto simp: h2_def\<close>)
  have r2: "rep h2 par prv nxt (Node p ty v (ts @ u # us))"
    by (rule rep_cong(1) [OF r1]) (use d addr_in [of t'] in \<open>auto simp: h2_def disjoint_iff\<close>)
  obtain h3 where h3: "bridge p (addr u) (addr t') (addr t') h2 = Some h3"
    "chain h3 p 0 ts (addr t')" "chain h3 p (addr t') us 0"
    "nodes h3 p = Some \<lparr>ln_type = ty, ln_value = v, ln_parent = par, ln_firstChild = head_or ts (addr t'),
       ln_lastChild = last_or us (addr t'), ln_prev = prv, ln_next = nxt\<rparr>"
    "keeps (insert p (set (all_ptrs ts) \<union> set (all_ptrs us))) h2 h3"
    using bridge_rep [OF r2, of "addr t'" "addr t'"] assms(3) by blast
  have "rep h2 p (last_or ts 0) (head_or us 0) u" using r2 by (simp add: chain_append)
  then have "rep h3 p (last_or ts 0) (head_or us 0) u"
    by (rule rep_cong(1)) (use h3(5) d in \<open>auto simp: keeps_def\<close>)
  then have del: "delete_node (addr u) h3 = Some (drop_nodes (set (ptrs u)) h3)"
    using delete_node_rep d by simp
  have t3: "nodes (drop_nodes (set (ptrs u)) h3) q = nodes h2 q" if "q \<in> set (ptrs t')" for q
    using that h3(5) d by (auto simp: keeps_def disjoint_iff)
  define h5 where "h5 = put_node (addr t') (n\<lparr>ln_next := head_or us 0, ln_prev := last_or ts 0, ln_parent := p\<rparr>)
    (drop_nodes (set (ptrs u)) h3)"
  have "update_node (addr t') (\<lambda>n. n\<lparr>ln_parent := p\<rparr>) (drop_nodes (set (ptrs u)) h3) = Some h5"
    using t3 [OF addr_in] by (simp add: update_node_Some h5_def h2_def)
  then have "ReplaceChild p (addr u) (addr a) h = Some (addr t', h5)"
    using b h1(1) upd h3(1) del by (simp add: ReplaceChild_def)
  moreover have "rep h5 p (last_or ts 0) (head_or us 0) t'"
    by (rule rep_relink [OF t2]) (use d t3 in \<open>auto simp: h5_def h2_def\<close>)
  moreover have "chain h5 p 0 ts (addr t')"
    by (rule rep_cong(2) [OF h3(2)]) (use d neq in \<open>auto simp: h5_def\<close>)
  moreover have "chain h5 p (addr t') us 0"
    by (rule rep_cong(2) [OF h3(3)]) (use d neq in \<open>auto simp: h5_def\<close>)
  moreover have "nodes h5 p = nodes h3 p" using d neq by (auto simp: h5_def)
  moreover have "\<forall>q \<in> set (ptrs u). nodes h5 q = None" using neq d addr_in [of t'] by (auto simp: h5_def disjoint_iff)
  moreover have "keeps (insert p (set (all_ptrs (ts @ u # us)) \<union> set (ptrs t'))) h1 h5"
    using h3(5) addr_in [of t'] by (auto simp: keeps_def h5_def h2_def)
  moreover note copy_linked [OF h1(2-4) r1 this]
  ultimately show ?thesis using h3(4) r1 by (auto simp: chain_append)
qed

section \<open>Looking for children\<close>

definition named :: "bytes \<Rightarrow> ltree list \<Rightarrow> ltree list" where
  "named v ts = dropWhile (\<lambda>t. c_str (lt_value t) \<noteq> c_str v) ts"

lemma find_forwards: "chain h par prv ts 0 \<Longrightarrow> find_sibling ln_next v h (head_or ts 0) = Some (head_or (named v ts) 0)"
proof (induction ts arbitrary: prv)
  case (Cons t ts)
  then have "addr t \<noteq> 0" "find_sibling ln_next v h (head_or ts 0) = Some (head_or (named v ts) 0)" by (cases t; auto)+
  with Cons.prems show ?case by (subst find_sibling.simps) (auto simp: named_def elim!: rep_root)
qed (subst find_sibling.simps, simp add: named_def)

lemma find_backwards: "chain h par 0 ts nxt \<Longrightarrow> find_sibling ln_prev v h (last_or ts 0) = Some (head_or (named v (rev ts)) 0)"
proof (induction ts arbitrary: nxt rule: rev_induct)
  case (snoc t ts)
  then have "addr t \<noteq> 0" "find_sibling ln_prev v h (last_or ts 0) = Some (head_or (named v (rev ts)) 0)"
    by (cases t; auto simp: chain_append)+
  with snoc.prems show ?case by (subst find_sibling.simps) (auto simp: named_def chain_append elim!: rep_root)
qed (subst find_sibling.simps, simp add: named_def)

lemma searches_rep:
  assumes "rep h par prv nxt (Node p ty v (ts @ u # us))" "c_str w \<noteq> []"
  shows "node_FirstChild w p h = Some (head_or (named w (ts @ u # us)) 0)"
    "node_LastChild w p h = Some (head_or (named w (rev (ts @ u # us))) 0)"
    "NextSibling w (addr u) h = Some (head_or (named w us) 0)"
    "PreviousSibling w (addr u) h = Some (head_or (named w (rev ts)) 0)"
proof -
  have kids: "chain h p 0 (ts @ u # us) 0" "chain h p 0 ts (addr u)" "rep h p (last_or ts 0) (head_or us 0) u"
    "chain h p (addr u) us 0"
    using assms(1) by (simp_all add: chain_append)
  show "node_FirstChild w p h = Some (head_or (named w (ts @ u # us)) 0)"
    using find_forwards [OF kids(1)] assms by (simp add: node_FirstChild_def)
  show "node_LastChild w p h = Some (head_or (named w (rev (ts @ u # us))) 0)"
    using find_backwards [OF kids(1)] assms by (simp add: node_LastChild_def)
  obtain n where n: "nodes h (addr u) = Some n" "ln_prev n = last_or ts 0" "ln_next n = head_or us 0"
    by (rule rep_root [OF kids(3)]) blast
  show "NextSibling w (addr u) h = Some (head_or (named w us) 0)"
    using find_forwards [OF kids(4)] n assms(2) by (simp add: NextSibling_def)
  show "PreviousSibling w (addr u) h = Some (head_or (named w (rev ts)) 0)"
    using find_backwards [OF kids(2)] n assms(2) by (simp add: PreviousSibling_def)
qed

text \<open>The \<open>i\<close>-th child, reached as callers do: \<open>IterateChildren\<close> from null on.\<close>

fun child_at :: "ptr \<Rightarrow> node_heap \<Rightarrow> nat \<Rightarrow> ptr option" where
  "child_at this h 0 = IterateChildren this 0 h"
| "child_at this h (Suc i) = Option.bind (child_at this h i) (\<lambda>c. IterateChildren this c h)"

lemma child_at_rep:
  assumes "rep h par prv nxt (Node p ty v ts)" "i < length ts"
  shows "child_at p h i = Some (addr (ts ! i))"
  using assms(2)
proof (induction i)
  case 0
  with assms(1) show ?case by (cases ts) (simp_all add: IterateChildren_def)
next
  case (Suc i)
  define us where "us = drop (Suc i) ts"
  then have ts: "ts = take i ts @ ts ! i # us" "us \<noteq> []" "head_or us 0 = addr (ts ! Suc i)"
    using Suc.prems id_take_nth_drop [of i ts] by (simp_all add: Cons_nth_drop_Suc [symmetric])
  have "chain h p 0 (take i ts @ ts ! i # us) 0" using assms(1) ts(1) by simp
  then have r: "rep h p (last_or (take i ts) 0) (head_or us 0) (ts ! i)" by (simp add: chain_append)
  then have "addr (ts ! i) \<noteq> 0" by (cases "ts ! i") auto
  with Suc r ts(3) show ?case by (auto simp: IterateChildren_def elim!: rep_root)
qed

section \<open>Sequences of edits\<close>

text \<open>Edits of the children of one node by position; the sources of copies are trees elsewhere in the heap.\<close>

datatype edit = Append ltree | Before nat ltree | After nat ltree | Replace nat ltree | Remove nat

fun edit_children :: "ptr \<Rightarrow> edit \<Rightarrow> node_heap \<Rightarrow> node_heap option" where
  "edit_children this (Append a) h = map_option snd (InsertEndChild this (addr a) h)"
| "edit_children this (Before i a) h =
     Option.bind (child_at this h i) (\<lambda>c. map_option snd (InsertBeforeChild this c (addr a) h))"
| "edit_children this (After i a) h =
     Option.bind (child_at this h i) (\<lambda>c. map_option snd (InsertAfterChild this c (addr a) h))"
| "edit_children this (Replace i a) h =
     Option.bind (child_at this h i) (\<lambda>c. map_option snd (ReplaceChild this c (addr a) h))"
| "edit_children this (Remove i) h = Option.bind (child_at this h i) (\<lambda>c. map_option snd (RemoveChild this c h))"

fun run_edits :: "ptr \<Rightarrow> edit list \<Rightarrow> node_heap \<Rightarrow> node_heap option" where
  "run_edits this [] h = Some h"
| "run_edits this (e # es) h = Option.bind (edit_children this e h) (run_edits this es)"

text \<open>The same on a list of trees without addresses.\<close>

fun edit_list :: "edit \<Rightarrow> ltree list \<Rightarrow> ltree list" where
  "edit_list (Append a) xs = xs @ [shape a]"
| "edit_list (Before i a) xs = take i xs @ shape a # drop i xs"
| "edit_list (After i a) xs = take (Suc i) xs @ shape a # drop (Suc i) xs"
| "edit_list (Replace i a) xs = xs[i := shape a]"
| "edit_list (Remove i) xs = take i xs @ drop (Suc i) xs"

text \<open>The edit's position is one of \<open>n\<close> and its source one of \<open>A\<close>.\<close>

fun edit_fits :: "ltree set \<Rightarrow> nat \<Rightarrow> edit \<Rightarrow> bool" where
  "edit_fits A n (Append a) \<longleftrightarrow> a \<in> A"
| "edit_fits A n (Before i a) \<longleftrightarrow> i < n \<and> a \<in> A"
| "edit_fits A n (After i a) \<longleftrightarrow> i < n \<and> a \<in> A"
| "edit_fits A n (Replace i a) \<longleftrightarrow> i < n \<and> a \<in> A"
| "edit_fits A n (Remove i) \<longleftrightarrow> i < n"

fun edits_fit :: "ltree set \<Rightarrow> ltree list \<Rightarrow> edit list \<Rightarrow> bool" where
  "edits_fit A xs [] \<longleftrightarrow> True"
| "edits_fit A xs (e # es) \<longleftrightarrow> edit_fits A (length xs) e \<and> edits_fit A (edit_list e xs) es"

definition sources :: "node_heap \<Rightarrow> ptr set \<Rightarrow> ltree set \<Rightarrow> bool" where
  "sources h S A \<longleftrightarrow> (\<forall>a \<in> A. subtree h a \<and> tree_ok a \<and> lt_type a \<noteq> DOCUMENT_NODE \<and> set (ptrs a) \<inter> S = {})"

lemma sources_kept:
  assumes "sources h S A" "heap_ok h" "extends S h h'" "\<And>q. q \<in> T \<Longrightarrow> q < heap_top h \<Longrightarrow> q \<in> S"
  shows "sources h' T A"
  unfolding sources_def
proof (intro ballI conjI)
  fix a assume a_in: "a \<in> A"
  with assms(1) obtain par prv nxt where a: "rep h par prv nxt a" "tree_ok a" "lt_type a \<noteq> DOCUMENT_NODE" "set (ptrs a) \<inter> S = {}"
    by (auto simp: sources_def)
  show "subtree h' a" using rep_extends(1) [OF assms(2,3) a(1)] a(4) by blast
  show "set (ptrs a) \<inter> T = {}" using rep_below_top(1) [OF assms(2) a(1)] a(4) assms(4) by blast
  show "tree_ok a" "lt_type a \<noteq> DOCUMENT_NODE" by (rule a)+
qed

abbreviation editable :: "node_heap \<Rightarrow> ptr \<Rightarrow> ptr \<Rightarrow> ptr \<Rightarrow> ltree set \<Rightarrow> ptr \<Rightarrow> node_type \<Rightarrow> bytes \<Rightarrow> ltree list \<Rightarrow> bool" where
  "editable h par prv nxt A p ty v ts \<equiv> heap_ok h \<and> rep h par prv nxt (Node p ty v ts) \<and> distinct (p # all_ptrs ts) \<and>
     sources h (set (p # all_ptrs ts)) A"

lemma copy_edit:
  assumes "editable h par prv nxt A p ty v ts" "is_copy h h' [a] [t']" "extends (set (p # all_ptrs ts)) h h'"
    and "set (all_ptrs ts') \<subseteq> set (all_ptrs ts) \<union> set (ptrs t')"
  shows "heap_ok h' \<and> sources h' (set (p # all_ptrs ts')) A \<and> shape t' = shape a \<and>
    set (p # all_ptrs ts) \<inter> set (ptrs t') = {} \<and> distinct (ptrs t')"
proof -
  have "sources h' (set (p # all_ptrs ts')) A"
  proof (rule sources_kept [OF _ _ assms(3)])
    fix q assume q: "q \<in> set (p # all_ptrs ts')" "q < heap_top h"
    then have "q \<notin> set (ptrs t')" using assms(2) by (auto simp: is_copy_def)
    with q(1) assms(4) show "q \<in> set (p # all_ptrs ts)" by auto
  qed (use assms(1) in auto)
  moreover have "set (p # all_ptrs ts) \<inter> set (ptrs t') = {}"
    by (rule copied_apart [OF _ _ assms(2)]) (use assms(1) in auto)
  ultimately show ?thesis using assms(2,3) by (simp add: is_copy_def extends_def)
qed

lemma edit_step:
  assumes ed: "editable h par prv nxt A p ty v ts" and fits: "edit_fits A (length ts) e"
  shows "\<exists>h' ts'. edit_children p e h = Some h' \<and> editable h' par prv nxt A p ty v ts' \<and>
    map shape ts' = edit_list e (map shape ts)"
proof -
  have src: "subtree h a" "tree_ok a" "lt_type a \<noteq> DOCUMENT_NODE" if "a \<in> A" for a
    using ed that by (simp_all add: sources_def)
  have at: "\<exists>u l r. child_at p h (length l) = Some (addr u) \<and> ts = l @ u # r \<and> length l = i" if "i < length ts" for i
    using that ed child_at_rep [of h par prv nxt p ty v ts i] id_take_nth_drop [of i ts]
    by (intro exI [of _ "ts ! i"] exI [of _ "take i ts"] exI [of _ "drop (Suc i) ts"]) simp
  show ?thesis
  proof (cases e)
    case (Append a)
    with fits have a: "a \<in> A" by simp
    obtain h' t' where h': "InsertEndChild p (addr a) h = Some (addr t', h')" "rep h' par prv nxt (Node p ty v (ts @ [t']))"
      "is_copy h h' [a] [t']" "extends (set (p # all_ptrs ts)) h h'"
      using InsertEndChild_rep [OF _ _ _ src [OF a]] ed by meson
    have c: "set (all_ptrs (ts @ [t'])) \<subseteq> set (all_ptrs ts) \<union> set (ptrs t')" by auto
    from copy_edit [OF ed h'(3,4) c] h' ed Append show ?thesis
      by (intro exI [of _ h'] exI [of _ "ts @ [t']"]) auto
  next
    case (Before i a)
    with fits have a: "a \<in> A" "i < length ts" by simp_all
    obtain u l r where u: "child_at p h (length l) = Some (addr u)" "ts = l @ u # r" "length l = i" using at [OF a(2)] by blast
    obtain h' t' where h': "InsertBeforeChild p (addr u) (addr a) h = Some (addr t', h')"
      "rep h' par prv nxt (Node p ty v (l @ t' # u # r))" "is_copy h h' [a] [t']" "extends (set (p # all_ptrs ts)) h h'"
      using before.insert_rep [OF _ _ _ src [OF a(1)]] ed unfolding InsertBeforeChild_def u(2) by meson
    have c: "set (all_ptrs (l @ t' # u # r)) \<subseteq> set (all_ptrs ts) \<union> set (ptrs t')" using u(2) by auto
    from copy_edit [OF ed h'(3,4) c] h' ed u Before show ?thesis
      by (intro exI [of _ h'] exI [of _ "l @ t' # u # r"]) auto
  next
    case (After i a)
    with fits have a: "a \<in> A" "i < length ts" by simp_all
    obtain u l r where u: "child_at p h (length l) = Some (addr u)" "ts = l @ u # r" "length l = i" using at [OF a(2)] by blast
    obtain h' t' where h': "InsertAfterChild p (addr u) (addr a) h = Some (addr t', h')"
      "rep h' par prv nxt (Node p ty v (l @ u # t' # r))" "is_copy h h' [a] [t']" "extends (set (p # all_ptrs ts)) h h'"
      using after.insert_rep [OF _ _ _ src [OF a(1)]] ed unfolding InsertAfterChild_def u(2) by meson
    have c: "set (all_ptrs (l @ u # t' # r)) \<subseteq> set (all_ptrs ts) \<union> set (ptrs t')" using u(2) by auto
    from copy_edit [OF ed h'(3,4) c] h' ed u After show ?thesis
      by (intro exI [of _ h'] exI [of _ "l @ u # t' # r"]) auto
  next
    case (Replace i a)
    with fits have a: "a \<in> A" "i < length ts" by simp_all
    obtain u l r where u: "child_at p h (length l) = Some (addr u)" "ts = l @ u # r" "length l = i" using at [OF a(2)] by blast
    obtain h' t' where h': "ReplaceChild p (addr u) (addr a) h = Some (addr t', h')"
      "rep h' par prv nxt (Node p ty v (l @ t' # r))" "is_copy h h' [a] [t']" "extends (set (p # all_ptrs ts)) h h'"
      using ReplaceChild_rep [OF _ _ _ src(1,2) [OF a(1)]] ed unfolding u(2) by meson
    have c: "set (all_ptrs (l @ t' # r)) \<subseteq> set (all_ptrs ts) \<union> set (ptrs t')" using u(2) by auto
    from copy_edit [OF ed h'(3,4) c] h' ed u Replace show ?thesis
      by (intro exI [of _ h'] exI [of _ "l @ t' # r"]) (auto simp: list_update_append)
  next
    case (Remove i)
    with fits have i: "i < length ts" by simp
    obtain u l r where u: "child_at p h (length l) = Some (addr u)" "ts = l @ u # r" "length l = i" using at [OF i] by blast
    obtain h' where h': "RemoveChild p (addr u) h = Some (True, h')" "rep h' par prv nxt (Node p ty v (l @ r))"
      "keeps (set (p # all_ptrs ts)) h h'"
      using RemoveChild_rep [of h par prv nxt p ty v l u r] ed unfolding u(2) by meson
    have ext: "extends (set (p # all_ptrs ts)) h h'"
      by (rule keeps_extends [OF h'(3)]) (use ed rep_below_top(1) [of h par prv nxt "Node p ty v ts"] in auto)
    have "sources h' (set (p # all_ptrs (l @ r))) A" by (rule sources_kept [OF _ _ ext]) (use ed u(2) in auto)
    with ext h' ed u Remove show ?thesis
      by (intro exI [of _ h'] exI [of _ "l @ r"]) (auto simp: extends_def)
  qed
qed

text \<open>C18: The children that a node has after any sequence of insertions of copies, replacements and removals are those
  that the same edits of a list of trees make, while each edit finds its position by walking the children and its
  source, a tree elsewhere in the heap, unchanged. No operation follows a null or dangling pointer, fails an
  \<open>assert\<close> or runs on for ever, and the node keeps its own place in the tree around it.\<close>

theorem children_are_edited_as_a_list:
  assumes "heap_ok h" "rep h par prv nxt (Node p ty v ts)" "distinct (p # all_ptrs ts)"
    and "sources h (set (p # all_ptrs ts)) A" "edits_fit A (map shape ts) es"
  shows "\<exists>h' ts'. run_edits p es h = Some h' \<and> rep h' par prv nxt (Node p ty v ts') \<and> distinct (p # all_ptrs ts') \<and>
    map shape ts' = fold edit_list es (map shape ts)"
proof -
  have "editable h par prv nxt A p ty v ts" using assms by blast
  then show ?thesis using assms(5)
  proof (induction es arbitrary: h ts)
    case (Cons e es)
    then obtain h1 ts1 where 1: "edit_children p e h = Some h1" "editable h1 par prv nxt A p ty v ts1"
      "map shape ts1 = edit_list e (map shape ts)"
      using edit_step [of h par prv nxt p ty v ts A e] by auto
    with Cons.IH [OF 1(2)] Cons.prems(2) show ?case by auto
  qed auto
qed

text \<open>An element with two children, and a third node to copy.\<close>

definition three_nodes :: node_heap where
  "three_nodes = \<lparr>nodes =
     [1 \<mapsto> \<lparr>ln_type = ELEMENT_NODE, ln_value = ''m'', ln_parent = 0, ln_firstChild = 2, ln_lastChild = 3, ln_prev = 0, ln_next = 0\<rparr>,
      2 \<mapsto> \<lparr>ln_type = ELEMENT_NODE, ln_value = ''a'', ln_parent = 1, ln_firstChild = 0, ln_lastChild = 0, ln_prev = 0, ln_next = 3\<rparr>,
      3 \<mapsto> \<lparr>ln_type = TEXT_NODE, ln_value = ''b'', ln_parent = 1, ln_firstChild = 0, ln_lastChild = 0, ln_prev = 2, ln_next = 0\<rparr>,
      4 \<mapsto> \<lparr>ln_type = COMMENT_NODE, ln_value = ''c'', ln_parent = 0, ln_firstChild = 0, ln_lastChild = 0, ln_prev = 0, ln_next = 0\<rparr>],
     heap_top = 5, heap_errors = (\<lambda>_. ClearError)\<rparr>"

theorem children_are_edited_as_a_list_witness:
  "\<exists>h' ts'. run_edits 1 [Before 1 (Node 4 COMMENT_NODE ''c'' []), Replace 2 (Node 4 COMMENT_NODE ''c'' []), Remove 0] three_nodes = Some h' \<and>
    rep h' 0 0 0 (Node 1 ELEMENT_NODE ''m'' ts') \<and> distinct (1 # all_ptrs ts') \<and>
    map shape ts' = [Node 0 COMMENT_NODE ''c'' [], Node 0 COMMENT_NODE ''c'' []]"
  using children_are_edited_as_a_list [of three_nodes 0 0 0 1 ELEMENT_NODE "''m''"
      "[Node 2 ELEMENT_NODE ''a'' [], Node 3 TEXT_NODE ''b'' []]" "{Node 4 COMMENT_NODE ''c'' []}"
      "[Before 1 (Node 4 COMMENT_NODE ''c'' []), Replace 2 (Node 4 COMMENT_NODE ''c'' []), Remove 0]"]
  by (simp add: three_nodes_def heap_ok_def sources_def)

end
