(* ===== verification/Xml_Handle.thy ===== *)
theory Xml_Handle
  imports Xml_Links
begin

text \<open>
  Walking over elements and \<open>TiXmlHandle\<close> (tinyXml/src/tinyxml.cpp): a handle is a pointer that may be null, and each
  of its functions goes from it to a child, or to null. On the nodes of \<open>Xml_Links\<close>.
\<close>

section \<open>Elements among siblings\<close>

definition first_child :: "ptr \<Rightarrow> node_heap \<Rightarrow> ptr option" where
  "first_child this h = map_option ln_firstChild (nodes h this)"

definition next_sibling :: "ptr \<Rightarrow> node_heap \<Rightarrow> ptr option" where
  "next_sibling this h = map_option ln_next (nodes h this)"

text \<open>The loops that look for an element; \<open>step\<close> goes on to the next candidate.\<close>

partial_function (option) find_element :: "(ptr \<Rightarrow> node_heap \<Rightarrow> ptr option) \<Rightarrow> node_heap \<Rightarrow> ptr \<Rightarrow> ptr option" where
  "find_element step h p =
     (if p = 0 then Some 0
      else Option.bind (nodes h p) (\<lambda>n.
        if ln_type n = ELEMENT_NODE then Some p else Option.bind (step p h) (find_element step h)))"

definition node_FirstChildElement :: "ptr \<Rightarrow> node_heap \<Rightarrow> ptr option" where
  "node_FirstChildElement this h = Option.bind (first_child this h) (find_element next_sibling h)"

definition NextSiblingElement :: "ptr \<Rightarrow> node_heap \<Rightarrow> ptr option" where
  "NextSiblingElement this h = Option.bind (next_sibling this h) (find_element next_sibling h)"

definition FirstChildElement_value :: "bytes \<Rightarrow> ptr \<Rightarrow> node_heap \<Rightarrow> ptr option" where
  "FirstChildElement_value v this h =
     (if c_str v = [] then Some 0 else Option.bind (node_FirstChild v this h) (find_element (NextSibling v) h))"

definition NextSiblingElement_value :: "bytes \<Rightarrow> ptr \<Rightarrow> node_heap \<Rightarrow> ptr option" where
  "NextSiblingElement_value v this h =
     (if c_str v = [] then Some 0 else Option.bind (NextSibling v this h) (find_element (NextSibling v) h))"

section \<open>Handles\<close>

text \<open>\<open>TiXmlHandle( 0 )\<close> is the handle 0.\<close>

definition handle_by :: "(ptr \<Rightarrow> node_heap \<Rightarrow> ptr option) \<Rightarrow> ptr \<Rightarrow> node_heap \<Rightarrow> ptr option" where
  "handle_by get node h = (if node \<noteq> 0 then get node h else Some 0)"

definition handle_FirstChild :: "ptr \<Rightarrow> node_heap \<Rightarrow> ptr option" where
  "handle_FirstChild = handle_by first_child"

definition handle_FirstChild_value :: "bytes \<Rightarrow> ptr \<Rightarrow> node_heap \<Rightarrow> ptr option" where
  "handle_FirstChild_value v = handle_by (node_FirstChild v)"

definition handle_FirstChildElement :: "ptr \<Rightarrow> node_heap \<Rightarrow> ptr option" where
  "handle_FirstChildElement = handle_by node_FirstChildElement"

definition handle_FirstChildElement_value :: "bytes \<Rightarrow> ptr \<Rightarrow> node_heap \<Rightarrow> ptr option" where
  "handle_FirstChildElement_value v = handle_by (FirstChildElement_value v)"

text \<open>\<open>for ( i=0; child && i<count; child = ..., ++i )\<close>, with the steps that are left.\<close>

fun advance :: "(ptr \<Rightarrow> node_heap \<Rightarrow> ptr option) \<Rightarrow> node_heap \<Rightarrow> nat \<Rightarrow> ptr \<Rightarrow> ptr option" where
  "advance step h 0 child = Some child"
| "advance step h (Suc n) child = (if child = 0 then Some 0 else Option.bind (step child h) (advance step h n))"

definition handle_nth :: "(ptr \<Rightarrow> node_heap \<Rightarrow> ptr option) \<Rightarrow> (ptr \<Rightarrow> node_heap \<Rightarrow> ptr option) \<Rightarrow>
    int \<Rightarrow> ptr \<Rightarrow> node_heap \<Rightarrow> ptr option" where
  "handle_nth get step count node h =
     (if node \<noteq> 0 then Option.bind (get node h) (advance step h (nat count)) else Some 0)"

definition handle_Child :: "int \<Rightarrow> ptr \<Rightarrow> node_heap \<Rightarrow> ptr option" where
  "handle_Child = handle_nth first_child next_sibling"

definition handle_Child_value :: "bytes \<Rightarrow> int \<Rightarrow> ptr \<Rightarrow> node_heap \<Rightarrow> ptr option" where
  "handle_Child_value v = handle_nth (node_FirstChild v) (NextSibling v)"

definition handle_ChildElement :: "int \<Rightarrow> ptr \<Rightarrow> node_heap \<Rightarrow> ptr option" where
  "handle_ChildElement = handle_nth node_FirstChildElement NextSiblingElement"

definition handle_ChildElement_value :: "bytes \<Rightarrow> int \<Rightarrow> ptr \<Rightarrow> node_heap \<Rightarrow> ptr option" where
  "handle_ChildElement_value v = handle_nth (FirstChildElement_value v) (NextSiblingElement_value v)"

section \<open>What they select\<close>

text \<open>Finding the first of the children with a property, and from a child the next one.\<close>

abbreviation first_with :: "(ltree \<Rightarrow> bool) \<Rightarrow> ltree list \<Rightarrow> ptr" where
  "first_with P ts \<equiv> head_or (filter P ts) 0"

locale child_search =
  fixes get step :: "ptr \<Rightarrow> node_heap \<Rightarrow> ptr option" and P :: "ltree \<Rightarrow> bool"
  assumes find_first: "rep h par prv nxt (Node p ty v ts) \<Longrightarrow> get p h = Some (first_with P ts)"
    and step_next: "rep h par prv nxt (Node p ty v (ts @ u # us)) \<Longrightarrow> step (addr u) h = Some (first_with P us)"
begin

lemma advance_rep:
  "rep h par prv nxt (Node p ty v (ts @ us)) \<Longrightarrow> advance step h n (first_with P us) = Some (head_or (drop n (filter P us)) 0)"
proof (induction n arbitrary: ts us)
  case (Suc n)
  show ?case
  proof (cases "filter P us")
    case Nil
    then show ?thesis by simp
  next
    case (Cons u vs)
    then obtain l r where us: "us = l @ u # r" "vs = filter P r" by (auto simp: filter_eq_Cons_iff)
    then have r: "rep h par prv nxt (Node p ty v ((ts @ l) @ u # r))" using Suc.prems by simp
    then have "0 \<notin> set (ptrs u)" using rep_nonzero(1) [OF r] by simp
    then have "addr u \<noteq> 0" by (metis addr_in)
    with Cons us step_next [OF r] Suc.IH [of "ts @ l @ [u]" r] r show ?thesis by simp
  qed
qed simp

lemma handle_nth_rep:
  assumes "rep h par prv nxt (Node p ty v ts)"
  shows "handle_nth get step count p h = Some (head_or (drop (nat count) (filter P ts)) 0)"
  using find_first [OF assms] advance_rep [of h par prv nxt p ty v "[]" ts] assms
  by (simp add: handle_nth_def)

end

lemma named_filter: "head_or (named w ts) d = head_or (filter (\<lambda>t. c_str (lt_value t) = c_str w) ts) d"
  by (induction ts) (auto simp: named_def)

lemma next_sibling_rep:
  assumes "rep h par prv nxt (Node p ty v (ts @ u # us))"
  shows "next_sibling (addr u) h = Some (head_or us 0)"
proof -
  have "rep h p (last_or ts 0) (head_or us 0) u" using assms by (simp add: chain_append)
  then show ?thesis by (auto simp: next_sibling_def elim!: rep_root)
qed

definition has_value :: "bytes \<Rightarrow> ltree \<Rightarrow> bool" where
  "has_value w = (\<lambda>t. c_str w \<noteq> [] \<and> c_str (lt_value t) = c_str w)"

lemma NextSibling_rep:
  assumes "rep h par prv nxt (Node p ty v (ts @ u # us))"
  shows "NextSibling w (addr u) h = Some (first_with (has_value w) us)"
  using searches_rep(3) [OF assms, of w] by (cases "c_str w = []") (simp_all add: NextSibling_def has_value_def named_filter)

lemma node_FirstChild_rep:
  assumes "rep h par prv nxt (Node p ty v ts)"
  shows "node_FirstChild w p h = Some (first_with (has_value w) ts)"
proof (cases "c_str w = []")
  case False
  have "node_FirstChild w p h = Some (head_or (named w ts) 0)"
    using find_forwards [of h p 0 ts w] assms False by (simp add: node_FirstChild_def)
  with False show ?thesis by (simp add: named_filter has_value_def)
qed (simp add: node_FirstChild_def has_value_def)

interpretation any_child: child_search first_child next_sibling "\<lambda>_. True"
  by unfold_locales (simp_all add: first_child_def next_sibling_rep)

interpretation child_by_value: child_search "node_FirstChild w" "NextSibling w" "has_value w" for w
  by unfold_locales (simp_all add: node_FirstChild_rep NextSibling_rep)

text \<open>The search for an element among the candidates that \<open>step\<close> visits.\<close>

abbreviation is_element :: "ltree \<Rightarrow> bool" where
  "is_element t \<equiv> lt_type t = ELEMENT_NODE"

context child_search
begin

lemma find_element_rep:
  "rep h par prv nxt (Node p ty v (ts @ us)) \<Longrightarrow>
    find_element step h (first_with P us) = Some (first_with (\<lambda>t. P t \<and> is_element t) us)"
proof (induction us arbitrary: ts rule: measure_induct_rule [of length])
  case (less us)
  show ?case
  proof (cases "filter P us")
    case Nil
    then have "filter (\<lambda>t. P t \<and> is_element t) us = []" by (auto simp: filter_empty_conv)
    with Nil show ?thesis by (subst find_element.simps) simp
  next
    case (Cons u vs)
    then obtain l r where us: "us = l @ u # r" "vs = filter P r" "\<forall>t \<in> set l. \<not> P t" "P u" by (auto simp: filter_eq_Cons_iff)
    then have r: "rep h par prv nxt (Node p ty v ((ts @ l) @ u # r))" using less.prems by simp
    then have "0 \<notin> set (ptrs u)" using rep_nonzero(1) [OF r] by simp
    then have nz: "addr u \<noteq> 0" by (metis addr_in)
    have "rep h p (last_or (ts @ l) 0) (head_or r 0) u" using r by (simp add: chain_append)
    then obtain n where n: "nodes h (addr u) = Some n" "ln_type n = lt_type u" by (rule rep_root)
    have "filter (\<lambda>t. P t \<and> is_element t) us = (if is_element u then [u] else []) @ filter (\<lambda>t. P t \<and> is_element t) r"
      using us by (auto simp: filter_empty_conv)
    moreover have "find_element step h (first_with P r) = Some (first_with (\<lambda>t. P t \<and> is_element t) r)"
      using less.IH [of r "ts @ l @ [u]"] us r by simp
    ultimately show ?thesis
      using Cons nz n step_next [OF r] by (subst find_element.simps) simp
  qed
qed

end

interpretation element_child: child_search node_FirstChildElement NextSiblingElement is_element
proof
  show "node_FirstChildElement p h = Some (first_with is_element ts)" if "rep h par prv nxt (Node p ty v ts)" for h par prv nxt p ty v ts
    using any_child.find_first [OF that] any_child.find_element_rep [of h par prv nxt p ty v "[]" ts] that
    by (simp add: node_FirstChildElement_def)
  show "NextSiblingElement (addr u) h = Some (first_with is_element us)"
    if "rep h par prv nxt (Node p ty v (ts @ u # us))" for h par prv nxt p ty v ts u us
    using any_child.step_next [OF that] any_child.find_element_rep [of h par prv nxt p ty v "ts @ [u]" us] that
    by (simp add: NextSiblingElement_def)
qed

interpretation element_by_value: child_search "FirstChildElement_value w" "NextSiblingElement_value w"
    "\<lambda>t. has_value w t \<and> is_element t" for w
proof
  show "FirstChildElement_value w p h = Some (first_with (\<lambda>t. has_value w t \<and> is_element t) ts)"
    if "rep h par prv nxt (Node p ty v ts)" for h par prv nxt p ty v ts
    using child_by_value.find_first [OF that] child_by_value.find_element_rep [of h par prv nxt p ty v "[]" ts] that
    by (cases "c_str w = []", simp add: FirstChildElement_value_def has_value_def) (simp add: FirstChildElement_value_def)
  show "NextSiblingElement_value w (addr u) h = Some (first_with (\<lambda>t. has_value w t \<and> is_element t) us)"
    if "rep h par prv nxt (Node p ty v (ts @ u # us))" for h par prv nxt p ty v ts u us
    using child_by_value.step_next [OF that] child_by_value.find_element_rep [of h par prv nxt p ty v "ts @ [u]" us] that
    by (cases "c_str w = []", simp add: NextSiblingElement_value_def has_value_def) (simp add: NextSiblingElement_value_def)
qed

text \<open>What the handles lead to: the child at a position among all children, those with a value, the elements, or the
  elements with a value; null behind the last. A negative position counts as 0.\<close>

lemma handles_select_children:
  assumes "rep h par prv nxt (Node p ty v ts)"
  shows "handle_Child count p h = Some (head_or (drop (nat count) ts) 0) \<and>
    handle_Child_value w count p h = Some (head_or (drop (nat count) (filter (has_value w) ts)) 0) \<and>
    handle_ChildElement count p h = Some (head_or (drop (nat count) (filter is_element ts)) 0) \<and>
    handle_ChildElement_value w count p h =
      Some (head_or (drop (nat count) (filter (\<lambda>t. has_value w t \<and> is_element t) ts)) 0)"
  using any_child.handle_nth_rep [OF assms] child_by_value.handle_nth_rep [OF assms]
    element_child.handle_nth_rep [OF assms] element_by_value.handle_nth_rep [OF assms]
  by (simp add: handle_Child_def handle_Child_value_def handle_ChildElement_def handle_ChildElement_value_def)

end
