(* ===== verification/Xml_Values.thy ===== *)
theory Xml_Values
  imports Xml_Doc
begin

text \<open>
  Attributes with integer and floating-point values, the \<open>FILE\<close> version of \<open>PrintChildren\<close>, and loading and saving under the
  document's own name (tinyXml/src/tinyxml.cpp).
\<close>

section \<open>Integers in attributes\<close>

text \<open>\<open>TIXML_SUCCESS\<close> with the value, or why there is none. The outer \<open>option\<close> is \<open>None\<close> for a number that is no
  \<open>int\<close>, for which \<open>sscanf\<close> is undefined.\<close>

datatype 'a query_result = Success 'a | Wrong_type | No_attribute

definition starts_number :: "bytes \<Rightarrow> bool" where
  "starts_number s =
     (let t = dropWhile is_space (c_str s);
          u = (if t \<noteq> [] \<and> (hd t = CHR ''-'' \<or> hd t = CHR ''+'') then tl t else t)
      in u \<noteq> [] \<and> 48 \<le> byte_val (hd u) \<and> byte_val (hd u) < 58)"

definition QueryIntValue :: "bytes \<Rightarrow> int query_result option" where
  "QueryIntValue v = (if starts_number v then map_option Success (atoi v) else Some Wrong_type)"

definition IntValue :: "bytes \<Rightarrow> int option" where
  "IntValue v = atoi v"

text \<open>\<open>SetIntValue\<close> of an attribute; the text of an \<open>int\<close> fits the array of 64 characters.\<close>

definition SetIntValue :: "int \<Rightarrow> bytes \<times> bytes \<Rightarrow> bytes \<times> bytes" where
  "SetIntValue i a = (fst a, snprintf 64 (show_int i))"

definition QueryIntAttribute :: "bytes \<Rightarrow> (bytes \<times> bytes) list \<Rightarrow> int query_result option" where
  "QueryIntAttribute name as =
     (case attr_Find name as of None \<Rightarrow> Some No_attribute | Some v \<Rightarrow> QueryIntValue v)"

text \<open>\<open>Previous\<close> from the last attribute on: like \<open>Next\<close> it takes an empty one for the sentinel.\<close>

definition attr_iterate_back :: "(bytes \<times> bytes) list \<Rightarrow> (bytes \<times> bytes) list" where
  "attr_iterate_back as = attr_iterate (rev as)"

text \<open>\<open>ClearThis\<close> removes the attributes from the front one by one.\<close>

function clear_attributes :: "(bytes \<times> bytes) list \<Rightarrow> (bytes \<times> bytes) list" where
  "clear_attributes as = (if as = [] then [] else clear_attributes (attr_Remove (fst (hd as)) as))"
  by pat_completeness auto
termination
  by (relation "measure length") (auto simp: neq_Nil_conv)

fun ClearThis :: "xml_node \<Rightarrow> xml_node" where
  "ClearThis (ELEMENT n as cs) = ELEMENT n (clear_attributes as) []"
| "ClearThis n = n"

section \<open>Floating-point numbers in attributes\<close>

text \<open>The type \<open>double\<close> and the functions of the C library that read and write it are parameters: \<open>sscanf\<close> with
  \<open>%lf\<close>, \<open>atof\<close>, zero, the text that \<open>%f\<close> stands for, and the conversion to \<open>float\<close>.\<close>

record ('d, 'f) doubles =
  scan_double :: "bytes \<Rightarrow> 'd option"
  atof :: "bytes \<Rightarrow> 'd"
  double_zero :: 'd
  double_text :: "'d \<Rightarrow> bytes"
  to_float :: "'d \<Rightarrow> 'f"

definition QueryDoubleValue :: "('d, 'f) doubles \<Rightarrow> bytes \<Rightarrow> 'd query_result" where
  "QueryDoubleValue F v = (case scan_double F (c_str v) of Some x \<Rightarrow> Success x | None \<Rightarrow> Wrong_type)"

definition DoubleValue :: "('d, 'f) doubles \<Rightarrow> bytes \<Rightarrow> 'd" where
  "DoubleValue F v = atof F (c_str v)"

definition SetDoubleValue :: "('d, 'f) doubles \<Rightarrow> 'd \<Rightarrow> bytes \<times> bytes \<Rightarrow> bytes \<times> bytes" where
  "SetDoubleValue F x a = (fst a, snprintf 256 (double_text F x))"

definition Attribute_double :: "('d, 'f) doubles \<Rightarrow> bytes \<Rightarrow> xml_node \<Rightarrow> bytes \<times> 'd" where
  "Attribute_double F name e =
     (let s = Attribute name e in (s, if s \<noteq> [] then atof F s else double_zero F))"

definition QueryDoubleAttribute :: "('d, 'f) doubles \<Rightarrow> bytes \<Rightarrow> (bytes \<times> bytes) list \<Rightarrow> 'd query_result" where
  "QueryDoubleAttribute F name as =
     (case attr_Find name as of None \<Rightarrow> No_attribute | Some v \<Rightarrow> QueryDoubleValue F v)"

definition QueryFloatAttribute :: "('d, 'f) doubles \<Rightarrow> bytes \<Rightarrow> (bytes \<times> bytes) list \<Rightarrow> 'f query_result" where
  "QueryFloatAttribute F name as =
     (case QueryDoubleAttribute F name as of
        Success x \<Rightarrow> Success (to_float F x)
      | Wrong_type \<Rightarrow> Wrong_type
      | No_attribute \<Rightarrow> No_attribute)"

definition SetDoubleAttribute :: "('d, 'f) doubles \<Rightarrow> bytes \<Rightarrow> 'd \<Rightarrow> (bytes \<times> bytes) list \<Rightarrow> (bytes \<times> bytes) list" where
  "SetDoubleAttribute F name val as =
     (if c_str name = [] then as else SetAttribute name (snprintf 256 (double_text F val)) as)"

section \<open>Files\<close>

fun PrintChildren_fprint :: "nat \<Rightarrow> xml_node \<Rightarrow> bytes" where
  "PrintChildren_fprint depth (ELEMENT n as cs) =
     concat (replicate depth ''    '') @
     (if depth \<noteq> 0 then ''<'' @ c_str n @ concat (map (\<lambda>a. '' '' @ Attribute_fprint a) (attr_iterate as)) else []) @
     (if cs = [] then (if depth \<noteq> 0 then '' />'' else [])
      else if length cs = 1 \<and> ToText (hd cs) then
        (if depth \<noteq> 0 then ''>'' else []) @ node_fprint (depth + 1) (hd cs) @
        (if depth \<noteq> 0 then ''</'' @ c_str n @ ''>'' else [])
      else
        (if depth \<noteq> 0 then ''>'' else []) @
        concat (map (\<lambda>c. (if ToText c then [] else newline) @ node_fprint (depth + 1) c) cs) @
        newline @ concat (replicate depth ''    '') @ (if depth \<noteq> 0 then ''</'' @ c_str n @ ''>'' else []))"
| "PrintChildren_fprint depth _ = []"

text \<open>\<open>SaveFile\<close> under a name: \<open>opens\<close> tells whether \<open>fopen\<close> succeeds and \<open>fails\<close> whether a write to the file did. The
  result, and what the file then holds if it was opened.\<close>

definition SaveFile_name :: "(bytes \<Rightarrow> bool) \<Rightarrow> bool \<Rightarrow> bytes \<Rightarrow> xml_doc \<Rightarrow> bool \<times> bytes option" where
  "SaveFile_name opens fails filename d =
     (if opens (c_str filename) then (\<not> fails, Some (SaveFile_FILE d)) else (False, None))"

definition SaveFile_own :: "(bytes \<Rightarrow> bool) \<Rightarrow> bool \<Rightarrow> xml_doc \<Rightarrow> bool \<times> bytes option" where
  "SaveFile_own opens fails d = SaveFile_name opens fails (c_str (doc_value d)) d"

section \<open>What they do\<close>

lemma show_nat_chars:
  assumes "c \<in> set (show_nat n)"
  shows "c \<noteq> NUL" "\<not> is_space c" "c \<noteq> CHR ''-''" "c \<noteq> CHR ''+''"
  using show_nat_digits [OF assms] by (auto simp: is_space_def)

lemma show_nat_read:
  "takeWhile (\<lambda>c. 48 \<le> byte_val c \<and> byte_val c < 58) (show_nat n) = show_nat n" "c_str (show_nat n) = show_nat n"
    "dropWhile is_space (show_nat n) = show_nat n" "hd (show_nat n) \<noteq> CHR ''-''" "hd (show_nat n) \<noteq> CHR ''+''"
    "48 \<le> byte_val (hd (show_nat n)) \<and> byte_val (hd (show_nat n)) < 58"
proof -
  show "takeWhile (\<lambda>c. 48 \<le> byte_val c \<and> byte_val c < 58) (show_nat n) = show_nat n"
    using show_nat_digits by (simp add: takeWhile_eq_all_conv)
  show "c_str (show_nat n) = show_nat n" using show_nat_chars(1) by (auto simp: c_str_def takeWhile_eq_all_conv)
  have hd: "hd (show_nat n) \<in> set (show_nat n)" by simp
  show "dropWhile is_space (show_nat n) = show_nat n"
    using show_nat_chars(2) [OF hd] by (cases "show_nat n") auto
  show "hd (show_nat n) \<noteq> CHR ''-''" "hd (show_nat n) \<noteq> CHR ''+''" by (rule show_nat_chars [OF hd])+
  show "48 \<le> byte_val (hd (show_nat n)) \<and> byte_val (hd (show_nat n)) < 58" by (rule show_nat_digits [OF hd])
qed

lemma c_str_show_int: "c_str (show_int i) = show_int i"
  using show_nat_read(2) by (simp add: show_int_def c_str_def)

lemma read_show_int:
  assumes "- (2 ^ 31) \<le> i" "i < 2 ^ 31"
  shows "QueryIntValue (show_int i) = Some (Success i)"
proof -
  have some_digit: "\<exists>c \<in> set (show_nat n). \<not> is_space c" for n
    using show_nat_chars(2) hd_in_set [OF show_nat_nonempty] by blast
  have "\<not> is_space (CHR ''-'')" by (simp add: is_space_def)
  then have "starts_number (show_int i)" "atoi (show_int i) = Some i"
    unfolding starts_number_def atoi_def c_str_show_int
    using assms some_digit by (auto simp: show_int_def Let_def show_nat_read)
  then show ?thesis by (simp add: QueryIntValue_def)
qed

lemma attr_Find_Set: "attr_Find name as \<noteq> None \<Longrightarrow> attr_Find name (attr_Set name v as) = Some v"
  by (induction name v as rule: attr_Set.induct) (auto simp: attr_Find_def)

lemma attr_Find_Add: "attr_Find name as = None \<Longrightarrow> attr_Find name (attr_Add (c_str name, v) as) = Some v"
  by (induction as) (auto simp: attr_Find_def attr_Add_def split: if_splits)

text \<open>An integer that was stored is read back.\<close>

lemma stored_integer_is_read:
  assumes "c_str name \<noteq> []" "- (2 ^ 31) \<le> i" "i < 2 ^ 31"
  shows "QueryIntAttribute name (SetAttribute_int name i as) = Some (Success i)"
proof -
  have "attr_Find name (SetAttribute_int name i as) = Some (show_int i)"
    using assms(1) attr_Find_Set [of name as] attr_Find_Add [of name as]
    by (simp add: SetAttribute_int_def SetAttribute_def c_str_show_int)
  with read_show_int [OF assms(2,3)] show ?thesis by (simp add: QueryIntAttribute_def)
qed

text \<open>A \<open>double\<close> that was stored is read back from the first 255 characters of its text.\<close>

lemma stored_double_is_read:
  assumes "c_str name \<noteq> []" "NUL \<notin> set (double_text F x)"
  shows "QueryDoubleAttribute F name (SetDoubleAttribute F name x as) =
    (case scan_double F (take 255 (double_text F x)) of Some y \<Rightarrow> Success y | None \<Rightarrow> Wrong_type)"
proof -
  have v: "c_str (take 255 (double_text F x)) = take 255 (double_text F x)"
    using assms(2) by (auto intro!: c_str_id dest: in_set_takeD)
  have "attr_Find name (SetAttribute name t as) = Some (c_str t)" for t
    using assms(1) attr_Find_Set [of name as] attr_Find_Add [of name as] by (simp add: SetAttribute_def)
  then have "attr_Find name (SetDoubleAttribute F name x as) = Some (take 255 (double_text F x))"
    using assms(1) v by (simp add: SetDoubleAttribute_def snprintf_def)
  then show ?thesis by (simp add: QueryDoubleAttribute_def QueryDoubleValue_def v)
qed

text \<open>The text of a large \<open>double\<close> is longer: \<open>%f\<close> writes \<open>1e300\<close> with 301 digits before the point, and what
  is read back is \<open>1e254\<close>. Here the numbers are those without a fraction.\<close>

definition whole_doubles :: "(nat, nat) doubles" where
  "whole_doubles =
     \<lparr>scan_double = (\<lambda>s. if starts_number s then Some (val_nat (takeWhile (\<lambda>c. 48 \<le> byte_val c \<and> byte_val c < 58) s)) else None),
      atof = (\<lambda>s. val_nat (takeWhile (\<lambda>c. 48 \<le> byte_val c \<and> byte_val c < 58) s)), double_zero = 0,
      double_text = (\<lambda>n. show_nat n @ ''.000000''), to_float = id\<rparr>"

lemma digits: "digit 0 = CHR ''0''" "digit (Suc 0) = CHR ''1''"
  by code_simp+

lemma show_nat_power: "show_nat (10 ^ n) = CHR ''1'' # replicate n (CHR ''0'')"
proof (induction n)
  case 0
  show ?case by (subst show_nat.simps) (simp add: digits)
next
  case (Suc n)
  then show ?case by (subst show_nat.simps) (simp add: digits flip: replicate_append_same)
qed

lemma large_double_changes:
  "QueryDoubleAttribute whole_doubles ''x'' (SetDoubleAttribute whole_doubles ''x'' (10 ^ 300) []) = Success (10 ^ 254)"
proof -
  have "take 255 (show_nat (10 ^ 300) @ ''.000000'') = show_nat (10 ^ 254)"
    unfolding show_nat_power by (simp add: take_Cons' min_def)
  moreover have "NUL \<notin> set (show_nat (10 ^ 300))" using show_nat_chars(1) by blast
  moreover have "starts_number (show_nat (10 ^ 254))"
    unfolding starts_number_def by (simp add: show_nat_read Let_def)
  ultimately show ?thesis
    by (subst stored_double_is_read) (simp_all add: whole_doubles_def show_nat_read c_str_def)
qed

lemma clear_attributes_empty: "clear_attributes as = []"
  by (induction as rule: clear_attributes.induct) (subst clear_attributes.simps, simp)

lemma PrintChildren_fprint_concat: "PrintChildren_fprint depth e = concat (PrintChildren depth e)"
proof (cases e)
  case (ELEMENT n as cs)
  have *: "concat (if b then [] else [newline]) = (if b then [] else newline)" for b by simp
  show ?thesis
    by (cases cs) (simp_all add: ELEMENT * node_fprint_concat indentation_def start_tag_def end_tag_def
      Attribute_fprint_concat concat_concat_map o_def)
qed simp_all

end
