(* ===== verification/Tiny_String.thy ===== *)
theory Tiny_String
  imports Smart_Buffer
begin

text \<open>
  \<open>TiXmlString\<close> (include/XML/tinystr.h, tinyXml/src/tinystr.cpp), the string class of tinyXML: a block with
  the size, the capacity and \<open>capacity + 1\<close> characters, the one at \<open>size\<close> being NUL. The XML theories take
  such a string for the list of its bytes; this theory shows that its operations are those of lists.

  The bytes of a new block are what was in memory, \<open>junk\<close>. An operation is \<open>None\<close> where it would write
  outside the block or read a block that was freed. Sizes are naturals: \<open>size_t\<close> does not wrap before
  memory is exhausted.
\<close>

section \<open>Operations\<close>

record tstring =
  ts_size :: nat
  ts_capacity :: nat
  ts_str :: bytes

text \<open>The static object that all strings without a block share; nothing changes it.\<close>

definition nullrep :: tstring where
  "nullrep = \<lparr>ts_size = 0, ts_capacity = 0, ts_str = [NUL]\<rparr>"

definition ts_init :: "(nat \<Rightarrow> char) \<Rightarrow> nat \<Rightarrow> nat \<Rightarrow> tstring option" where
  "ts_init junk sz cap =
     (if cap = 0 then Some nullrep
      else do {
        mem \<leftarrow> blit (map junk [0..<Suc cap]) sz [NUL];
        Some \<lparr>ts_size = sz, ts_capacity = cap, ts_str = mem\<rparr>
      })"

definition set_size :: "nat \<Rightarrow> tstring \<Rightarrow> tstring option" where
  "set_size sz s = do {
     mem \<leftarrow> blit (ts_str s) sz [NUL];
     Some (s\<lparr>ts_size := sz, ts_str := mem\<rparr>)
   }"

text \<open>\<open>memcpy\<close> or \<open>memmove\<close> to a place of the block.\<close>

definition ts_write :: "nat \<Rightarrow> bytes \<Rightarrow> tstring \<Rightarrow> tstring option" where
  "ts_write off src s = do {
     mem \<leftarrow> blit (ts_str s) off src;
     Some (s\<lparr>ts_str := mem\<rparr>)
   }"

definition ts_data :: "tstring \<Rightarrow> bytes" where
  "ts_data s = ts_str s"

definition ts_c_str :: "tstring \<Rightarrow> bytes" where
  "ts_c_str s = c_str (ts_str s)"

definition ts_new_len :: "(nat \<Rightarrow> char) \<Rightarrow> bytes \<Rightarrow> nat \<Rightarrow> tstring option" where
  "ts_new_len junk str len = Option.bind (ts_init junk len len) (ts_write 0 (take len str))"

definition ts_new :: "(nat \<Rightarrow> char) \<Rightarrow> bytes \<Rightarrow> tstring option" where
  "ts_new junk copy = ts_new_len junk (c_str copy) (length (c_str copy))"

definition ts_copy :: "(nat \<Rightarrow> char) \<Rightarrow> tstring \<Rightarrow> tstring option" where
  "ts_copy junk copy = ts_new_len junk (ts_data copy) (ts_size copy)"

definition ts_reserve :: "(nat \<Rightarrow> char) \<Rightarrow> nat \<Rightarrow> tstring \<Rightarrow> tstring option" where
  "ts_reserve junk cap s =
     (if ts_capacity s < cap
      then Option.bind (ts_init junk (ts_size s) cap) (ts_write 0 (take (ts_size s) (ts_data s)))
      else Some s)"

definition ts_assign :: "(nat \<Rightarrow> char) \<Rightarrow> bytes \<Rightarrow> tstring \<Rightarrow> tstring option" where
  "ts_assign junk str s =
     (let len = length str; cap = ts_capacity s in
      if cap < len \<or> 3 * (len + 8) < cap then Option.bind (ts_init junk len len) (ts_write 0 str)
      else Option.bind (ts_write 0 str s) (set_size len))"

definition ts_append :: "(nat \<Rightarrow> char) \<Rightarrow> bytes \<Rightarrow> tstring \<Rightarrow> tstring option" where
  "ts_append junk str s =
     (let newsize = ts_size s + length str in do {
        s1 \<leftarrow> (if ts_capacity s < newsize then ts_reserve junk (newsize + ts_capacity s) s else Some s);
        s2 \<leftarrow> ts_write (ts_size s1) str s1;
        set_size newsize s2
      })"

text \<open>\<open>append\<close> of a part of the string itself: \<open>reserve\<close> frees the block it is read from.\<close>

definition ts_append_own :: "nat \<Rightarrow> nat \<Rightarrow> tstring \<Rightarrow> tstring option" where
  "ts_append_own off len s =
     (if ts_capacity s < ts_size s + len then None
      else Option.bind (ts_write (ts_size s) (take len (drop off (ts_data s))) s) (set_size (ts_size s + len)))"

definition ts_plus :: "(nat \<Rightarrow> char) \<Rightarrow> tstring \<Rightarrow> tstring \<Rightarrow> tstring option" where
  "ts_plus junk a b = do {
     tmp \<leftarrow> ts_reserve junk (ts_size a + ts_size b) nullrep;
     tmp1 \<leftarrow> ts_append junk (take (ts_size a) (ts_data a)) tmp;
     ts_append junk (take (ts_size b) (ts_data b)) tmp1
   }"

definition ts_at :: "nat \<Rightarrow> tstring \<Rightarrow> char option" where
  "ts_at i s = (if i < ts_size s then Some (ts_str s ! i) else None)"

text \<open>\<open>find\<close> stops at a NUL; \<open>None\<close> is \<open>npos\<close>.\<close>

fun ts_find_from :: "char \<Rightarrow> bytes \<Rightarrow> nat \<Rightarrow> nat option" where
  "ts_find_from c [] i = None"
| "ts_find_from c (d # s) i = (if d = NUL then None else if d = c then Some i else ts_find_from c s (Suc i))"

definition ts_find :: "char \<Rightarrow> nat \<Rightarrow> tstring \<Rightarrow> nat option" where
  "ts_find c offset s = (if ts_size s \<le> offset then None else ts_find_from c (drop offset (ts_str s)) offset)"

text \<open>\<open>clear\<close> gives the block back, \<open>swap\<close> exchanges the pointers to the blocks.\<close>

definition ts_clear :: "(nat \<Rightarrow> char) \<Rightarrow> tstring \<Rightarrow> tstring option" where
  "ts_clear junk s = ts_init junk 0 0"

definition ts_swap :: "tstring \<times> tstring \<Rightarrow> tstring \<times> tstring" where
  "ts_swap ab = (snd ab, fst ab)"

definition ts_empty :: "tstring \<Rightarrow> bool" where
  "ts_empty s \<longleftrightarrow> ts_size s = 0"

text \<open>The operators. \<open>+=\<close> of the string itself is \<open>append\<close> of its own part.\<close>

definition ts_set_cstr :: "(nat \<Rightarrow> char) \<Rightarrow> bytes \<Rightarrow> tstring \<Rightarrow> tstring option" where
  "ts_set_cstr junk copy s = ts_assign junk (c_str copy) s"

definition ts_set :: "(nat \<Rightarrow> char) \<Rightarrow> tstring \<Rightarrow> tstring \<Rightarrow> tstring option" where
  "ts_set junk copy s = ts_assign junk (take (ts_size copy) (ts_data copy)) s"

definition ts_add_cstr :: "(nat \<Rightarrow> char) \<Rightarrow> bytes \<Rightarrow> tstring \<Rightarrow> tstring option" where
  "ts_add_cstr junk suffix s = ts_append junk (c_str suffix) s"

definition ts_add_char :: "(nat \<Rightarrow> char) \<Rightarrow> char \<Rightarrow> tstring \<Rightarrow> tstring option" where
  "ts_add_char junk single s = ts_append junk [single] s"

definition ts_add :: "(nat \<Rightarrow> char) \<Rightarrow> tstring \<Rightarrow> tstring \<Rightarrow> tstring option" where
  "ts_add junk suffix s = ts_append junk (take (ts_size suffix) (ts_data suffix)) s"

definition ts_add_self :: "tstring \<Rightarrow> tstring option" where
  "ts_add_self s = ts_append_own 0 (ts_size s) s"

definition ts_plus_cstr :: "(nat \<Rightarrow> char) \<Rightarrow> tstring \<Rightarrow> bytes \<Rightarrow> tstring option" where
  "ts_plus_cstr junk a b = do {
     tmp \<leftarrow> ts_reserve junk (ts_size a + length (c_str b)) nullrep;
     tmp1 \<leftarrow> ts_add junk a tmp;
     ts_append junk (c_str b) tmp1
   }"

definition ts_cstr_plus :: "(nat \<Rightarrow> char) \<Rightarrow> bytes \<Rightarrow> tstring \<Rightarrow> tstring option" where
  "ts_cstr_plus junk a b = do {
     tmp \<leftarrow> ts_reserve junk (length (c_str a) + ts_size b) nullrep;
     tmp1 \<leftarrow> ts_append junk (c_str a) tmp;
     ts_add junk b tmp1
   }"

text \<open>The comparisons go through \<open>strcmp\<close>, which compares the characters as unsigned numbers.\<close>

fun strcmp :: "bytes \<Rightarrow> bytes \<Rightarrow> int" where
  "strcmp [] [] = 0"
| "strcmp [] (d # t) = - int (byte_val d)"
| "strcmp (c # s) [] = int (byte_val c)"
| "strcmp (c # s) (d # t) = (if c = d then strcmp s t else int (byte_val c) - int (byte_val d))"

definition ts_equal :: "tstring \<Rightarrow> tstring \<Rightarrow> bool" where
  "ts_equal a b \<longleftrightarrow> ts_size a = ts_size b \<and> strcmp (ts_c_str a) (ts_c_str b) = 0"

definition ts_less :: "tstring \<Rightarrow> tstring \<Rightarrow> bool" where
  "ts_less a b \<longleftrightarrow> strcmp (ts_c_str a) (ts_c_str b) < 0"

definition ts_not_equal :: "tstring \<Rightarrow> tstring \<Rightarrow> bool" where
  "ts_not_equal a b \<longleftrightarrow> \<not> ts_equal a b"

definition ts_greater :: "tstring \<Rightarrow> tstring \<Rightarrow> bool" where
  "ts_greater a b \<longleftrightarrow> ts_less b a"

definition ts_less_eq :: "tstring \<Rightarrow> tstring \<Rightarrow> bool" where
  "ts_less_eq a b \<longleftrightarrow> \<not> ts_less b a"

definition ts_greater_eq :: "tstring \<Rightarrow> tstring \<Rightarrow> bool" where
  "ts_greater_eq a b \<longleftrightarrow> \<not> ts_less a b"

definition ts_equal_cstr :: "tstring \<Rightarrow> bytes \<Rightarrow> bool" where
  "ts_equal_cstr a b \<longleftrightarrow> strcmp (ts_c_str a) (c_str b) = 0"

section \<open>The list a string stands for\<close>

definition ts_wf :: "tstring \<Rightarrow> bool" where
  "ts_wf s \<longleftrightarrow> ts_size s \<le> ts_capacity s \<and> length (ts_str s) = Suc (ts_capacity s) \<and> ts_str s ! ts_size s = NUL"

definition ts_bytes :: "tstring \<Rightarrow> bytes" where
  "ts_bytes s = take (ts_size s) (ts_str s)"

lemma ts_bytes_length: "ts_wf s \<Longrightarrow> length (ts_bytes s) = ts_size s"
  by (simp add: ts_bytes_def ts_wf_def)

lemma ts_str_split: "ts_wf s \<Longrightarrow> \<exists>slack. ts_str s = ts_bytes s @ NUL # slack"
  unfolding ts_bytes_def ts_wf_def by (metis Cons_nth_drop_Suc append_take_drop_id le_imp_less_Suc)

text \<open>\<open>stands junk s v\<close>: the outcome \<open>s\<close> of an operation is a well-formed string of the bytes \<open>v\<close>.\<close>

definition stands :: "tstring option \<Rightarrow> bytes \<Rightarrow> bool" where
  "stands r v \<longleftrightarrow> (\<exists>s. r = Some s \<and> ts_wf s \<and> ts_bytes s = v)"

lemma nullrep_stands [simp]: "ts_wf nullrep" "ts_bytes nullrep = []"
  by (simp_all add: nullrep_def ts_wf_def ts_bytes_def)

text \<open>Writing \<open>v\<close> at the size \<open>n\<close> of what is kept and setting the size behind it.\<close>

lemma write_stands:
  assumes "length (ts_str s) = Suc (ts_capacity s)" "n + length v \<le> ts_capacity s"
  shows "stands (Option.bind (ts_write n v s) (set_size (n + length v))) (take n (ts_str s) @ v)"
  using assms by (simp add: stands_def ts_write_def set_size_def blit_Some ts_wf_def ts_bytes_def nth_append min_def)

lemma init_write_stands:
  assumes "length v \<le> cap" "0 < cap \<or> v = []"
  shows "stands (Option.bind (ts_init junk (length v) cap) (ts_write 0 v)) v"
proof (cases "cap = 0")
  case True
  with assms show ?thesis
    by (simp add: ts_init_def ts_write_def blit_Some stands_def nullrep_def ts_wf_def ts_bytes_def)
next
  case False
  with assms(1) show ?thesis
    by (simp add: ts_init_def ts_write_def blit_Some stands_def ts_wf_def ts_bytes_def nth_append)
qed

lemma ts_new_len_stands: "len \<le> length str \<Longrightarrow> stands (ts_new_len junk str len) (take len str)"
  using init_write_stands [of "take len str" len junk] by (cases len) (auto simp: ts_new_len_def min_absorb2)

lemma ts_reserve_stands:
  assumes "ts_wf s"
  shows "stands (ts_reserve junk cap s) (ts_bytes s)"
  using init_write_stands [of "ts_bytes s" cap junk] assms ts_bytes_length [OF assms]
  by (auto simp: ts_reserve_def ts_data_def ts_bytes_def stands_def ts_wf_def)

lemma ts_reserve_capacity:
  assumes "ts_wf s" "ts_reserve junk cap s = Some s'"
  shows "cap \<le> ts_capacity s' \<and> ts_size s' = ts_size s"
  using assms by (auto simp: ts_reserve_def ts_init_def ts_write_def split: if_splits bind_splits)

lemma ts_append_stands:
  assumes "ts_wf s"
  shows "stands (ts_append junk v s) (ts_bytes s @ v)"
proof -
  have *: "stands (Option.bind (ts_write (ts_size s') v s') (set_size (ts_size s' + length v))) (ts_bytes s' @ v)"
    if "ts_wf s'" "ts_size s' + length v \<le> ts_capacity s'" for s'
    using write_stands [of s' "ts_size s'" v] that by (simp add: ts_wf_def ts_bytes_def)
  show ?thesis
  proof (cases "ts_capacity s < ts_size s + length v")
    case True
    obtain s' where s': "ts_reserve junk (ts_size s + length v + ts_capacity s) s = Some s'" "ts_wf s'" "ts_bytes s' = ts_bytes s"
      using ts_reserve_stands [OF assms] by (auto simp: stands_def)
    have "ts_size s + length v + ts_capacity s \<le> ts_capacity s'" "ts_size s' = ts_size s"
      using ts_reserve_capacity [OF assms s'(1)] by simp_all
    with * [OF s'(2)] s' True show ?thesis by (simp add: ts_append_def Let_def)
  next
    case False
    with * [OF assms] show ?thesis by (simp add: ts_append_def Let_def)
  qed
qed

lemma ts_assign_stands:
  assumes "ts_wf s"
  shows "stands (ts_assign junk v s) v"
  using init_write_stands [of v "length v" junk] write_stands [of s 0 v] assms
  by (auto simp: ts_assign_def Let_def ts_wf_def)

lemma ts_plus_stands:
  assumes "ts_wf a" "ts_wf b"
  shows "stands (ts_plus junk a b) (ts_bytes a @ ts_bytes b)"
proof -
  obtain t where t: "ts_reserve junk (ts_size a + ts_size b) nullrep = Some t" "ts_wf t" "ts_bytes t = []"
    using ts_reserve_stands [OF nullrep_stands(1), of junk "ts_size a + ts_size b"] by (auto simp: stands_def)
  obtain t1 where t1: "ts_append junk (ts_bytes a) t = Some t1" "ts_wf t1" "ts_bytes t1 = ts_bytes a"
    using ts_append_stands [OF t(2), of junk "ts_bytes a"] t(3) by (auto simp: stands_def)
  have "ts_plus junk a b = ts_append junk (ts_bytes b) t1"
    using t(1) t1(1) by (simp add: ts_plus_def ts_data_def ts_bytes_def)
  with ts_append_stands [OF t1(2), of junk "ts_bytes b"] t1(3) show ?thesis by simp
qed

section \<open>The interface the parser relies on\<close>

text \<open>The loops of the parser append to a string, often one character at a time.\<close>

fun append_each :: "(bytes \<Rightarrow> 's \<Rightarrow> 's option) \<Rightarrow> bytes list \<Rightarrow> 's \<Rightarrow> 's option" where
  "append_each app [] s = Some s"
| "append_each app (v # vs) s = Option.bind (app v s) (append_each app vs)"

locale growing_string =
  fixes append :: "bytes \<Rightarrow> 's \<Rightarrow> 's option"
    and contents :: "'s \<Rightarrow> bytes"
    and wf :: "'s \<Rightarrow> bool"
  assumes append_ok: "wf s \<Longrightarrow> \<exists>s'. append v s = Some s' \<and> wf s' \<and> contents s' = contents s @ v"
begin

lemma append_each_contents:
  "wf s \<Longrightarrow> \<exists>s'. append_each append vs s = Some s' \<and> wf s' \<and> contents s' = contents s @ concat vs"
proof (induction vs arbitrary: s)
  case (Cons v vs)
  obtain s1 where "append v s = Some s1" "wf s1" "contents s1 = contents s @ v" using append_ok [OF Cons.prems] by blast
  with Cons.IH [OF this(2)] show ?case by auto
qed simp

lemma append_chars:
  assumes "wf s"
  shows "\<exists>s'. append_each append (map (\<lambda>c. [c]) v) s = Some s' \<and> wf s' \<and> contents s' = contents s @ v"
  using append_each_contents [OF assms, of "map (\<lambda>c. [c]) v"] by (simp add: concat_map_singleton [of id, simplified])

end

interpretation tstr: growing_string "ts_append junk" ts_bytes ts_wf for junk
  by unfold_locales (use ts_append_stands in \<open>auto simp: stands_def\<close>)

section \<open>Properties\<close>

lemma takeWhile_stop: "\<not> P c \<Longrightarrow> takeWhile P (v @ c # w) = takeWhile P v"
  by (induction v) auto

lemma ts_c_str_bytes:
  assumes "ts_wf s"
  shows "ts_c_str s = c_str (ts_bytes s)"
proof -
  obtain slack where "ts_str s = ts_bytes s @ NUL # slack" using ts_str_split [OF assms] by blast
  then show ?thesis by (simp add: ts_c_str_def c_str_def takeWhile_stop)
qed

lemma ts_find_from_eq:
  "ts_find_from c s i = (if c \<in> set (c_str s) then Some (i + length (takeWhile (\<lambda>d. d \<noteq> c) s)) else None)"
  by (induction c s i rule: ts_find_from.induct) (auto simp: c_str_def)

text \<open>C34: \<open>TiXmlString\<close> is a list of bytes. On well-formed strings no operation fails, whatever a new block
  holds: \<open>append\<close> is concatenation, \<open>assign\<close> and the copy constructor set the bytes, \<open>reserve\<close> keeps them, \<open>+\<close>
  concatenates two strings, a string built character by character has the characters in their order, and
  \<open>c_str\<close> is cut at the first NUL of the bytes.\<close>

theorem tstring_is_a_list:
  assumes "ts_wf a" "ts_wf b"
  shows "stands (ts_append junk v a) (ts_bytes a @ v) \<and> stands (ts_assign junk v a) v \<and>
    stands (ts_copy junk a) (ts_bytes a) \<and> stands (ts_reserve junk n a) (ts_bytes a) \<and>
    stands (ts_plus junk a b) (ts_bytes a @ ts_bytes b) \<and>
    stands (append_each (ts_append junk) (map (\<lambda>c. [c]) v) nullrep) v \<and> ts_c_str a = c_str (ts_bytes a)"
proof -
  have "stands (ts_copy junk a) (ts_bytes a)"
    using ts_new_len_stands [of "ts_size a" "ts_data a" junk] assms(1)
    by (simp add: ts_copy_def ts_data_def ts_bytes_def ts_wf_def)
  moreover have "stands (append_each (ts_append junk) (map (\<lambda>c. [c]) v) nullrep) v"
    using tstr.append_chars [OF nullrep_stands(1), of junk v] by (simp add: stands_def)
  ultimately show ?thesis
    using assms ts_append_stands ts_assign_stands ts_reserve_stands ts_plus_stands ts_c_str_bytes by auto
qed

theorem tstring_is_a_list_witness:
  "\<exists>a b. ts_new (\<lambda>_. CHR ''?'') ''ab'' = Some a \<and> ts_new (\<lambda>_. CHR ''!'') ''c'' = Some b \<and>
     stands (ts_plus (\<lambda>_. CHR ''?'') a b) ''abc'' \<and> stands (ts_append (\<lambda>_. CHR ''?'') ''xyz'' a) ''abxyz''"
proof -
  let ?a = "\<lparr>ts_size = 2, ts_capacity = 2, ts_str = [CHR ''a'', CHR ''b'', NUL]\<rparr>"
  let ?b = "\<lparr>ts_size = 1, ts_capacity = 1, ts_str = [CHR ''c'', NUL]\<rparr>"
  have new: "ts_new (\<lambda>_. CHR ''?'') ''ab'' = Some ?a" "ts_new (\<lambda>_. CHR ''!'') ''c'' = Some ?b" by code_simp+
  have "ts_wf ?a" "ts_wf ?b" "ts_bytes ?a = ''ab''" "ts_bytes ?b = ''c''" by (simp_all add: ts_wf_def ts_bytes_def numeral_2_eq_2)
  with new tstring_is_a_list [of ?a ?b] show ?thesis by simp
qed

text \<open>Appending a part of a string to the string itself works only while it fits: when the block has to grow,
  \<open>reserve\<close> frees the block the part is read from.\<close>

lemma self_append_needs_room:
  assumes "ts_wf s" "off + len \<le> ts_size s"
  shows "if ts_size s + len \<le> ts_capacity s
    then stands (ts_append_own off len s) (ts_bytes s @ take len (drop off (ts_bytes s)))
    else ts_append_own off len s = None"
proof -
  have "take len (drop off (ts_bytes s)) = take len (drop off (ts_str s))"
    using assms(2) by (simp add: ts_bytes_def take_drop min_absorb1)
  with assms write_stands [of s "ts_size s" "take len (drop off (ts_str s))"] show ?thesis
    by (auto simp: ts_append_own_def ts_data_def ts_wf_def ts_bytes_def)
qed

lemma self_append_example:
  "ts_append_own 0 2 \<lparr>ts_size = 2, ts_capacity = 2, ts_str = [CHR ''a'', CHR ''b'', NUL]\<rparr> = None \<and>
   stands (ts_append_own 0 2 \<lparr>ts_size = 2, ts_capacity = 4, ts_str = [CHR ''a'', CHR ''b'', NUL, NUL, NUL]\<rparr>) ''abab''"
proof -
  let ?a = "\<lparr>ts_size = 2, ts_capacity = 2, ts_str = [CHR ''a'', CHR ''b'', NUL]\<rparr>"
  let ?b = "\<lparr>ts_size = 2, ts_capacity = 4, ts_str = [CHR ''a'', CHR ''b'', NUL, NUL, NUL]\<rparr>"
  have "ts_wf ?a" "ts_wf ?b" by (simp_all add: ts_wf_def)
  with self_append_needs_room [of ?a 0 2] self_append_needs_room [of ?b 0 2] show ?thesis by (simp add: ts_bytes_def)
qed

section \<open>Comparisons\<close>

lemma byte_val_zero: "byte_val c = 0 \<longleftrightarrow> c = NUL"
  using of_char_eq_iff [of c NUL, where 'a = nat] by simp

lemma strcmp_swap: "strcmp t s = - strcmp s t"
  by (induction s t rule: strcmp.induct) auto

lemma strcmp_zero: "NUL \<notin> set s \<Longrightarrow> NUL \<notin> set t \<Longrightarrow> strcmp s t = 0 \<longleftrightarrow> s = t"
  by (induction s t rule: strcmp.induct) (auto simp: byte_val_zero)

text \<open>Unless two strings are equal, the first difference decides.\<close>

fun first_less :: "bytes \<Rightarrow> bytes \<Rightarrow> bool" where
  "first_less s [] \<longleftrightarrow> False"
| "first_less [] (d # t) \<longleftrightarrow> True"
| "first_less (c # s) (d # t) \<longleftrightarrow> byte_val c < byte_val d \<or> c = d \<and> first_less s t"

lemma strcmp_less: "NUL \<notin> set s \<Longrightarrow> NUL \<notin> set t \<Longrightarrow> strcmp s t < 0 \<longleftrightarrow> first_less s t"
proof (induction s t rule: first_less.induct)
  case (1 s)
  then show ?case by (cases s) auto
next
  case (2 d t)
  then show ?case using byte_val_zero [of d] by auto
qed auto

lemma first_less_trans: "first_less s t \<Longrightarrow> first_less t u \<Longrightarrow> first_less s u"
proof (induction s t arbitrary: u rule: first_less.induct)
  case (3 c s d t)
  then show ?case by (cases u) auto
qed (auto elim: first_less.elims)

lemma NUL_c_str: "NUL \<notin> set (ts_c_str s)"
  by (auto simp: ts_c_str_def c_str_def dest: set_takeWhileD)

text \<open>\<open><\<close> is a strict order on what \<open>c_str\<close> shows, and of two strings that show the same none is below the other.\<close>

lemma ts_less_first: "ts_less a b \<longleftrightarrow> first_less (ts_c_str a) (ts_c_str b)"
  by (simp add: ts_less_def strcmp_less NUL_c_str)

lemma ts_less_trans: "ts_less a b \<Longrightarrow> ts_less b c \<Longrightarrow> ts_less a c"
  using first_less_trans by (auto simp: ts_less_first)

lemma ts_less_total: "ts_less a b \<or> ts_less b a \<or> ts_c_str a = ts_c_str b"
  using strcmp_swap [of "ts_c_str a" "ts_c_str b"] strcmp_zero [OF NUL_c_str NUL_c_str, of a b]
  by (auto simp: ts_less_def)

lemma ts_equal_iff:
  assumes "ts_wf a" "ts_wf b"
  shows "ts_equal a b \<longleftrightarrow> length (ts_bytes a) = length (ts_bytes b) \<and> c_str (ts_bytes a) = c_str (ts_bytes b)"
  using assms strcmp_zero [OF NUL_c_str NUL_c_str, of a b]
  by (simp add: ts_equal_def ts_c_str_bytes ts_bytes_length)

text \<open>On strings without NUL the comparisons are those of the bytes, exactly one of \<open><\<close>, \<open>==\<close>, \<open>>\<close> holds, and
  \<open>==\<close> with a C string agrees with \<open>==\<close>.\<close>

lemma comparisons_without_NUL:
  assumes "ts_wf a" "ts_wf b" "NUL \<notin> set (ts_bytes a)" "NUL \<notin> set (ts_bytes b)"
  shows "ts_equal a b \<longleftrightarrow> ts_bytes a = ts_bytes b"
    and "ts_less a b \<longleftrightarrow> first_less (ts_bytes a) (ts_bytes b)"
    and "ts_less_eq a b \<longleftrightarrow> ts_less a b \<or> ts_equal a b"
    and "ts_equal_cstr a (ts_bytes b @ NUL # rest) \<longleftrightarrow> ts_equal a b"
proof -
  note c = ts_c_str_bytes [OF assms(1)] ts_c_str_bytes [OF assms(2)] c_str_id [OF assms(3)] c_str_id [OF assms(4)]
  show eq: "ts_equal a b \<longleftrightarrow> ts_bytes a = ts_bytes b" using ts_equal_iff [OF assms(1,2)] c by auto
  show "ts_less a b \<longleftrightarrow> first_less (ts_bytes a) (ts_bytes b)" using ts_less_first c by simp
  have "ts_less a b \<Longrightarrow> \<not> ts_less b a" "ts_bytes a = ts_bytes b \<Longrightarrow> \<not> ts_less b a"
    using strcmp_swap [of "ts_c_str a" "ts_c_str b"] c strcmp_zero [OF assms(3,3)] by (auto simp: ts_less_def)
  with ts_less_total [of a b] eq c show "ts_less_eq a b \<longleftrightarrow> ts_less a b \<or> ts_equal a b"
    by (auto simp: ts_less_eq_def)
  show "ts_equal_cstr a (ts_bytes b @ NUL # rest) \<longleftrightarrow> ts_equal a b"
    using strcmp_zero [OF assms(3,4)] eq c by (simp add: ts_equal_cstr_def c_str_append_NUL assms(4))
qed

text \<open>With an embedded NUL neither \<open><\<close> nor \<open>==\<close> nor \<open>>\<close> need hold.\<close>

lemma incomparable_strings:
  "\<exists>a b. ts_new_len (\<lambda>_. CHR ''?'') [CHR ''a'', NUL] 2 = Some a \<and> ts_new (\<lambda>_. CHR ''?'') ''a'' = Some b \<and>
     \<not> ts_less a b \<and> \<not> ts_greater a b \<and> ts_not_equal a b"
proof -
  let ?a = "\<lparr>ts_size = 2, ts_capacity = 2, ts_str = [CHR ''a'', NUL, NUL]\<rparr>"
  let ?b = "\<lparr>ts_size = 1, ts_capacity = 1, ts_str = [CHR ''a'', NUL]\<rparr>"
  have "ts_new_len (\<lambda>_. CHR ''?'') [CHR ''a'', NUL] 2 = Some ?a" "ts_new (\<lambda>_. CHR ''?'') ''a'' = Some ?b" by code_simp+
  moreover have "\<not> ts_less ?a ?b \<and> \<not> ts_greater ?a ?b \<and> ts_not_equal ?a ?b" by code_simp
  ultimately show ?thesis by blast
qed

text \<open>The operators on bytes.\<close>

lemma operators_stand:
  assumes "ts_wf a" "ts_wf b"
  shows "stands (ts_set junk b a) (ts_bytes b)"
    and "stands (ts_set_cstr junk v a) (c_str v)"
    and "stands (ts_add junk b a) (ts_bytes a @ ts_bytes b)"
    and "stands (ts_add_cstr junk v a) (ts_bytes a @ c_str v)"
    and "stands (ts_add_char junk c a) (ts_bytes a @ [c])"
    and "stands (ts_clear junk a) []"
  using assms ts_assign_stands ts_append_stands
  by (auto simp: ts_set_def ts_set_cstr_def ts_add_def ts_add_cstr_def ts_add_char_def ts_clear_def ts_init_def
      ts_data_def stands_def simp flip: ts_bytes_def)

text \<open>\<open>a += a\<close> of a string that is not empty reads a freed block unless the capacity is twice the size.\<close>

lemma add_self_needs_room:
  assumes "ts_wf s"
  shows "if 2 * ts_size s \<le> ts_capacity s then stands (ts_add_self s) (ts_bytes s @ ts_bytes s) else ts_add_self s = None"
  using self_append_needs_room [OF assms, of 0 "ts_size s"] ts_bytes_length [OF assms]
  by (auto simp: ts_add_self_def mult_2)

lemma plus_cstr_stands:
  assumes "ts_wf a"
  shows "stands (ts_plus_cstr junk a v) (ts_bytes a @ c_str v)" "stands (ts_cstr_plus junk v a) (c_str v @ ts_bytes a)"
proof -
  have app: "\<exists>u. ts_append junk w t = Some u \<and> ts_wf u \<and> ts_bytes u = ts_bytes t @ w" if "ts_wf t" for t w
    using ts_append_stands [OF that, of junk w] by (auto simp: stands_def)
  obtain t where t: "ts_reserve junk (ts_size a + length (c_str v)) nullrep = Some t" "ts_wf t" "ts_bytes t = []"
    using ts_reserve_stands [OF nullrep_stands(1), of junk "ts_size a + length (c_str v)"] by (auto simp: stands_def)
  note d = ts_plus_cstr_def ts_cstr_plus_def ts_add_def ts_data_def stands_def t(1) add.commute [of "length (c_str v)"]
  show "stands (ts_plus_cstr junk a v) (ts_bytes a @ c_str v)"
    using app [OF t(2), of "ts_bytes a"] app t(3) by (fastforce simp: d simp flip: ts_bytes_def)
  show "stands (ts_cstr_plus junk v a) (c_str v @ ts_bytes a)"
    using app [OF t(2), of "c_str v"] app t(3) by (fastforce simp: d simp flip: ts_bytes_def)
qed

end
