(* ===== verification/Locks.thy ===== *)
theory Locks
  imports Main
begin

text \<open>
  Threads that take and give back mutexes (\<open>std::mutex\<close> with \<open>lock_guard\<close> or \<open>lock\<close> and \<open>unlock\<close>), without
  the data they protect. A \<open>skeleton\<close> is what is left of a function when everything but its locking is
  removed: tests become choices, loops may run any number of times, and each lock is held over a part of the code.
  A thread executes the list of actions of one way through its skeleton; threads interleave.

  The locale \<open>lock_order\<close> is the discipline that a mutex is taken only under mutexes of lower rank. Under it no
  thread waits for ever, whatever the threads do and however they are scheduled.
\<close>

section \<open>Skeletons and their runs\<close>

datatype 'm action = Lock 'm | Unlock 'm

text \<open>\<open>Any\<close>: the code is the one of some number, as the connection an address stands for.\<close>

datatype 'm skeleton =
    Skip
  | Hold 'm "'m skeleton"
  | Then "'m skeleton" "'m skeleton"
  | Either "'m skeleton" "'m skeleton"
  | Many "'m skeleton"
  | Any "nat \<Rightarrow> 'm skeleton"

abbreviation Maybe :: "'m skeleton \<Rightarrow> 'm skeleton" where
  "Maybe c \<equiv> Either Skip c"

fun In_order :: "'m skeleton list \<Rightarrow> 'm skeleton" where
  "In_order [] = Skip"
| "In_order [c] = c"
| "In_order (c # d # cs) = Then c (In_order (d # cs))"

fun One_of :: "'m skeleton list \<Rightarrow> 'm skeleton" where
  "One_of [] = Skip"
| "One_of (c # cs) = Either c (One_of cs)"

inductive performs :: "'m skeleton \<Rightarrow> 'm action list \<Rightarrow> bool" where
  p_skip: "performs Skip []"
| p_hold: "performs c as \<Longrightarrow> performs (Hold m c) (Lock m # as @ [Unlock m])"
| p_then: "performs c as \<Longrightarrow> performs d bs \<Longrightarrow> performs (Then c d) (as @ bs)"
| p_left: "performs c as \<Longrightarrow> performs (Either c d) as"
| p_right: "performs d as \<Longrightarrow> performs (Either c d) as"
| p_stop: "performs (Many c) []"
| p_again: "performs c as \<Longrightarrow> performs (Many c) bs \<Longrightarrow> performs (Many c) (as @ bs)"
| p_any: "performs (f i) as \<Longrightarrow> performs (Any f) as"

section \<open>Threads\<close>

text \<open>Who holds a mutex, and what each thread still has to do. A mutex is not recursive: its holder waits for
  itself when it locks it again.\<close>

record 'm threads =
  holder :: "'m \<rightharpoonup> nat"
  todo :: "'m action list list"

inductive thread_step :: "'m threads \<Rightarrow> 'm threads \<Rightarrow> bool" where
  take_lock: "i < length (todo s) \<Longrightarrow> todo s ! i = Lock m # as \<Longrightarrow> holder s m = None \<Longrightarrow>
    thread_step s (s\<lparr>holder := (holder s)(m \<mapsto> i), todo := (todo s)[i := as]\<rparr>)"
| give_lock: "i < length (todo s) \<Longrightarrow> todo s ! i = Unlock m # as \<Longrightarrow> holder s m = Some i \<Longrightarrow>
    thread_step s (s\<lparr>holder := (holder s)(m := None), todo := (todo s)[i := as]\<rparr>)"

inductive_cases thread_stepE: "thread_step s s'"

definition started :: "'m action list list \<Rightarrow> 'm threads" where
  "started tss = \<lparr>holder = Map.empty, todo = tss\<rparr>"

definition all_done :: "'m threads \<Rightarrow> bool" where
  "all_done s \<longleftrightarrow> (\<forall>as \<in> set (todo s). as = []) \<and> holder s = Map.empty"

text \<open>Each step uses up one action, so every run ends.\<close>

definition work_left :: "'m threads \<Rightarrow> nat" where
  "work_left s = sum_list (map length (todo s))"

lemma work_left_update:
  assumes "i < length tss" "tss ! i = a # as"
  shows "sum_list (map length tss) = Suc (sum_list (map length (tss[i := as])))"
  using assms by (induction tss arbitrary: i) (auto split: nat.splits simp: nth_Cons)

lemma step_uses_work: "thread_step s s' \<Longrightarrow> work_left s = Suc (work_left s')"
  by (auto elim!: thread_stepE simp: work_left_def work_left_update)

section \<open>Taking mutexes upwards\<close>

text \<open>\<open>climbs rank n c\<close>: the code takes mutexes of rank at least \<open>n\<close> only, and inner ones of higher rank.\<close>

primrec climbs :: "('m \<Rightarrow> nat) \<Rightarrow> nat \<Rightarrow> 'm skeleton \<Rightarrow> bool" where
  "climbs rank n Skip \<longleftrightarrow> True"
| "climbs rank n (Hold m c) \<longleftrightarrow> n \<le> rank m \<and> climbs rank (Suc (rank m)) c"
| "climbs rank n (Then c d) \<longleftrightarrow> climbs rank n c \<and> climbs rank n d"
| "climbs rank n (Either c d) \<longleftrightarrow> climbs rank n c \<and> climbs rank n d"
| "climbs rank n (Many c) \<longleftrightarrow> climbs rank n c"
| "climbs rank n (Any f) \<longleftrightarrow> (\<forall>i. climbs rank n (f i))"

text \<open>The same of actions, for a thread that holds \<open>hs\<close>, the last taken first.\<close>

fun ordered :: "('m \<Rightarrow> nat) \<Rightarrow> 'm list \<Rightarrow> 'm action list \<Rightarrow> bool" where
  "ordered rank hs [] \<longleftrightarrow> hs = []"
| "ordered rank hs (Lock m # as) \<longleftrightarrow> (\<forall>h \<in> set hs. rank h < rank m) \<and> ordered rank (m # hs) as"
| "ordered rank [] (Unlock m # as) \<longleftrightarrow> False"
| "ordered rank (h # hs) (Unlock m # as) \<longleftrightarrow> h = m \<and> ordered rank hs as"

lemma climbs_mono: "climbs rank n c \<Longrightarrow> k \<le> n \<Longrightarrow> climbs rank k c"
  by (induction c arbitrary: n k) (auto, blast)

lemma climbs_In_order [simp]: "climbs rank n (In_order cs) \<longleftrightarrow> list_all (climbs rank n) cs"
  by (induction cs rule: In_order.induct) auto

lemma climbs_One_of [simp]: "climbs rank n (One_of cs) \<longleftrightarrow> list_all (climbs rank n) cs"
  by (induction cs) auto

lemma performs_ordered:
  assumes "performs c as" "climbs rank n c" "\<forall>h \<in> set hs. rank h < n" "ordered rank hs rest"
  shows "ordered rank hs (as @ rest)"
  using assms
proof (induction arbitrary: n hs rest rule: performs.induct)
  case (p_hold c as m)
  have "ordered rank (m # hs) (as @ Unlock m # rest)"
    by (rule p_hold.IH [of "Suc (rank m)"]) (use p_hold.prems in force)+
  with p_hold.prems show ?case by force
qed auto

locale lock_order =
  fixes rank :: "'m \<Rightarrow> nat"
    and code :: "'m skeleton set"
  assumes upwards: "c \<in> code \<Longrightarrow> climbs rank 0 c"
begin

text \<open>Each thread's actions are in order for the mutexes it holds.\<close>

definition consistent :: "'m threads \<Rightarrow> bool" where
  "consistent s \<longleftrightarrow> (\<exists>hss. length hss = length (todo s) \<and>
     (\<forall>i < length (todo s). ordered rank (hss ! i) (todo s ! i)) \<and>
     (\<forall>m i. holder s m = Some i \<longleftrightarrow> i < length (todo s) \<and> m \<in> set (hss ! i)) \<and> list_all distinct hss)"

lemma started_consistent:
  assumes "\<And>as. as \<in> set tss \<Longrightarrow> \<exists>c \<in> code. performs c as"
  shows "consistent (started tss)"
proof -
  have "ordered rank [] as" if "as \<in> set tss" for as
    using assms [OF that] performs_ordered [of _ as rank 0 "[]" "[]"] upwards by auto
  then show ?thesis
    unfolding consistent_def started_def by (intro exI [of _ "replicate (length tss) []"]) (auto simp: list_all_iff)
qed

lemma step_consistent:
  assumes "thread_step s s'" "consistent s"
  shows "consistent s'"
proof -
  obtain hss where hss: "length hss = length (todo s)" "\<And>i. i < length (todo s) \<Longrightarrow> ordered rank (hss ! i) (todo s ! i)"
    "\<And>m i. holder s m = Some i \<longleftrightarrow> i < length (todo s) \<and> m \<in> set (hss ! i)" "list_all distinct hss"
    using assms(2) by (auto simp: consistent_def)
  from assms(1) show ?thesis
  proof (cases rule: thread_step.cases)
    case (take_lock i m as)
    then have "ordered rank (m # hss ! i) as" "m \<notin> set (hss ! j)" if "j < length (todo s)" for j
      using hss(2) [of i] hss(3) [of m] that by auto
    with take_lock hss show ?thesis
      unfolding consistent_def
      by (intro exI [of _ "hss[i := m # hss ! i]"]) (auto simp: nth_list_update list_all_length)
  next
    case (give_lock i m as)
    then obtain hs where hs: "hss ! i = m # hs" "ordered rank hs as"
      using hss(2) [of i] by (cases "hss ! i") auto
    have "m \<notin> set hs" using hss(1,4) give_lock(2) hs(1) by (auto simp: list_all_length)
    moreover have "m \<notin> set (hss ! j)" if "j < length (todo s)" "j \<noteq> i" for j
      using hss(3) [of m j] hss(3) [of m i] that give_lock by auto
    ultimately show ?thesis
      using give_lock hss hs unfolding consistent_def
      by (intro exI [of _ "hss[i := hs]"]) (auto simp: nth_list_update list_all_length)
  qed
qed

lemma consistent_moves:
  assumes "consistent s" "\<not> all_done s"
  shows "\<exists>s'. thread_step s s'"
proof (rule ccontr)
  assume stuck: "\<nexists>s'. thread_step s s'"
  obtain hss where hss: "length hss = length (todo s)" "\<And>i. i < length (todo s) \<Longrightarrow> ordered rank (hss ! i) (todo s ! i)"
    "\<And>m i. holder s m = Some i \<longleftrightarrow> i < length (todo s) \<and> m \<in> set (hss ! i)"
    using assms(1) by (auto simp: consistent_def)
  define W where "W = {i. i < length (todo s) \<and> todo s ! i \<noteq> []}"
  have held: "i \<in> W" if "holder s m = Some i" for m i
    using that hss(2) [of i] hss(3) [of m i] by (cases "todo s ! i") (auto simp: W_def)
  have waits: "\<exists>m as j. todo s ! i = Lock m # as \<and> holder s m = Some j" if "i \<in> W" for i
  proof -
    have i: "i < length (todo s)" "todo s ! i \<noteq> []" using that by (auto simp: W_def)
    then obtain a as where a: "todo s ! i = a # as" by (cases "todo s ! i") auto
    show ?thesis
    proof (cases a)
      case (Lock m)
      with a i stuck take_lock [of i s m as] show ?thesis by (cases "holder s m") auto
    next
      case (Unlock m)
      then have "m \<in> set (hss ! i)" using hss(2) [OF i(1)] a by (cases "hss ! i") auto
      then have "holder s m = Some i" using hss(3) i(1) by blast
      with a i stuck Unlock give_lock [of i s m as] show ?thesis by auto
    qed
  qed
  define want where "want i = (case hd (todo s ! i) of Lock m \<Rightarrow> rank m | Unlock m \<Rightarrow> 0)" for i
  have "W \<noteq> {}"
  proof
    assume "W = {}"
    moreover have "holder s = Map.empty"
    proof
      fix m
      show "holder s m = None" using held [of m] \<open>W = {}\<close> by (cases "holder s m") auto
    qed
    ultimately have "all_done s" by (auto simp: all_done_def W_def in_set_conv_nth)
    with assms(2) show False by blast
  qed
  moreover have "finite W" by (simp add: W_def)
  ultimately have "Max (want ` W) \<in> want ` W" "\<forall>j \<in> W. want j \<le> Max (want ` W)" by simp_all
  then obtain i where i: "i \<in> W" "\<forall>j \<in> W. want j \<le> want i" by auto
  then obtain m as j where m: "todo s ! i = Lock m # as" "holder s m = Some j" using waits by blast
  have "j \<in> W" by (rule held [OF m(2)])
  then obtain m' as' where m': "todo s ! j = Lock m' # as'" using waits by blast
  have "m \<in> set (hss ! j)" "j < length (todo s)" using m(2) hss(3) by blast+
  then have "rank m < rank m'" using hss(2) [of j] m' by simp
  then have "want i < want j" using m(1) m' by (simp add: want_def)
  with i(2) \<open>j \<in> W\<close> show False by (simp add: leD)
qed

lemma reached_consistent:
  assumes "thread_step\<^sup>*\<^sup>* (started tss) s" "\<And>as. as \<in> set tss \<Longrightarrow> \<exists>c \<in> code. performs c as"
  shows "consistent s"
  using assms(1)
proof (induction rule: rtranclp_induct)
  case base
  show ?case by (rule started_consistent) (rule assms(2))
next
  case (step s s')
  then show ?case by (blast intro: step_consistent)
qed

text \<open>Every run can be continued until all threads are done, and every way of continuing it gets there.\<close>

lemma consistent_ends: "consistent s \<Longrightarrow> \<exists>s'. thread_step\<^sup>*\<^sup>* s s' \<and> all_done s'"
proof (induction "work_left s" arbitrary: s rule: less_induct)
  case less
  show ?case
  proof (cases "all_done s")
    case False
    then obtain s1 where s1: "thread_step s s1" using consistent_moves less.prems by blast
    then have "consistent s1" "work_left s1 < work_left s"
      using step_consistent less.prems step_uses_work [OF s1] by simp_all
    with less.hyps obtain s' where "thread_step\<^sup>*\<^sup>* s1 s'" "all_done s'" by blast
    with s1 show ?thesis by (blast intro: converse_rtranclp_into_rtranclp)
  qed blast
qed

end

text \<open>Steps that a run can take at most.\<close>

inductive steps_taken :: "nat \<Rightarrow> 'm threads \<Rightarrow> 'm threads \<Rightarrow> bool" where
  no_step: "steps_taken 0 s s"
| one_more: "thread_step s s1 \<Longrightarrow> steps_taken n s1 s' \<Longrightarrow> steps_taken (Suc n) s s'"

lemma steps_bounded: "steps_taken n s s' \<Longrightarrow> n + work_left s' = work_left s"
  by (induction rule: steps_taken.induct) (auto dest: step_uses_work)

lemma steps_reach: "steps_taken n s s' \<Longrightarrow> thread_step\<^sup>*\<^sup>* s s'"
  by (induction rule: steps_taken.induct) (auto intro: converse_rtranclp_into_rtranclp)

end
