(* ===== verification/Server_Locks.thy ===== *)
theory Server_Locks
  imports Locks
begin

text \<open>
  The mutexes of the server and the skeleton of every function that takes one or calls a function that does, from
  the three kinds of threads down: the workers of the pool, the libevent thread of a listening socket, the timer
  thread and \<open>main\<close>. The names are those of the functions with \<open>_locks\<close>. What the functions compute is the
  subject of the other theories; here a test is a choice and a loop runs any number of times, so that the skeleton
  has at least the runs of the function.

  Functions of other libraries take no mutex of the server. libevent calls the callbacks only from its loop.
\<close>

section \<open>The mutexes\<close>

text \<open>Mutexes that are members have the number of their object: the connection's device, the socket, the worker,
  the database connection, the service.\<close>

datatype mutex =
    TimeListMutex
  | GMutex
  | UMutex
  | DMutex
  | DeviceMutex
  | LoginedMutex nat
  | ExpireMutex nat
  | ValidMutex nat
  | TcpLinkMutex
  | MapLock
  | InsMutex
  | ServrMutex
  | ClientMutex
  | BufMapMutex nat
  | JobCondMutex nat
  | VarMutex nat
  | ConnectLock
  | ReferenceCountLock nat
  | BadgeLock

text \<open>An order in which they are taken. Those of rank 9 protect a single access each.\<close>

fun mutex_rank :: "mutex \<Rightarrow> nat" where
  "mutex_rank TimeListMutex = 0"
| "mutex_rank UMutex = 1"
| "mutex_rank MapLock = 2"
| "mutex_rank InsMutex = 3"
| "mutex_rank (VarMutex i) = 4"
| "mutex_rank ServrMutex = 5"
| "mutex_rank (BufMapMutex s) = 6"
| "mutex_rank (JobCondMutex i) = 7"
| "mutex_rank ConnectLock = 8"
| "mutex_rank _ = 9"

type_synonym locking = "mutex skeleton"

named_theorems locking "skeletons of the functions"

section \<open>The pool and the sockets\<close>

definition addJob_locks :: "nat \<Rightarrow> locking" where
  [locking]: "addJob_locks i = Hold (JobCondMutex i) Skip"

text \<open>\<open>wait\<close> gives the mutex back and takes it again.\<close>

definition getJob_locks :: "nat \<Rightarrow> locking" where
  [locking]: "getJob_locks i = Then (Many (Hold (JobCondMutex i) Skip)) (Hold (JobCondMutex i) Skip)"

definition SetThreadPool_locks :: "nat \<Rightarrow> locking" where
  [locking]: "SetThreadPool_locks i = Hold (VarMutex i) Skip"

definition CreateIdleThread_locks :: "nat \<Rightarrow> locking" where
  [locking]: "CreateIdleThread_locks num = In_order (map SetThreadPool_locks [0..<num])"

definition pool_Run_locks :: "nat \<Rightarrow> locking" where
  [locking]: "pool_Run_locks index = addJob_locks (index mod 20)"

definition AddJobToPool_locks :: "nat \<Rightarrow> locking" where
  [locking]: "AddJobToPool_locks fd = pool_Run_locks fd"

definition bufMapAddBuf_locks :: "nat \<Rightarrow> locking" where
  [locking]: "bufMapAddBuf_locks s = Hold (BufMapMutex s) Skip"

definition bufMapDeleteBuf_locks :: "nat \<Rightarrow> locking" where
  [locking]: "bufMapDeleteBuf_locks s = Hold (BufMapMutex s) (Maybe (Any AddJobToPool_locks))"

definition bufSend_locks :: "nat \<Rightarrow> locking" where
  [locking]: "bufSend_locks s = Hold (BufMapMutex s) Skip"

definition accept_conn_cb_locks :: "nat \<Rightarrow> locking" where
  [locking]: "accept_conn_cb_locks s = Then (bufMapAddBuf_locks s) (Any AddJobToPool_locks)"

definition read_cb_locks :: locking where
  [locking]: "read_cb_locks = Any AddJobToPool_locks"

definition event_cb_locks :: "nat \<Rightarrow> locking" where
  [locking]: "event_cb_locks s = Maybe (bufMapDeleteBuf_locks s)"

definition timer_cb_locks :: "nat \<Rightarrow> locking" where
  [locking]: "timer_cb_locks s = Maybe (Either (bufMapDeleteBuf_locks s) (bufSend_locks s))"

definition getInstance_locks :: locking where
  [locking]: "getInstance_locks = Hold InsMutex (Maybe (CreateIdleThread_locks 20))"

definition BeginServer_locks :: locking where
  [locking]: "BeginServer_locks = Hold ServrMutex Skip"

definition ConnectServer_locks :: locking where
  [locking]: "ConnectServer_locks = Hold ClientMutex Skip"

definition manager_Send_locks :: locking where
  [locking]: "manager_Send_locks = Hold ServrMutex (Many (Any bufSend_locks))"

section \<open>The database pool\<close>

definition reference_count_locks :: locking where
  [locking]: "reference_count_locks = Any (\<lambda>k. Hold (ReferenceCountLock k) Skip)"

definition GetNVDataAccess_locks :: locking where
  [locking]: "GetNVDataAccess_locks = Hold ConnectLock (Then (Many reference_count_locks) (Maybe reference_count_locks))"

definition ReleaseNVDataAccess_locks :: locking where
  [locking]: "ReleaseNVDataAccess_locks = Hold ConnectLock (Maybe reference_count_locks)"

definition Release_locks :: locking where
  [locking]: "Release_locks = Hold ConnectLock (Many reference_count_locks)"

text \<open>An operation of an access object: it gets a connection, or none, and gives it back, or loses it.\<close>

definition dao_locks :: locking where
  [locking]: "dao_locks = Then GetNVDataAccess_locks (Maybe ReleaseNVDataAccess_locks)"

section \<open>Addresses, links and devices\<close>

definition GetHostAddress_locks :: locking where
  [locking]: "GetHostAddress_locks = Hold MapLock Skip"

definition RemoveHostAddress_locks :: "bool \<Rightarrow> locking" where
  [locking]: "RemoveHostAddress_locks bDeleteLink = Hold MapLock (Maybe (if bDeleteLink then getInstance_locks else Skip))"

definition SetHostAddress_locks :: locking where
  [locking]: "SetHostAddress_locks = Maybe (Then (RemoveHostAddress_locks True) (Hold MapLock Skip))"

definition tcp_SendData_locks :: locking where
  [locking]: "tcp_SendData_locks = Then GetHostAddress_locks (Maybe (Then getInstance_locks manager_Send_locks))"

definition StartServer_locks :: locking where
  [locking]: "StartServer_locks = Then getInstance_locks BeginServer_locks"

definition CreateTcpClient_locks :: locking where
  [locking]: "CreateTcpClient_locks = Then getInstance_locks ConnectServer_locks"

definition RemoveTcpService_locks :: locking where
  [locking]: "RemoveTcpService_locks = Then (RemoveHostAddress_locks True) (Hold TcpLinkMutex Skip)"

definition SetLogined_locks :: "nat \<Rightarrow> locking" where
  [locking]: "SetLogined_locks d = Hold (LoginedMutex d) Skip"

definition IsLogined_locks :: "nat \<Rightarrow> locking" where
  [locking]: "IsLogined_locks d = Hold (LoginedMutex d) Skip"

definition SetDeviceExpire_locks :: "nat \<Rightarrow> locking" where
  [locking]: "SetDeviceExpire_locks d = Hold (ExpireMutex d) Skip"

definition Device_Send_locks :: "nat \<Rightarrow> locking" where
  [locking]: "Device_Send_locks d = In_order [Maybe (SetLogined_locks d), Maybe (SetLogined_locks d), Maybe tcp_SendData_locks]"

definition GetDeviceClient_locks :: locking where
  [locking]: "GetDeviceClient_locks = Hold DeviceMutex Skip"

definition InsertDeviceClient_locks :: locking where
  [locking]: "InsertDeviceClient_locks = Hold DeviceMutex Skip"

definition DeleteDeviceClient_locks :: locking where
  [locking]: "DeleteDeviceClient_locks = Hold DeviceMutex Skip"

definition CountByUuid_locks :: locking where
  [locking]: "CountByUuid_locks = Hold DeviceMutex Skip"

definition SendData_locks :: locking where
  [locking]: "SendData_locks = Then GetDeviceClient_locks (Maybe (Any Device_Send_locks))"

section \<open>The handlers\<close>

definition mapAddUser_locks :: locking where
  [locking]: "mapAddUser_locks = Hold UMutex (Many SendData_locks)"

definition mapDeleteUser_locks :: locking where
  [locking]: "mapDeleteUser_locks = Hold UMutex Skip"

definition mapDeleteSameUser_locks :: locking where
  [locking]: "mapDeleteSameUser_locks = Hold UMutex Skip"

definition getUserAddress_locks :: locking where
  [locking]: "getUserAddress_locks = Hold UMutex Skip"

definition mapAddDevice_locks :: locking where
  [locking]: "mapAddDevice_locks = Hold DMutex Skip"

definition mapDeleteDevice_locks :: locking where
  [locking]: "mapDeleteDevice_locks = Hold DMutex Skip"

definition getDeviceAddress_locks :: locking where
  [locking]: "getDeviceAddress_locks = Hold DMutex Skip"

definition sendLoginResponse_locks :: locking where
  [locking]: "sendLoginResponse_locks = Maybe SendData_locks"

definition handleUserLogin_locks :: locking where
  [locking]: "handleUserLogin_locks = Then dao_locks (Either
     (In_order [mapAddUser_locks, dao_locks, Maybe dao_locks, sendLoginResponse_locks])
     sendLoginResponse_locks)"

definition handleUserLogout_locks :: locking where
  [locking]: "handleUserLogout_locks = Then dao_locks (Maybe (Then mapDeleteSameUser_locks dao_locks))"

definition handleKickoutUser_locks :: locking where
  [locking]: "handleKickoutUser_locks = Then getUserAddress_locks
     (Many (In_order [mapDeleteUser_locks, SendData_locks, getUserAddress_locks]))"

text \<open>The loops over the users bound to a device.\<close>

definition tell_users_locks :: locking where
  [locking]: "tell_users_locks = Many (Then getUserAddress_locks (Maybe SendData_locks))"

definition handleDeviceLogin_locks :: locking where
  [locking]: "handleDeviceLogin_locks = Then dao_locks (Either
     (Then dao_locks sendLoginResponse_locks)
     (In_order [Maybe dao_locks, dao_locks, Either
       sendLoginResponse_locks
       (In_order [dao_locks, mapAddDevice_locks, sendLoginResponse_locks, dao_locks, tell_users_locks])]))"

definition handleDeviceLogout_locks :: locking where
  [locking]: "handleDeviceLogout_locks = Then dao_locks (Maybe
     (In_order [mapDeleteDevice_locks, dao_locks, dao_locks, tell_users_locks]))"

definition handleUserRegist_locks :: locking where
  [locking]: "handleUserRegist_locks = Then dao_locks (Either SendData_locks (Then dao_locks SendData_locks))"

definition handleUserModifyPassword_locks :: locking where
  [locking]: "handleUserModifyPassword_locks = Then GetNVDataAccess_locks (Either
     (Then SendData_locks ReleaseNVDataAccess_locks)
     (Then (Maybe ReleaseNVDataAccess_locks) SendData_locks))"

definition Mail_locks :: locking where
  [locking]: "Mail_locks = Hold GMutex Skip"

definition handleUserResetPassword_locks :: locking where
  [locking]: "handleUserResetPassword_locks = Then dao_locks (Either SendData_locks (Then Mail_locks SendData_locks))"

definition handleUserQuit_locks :: locking where
  [locking]: "handleUserQuit_locks = Then GetNVDataAccess_locks (Either
     (In_order [SendData_locks, handleUserLogout_locks, ReleaseNVDataAccess_locks])
     (Then (Maybe ReleaseNVDataAccess_locks) SendData_locks))"

definition userGetDevice_locks :: locking where
  [locking]: "userGetDevice_locks = Then dao_locks SendData_locks"

definition addBind_locks :: locking where
  [locking]: "addBind_locks = In_order [GetNVDataAccess_locks, ReleaseNVDataAccess_locks, SendData_locks, dao_locks]"

definition delBind_locks :: locking where
  [locking]: "delBind_locks = Then GetNVDataAccess_locks (Either
     (Then ReleaseNVDataAccess_locks SendData_locks)
     (In_order [SendData_locks, ReleaseNVDataAccess_locks, dao_locks]))"

definition handlePushMessage_locks :: locking where
  [locking]: "handlePushMessage_locks = In_order [dao_locks, Maybe dao_locks, SendData_locks, Maybe dao_locks]"

definition handleSendToOne_locks :: locking where
  [locking]: "handleSendToOne_locks = In_order [getUserAddress_locks, Maybe SendData_locks, SendData_locks]"

definition handleSendToAll_locks :: locking where
  [locking]: "handleSendToAll_locks = In_order [dao_locks, tell_users_locks, SendData_locks]"

definition handleToUser_locks :: locking where
  [locking]: "handleToUser_locks = Either SendData_locks
     (Either handlePushMessage_locks (Either handleSendToOne_locks handleSendToAll_locks))"

definition handleUserPrivate_locks :: locking where
  [locking]: "handleUserPrivate_locks = Then getDeviceAddress_locks
     (Maybe (Then SendData_locks (Then (Maybe dao_locks) SendData_locks)))"

definition handleDeviceHeartBeat_locks :: locking where
  [locking]: "handleDeviceHeartBeat_locks = SendData_locks"

definition ShowClientReceiveData_locks :: locking where
  [locking]: "ShowClientReceiveData_locks = One_of [handleDeviceLogin_locks, handleUserLogin_locks,
     handleUserRegist_locks, handleUserQuit_locks, handleUserModifyPassword_locks, handleUserResetPassword_locks,
     addBind_locks, delBind_locks, handleDeviceHeartBeat_locks, handleToUser_locks, userGetDevice_locks,
     handleUserPrivate_locks]"

definition ShowClientDisConnect_locks :: locking where
  [locking]: "ShowClientDisConnect_locks = One_of [handleDeviceLogout_locks, handleUserLogout_locks]"

section \<open>The jobs and the threads\<close>

definition ParserCallback_locks :: "nat \<Rightarrow> locking" where
  [locking]: "ParserCallback_locks d = Then (Maybe (IsLogined_locks d))
     (Maybe (Then (IsLogined_locks d) (Maybe ShowClientReceiveData_locks)))"

definition OnConnect_locks :: locking where
  [locking]: "OnConnect_locks = Then GetDeviceClient_locks InsertDeviceClient_locks"

definition OnReceive_locks :: locking where
  [locking]: "OnReceive_locks = Then GetDeviceClient_locks (Maybe (Any (\<lambda>d. Many (ParserCallback_locks d))))"

definition OnDisconnect_locks :: locking where
  [locking]: "OnDisconnect_locks = Then GetDeviceClient_locks (Maybe
     (In_order [CountByUuid_locks, Any IsLogined_locks, Maybe ShowClientDisConnect_locks, DeleteDeviceClient_locks]))"

definition jobAccept_locks :: locking where
  [locking]: "jobAccept_locks = Then SetHostAddress_locks (Maybe (Then (Maybe OnConnect_locks) (Hold TcpLinkMutex Skip)))"

definition jobRead_locks :: locking where
  [locking]: "jobRead_locks = Maybe (Maybe OnReceive_locks)"

definition jobClose_locks :: locking where
  [locking]: "jobClose_locks = In_order [Maybe OnDisconnect_locks, RemoveHostAddress_locks False, Hold TcpLinkMutex Skip]"

definition worker_locks :: "nat \<Rightarrow> locking" where
  [locking]: "worker_locks i = Many (Then (getJob_locks i) (One_of [jobAccept_locks, jobRead_locks, jobClose_locks]))"

definition startServrThread_locks :: "nat \<Rightarrow> locking" where
  [locking]: "startServrThread_locks s =
     Many (One_of [accept_conn_cb_locks s, read_cb_locks, event_cb_locks s, timer_cb_locks s])"

definition Register_locks :: locking where
  [locking]: "Register_locks = Hold TimeListMutex Skip"

text \<open>The timer thread runs the callbacks of the registered timers, of which the server has none.\<close>

definition timer_run_locks :: "locking list \<Rightarrow> locking" where
  [locking]: "timer_run_locks callbacks = Many (Hold TimeListMutex (Many (One_of callbacks)))"

text \<open>Operations of the interfaces that the server itself does not call, or only from the jobs.\<close>

definition StopTcpServer_locks :: locking where
  [locking]: "StopTcpServer_locks = Then GetDeviceClient_locks (Maybe (In_order [CountByUuid_locks,
     Any IsLogined_locks, Maybe ShowClientDisConnect_locks, Any SetLogined_locks, Any SetDeviceExpire_locks,
     RemoveTcpService_locks]))"

definition CreateConnectToDevice_locks :: locking where
  [locking]: "CreateConnectToDevice_locks = Then GetDeviceClient_locks (Maybe CreateTcpClient_locks)"

definition SetTcpServiceValid_locks :: "nat \<Rightarrow> locking" where
  [locking]: "SetTcpServiceValid_locks t = Hold (ValidMutex t) Skip"

definition addBadge_locks :: locking where
  [locking]: "addBadge_locks = Hold BadgeLock Skip"

definition caller_locks :: locking where
  [locking]: "caller_locks = Many (One_of [StopTcpServer_locks, CreateConnectToDevice_locks, SendData_locks,
     handleKickoutUser_locks, Release_locks, Any SetTcpServiceValid_locks, addBadge_locks, Register_locks])"

definition main_locks :: locking where
  [locking]: "main_locks = In_order [Maybe dao_locks, StartServer_locks]"

definition server_threads :: "locking set" where
  "server_threads = insert main_locks (insert caller_locks (insert (timer_run_locks []) (range worker_locks \<union> range startServrThread_locks)))"

interpretation server: lock_order mutex_rank server_threads
  by unfold_locales (auto simp: server_threads_def locking list_all_iff)

section \<open>Properties\<close>

text \<open>C4: The threads of the server never deadlock on its mutexes: the workers, the listening sockets, the timer
  thread, \<open>main\<close> and callers of the interfaces, any number of them, each on any way through its code, under any schedule. In every state
  that a run reaches, all threads are done and hold nothing, or one of them can go on; the run is no longer than
  the work of the threads, and it can be brought to the end.\<close>

theorem server_never_deadlocks:
  assumes "\<forall>as \<in> set tss. \<exists>c \<in> server_threads. performs c as" "steps_taken n (started tss) s"
  shows "(all_done s \<or> (\<exists>s'. thread_step s s')) \<and> n \<le> sum_list (map length tss) \<and>
    (\<exists>s'. thread_step\<^sup>*\<^sup>* s s' \<and> all_done s')"
proof -
  have "server.consistent s"
    by (rule server.reached_consistent [OF steps_reach [OF assms(2)]]) (use assms(1) in blast)
  moreover have "n \<le> sum_list (map length tss)"
    using steps_bounded [OF assms(2)] by (simp add: work_left_def started_def)
  ultimately show ?thesis using server.consistent_moves server.consistent_ends by blast
qed

text \<open>A worker at the end of its wait for a job, and the libevent thread that closes a connection and queues the job
  for this worker while it holds the table of connections.\<close>

lemma performs_once: "performs c as \<Longrightarrow> performs (Many c) as"
  using p_again [OF _ p_stop] by fastforce

lemma performs_held: "performs (Hold m Skip) [Lock m, Unlock m]"
  using p_hold [OF p_skip] by fastforce

lemma worker_turn_locks: "performs (worker_locks i) [Lock (JobCondMutex i), Unlock (JobCondMutex i)]"
proof -
  have "performs (getJob_locks i) ([] @ [Lock (JobCondMutex i), Unlock (JobCondMutex i)])"
    unfolding getJob_locks_def by (rule p_then [OF p_stop performs_held])
  then have "performs (Then (getJob_locks i) (One_of [jobAccept_locks, jobRead_locks, jobClose_locks]))
      ([Lock (JobCondMutex i), Unlock (JobCondMutex i)] @ [])"
    by (intro p_then) (auto intro: performs.intros)
  then show ?thesis unfolding worker_locks_def by (intro performs_once) simp
qed

lemma closing_locks:
  "performs (startServrThread_locks 0)
    [Lock (BufMapMutex 0), Lock (JobCondMutex 3), Unlock (JobCondMutex 3), Unlock (BufMapMutex 0)]"
proof -
  have "performs (AddJobToPool_locks 3) [Lock (JobCondMutex 3), Unlock (JobCondMutex 3)]"
    using performs_held by (simp add: locking)
  then have "performs (bufMapDeleteBuf_locks 0)
      (Lock (BufMapMutex 0) # [Lock (JobCondMutex 3), Unlock (JobCondMutex 3)] @ [Unlock (BufMapMutex 0)])"
    unfolding bufMapDeleteBuf_locks_def by (intro p_hold p_right p_any)
  then show ?thesis
    unfolding startServrThread_locks_def event_cb_locks_def
    by (intro performs_once) (simp, blast intro: p_right p_left)
qed

theorem server_never_deadlocks_witness:
  "\<exists>s. steps_taken 2 (started
      [[Lock (JobCondMutex 3), Unlock (JobCondMutex 3)],
       [Lock (BufMapMutex 0), Lock (JobCondMutex 3), Unlock (JobCondMutex 3), Unlock (BufMapMutex 0)]]) s \<and>
     holder s (JobCondMutex 3) = Some 0 \<and> hd (todo s ! 1) = Lock (JobCondMutex 3) \<and>
     (\<exists>s'. thread_step s s') \<and> (\<exists>s'. thread_step\<^sup>*\<^sup>* s s' \<and> all_done s')"
proof -
  let ?worker = "[Lock (JobCondMutex 3), Unlock (JobCondMutex 3)]"
  let ?loop = "[Lock (BufMapMutex 0), Lock (JobCondMutex 3), Unlock (JobCondMutex 3), Unlock (BufMapMutex 0)]"
  let ?s1 = "\<lparr>holder = [JobCondMutex 3 \<mapsto> 0], todo = [tl ?worker, ?loop]\<rparr> :: mutex threads"
  let ?s2 = "\<lparr>holder = [JobCondMutex 3 \<mapsto> 0, BufMapMutex 0 \<mapsto> 1], todo = [tl ?worker, tl ?loop]\<rparr> :: mutex threads"
  have "thread_step (started [?worker, ?loop]) ?s1"
    using take_lock [of 0 "started [?worker, ?loop]" "JobCondMutex 3" "tl ?worker"] by (simp add: started_def)
  moreover have "thread_step ?s1 ?s2"
    using take_lock [of 1 ?s1 "BufMapMutex 0" "tl ?loop"] by simp
  ultimately have run: "steps_taken 2 (started [?worker, ?loop]) ?s2"
    by (auto simp: numeral_2_eq_2 intro!: steps_taken.intros)
  have "worker_locks 3 \<in> server_threads" "startServrThread_locks 0 \<in> server_threads" by (simp_all add: server_threads_def)
  then have "\<forall>as \<in> set [?worker, ?loop]. \<exists>c \<in> server_threads. performs c as"
    using worker_turn_locks [of 3] closing_locks by auto
  from server_never_deadlocks [OF this run] run show ?thesis by (intro exI [of _ ?s2]) (auto simp: all_done_def)
qed

text \<open>A comment in \<open>TimerThread::Register\<close> says that a timer's callback cannot register a timer: the thread waits
  for itself.\<close>

lemma registering_callback_blocks:
  "\<exists>as s. performs (timer_run_locks [Register_locks]) as \<and> thread_step\<^sup>*\<^sup>* (started [as]) s \<and> \<not> all_done s \<and>
    (\<nexists>s'. thread_step s s')"
proof -
  let ?as = "[Lock TimeListMutex, Lock TimeListMutex, Unlock TimeListMutex, Unlock TimeListMutex]"
  let ?s = "\<lparr>holder = [TimeListMutex \<mapsto> 0], todo = [tl ?as]\<rparr>"
  have "performs (Many (One_of [Register_locks])) [Lock TimeListMutex, Unlock TimeListMutex]"
    unfolding Register_locks_def One_of.simps by (intro performs_once p_left performs_held)
  from p_hold [OF this, of TimeListMutex] have "performs (timer_run_locks [Register_locks]) ?as"
    unfolding timer_run_locks_def by (intro performs_once) simp
  moreover have "thread_step (started [?as]) ?s"
    using take_lock [of 0 "started [?as]" TimeListMutex "tl ?as"] by (simp add: started_def)
  moreover have "\<nexists>s'. thread_step ?s s'" by (auto elim!: thread_stepE)
  moreover have "\<not> all_done ?s" by (simp add: all_done_def)
  ultimately show ?thesis by blast
qed

end
