(* ===== verification/Device_Races.thy ===== *)
theory Device_Races
  imports Device
begin

text \<open>
  What the jobs of different workers do to the objects of \<open>CDevice\<close> when they run at the same time. The mutex of
  \<open>CDeviceManager\<close> protects the map, but \<open>GetDeviceClient\<close> returns a pointer that is used after the mutex is given
  back, and \<open>DeleteDeviceClient\<close> deletes the object. Here each access to the map under the mutex and each
  use of an object is a step of its own, and workers interleave; in the other theories a job is one step.

  A \<open>task\<close> is how far a running function of \<open>CDeviceManager\<close> or \<open>CDevice\<close> got, with the key of the address it
  works for and, while it has one, the pointer it found under this key. A worker is the list of the functions
  that are on its stack, innermost first, followed by the jobs it runs afterwards. Functions call upwards: the
  report object handles a message or the loss of a connection, and its handlers send to other connections, as
  when a login kicks the user's other connection out. Which sends these are is decided above this theory (see
  \<open>Login\<close>, \<open>Handlers\<close>); here they are part of the job, any list of calls of \<open>SendData\<close> for any connections.

  A worker is \<open>Crashed\<close> when it follows a pointer to a deleted object, and at \<open>Overread\<close> when \<open>Send\<close> reads behind a
  reply that is too short for its command. \<open>StopTcpServer\<close> is left out: nothing calls it.
\<close>

section \<open>Tasks\<close>

record device_objects =
  do_map :: "(bytes \<times> ptr) list"
  do_heap :: "ptr \<rightharpoonup> cdevice"
  do_top :: ptr

text \<open>A call of \<open>SendData\<close>: the key of the address, command, data and size.\<close>

type_synonym request = "bytes \<times> u32 \<times> bytes option \<times> int"

datatype task =
    SendStart bytes u32 "bytes option" int
  | SendFound bytes ptr u32 "bytes option" int
  | SendFrame bytes ptr
  | ReceiveStart bytes "(u32 \<times> request list) list"
  | ReceiveFound bytes ptr "(u32 \<times> request list) list"
  | ReceiveGate bytes ptr u32 "request list"
  | ReceiveInfo bytes ptr "request list"
  | CloseStart bytes "request list"
  | CloseUuid bytes ptr "request list"
  | CloseCount bytes ptr bytes "request list"
  | CloseLogined bytes ptr nat "request list"
  | CloseReport bytes ptr "request list"
  | CloseDelete bytes
  | ConnectStart bytes ptr
  | ConnectInsert bytes ptr
  | Overread bytes
  | Crashed bytes

text \<open>A use of the object that leaves it as it is.\<close>

definition uses :: "bytes \<Rightarrow> ptr \<Rightarrow> (cdevice \<Rightarrow> task list) \<Rightarrow> device_objects \<Rightarrow> task list" where
  "uses k p next h = (case do_heap h p of None \<Rightarrow> [Crashed k] | Some d \<Rightarrow> next d)"

text \<open>\<open>GetDeviceClient\<close>; without a device the functions return.\<close>

definition finds :: "bytes \<Rightarrow> (ptr \<Rightarrow> task) \<Rightarrow> device_objects \<Rightarrow> task list" where
  "finds k next h = (case om_find k (do_map h) of None \<Rightarrow> [] | Some p \<Rightarrow> [next p])"

text \<open>\<open>CountByUuid\<close>, a walk over all devices of the map, under the mutex.\<close>

definition counts :: "bytes \<Rightarrow> bytes \<Rightarrow> (nat \<Rightarrow> task) \<Rightarrow> device_objects \<Rightarrow> task list" where
  "counts k uuid next h =
     (if list_ex (\<lambda>(k', p). do_heap h p = None) (do_map h) then [Crashed k]
      else [next (length (filter (\<lambda>(k', p). map_option m_uuid (do_heap h p) = Some uuid) (do_map h)))])"

definition call_sends :: "request list \<Rightarrow> task list" where
  "call_sends reqs = map (\<lambda>(k, cmd, dat, len). SendStart k cmd dat len) reqs"

text \<open>What is left of the running function after its next step, with the functions it calls before.\<close>

fun task_step :: "task \<Rightarrow> device_objects \<Rightarrow> task list \<times> device_objects" where
  "task_step (SendStart k cmd dat len) h = (finds k (\<lambda>p. SendFound k p cmd dat len) h, h)"
| "task_step (SendFound k p cmd dat len) h =
     (case do_heap h p of
        None \<Rightarrow> ([Crashed k], h)
      | Some d \<Rightarrow>
          (case note_login cmd dat len d of
             None \<Rightarrow> ([Overread k], h)
           | Some (size1, d1) \<Rightarrow> ([SendFrame k p], h\<lparr>do_heap := (do_heap h)(p \<mapsto> note_kickout cmd d1)\<rparr>)))"
| "task_step (SendFrame k p) h = (uses k p (\<lambda>d. []) h, h)"
| "task_step (ReceiveStart k msgs) h = (finds k (\<lambda>p. ReceiveFound k p msgs) h, h)"
| "task_step (ReceiveFound k p msgs) h =
     (uses k p (\<lambda>d. case msgs of [] \<Rightarrow> []
        | (cmd, reqs) # rest \<Rightarrow> [ReceiveGate k p cmd reqs, ReceiveFound k p rest]) h, h)"
| "task_step (ReceiveGate k p cmd reqs) h =
     (uses k p (\<lambda>d. if \<not> login_free cmd \<and> \<not> m_isLogined d then []
        else if cmd = WIS_CMD_HEART_BEAT then [] else [ReceiveInfo k p reqs]) h, h)"
| "task_step (ReceiveInfo k p reqs) h = (uses k p (\<lambda>d. call_sends reqs) h, h)"
| "task_step (CloseStart k reqs) h = (finds k (\<lambda>p. CloseUuid k p reqs) h, h)"
| "task_step (CloseUuid k p reqs) h = (uses k p (\<lambda>d. [CloseCount k p (m_uuid d) reqs]) h, h)"
| "task_step (CloseCount k p uuid reqs) h = (counts k uuid (\<lambda>n. CloseLogined k p n reqs) h, h)"
| "task_step (CloseLogined k p n reqs) h =
     (uses k p (\<lambda>d. if m_isLogined d \<and> n < 2 then [CloseReport k p reqs] else [CloseDelete k]) h, h)"
| "task_step (CloseReport k p reqs) h = (uses k p (\<lambda>d. call_sends reqs @ [CloseDelete k]) h, h)"
| "task_step (CloseDelete k) h =
     ([], case om_find k (do_map h) of
        None \<Rightarrow> h
      | Some p \<Rightarrow> h\<lparr>do_map := om_erase k (do_map h), do_heap := (do_heap h)(p := None)\<rparr>)"
| "task_step (ConnectStart k addr) h =
     (case om_find k (do_map h) of
        Some p \<Rightarrow> ([ConnectInsert k p], h)
      | None \<Rightarrow> ([ConnectInsert k (do_top h)],
          h\<lparr>do_heap := (do_heap h)(do_top h \<mapsto> CDevice_new addr), do_top := do_top h + 1\<rparr>))"
| "task_step (ConnectInsert k p) h = ([], h\<lparr>do_map := om_set k p (do_map h)\<rparr>)"
| "task_step (Overread k) h = ([Overread k], h)"
| "task_step (Crashed k) h = ([Crashed k], h)"

fun worker_step :: "task list \<Rightarrow> device_objects \<Rightarrow> task list \<times> device_objects" where
  "worker_step [] h = ([], h)"
| "worker_step (t # st) h = (case task_step t h of (us, h') \<Rightarrow> (us @ st, h'))"

text \<open>A schedule is the list of the workers in the order in which they take their steps.\<close>

fun run_schedule :: "nat list \<Rightarrow> task list list \<Rightarrow> device_objects \<Rightarrow> task list list \<times> device_objects" where
  "run_schedule [] ws h = (ws, h)"
| "run_schedule (i # is) ws h =
     (if i < length ws then (case worker_step (ws ! i) h of (w, h') \<Rightarrow> run_schedule is (ws[i := w]) h')
      else run_schedule is ws h)"

fun is_crash :: "task \<Rightarrow> bool" where
  "is_crash (Crashed k) \<longleftrightarrow> True"
| "is_crash _ \<longleftrightarrow> False"

definition is_crashed :: "task list \<Rightarrow> bool" where
  "is_crashed w \<longleftrightarrow> list_ex is_crash w"

text \<open>The jobs a worker takes from its list, and sends of its own.\<close>

fun is_job :: "task \<Rightarrow> bool" where
  "is_job (SendStart k cmd dat len) \<longleftrightarrow> True"
| "is_job (ReceiveStart k msgs) \<longleftrightarrow> True"
| "is_job (CloseStart k reqs) \<longleftrightarrow> True"
| "is_job (ConnectStart k addr) \<longleftrightarrow> True"
| "is_job _ \<longleftrightarrow> False"

section \<open>The connections a worker uses\<close>

definition request_keys :: "request list \<Rightarrow> bytes set" where
  "request_keys reqs = set (map fst reqs)"

definition message_keys :: "(u32 \<times> request list) list \<Rightarrow> bytes set" where
  "message_keys msgs = set (map fst (concat (map snd msgs)))"

text \<open>The keys of all connections a task uses, its own one and those that its handlers send to.\<close>

fun task_keys :: "task \<Rightarrow> bytes set" where
  "task_keys (SendStart k cmd dat len) = {k}"
| "task_keys (SendFound k p cmd dat len) = {k}"
| "task_keys (SendFrame k p) = {k}"
| "task_keys (ReceiveStart k msgs) = insert k (message_keys msgs)"
| "task_keys (ReceiveFound k p msgs) = insert k (message_keys msgs)"
| "task_keys (ReceiveGate k p cmd reqs) = insert k (request_keys reqs)"
| "task_keys (ReceiveInfo k p reqs) = insert k (request_keys reqs)"
| "task_keys (CloseStart k reqs) = insert k (request_keys reqs)"
| "task_keys (CloseUuid k p reqs) = insert k (request_keys reqs)"
| "task_keys (CloseCount k p uuid reqs) = insert k (request_keys reqs)"
| "task_keys (CloseLogined k p n reqs) = insert k (request_keys reqs)"
| "task_keys (CloseReport k p reqs) = insert k (request_keys reqs)"
| "task_keys (CloseDelete k) = {k}"
| "task_keys (ConnectStart k addr) = {k}"
| "task_keys (ConnectInsert k p) = {k}"
| "task_keys (Overread k) = {k}"
| "task_keys (Crashed k) = {k}"

fun task_closes :: "task \<Rightarrow> bytes set" where
  "task_closes (CloseStart k reqs) = {k}"
| "task_closes (CloseUuid k p reqs) = {k}"
| "task_closes (CloseCount k p uuid reqs) = {k}"
| "task_closes (CloseLogined k p n reqs) = {k}"
| "task_closes (CloseReport k p reqs) = {k}"
| "task_closes (CloseDelete k) = {k}"
| "task_closes _ = {}"

definition worker_keys :: "task list \<Rightarrow> bytes set" where
  "worker_keys w = \<Union> (task_keys ` set w)"

definition worker_closes :: "task list \<Rightarrow> bytes set" where
  "worker_closes w = \<Union> (task_closes ` set w)"

text \<open>No connection that one worker closes is used by another one.\<close>

definition apart :: "task list list \<Rightarrow> bool" where
  "apart ws \<longleftrightarrow> (\<forall>i < length ws. \<forall>j < length ws. i \<noteq> j \<longrightarrow> worker_closes (ws ! i) \<inter> worker_keys (ws ! j) = {})"

section \<open>Invariants\<close>

text \<open>Every entry of the map leads to an object, each object stands under one key at most, and new objects are
  elsewhere.\<close>

definition objects_ok :: "device_objects \<Rightarrow> bool" where
  "objects_ok h \<longleftrightarrow> (\<forall>(k, p) \<in> set (do_map h). do_heap h p \<noteq> None) \<and>
     (\<forall>(k, p) \<in> set (do_map h). \<forall>(k', p') \<in> set (do_map h). p = p' \<longrightarrow> k = k') \<and> (\<forall>p \<ge> do_top h. do_heap h p = None)"

text \<open>The same with the keys of all objects, also of those that are not in the map yet.\<close>

definition owned :: "(ptr \<Rightarrow> bytes) \<Rightarrow> device_objects \<Rightarrow> bool" where
  "owned owner h \<longleftrightarrow> (\<forall>(k, p) \<in> set (do_map h). do_heap h p \<noteq> None \<and> owner p = k) \<and> (\<forall>p \<ge> do_top h. do_heap h p = None)"

lemma owned_exists: "objects_ok h \<Longrightarrow> \<exists>owner. owned owner h"
proof -
  assume h: "objects_ok h"
  have "owned (\<lambda>p. SOME k. (k, p) \<in> set (do_map h)) h"
    unfolding owned_def
  proof (intro conjI ballI)
    fix e assume e: "e \<in> set (do_map h)"
    obtain k p where kp: "e = (k, p)" by (cases e)
    have "(SOME k. (k, p) \<in> set (do_map h)) = k"
      using h e kp by (intro some_equality) (auto simp: objects_ok_def)
    then show "case e of (k, p) \<Rightarrow> do_heap h p \<noteq> None \<and> (SOME k. (k, p) \<in> set (do_map h)) = k"
      using h e kp by (auto simp: objects_ok_def)
  qed (use h in \<open>simp add: objects_ok_def\<close>)
  then show ?thesis by blast
qed

lemma owned_in: "owned owner h \<Longrightarrow> (k, p) \<in> set (do_map h) \<Longrightarrow> do_heap h p \<noteq> None \<and> owner p = k"
  by (auto simp: owned_def)

lemma ownedI:
  assumes "\<And>k p. (k, p) \<in> set (do_map h) \<Longrightarrow> do_heap h p \<noteq> None \<and> owner p = k" "\<And>p. do_top h \<le> p \<Longrightarrow> do_heap h p = None"
  shows "owned owner h"
  using assms by (auto simp: owned_def)

lemma owned_ok:
  assumes "owned owner h"
  shows "objects_ok h"
  unfolding objects_ok_def
proof (intro conjI)
  show "\<forall>p \<ge> do_top h. do_heap h p = None" using assms by (simp add: owned_def)
  show "\<forall>(k, p) \<in> set (do_map h). do_heap h p \<noteq> None" using owned_in [OF assms] by auto
  show "\<forall>(k, p) \<in> set (do_map h). \<forall>(k', p') \<in> set (do_map h). p = p' \<longrightarrow> k = k'"
  proof clarify
    fix k k' p assume "(k, p) \<in> set (do_map h)" "(k', p) \<in> set (do_map h)"
    then show "k = k'" using owned_in [OF assms] by metis
  qed
qed

lemma owned_find: "owned owner h \<Longrightarrow> om_find k (do_map h) = Some p \<Longrightarrow> do_heap h p \<noteq> None \<and> owner p = k"
  using owned_in om_find_in by metis

fun holds :: "task \<Rightarrow> (bytes \<times> ptr) option" where
  "holds (SendFound k p cmd dat len) = Some (k, p)"
| "holds (SendFrame k p) = Some (k, p)"
| "holds (ReceiveFound k p msgs) = Some (k, p)"
| "holds (ReceiveGate k p cmd reqs) = Some (k, p)"
| "holds (ReceiveInfo k p reqs) = Some (k, p)"
| "holds (CloseUuid k p reqs) = Some (k, p)"
| "holds (CloseCount k p uuid reqs) = Some (k, p)"
| "holds (CloseLogined k p n reqs) = Some (k, p)"
| "holds (CloseReport k p reqs) = Some (k, p)"
| "holds (ConnectInsert k p) = Some (k, p)"
| "holds _ = None"

definition held_ok :: "(ptr \<Rightarrow> bytes) \<Rightarrow> device_objects \<Rightarrow> task \<Rightarrow> bool" where
  "held_ok owner h t \<longleftrightarrow> (\<forall>k p. holds t = Some (k, p) \<longrightarrow> do_heap h p \<noteq> None \<and> owner p = k)"

lemma held_ok_none: "holds t = None \<Longrightarrow> held_ok owner h t"
  by (simp add: held_ok_def)

lemma holds_key: "holds t = Some (k, p) \<Longrightarrow> k \<in> task_keys t"
  by (cases t) auto

text \<open>Below a function that closes a connection there is none that has a pointer.\<close>

fun stack_ok :: "task list \<Rightarrow> bool" where
  "stack_ok [] \<longleftrightarrow> True"
| "stack_ok (t # st) \<longleftrightarrow> (task_closes t \<noteq> {} \<longrightarrow> list_all (\<lambda>u. holds u = None) st) \<and> stack_ok st"

lemma stack_ok_append: "list_all (\<lambda>u. task_closes u = {}) us \<Longrightarrow> stack_ok (us @ st) = stack_ok st"
  by (induction us) auto

lemma stack_ok_jobs: "list_all is_job w \<Longrightarrow> stack_ok w"
proof (induction w)
  case (Cons t w)
  have "holds u = None" if "is_job u" for u using that by (cases u) auto
  with Cons show ?case by (auto simp: list_all_iff)
qed simp

lemma call_sends_simps [simp]:
  "task_closes u = {}" "holds u = None" "\<not> is_crash u" if "u \<in> set (call_sends reqs)" for u reqs
  using that by (auto simp: call_sends_def)

lemma call_sends_keys: "u \<in> set (call_sends reqs) \<Longrightarrow> task_keys u \<subseteq> request_keys reqs"
  by (force simp: call_sends_def request_keys_def)

lemma keys_simps [simp]:
  "message_keys [] = {}" "message_keys ((cmd, reqs) # msgs) = request_keys reqs \<union> message_keys msgs"
  by (auto simp: message_keys_def request_keys_def)

lemmas step_cases = uses_def finds_def counts_def

text \<open>What one step does: which keys its worker still uses, which functions are on the stack, and what becomes of the
  objects.\<close>

lemma step_keys:
  assumes "task_step t h = (us, h')" "u \<in> set us"
  shows "task_keys u \<subseteq> task_keys t \<and> task_closes u \<subseteq> task_closes t"
  using assms
  by (cases t) (auto simp: step_cases dest: call_sends_keys [THEN subsetD] split: option.splits if_splits prod.splits list.splits)

lemma step_stack:
  assumes "task_step t h = (us, h')" "stack_ok (t # st)"
  shows "stack_ok (us @ st)"
proof (cases "task_closes t = {}")
  case True
  then have "list_all (\<lambda>u. task_closes u = {}) us" using step_keys [OF assms(1)] by (fastforce simp: list_all_iff)
  with assms(2) show ?thesis by (simp add: stack_ok_append)
next
  case False
  then have st: "list_all (\<lambda>u. holds u = None) st" "stack_ok st" using assms(2) by auto
  have "(\<exists>u. us = [u]) \<or> us = [] \<or> (\<exists>k reqs. us = call_sends reqs @ [CloseDelete k])"
    using assms(1) False by (cases t) (auto simp: step_cases split: option.splits if_splits)
  moreover have "stack_ok (call_sends reqs @ CloseDelete k # st)" for k reqs
    using st by (subst stack_ok_append) (auto simp: list_all_iff)
  ultimately show ?thesis using st by auto
qed

lemma entries_om_set: "set (om_set k v m) \<subseteq> insert (k, v) (set m)"
  by (induction k v m rule: om_set.induct) auto

lemma step_objects:
  assumes "task_step t h = (us, h')" "owned owner h" "held_ok owner h t" "\<not> is_crash t"
  shows "\<exists>owner'. owned owner' h' \<and> list_all (\<lambda>u. held_ok owner' h' u \<and> \<not> is_crash u) us \<and>
    (\<forall>p. do_heap h p \<noteq> None \<longrightarrow> owner' p = owner p \<and> (do_heap h' p \<noteq> None \<or> owner p \<in> task_closes t))"
proof -
  have same: ?thesis if "h' = h" "list_all (\<lambda>u. held_ok owner h u \<and> \<not> is_crash u) us"
    using that assms(2) by blast
  have found: "list_all (\<lambda>u. held_ok owner h u \<and> \<not> is_crash u) (finds k next h)"
    if "\<And>p. holds (next p) = Some (k, p) \<and> \<not> is_crash (next p)" for k "next"
    using owned_find [OF assms(2)] that by (auto simp: finds_def held_ok_def split: option.split)
  have used: "list_all (\<lambda>u. held_ok owner h u \<and> \<not> is_crash u) (uses k p next h)"
    if "do_heap h p \<noteq> None \<and> owner p = k"
      "\<And>d. list_all (\<lambda>u. (holds u = None \<or> holds u = Some (k, p)) \<and> \<not> is_crash u) (next d)" for k p "next"
    using that by (fastforce simp: uses_def held_ok_def list_all_iff split: option.split)
  have sends: "list_all (\<lambda>u. (holds u = None \<or> holds u = Some x) \<and> \<not> is_crash u) (call_sends reqs)" for x reqs
    by (simp add: list_all_iff)
  have us: "us = fst (task_step t h)" "h' = snd (task_step t h)" using assms(1) by simp_all
  have held: "do_heap h p \<noteq> None \<and> owner p = k" if "holds t = Some (k, p)" for k p
    using assms(3) that by (simp add: held_ok_def)
  show ?thesis
  proof (cases t)
    case (SendFound k p cmd dat len)
    then obtain d where d: "do_heap h p = Some d" "owner p = k" using assms(3) by (auto simp: held_ok_def)
    have "owned owner h'" using assms(1,2) SendFound d by (fastforce simp: owned_def split: option.splits)
    with assms(1) SendFound d show ?thesis
      by (intro exI [of _ owner]) (auto simp: held_ok_def split: option.splits)
  next
    case (CloseCount k p uuid reqs)
    have "\<not> list_ex (\<lambda>(k', p). do_heap h p = None) (do_map h)"
      using assms(2) by (auto simp: owned_def list_ex_iff)
    then show ?thesis
      using assms(1,3) CloseCount by (intro same) (auto simp: counts_def held_ok_def)
  next
    case (CloseDelete k)
    show ?thesis
    proof (cases "om_find k (do_map h)")
      case None
      with CloseDelete assms(1) show ?thesis by (intro same) auto
    next
      case (Some p)
      then have p: "owner p = k" using owned_find [OF assms(2)] by blast
      have "owned owner h'"
        using assms(1,2) CloseDelete Some p by (auto simp: owned_def om_erase_def)
      with assms(1) CloseDelete Some p show ?thesis by (intro exI [of _ owner]) auto
    qed
  next
    case (ConnectStart k addr)
    show ?thesis
    proof (cases "om_find k (do_map h)")
      case None
      let ?o = "owner(do_top h := k)"
      have new: "do_heap h (do_top h) = None" using assms(2) by (simp add: owned_def)
      have "(a, do_top h) \<notin> set (do_map h)" for a using assms(2) new by (auto simp: owned_def)
      then have "owned ?o h'" using assms(1,2) ConnectStart None new by (auto simp: owned_def)
      moreover have "owner p = ?o p" if "do_heap h p \<noteq> None" for p using that new by auto
      ultimately show ?thesis
        using assms(1) ConnectStart None new by (intro exI [of _ ?o]) (auto simp: held_ok_def)
    next
      case (Some p)
      with assms(1) ConnectStart owned_find [OF assms(2) Some] show ?thesis by (intro same) (auto simp: held_ok_def)
    qed
  next
    case (ConnectInsert k p)
    then have "do_heap h p \<noteq> None" "owner p = k" using assms(3) by (auto simp: held_ok_def)
    then have "owned owner h'"
      using assms(1) ConnectInsert owned_in [OF assms(2)] assms(2)
      by (intro ownedI) (auto simp: owned_def dest!: entries_om_set [THEN subsetD])
    with assms(1) ConnectInsert show ?thesis by (intro exI [of _ owner]) auto
  qed (rule same; use held assms(4) in \<open>simp add: us found used sends held_ok_none split: list.split prod.split\<close>)+
qed

section \<open>Schedules of workers that are apart\<close>

definition workers_ok :: "(ptr \<Rightarrow> bytes) \<Rightarrow> task list list \<Rightarrow> device_objects \<Rightarrow> bool" where
  "workers_ok owner ws h \<longleftrightarrow> owned owner h \<and> apart ws \<and>
     (\<forall>w \<in> set ws. stack_ok w \<and> (\<forall>t \<in> set w. held_ok owner h t \<and> \<not> is_crash t))"

lemma workers_step:
  assumes "workers_ok owner ws h" "i < length ws" "worker_step (ws ! i) h = (w, h')"
  shows "\<exists>owner'. workers_ok owner' (ws[i := w]) h'"
proof (cases "ws ! i")
  case Nil
  then have "w = [] \<and> h' = h" "ws[i := []] = ws" using assms(3) list_update_id [of ws i] by auto
  with assms(1) show ?thesis by auto
next
  case (Cons t st)
  then obtain us where us: "task_step t h = (us, h')" "w = us @ st"
    using assms(3) by (auto split: prod.splits)
  have mem: "ws ! i \<in> set ws" using assms(2) by simp
  have inv: "owned owner h" "apart ws" "stack_ok (t # st)" "held_ok owner h t" "\<not> is_crash t"
    "\<And>v u. v \<in> set ws \<Longrightarrow> u \<in> set v \<Longrightarrow> held_ok owner h u \<and> \<not> is_crash u"
    "\<And>v. v \<in> set ws \<Longrightarrow> stack_ok v"
    using assms(1) bspec [OF conjunct2 [OF conjunct2 [OF assms(1) [unfolded workers_ok_def]]] mem] Cons
    by (auto simp: workers_ok_def simp del: stack_ok.simps)
  obtain owner' where o: "owned owner' h'" "list_all (\<lambda>u. held_ok owner' h' u \<and> \<not> is_crash u) us"
    "\<And>p. do_heap h p \<noteq> None \<Longrightarrow> owner' p = owner p \<and> (do_heap h' p \<noteq> None \<or> owner p \<in> task_closes t)"
    using step_objects [OF us(1) inv(1,4,5)] by blast
  have keeps: "held_ok owner' h' u" if "held_ok owner h u" "\<And>k p. holds u = Some (k, p) \<Longrightarrow> k \<notin> task_closes t" for u
    using o(3) that unfolding held_ok_def by metis
  have mine: "held_ok owner' h' u" if "u \<in> set st" for u
  proof (rule keeps)
    show "held_ok owner h u" using inv(6) [OF mem] Cons that by simp
    show "k \<notin> task_closes t" if "holds u = Some (k, p)" for k p
      using inv(3) \<open>u \<in> set st\<close> that by (auto simp: list_all_iff)
  qed
  have theirs: "held_ok owner' h' u" if j: "j < length ws" "j \<noteq> i" "u \<in> set (ws ! j)" for j u
  proof (rule keeps)
    show "held_ok owner h u" using inv(6) [of "ws ! j" u] j by simp
    show "k \<notin> task_closes t" if "holds u = Some (k, p)" for k p
    proof -
      have "k \<in> worker_keys (ws ! j)" using holds_key [OF that] j(3) by (auto simp: worker_keys_def)
      moreover have "task_closes t \<subseteq> worker_closes (ws ! i)" by (auto simp: worker_closes_def Cons)
      ultimately show ?thesis using inv(2) assms(2) j by (auto simp: apart_def)
    qed
  qed
  have sub: "worker_keys w \<subseteq> worker_keys (ws ! i)" "worker_closes w \<subseteq> worker_closes (ws ! i)"
    using step_keys [OF us(1)] by (auto simp: worker_keys_def worker_closes_def us(2) Cons)
  have "worker_keys (ws[i := w] ! j) \<subseteq> worker_keys (ws ! j)" "worker_closes (ws[i := w] ! j) \<subseteq> worker_closes (ws ! j)" for j
    using sub assms(2) by (cases "j = i"; simp)+
  then have "worker_closes (ws[i := w] ! j) \<inter> worker_keys (ws[i := w] ! l) = {}"
    if "j < length ws" "l < length ws" "j \<noteq> l" for j l
    using inv(2) [unfolded apart_def] that by (metis Int_mono subset_empty)
  then have "apart (ws[i := w])" by (simp add: apart_def)
  moreover have "stack_ok (ws[i := w] ! j) \<and> (\<forall>u \<in> set (ws[i := w] ! j). held_ok owner' h' u \<and> \<not> is_crash u)"
    if j: "j < length ws" for j
  proof (cases "j = i")
    case True
    have "\<not> is_crash u" if "u \<in> set st" for u using inv(6) [OF mem, of u] Cons that by simp
    then show ?thesis
      using step_stack [OF us(1) inv(3)] o(2) mine True assms(2) by (auto simp: us(2) list_all_iff)
  next
    case False
    then show ?thesis using inv(6) [of "ws ! j"] inv(7) [of "ws ! j"] theirs [OF j False] j by simp
  qed
  then have "\<forall>v \<in> set (ws[i := w]). stack_ok v \<and> (\<forall>u \<in> set v. held_ok owner' h' u \<and> \<not> is_crash u)"
    by (metis in_set_conv_nth length_list_update)
  ultimately show ?thesis using o(1) unfolding workers_ok_def by blast
qed

lemma workers_run: "workers_ok owner ws h \<Longrightarrow>
  \<exists>owner'. workers_ok owner' (fst (run_schedule is ws h)) (snd (run_schedule is ws h))"
proof (induction "is" arbitrary: owner ws h)
  case (Cons i "is")
  show ?case
  proof (cases "i < length ws")
    case True
    obtain w h1 where st: "worker_step (ws ! i) h = (w, h1)" by (cases "worker_step (ws ! i) h")
    obtain owner' where "workers_ok owner' (ws[i := w]) h1" using workers_step [OF Cons.prems True st] by blast
    from Cons.IH [OF this] show ?thesis using True st by simp
  qed (use Cons in simp)
qed auto

section \<open>Properties\<close>

text \<open>C12: Only a close is dangerous. Workers run any jobs, receiving, closing and accepting connections and
  sending, where the handlers of messages and of lost connections send to any connections. As long as no
  connection that one worker closes is used by another worker, as the connection of a job or of a send, no schedule
  makes a worker use a deleted device, and the map leads to existing devices, each under one key. Workers may share
  connections that none of them closes.\<close>

theorem different_connections_are_safe:
  assumes "objects_ok h" "list_all (list_all is_job) ws"
    and "\<forall>i < length ws. \<forall>j < length ws. i \<noteq> j \<longrightarrow> worker_closes (ws ! i) \<inter> worker_keys (ws ! j) = {}"
  shows "list_all (\<lambda>w. \<not> is_crashed w) (fst (run_schedule is ws h)) \<and> objects_ok (snd (run_schedule is ws h))"
proof -
  obtain owner where owner: "owned owner h" using owned_exists [OF assms(1)] by blast
  have "holds t = None \<and> \<not> is_crash t" if "is_job t" for t using that by (cases t) auto
  then have "workers_ok owner ws h"
    using owner assms(2,3) stack_ok_jobs by (fastforce simp: workers_ok_def apart_def list_all_iff held_ok_def)
  then obtain owner' where "workers_ok owner' (fst (run_schedule is ws h)) (snd (run_schedule is ws h))"
    using workers_run by blast
  then show ?thesis using owned_ok by (auto simp: workers_ok_def is_crashed_def list_all_iff list_ex_iff)
qed

definition two_devices :: device_objects where
  "two_devices = \<lparr>do_map = [(''a-1'', 1), (''b-2'', 2)], do_heap = [1 \<mapsto> CDevice_new 11, 2 \<mapsto> CDevice_new 12], do_top = 3\<rparr>"

lemma two_devices_ok: "objects_ok two_devices"
  by (auto simp: objects_ok_def two_devices_def split: if_splits)

text \<open>Two logins that kick out the same connection, while another one is closed and a third one accepted.\<close>

definition kicking_login :: task where
  "kicking_login = ReceiveStart ''a-1'' [(WIS_CMD_USER_AUTO_LOGIN, [(''b-2'', WIS_CMD_SERVICE_KICKOUT_USER, None, 0)])]"

theorem different_connections_are_safe_witness:
  "let ws = [[kicking_login], [SendStart ''b-2'' WIS_CMD_SERVICE_KICKOUT_USER None 0], [ConnectStart ''c-3'' 13, CloseStart ''c-3'' []]]
   in list_all (\<lambda>w. \<not> is_crashed w) (fst (run_schedule [0, 1, 2, 1, 2, 0, 0, 0, 2, 0, 1, 0, 2, 2, 0, 2] ws two_devices)) \<and>
     objects_ok (snd (run_schedule [0, 1, 2, 1, 2, 0, 0, 0, 2, 0, 1, 0, 2, 2, 0, 2] ws two_devices))"
proof -
  let ?ws = "[[kicking_login], [SendStart ''b-2'' WIS_CMD_SERVICE_KICKOUT_USER None 0],
    [ConnectStart ''c-3'' 13, CloseStart ''c-3'' []]]"
  have "list_all (list_all is_job) ?ws" by (simp add: kicking_login_def)
  moreover have "\<forall>i < length ?ws. \<forall>j < length ?ws. i \<noteq> j \<longrightarrow> worker_closes (?ws ! i) \<inter> worker_keys (?ws ! j) = {}"
    by (simp add: less_Suc_eq worker_closes_def worker_keys_def kicking_login_def message_keys_def)
  ultimately show ?thesis
    unfolding Let_def by (rule different_connections_are_safe [OF two_devices_ok])
qed

text \<open>C10: A worker that sends to the connection of another worker, as when it kicks out a user or passes a message
  on, uses a deleted device when the other worker closes this connection in between: the pointer that
  \<open>GetDeviceClient\<close> returns is not protected. When one of the two runs after the other, nothing happens.\<close>

theorem send_to_closing_connection_crashes:
  assumes "objects_ok h" "om_find k (do_map h) = Some p" "\<And>d. note_login cmd dat len d \<noteq> None"
  shows "(\<exists>is. is_crashed (fst (run_schedule is [[SendStart k cmd dat len], [CloseStart k []]] h) ! 0)) \<and>
    (\<forall>is \<in> {replicate 3 0 @ replicate 6 1, replicate 6 1 @ replicate 3 0}.
       fst (run_schedule is [[SendStart k cmd dat len], [CloseStart k []]] h) = [[], []])"
proof -
  have walk: "counts k' u nx h = [nx (length (filter (\<lambda>(k', p). map_option m_uuid (do_heap h p) = Some u) (do_map h)))]"
      for k' u nx
    using assms(1) by (auto simp: counts_def objects_ok_def list_ex_iff)
  define n' where "n' u x = length (filter (\<lambda>(k', q). map_option m_uuid (if q = p then Some x else do_heap h q) = Some u) (do_map h))"
    for u x
  have walk': "counts k' u nx (h\<lparr>do_heap := (do_heap h)(p \<mapsto> x)\<rparr>) = [nx (n' u x)]" for k' u nx x
    using assms(1) by (auto simp: counts_def objects_ok_def list_ex_iff n'_def)
  have "do_heap h p \<noteq> None" using om_find_in [OF assms(2)] assms(1) by (auto simp: objects_ok_def)
  then obtain d where d: "do_heap h p = Some d" by blast
  obtain n d1 where reply: "note_login cmd dat len d = Some (n, d1)" using assms(3) [of d] by auto
  have find: "om_find k (om_erase k m) = None" for m :: "(bytes \<times> ptr) list" by (simp add: om_lookup)
  note run = assms(2) d find walk walk' uses_def finds_def reply call_sends_def numeral_eq_Suc
  have "is_crashed (fst (run_schedule [0, 1, 1, 1, 1, 1, 1, 0] [[SendStart k cmd dat len], [CloseStart k []]] h) ! 0)"
    by (cases "m_isLogined d") (simp_all add: run is_crashed_def)
  moreover have "fst (run_schedule (replicate 3 0 @ replicate 6 1) [[SendStart k cmd dat len], [CloseStart k []]] h) = [[], []]"
    by (cases "m_isLogined (note_kickout cmd d1)") (simp_all add: run)
  moreover have "fst (run_schedule (replicate 6 1 @ replicate 3 0) [[SendStart k cmd dat len], [CloseStart k []]] h) = [[], []]"
    by (cases "m_isLogined d") (simp_all add: run)
  ultimately show ?thesis by blast
qed

theorem send_to_closing_connection_crashes_witness:
  "\<exists>is. is_crashed (fst (run_schedule is
     [[SendStart ''a-1'' WIS_CMD_SERVICE_KICKOUT_USER None 0], [CloseStart ''a-1'' []]] two_devices) ! 0)"
proof -
  have "note_login WIS_CMD_SERVICE_KICKOUT_USER None 0 d \<noteq> None" for d
    by (simp add: note_login_def wis_cmd_defs)
  moreover have "om_find ''a-1'' (do_map two_devices) = Some 1" by (simp add: two_devices_def)
  ultimately show ?thesis using send_to_closing_connection_crashes [OF two_devices_ok] by blast
qed

text \<open>So a login on one connection crashes when it kicks out another one that is closed meanwhile: the two jobs are on
  different connections, but not apart.\<close>

lemma login_crashes_on_closing_connection:
  "is_crashed (fst (run_schedule [0, 0, 0, 0, 0, 1, 1, 1, 1, 1, 0] [[kicking_login], [CloseStart ''b-2'' []]] two_devices) ! 0)"
  by (simp add: kicking_login_def two_devices_def uses_def finds_def counts_def call_sends_def login_free_def wis_cmd_defs
      is_crashed_def CDevice_new_def om_erase_def)

end
