(* ===== verification/Spec2Isabelle.thy ===== *)
theory Spec2Isabelle
  imports Server Des3 Xml_Errors Xml_Handle Xml_Values Tiny_String Server_Locks Device_Races
begin

text \<open>
  WisHome is the server of a home automation service. Devices and users keep TCP connections to it and
  send frames (checksum, command, length, data). It logs them in against a MySQL database, tells users
  about their devices, carries messages from devices to users and commands from users to devices, and
  pushes notifications to phones. This development models that server, from the bytes that libevent
  hands it to the statements it sends to the database, and proves what its parts and the whole of
  them do.

  \<^bold>\<open>The program and its theories.\<close> Sources are under src/.

  \<^item> \<open>Prelude\<close>: bytes, pointers, \<open>std::map\<close> as a sorted association list, C string functions, the
    collections of simplification rules. \<open>Wis\<close>: the vocabulary of the protocol (include/wis.h,
    include/transfer_structs.h): commands, flags, layouts and string fields of the request structs.
  \<^item> \<open>Smart_Buffer\<close>: \<open>CSmartBuffer\<close> (in the copy of tinyXML), the growing buffer of a connection.
    \<open>Wire\<close>: \<open>CProtocolParser\<close> (parseProtocolModule), frames and their checksum, and an abstract parser
    \<open>split_frames\<close> on whole byte streams that the code's loop refines.
  \<^item> \<open>Net_Socket\<close>: libEventMoudle, i.e. the worker pool, \<open>ServrSocket\<close> with the callbacks of
    libevent and the heartbeat timer, \<open>CommonTCPManager\<close>, addresses. \<open>Tcp_Link\<close>: tcpServiceModule, the
    address map and the services that turn jobs into messages.
  \<^item> \<open>Device\<close>: deviceModule, \<open>CDevice\<close> and \<open>CDeviceManager\<close>, the gate for connections that are
    not logged in, the report functions of \<open>CUniteDataModule\<close>. \<open>Device_Races\<close>: the same operations with their
    accesses to the map and to the objects as separate steps of call stacks that workers interleave, with the sends
    that the handlers of a message or a lost connection make to other connections.
  \<^item> \<open>Database\<close>: libSql, one MySQL handle (\<open>CNVDataAccess\<close>) and the connection pool
    (\<open>CDbNVManager\<close>). \<open>Dao\<close>: the data access objects of business and APNS. \<open>Badge_Timer\<close>: badge cache
    and timer thread. \<open>Codecs\<close>: Base64 and hexadecimal text. \<open>Des3\<close>: the DES functions. \<open>Runtime\<close>: log manager,
    event loop wrapper, job names, \<open>CThread\<close>.
  \<^item> \<open>Outbound\<close>: JPush, its curl handle, mail. \<open>App\<close>: the record of the whole state and of the
    services around it. \<open>Login\<close>: \<open>WisLoginHandler\<close>. \<open>Handlers\<close>: registration, passwords, binding,
    messages to users, private commands, heartbeats.
  \<^item> tinyXML, the XML library in the repository, which reads the configuration. \<open>Xml_Text\<close>: characters,
    entities, text, positions. \<open>Xml_Doc\<close>: the tree, attributes, errors, copying, the ways of printing.
    \<open>Xml_Parse\<close>: the parser and \<open>LoadFile\<close>. \<open>Xml_Total\<close>: the loader comes to an end. \<open>Xml_Canonical\<close>,
    \<open>Xml_Roundtrip\<close>: what is printed is read back. \<open>Xml_Errors\<close>: texts on which the loader goes wrong.
    \<open>Xml_Values\<close>: numbers in attributes, printing into a file, clearing. Under the trees: \<open>Xml_Links\<close>, the pointers between nodes with all operations that link, copy, replace and delete them,
    which refine the lists of children; \<open>Xml_Handle\<close>, \<open>TiXmlHandle\<close> and the steps by name on these links; \<open>Tiny_String\<close>, the string class, which refines lists of bytes.
  \<^item> \<open>Unite_Module\<close>: \<open>CUniteDataModule\<close>, the start of the modules from the configuration file and the copies
    of the configuration.
  \<^item> \<open>Server\<close>: MAIN, i.e. the report object that dispatches commands to the handlers, \<open>main\<close>, and the
    transition system \<open>server_step\<close>: libevent accepts, reads, reports an event or
    fires the timer of a connection, which queues jobs; a worker takes its next job and runs it.
  \<^item> \<open>Locks\<close>: threads that take mutexes as a skeleton of their code says, and why an order of the mutexes excludes
    deadlocks. \<open>Server_Locks\<close>: the skeleton of every function of the server that locks, and the order they follow.

  \<^bold>\<open>State.\<close> Each layer's record extends the one below: \<open>tcp_base\<close> (network and links), \<open>dev_base\<close>
  (devices), \<open>app\<close> (database, mail settings, tables of logged-in users and devices), so an operation of
  a lower layer runs unchanged on the state of the whole. Heap objects that the code shares by pointer are
  entries of a table under their pointer (services, access objects, timers) or values in the map that owns
  them (devices). A lower layer calls upwards through a parameter (\<open>MessageCallback\<close> for links,
  the report object for devices); the locales \<open>link_client\<close> and \<open>interface_client\<close> say what
  it relies on, and \<open>Server\<close> discharges them for the real report object.

  \<^bold>\<open>Errors.\<close> An outcome \<open>None\<close> means that the C++ program leaves defined behaviour there: an access
  outside a buffer, a failed allocation, a null pointer, an \<open>assert\<close>. The error results of the code itself
  (false, -1) are ordinary values, on every branch of the source.

  \<^bold>\<open>Parameters.\<close> What is not in the repository is an argument: the MySQL client, libcurl, jsoncpp,
  libquickmail, the DES cipher, the clock, the type \<open>double\<close>, the success of a write to a socket, the file system, the values
  of uninitialised memory. The configuration is what \<open>main\<close> loads from the bytes of config.xml; the handlers
  get it as an argument. The laws assumed of them appear as hypotheses of the theorems that use them.

  \<^bold>\<open>What is shown.\<close> Frames: parsing inverts building, delivery does not depend on how TCP cuts the stream,
  nothing but frames with right checksums is delivered, and what a wrong checksum or an absurd length
  does. Connections: the maps and counters stay consistent, jobs of a connection run in order, a silent
  connection is closed at the fifth tick, closing twice is harmless. Devices: strangers are ignored,
  each reply is one frame, the reply to a login is what logs a connection in. Database: the pool lends
  exclusively, every operation but one gives its connection back, and which statements fit into their buffers: all of
  them with arguments of the sizes of the wire format, except the insert of \<open>WisUserDao::regist\<close>, which the handlers do
  not use, and push and log statements with a long text. Application:
  one session per user, a reply to every login, kick-outs, registration, messages. The whole server: every reachable state is
  consistent, and what an accepted connection, a login frame and a lost connection do, from the job to the
  tables. Threads: whatever the interleaving, the server's threads never deadlock, and no worker uses a deleted device
  as long as no connection that one of them closes is used by another one; a frame sent to a connection while it
  closes, as by a login that kicks it out, can use a deleted device. XML: documents in canonical form survive saving and loading, which makes the copies of the
  configuration equal to what was loaded; loading any bytes ends, apart from two ways to fail. Where the code does not do what it means to, a theorem says what it does (a registration
  that leaks a connection, a login that notifies nobody, an over-read, a relabelled device).

  \<^bold>\<open>Loops.\<close> Every loop is a structural recursion or has a termination proof (the parser by the buffer's
  size). The loop of \<open>handleKickoutUser\<close> depends on its own side effect, so it is a \<open>partial_function\<close>
  and its termination a theorem; so is the loop of \<open>Stamp\<close>, which can hang. The parser of XML elements takes the
  length of the text plus two as a bound on the depth of its calls; \<open>Xml_Total\<close> proves that the bound is
  never met and that a larger one changes nothing.

  \<^bold>\<open>Idealisations.\<close> A job or callback is one step; the code's workers run in parallel and each table has a
  mutex. Interleavings inside a job are covered for the mutexes (\<open>Server_Locks\<close>, which keeps of a function only
  its locking) and for the device objects (\<open>Device_Races\<close>), not for the other tables. Memory leaks are not covered. The handlers are
  modelled without their log calls (in a DEBUG build those can overflow the array of the log macros, see
  \<open>Runtime\<close>). Memory behind a message, up to the end of
  the buffer's allocation, is passed to the handlers, as the code passes a pointer.

  \<^bold>\<open>Not modelled.\<close> Of tinyXML what \<open>TIXML_USE_STL\<close> would compile in, i.e. the stream functions and the overloads for
  \<open>std::string\<close> (the sources undefine it), the user data of a node and its position, which nothing reads; the headers of jsoncpp, whose
  implementation is a library that is not in the repository; the endless loop of the timer thread around one round of it;
  taskQueue.h (does not compile, unused).
\<close>

end
